(* ===== verification/TW_Prelude.thy ===== *)
theory TW_Prelude
  imports Main "HOL-Library.Word"
begin

text \<open>
  Shared vocabulary of the TinyWebserver development: the ways a C or C++ operation can go
  wrong (as values), 64-bit size arithmetic with its wrap-around written out, the memory
  operations of \<^verbatim>\<open>std::vector<char>\<close> and \<^verbatim>\<open>std::copy\<close>, C strings,
  \<^verbatim>\<open>std::to_string\<close>, and \<^verbatim>\<open>std::search\<close> for the line end.
  The generic lemmas about them are declared into the collections \<open>size_simps\<close> and
  \<open>mem_simps\<close>.
\<close>

named_theorems size_simps \<open>64-bit size arithmetic inside its range\<close>
named_theorems mem_simps \<open>reads and writes of byte arrays inside their bounds\<close>

section \<open>Failures as values\<close>

text \<open>
  An \<^verbatim>\<open>assert\<close> that fails, a container that throws \<^verbatim>\<open>std::length_error\<close>, an access
  outside an array (undefined in C++), other exceptions, a call of an empty \<^verbatim>\<open>std::function\<close>, and any
  other undefined behaviour.
\<close>

datatype cxx_error = AssertFailed | LengthError | OutOfBounds | InvalidArgument | LogicError | BadFunctionCall | Undefined

type_synonym 'a res = "cxx_error + 'a"

fun res_bind :: "'a res \<Rightarrow> ('a \<Rightarrow> 'b res) \<Rightarrow> 'b res" where
  "res_bind (Inl e) f = Inl e"
| "res_bind (Inr x) f = f x"

definition cxx_assert :: "bool \<Rightarrow> unit res" where
  "cxx_assert P = (if P then Inr () else Inl AssertFailed)"

lemma res_bind_Inr_iff:
  "res_bind r f = Inr y \<longleftrightarrow> (\<exists>x. r = Inr x \<and> f x = Inr y)"
  by (cases r) auto

lemma res_bind_Inr [simp]: "res_bind r Inr = r"
  by (cases r) auto

lemma res_bind_assoc: "res_bind (res_bind r f) g = res_bind r (\<lambda>x. res_bind (f x) g)"
  by (cases r) auto

text \<open>Loops that go through \<open>res_bind\<close> are defined with this congruence.\<close>

lemma res_bind_cong [fundef_cong]:
  "r = r' \<Longrightarrow> (\<And>x. r' = Inr x \<Longrightarrow> f x = g x) \<Longrightarrow> res_bind r f = res_bind r' g"
  by (cases r') auto

lemma cxx_assert_True [simp]: "P \<Longrightarrow> cxx_assert P = Inr ()"
  by (simp add: cxx_assert_def)

lemma cxx_assert_Inr_iff [simp]: "cxx_assert P = Inr u \<longleftrightarrow> P"
  by (simp add: cxx_assert_def)

section \<open>size\_t arithmetic\<close>

definition size_add :: "nat \<Rightarrow> nat \<Rightarrow> nat" where
  "size_add a b = (a + b) mod 2 ^ 64"

definition size_sub :: "nat \<Rightarrow> nat \<Rightarrow> nat" where
  "size_sub a b = (a + (2 ^ 64 - b mod 2 ^ 64)) mod 2 ^ 64"

lemma size_add_small [size_simps]: "a + b < 2 ^ 64 \<Longrightarrow> size_add a b = a + b"
  by (simp add: size_add_def)

lemma size_sub_le [size_simps]:
  assumes "b \<le> a" and "a < 2 ^ 64"
  shows "size_sub a b = a - b"
proof -
  from assms have "a + (2 ^ 64 - b mod 2 ^ 64) = (a - b) + 2 ^ 64" by simp
  then have "size_sub a b = ((a - b) + 2 ^ 64) mod 2 ^ 64"
    by (simp only: size_sub_def)
  also have "\<dots> = (a - b) mod 2 ^ 64" by (rule mod_add_self2)
  also have "\<dots> = a - b" using assms by simp
  finally show ?thesis .
qed

lemma size_sub_wraps:
  assumes "a < b" and "b < 2 ^ 64"
  shows "size_sub a b = 2 ^ 64 - (b - a)"
  using assms by (simp add: size_sub_def)

lemma size_sub_mod: "int (size_sub a b) = (int a - int b) mod 2 ^ 64"
proof -
  have "b mod 2 ^ 64 \<le> 2 ^ 64" by simp
  then have "int (a + (2 ^ 64 - b mod 2 ^ 64)) = int a - int b mod 2 ^ 64 + 2 ^ 64"
    by (simp add: of_nat_diff zmod_int)
  then have "int (size_sub a b) = (int a - int b mod 2 ^ 64 + 2 ^ 64) mod 2 ^ 64"
    by (simp only: size_sub_def of_nat_mod of_nat_power of_nat_numeral)
  also have "\<dots> = (int a - int b mod 2 ^ 64) mod 2 ^ 64" by (rule mod_add_self2)
  also have "\<dots> = (int a - int b) mod 2 ^ 64" by (rule mod_diff_right_eq)
  finally show ?thesis .
qed

lemma size_add_mod: "int (size_add a b) = (int a + int b) mod 2 ^ 64"
  by (simp add: size_add_def zmod_int)

text \<open>Advancing the lower end shortens the distance, whatever wraps on the way.\<close>

lemma size_sub_add:
  assumes "n \<le> size_sub a b"
  shows "size_sub a (size_add b n) = size_sub a b - n"
proof -
  have lt: "int (size_sub a b) - int n < 2 ^ 64" "0 \<le> int (size_sub a b) - int n"
    using assms by (simp_all add: size_sub_def)
  have "int (size_sub a (size_add b n)) = (int a - (int b + int n)) mod 2 ^ 64"
    unfolding size_sub_mod size_add_mod by (rule mod_diff_right_eq)
  also have "\<dots> = ((int a - int b) mod 2 ^ 64 - int n) mod 2 ^ 64"
    unfolding mod_diff_left_eq by (simp add: diff_diff_eq)
  also have "\<dots> = (int (size_sub a b) - int n) mod 2 ^ 64" by (simp only: size_sub_mod)
  also have "\<dots> = int (size_sub a b) - int n" using lt by (rule mod_pos_pos_trivial[rotated])
  finally show ?thesis using assms by simp
qed

text \<open>
  Conversion of a \<^verbatim>\<open>size_t\<close> to a 32-bit \<^verbatim>\<open>int\<close>: the low 32 bits, read as
  two's complement.
\<close>

definition size_to_int :: "nat \<Rightarrow> int" where
  "size_to_int n = (let m = n mod 2 ^ 32 in if m < 2 ^ 31 then int m else int m - 2 ^ 32)"

lemma size_to_int_small [size_simps]: "n < 2 ^ 31 \<Longrightarrow> size_to_int n = int n"
  by (simp add: size_to_int_def Let_def)

text \<open>\<^verbatim>\<open>char\<close> is signed on the target; integer division truncates towards zero.\<close>

definition char_to_int :: "char \<Rightarrow> int" where
  "char_to_int c = (let v = of_char c in if v < 128 then v else v - 256)"

definition int_to_char :: "int \<Rightarrow> char" where
  "int_to_char i = char_of (i mod 256)"

definition c_div :: "int \<Rightarrow> int \<Rightarrow> int" where
  "c_div a b = sgn a * sgn b * (\<bar>a\<bar> div \<bar>b\<bar>)"

definition c_mod :: "int \<Rightarrow> int \<Rightarrow> int" where
  "c_mod a b = a - c_div a b * b"

section \<open>Byte arrays\<close>

text \<open>The largest size a \<^verbatim>\<open>std::vector<char>\<close> may have (\<^verbatim>\<open>PTRDIFF_MAX\<close>).\<close>

definition vec_max :: nat where
  "vec_max = 2 ^ 63 - 1"

lemma vec_max_lt: "vec_max < 2 ^ 64" and vec_max_pos: "0 < vec_max"
  by (simp_all add: vec_max_def)

definition vec_resize :: "nat \<Rightarrow> 'a \<Rightarrow> 'a list \<Rightarrow> 'a list res" where
  "vec_resize n z xs =
     (if n \<le> vec_max then Inr (take n xs @ replicate (n - length xs) z) else Inl LengthError)"

definition mem_read :: "nat \<Rightarrow> nat \<Rightarrow> 'a list \<Rightarrow> 'a list res" where
  "mem_read pos n mem = (if pos + n \<le> length mem then Inr (take n (drop pos mem)) else Inl OutOfBounds)"

definition mem_write :: "nat \<Rightarrow> 'a list \<Rightarrow> 'a list \<Rightarrow> 'a list res" where
  "mem_write pos xs mem =
     (if pos + length xs \<le> length mem
      then Inr (take pos mem @ xs @ drop (pos + length xs) mem) else Inl OutOfBounds)"

text \<open>
  \<^verbatim>\<open>std::copy(mem + from, mem + till, mem + dst)\<close> inside one array, for a destination at
  or before the source (the only use here), where a forward copy is well defined.
\<close>

definition mem_copy :: "nat \<Rightarrow> nat \<Rightarrow> nat \<Rightarrow> 'a list \<Rightarrow> 'a list res" where
  "mem_copy from till dst mem =
     (if from \<le> till \<and> dst \<le> from
      then res_bind (mem_read from (till - from) mem) (\<lambda>xs. mem_write dst xs mem)
      else Inl OutOfBounds)"

lemma vec_resize_ok [mem_simps]:
  "n \<le> vec_max \<Longrightarrow> vec_resize n z xs = Inr (take n xs @ replicate (n - length xs) z)"
  by (simp add: vec_resize_def)

lemma mem_read_ok [mem_simps]: "pos + n \<le> length mem \<Longrightarrow> mem_read pos n mem = Inr (take n (drop pos mem))"
  by (simp add: mem_read_def)

lemma mem_write_ok [mem_simps]:
  "pos + length xs \<le> length mem \<Longrightarrow>
   mem_write pos xs mem = Inr (take pos mem @ xs @ drop (pos + length xs) mem)"
  by (simp add: mem_write_def)

lemma mem_copy_ok [mem_simps]:
  assumes "from \<le> till" "till \<le> length mem" "dst \<le> from"
  shows "mem_copy from till dst mem =
    Inr (take dst mem @ take (till - from) (drop from mem) @ drop (dst + (till - from)) mem)"
proof -
  have len: "length (take (till - from) (drop from mem)) = till - from" using assms by simp
  have "mem_write dst (take (till - from) (drop from mem)) mem =
    Inr (take dst mem @ take (till - from) (drop from mem) @ drop (dst + (till - from)) mem)"
    unfolding mem_write_def len using assms by simp
  with assms show ?thesis by (simp add: mem_copy_def mem_read_def)
qed

lemma mem_length:
  "mem_write pos xs mem = Inr v \<Longrightarrow> length v = length mem"
  "mem_copy from till dst mem = Inr v \<Longrightarrow> length v = length mem"
  by (auto simp: mem_copy_def mem_write_def mem_read_def res_bind_Inr_iff split: if_splits)

text \<open>\<open>slice i j xs\<close> is the half-open range \<open>xs[i..j)\<close>.\<close>

definition slice :: "nat \<Rightarrow> nat \<Rightarrow> 'a list \<Rightarrow> 'a list" where
  "slice i j xs = take (j - i) (drop i xs)"

lemma length_slice [simp]: "i \<le> j \<Longrightarrow> j \<le> length xs \<Longrightarrow> length (slice i j xs) = j - i"
  by (simp add: slice_def)

lemma slice_empty [simp]: "j \<le> i \<Longrightarrow> slice i j xs = []"
  by (simp add: slice_def)

lemma slice_append:
  assumes "i \<le> j" "j \<le> k" shows "slice i j xs @ slice j k xs = slice i k xs"
proof -
  have "take (k - i) (drop i xs) = take ((j - i) + (k - j)) (drop i xs)"
    using assms by simp
  also have "\<dots> = take (j - i) (drop i xs) @ take (k - j) (drop (j - i) (drop i xs))"
    by (rule take_add)
  also have "drop (j - i) (drop i xs) = drop j xs" using assms by simp
  finally show ?thesis by (simp add: slice_def)
qed

lemma take_slice: "take n (slice i j xs) = slice i (min j (i + n)) xs"
proof (cases "i \<le> j")
  case True
  then show ?thesis by (auto simp: slice_def min_def intro: arg_cong2[where f = take])
next
  case False
  then show ?thesis by simp
qed

lemma drop_slice: "drop n (slice i j xs) = slice (i + n) j xs"
  by (simp add: slice_def drop_take add.commute)

lemma slice_write:
  assumes "pos + length xs \<le> length mem"
  shows "slice pos (pos + length xs) (take pos mem @ xs @ drop (pos + length xs) mem) = xs"
  using assms by (simp add: slice_def)

lemma slice_before:
  assumes "j \<le> pos" "pos \<le> length mem"
  shows "slice i j (take pos mem @ ys) = slice i j mem"
proof (cases "i \<le> j")
  case True
  with assms show ?thesis by (simp add: slice_def take_drop min_def)
next
  case False
  then show ?thesis by simp
qed

section \<open>Strings\<close>

text \<open>A C string ends at its first zero byte; \<^verbatim>\<open>snprintf\<close> keeps at most \<open>n - 1\<close> bytes.\<close>

definition c_str :: "string \<Rightarrow> string" where
  "c_str s = takeWhile (\<lambda>c. c \<noteq> CHR 0x00) s"

definition snprintf :: "nat \<Rightarrow> string \<Rightarrow> string" where
  "snprintf n s = take (n - 1) s"

text \<open>\<^verbatim>\<open>std::to_string\<close> on an integer: decimal digits, with a sign when negative.\<close>

definition digit_char :: "nat \<Rightarrow> char" where
  "digit_char d = char_of (48 + d)"

fun show_nat :: "nat \<Rightarrow> string" where
  "show_nat n = (if n < 10 then [digit_char n] else show_nat (n div 10) @ [digit_char (n mod 10)])"

declare show_nat.simps [simp del]

definition to_string :: "int \<Rightarrow> string" where
  "to_string i = (if i < 0 then CHR ''-'' # show_nat (nat (- i)) else show_nat (nat i))"

definition digit_val :: "char \<Rightarrow> nat" where
  "digit_val c = of_char c - 48"

definition read_nat :: "string \<Rightarrow> nat" where
  "read_nat s = foldl (\<lambda>n c. 10 * n + digit_val c) 0 s"

lemma digit_val_char [simp]: "d < 10 \<Longrightarrow> digit_val (digit_char d) = d"
  by (simp add: digit_val_def digit_char_def)

lemma read_show_nat: "read_nat (show_nat n) = n"
proof (induction n rule: show_nat.induct)
  case (1 n)
  show ?case
  proof (cases "n < 10")
    case True
    then show ?thesis by (simp add: show_nat.simps[of n] read_nat_def)
  next
    case False
    with "1" have "read_nat (show_nat (n div 10)) = n div 10" by simp
    with False show ?thesis by (simp add: show_nat.simps[of n] read_nat_def)
  qed
qed

text \<open>\<^verbatim>\<open>std::search\<close> for the two-byte line end: the offset of its first occurrence.\<close>

fun find_crlf :: "string \<Rightarrow> nat option" where
  "find_crlf (a # b # s) =
     (if a = CHR 0x0D \<and> b = CHR 0x0A then Some 0 else map_option Suc (find_crlf (b # s)))"
| "find_crlf _ = None"

abbreviation CRLF :: string where
  "CRLF \<equiv> [CHR 0x0D, CHR 0x0A]"

lemma find_crlf_bound: "find_crlf s = Some k \<Longrightarrow> k + 2 \<le> length s"
  by (induction s arbitrary: k rule: find_crlf.induct) (auto split: if_splits)

lemma find_crlf_split: "find_crlf s = Some k \<Longrightarrow> s = take k s @ CRLF @ drop (k + 2) s"
  by (induction s arbitrary: k rule: find_crlf.induct) (auto split: if_splits)

lemma find_crlf_append:
  assumes "CHR 0x0D \<notin> set l"
  shows "find_crlf (l @ CRLF @ s) = Some (length l)"
  using assms
proof (induction l)
  case Nil
  then show ?case by simp
next
  case (Cons c l)
  obtain x xs where "l @ CRLF @ s = x # xs" by (cases "l @ CRLF @ s") auto
  with Cons show ?case by auto
qed

lemma find_crlf_None: "CHR 0x0D \<notin> set l \<Longrightarrow> find_crlf l = None"
  by (induction l rule: find_crlf.induct) auto

end
