(* ===== verification/HP_Types.thy ===== *)
theory HP_Types
  imports TW_Prelude
begin

text \<open>
  The bundled HTTP parser (\<^verbatim>\<open>src/http/http-parser/http_parser.c\<close> and its header): enumerations,
  tables, character classes, the parser and settings structures, and the small query functions.
  The strict mode (\<^verbatim>\<open>HTTP_PARSER_STRICT\<close> is 1 by default) is the one modelled.

  Bit fields and fixed-width members are words of their width. A callback takes the parser (and the
  bytes it is shown) and returns its result with the parser as it left it; the member \<^verbatim>\<open>data\<close> has any type.
\<close>

section \<open>Enumerations\<close>

datatype (plugins only: code) state =
  s_dead | s_start_req_or_res | s_res_or_resp_H | s_start_res | s_res_H | s_res_HT | s_res_HTT
   | s_res_HTTP | s_res_http_major | s_res_http_dot | s_res_http_minor | s_res_http_end
   | s_res_first_status_code | s_res_status_code | s_res_status_start | s_res_status
   | s_res_line_almost_done | s_start_req | s_req_method | s_req_spaces_before_url | s_req_schema
   | s_req_schema_slash | s_req_schema_slash_slash | s_req_server_start | s_req_server
   | s_req_server_with_at | s_req_path | s_req_query_string_start | s_req_query_string
   | s_req_fragment_start | s_req_fragment | s_req_http_start | s_req_http_H | s_req_http_HT
   | s_req_http_HTT | s_req_http_HTTP | s_req_http_I | s_req_http_IC | s_req_http_major
   | s_req_http_dot | s_req_http_minor | s_req_http_end | s_req_line_almost_done
   | s_header_field_start | s_header_field | s_header_value_discard_ws
   | s_header_value_discard_ws_almost_done | s_header_value_discard_lws | s_header_value_start
   | s_header_value | s_header_value_lws | s_header_almost_done | s_chunk_size_start | s_chunk_size
   | s_chunk_parameters | s_chunk_size_almost_done | s_headers_almost_done | s_headers_done
   | s_chunk_data | s_chunk_data_almost_done | s_chunk_data_done | s_body_identity
   | s_body_identity_eof | s_message_done

datatype (plugins only: code) header_states =
  h_general | h_C | h_CO | h_CON | h_matching_connection | h_matching_proxy_connection
   | h_matching_content_length | h_matching_transfer_encoding | h_matching_upgrade | h_connection
   | h_content_length | h_content_length_num | h_content_length_ws | h_transfer_encoding | h_upgrade
   | h_matching_transfer_encoding_chunked | h_matching_connection_token_start
   | h_matching_connection_keep_alive | h_matching_connection_close | h_matching_connection_upgrade
   | h_matching_connection_token | h_transfer_encoding_chunked | h_connection_keep_alive
   | h_connection_close | h_connection_upgrade

datatype http_host_state =
  s_http_host_dead | s_http_userinfo_start | s_http_userinfo | s_http_host_start
   | s_http_host_v6_start | s_http_host | s_http_host_v6 | s_http_host_v6_end
   | s_http_host_v6_zone_start | s_http_host_v6_zone | s_http_host_port_start | s_http_host_port

datatype http_parser_type = HTTP_REQUEST | HTTP_RESPONSE | HTTP_BOTH

datatype (plugins only: code) http_errno =
  HPE_OK | HPE_CB_message_begin | HPE_CB_url | HPE_CB_header_field | HPE_CB_header_value
   | HPE_CB_headers_complete | HPE_CB_body | HPE_CB_message_complete | HPE_CB_status
   | HPE_CB_chunk_header | HPE_CB_chunk_complete | HPE_INVALID_EOF_STATE | HPE_HEADER_OVERFLOW
   | HPE_CLOSED_CONNECTION | HPE_INVALID_VERSION | HPE_INVALID_STATUS | HPE_INVALID_METHOD
   | HPE_INVALID_URL | HPE_INVALID_HOST | HPE_INVALID_PORT | HPE_INVALID_PATH
   | HPE_INVALID_QUERY_STRING | HPE_INVALID_FRAGMENT | HPE_LF_EXPECTED | HPE_INVALID_HEADER_TOKEN
   | HPE_INVALID_CONTENT_LENGTH | HPE_UNEXPECTED_CONTENT_LENGTH | HPE_INVALID_CHUNK_SIZE
   | HPE_INVALID_CONSTANT | HPE_INVALID_INTERNAL_STATE | HPE_STRICT | HPE_PAUSED | HPE_UNKNOWN

datatype http_parser_url_fields =
  UF_SCHEMA | UF_HOST | UF_PORT | UF_PATH | UF_QUERY | UF_FRAGMENT | UF_USERINFO | UF_MAX

section \<open>Tables\<close>

definition method_strings :: "string list" where
  "method_strings = [
     ''DELETE'', ''GET'', ''HEAD'', ''POST'', ''PUT'', ''CONNECT'', ''OPTIONS'', ''TRACE'',
     ''COPY'', ''LOCK'', ''MKCOL'', ''MOVE'', ''PROPFIND'', ''PROPPATCH'', ''SEARCH'', ''UNLOCK'',
     ''BIND'', ''REBIND'', ''UNBIND'', ''ACL'', ''REPORT'', ''MKACTIVITY'', ''CHECKOUT'', ''MERGE'',
     ''M-SEARCH'', ''NOTIFY'', ''SUBSCRIBE'', ''UNSUBSCRIBE'', ''PATCH'', ''PURGE'', ''MKCALENDAR'', ''LINK'',
     ''UNLINK'', ''SOURCE'']"

definition http_strerror_tab :: "(http_errno \<times> string \<times> string) list" where
  "http_strerror_tab = [
    (HPE_OK, ''HPE_OK'', ''success''),
    (HPE_CB_message_begin, ''HPE_CB_message_begin'', ''the on_message_begin callback failed''),
    (HPE_CB_url, ''HPE_CB_url'', ''the on_url callback failed''),
    (HPE_CB_header_field, ''HPE_CB_header_field'', ''the on_header_field callback failed''),
    (HPE_CB_header_value, ''HPE_CB_header_value'', ''the on_header_value callback failed''),
    (HPE_CB_headers_complete, ''HPE_CB_headers_complete'', ''the on_headers_complete callback failed''),
    (HPE_CB_body, ''HPE_CB_body'', ''the on_body callback failed''),
    (HPE_CB_message_complete, ''HPE_CB_message_complete'', ''the on_message_complete callback failed''),
    (HPE_CB_status, ''HPE_CB_status'', ''the on_status callback failed''),
    (HPE_CB_chunk_header, ''HPE_CB_chunk_header'', ''the on_chunk_header callback failed''),
    (HPE_CB_chunk_complete, ''HPE_CB_chunk_complete'', ''the on_chunk_complete callback failed''),
    (HPE_INVALID_EOF_STATE, ''HPE_INVALID_EOF_STATE'', ''stream ended at an unexpected time''),
    (HPE_HEADER_OVERFLOW, ''HPE_HEADER_OVERFLOW'', ''too many header bytes seen; overflow detected''),
    (HPE_CLOSED_CONNECTION, ''HPE_CLOSED_CONNECTION'', ''data received after completed connection: close message''),
    (HPE_INVALID_VERSION, ''HPE_INVALID_VERSION'', ''invalid HTTP version''),
    (HPE_INVALID_STATUS, ''HPE_INVALID_STATUS'', ''invalid HTTP status code''),
    (HPE_INVALID_METHOD, ''HPE_INVALID_METHOD'', ''invalid HTTP method''),
    (HPE_INVALID_URL, ''HPE_INVALID_URL'', ''invalid URL''),
    (HPE_INVALID_HOST, ''HPE_INVALID_HOST'', ''invalid host''),
    (HPE_INVALID_PORT, ''HPE_INVALID_PORT'', ''invalid port''),
    (HPE_INVALID_PATH, ''HPE_INVALID_PATH'', ''invalid path''),
    (HPE_INVALID_QUERY_STRING, ''HPE_INVALID_QUERY_STRING'', ''invalid query string''),
    (HPE_INVALID_FRAGMENT, ''HPE_INVALID_FRAGMENT'', ''invalid fragment''),
    (HPE_LF_EXPECTED, ''HPE_LF_EXPECTED'', ''LF character expected''),
    (HPE_INVALID_HEADER_TOKEN, ''HPE_INVALID_HEADER_TOKEN'', ''invalid character in header''),
    (HPE_INVALID_CONTENT_LENGTH, ''HPE_INVALID_CONTENT_LENGTH'', ''invalid character in content-length header''),
    (HPE_UNEXPECTED_CONTENT_LENGTH, ''HPE_UNEXPECTED_CONTENT_LENGTH'', ''unexpected content-length header''),
    (HPE_INVALID_CHUNK_SIZE, ''HPE_INVALID_CHUNK_SIZE'', ''invalid character in chunk size header''),
    (HPE_INVALID_CONSTANT, ''HPE_INVALID_CONSTANT'', ''invalid constant string''),
    (HPE_INVALID_INTERNAL_STATE, ''HPE_INVALID_INTERNAL_STATE'', ''encountered unexpected internal state''),
    (HPE_STRICT, ''HPE_STRICT'', ''strict mode assertion failed''),
    (HPE_PAUSED, ''HPE_PAUSED'', ''parser is paused''),
    (HPE_UNKNOWN, ''HPE_UNKNOWN'', ''an unknown error occurred'')]"

definition http_status_map :: "(nat \<times> string) list" where
  "http_status_map = [
     (100, ''Continue''), (101, ''Switching Protocols''), (102, ''Processing''),
     (200, ''OK''), (201, ''Created''), (202, ''Accepted''),
     (203, ''Non-Authoritative Information''), (204, ''No Content''), (205, ''Reset Content''),
     (206, ''Partial Content''), (207, ''Multi-Status''), (208, ''Already Reported''),
     (226, ''IM Used''), (300, ''Multiple Choices''), (301, ''Moved Permanently''),
     (302, ''Found''), (303, ''See Other''), (304, ''Not Modified''),
     (305, ''Use Proxy''), (307, ''Temporary Redirect''), (308, ''Permanent Redirect''),
     (400, ''Bad Request''), (401, ''Unauthorized''), (402, ''Payment Required''),
     (403, ''Forbidden''), (404, ''Not Found''), (405, ''Method Not Allowed''),
     (406, ''Not Acceptable''), (407, ''Proxy Authentication Required''), (408, ''Request Timeout''),
     (409, ''Conflict''), (410, ''Gone''), (411, ''Length Required''),
     (412, ''Precondition Failed''), (413, ''Payload Too Large''), (414, ''URI Too Long''),
     (415, ''Unsupported Media Type''), (416, ''Range Not Satisfiable''), (417, ''Expectation Failed''),
     (421, ''Misdirected Request''), (422, ''Unprocessable Entity''), (423, ''Locked''),
     (424, ''Failed Dependency''), (426, ''Upgrade Required''), (428, ''Precondition Required''),
     (429, ''Too Many Requests''), (431, ''Request Header Fields Too Large''), (451, ''Unavailable For Legal Reasons''),
     (500, ''Internal Server Error''), (501, ''Not Implemented''), (502, ''Bad Gateway''),
     (503, ''Service Unavailable''), (504, ''Gateway Timeout''), (505, ''HTTP Version Not Supported''),
     (506, ''Variant Also Negotiates''), (507, ''Insufficient Storage''), (508, ''Loop Detected''),
     (510, ''Not Extended''), (511, ''Network Authentication Required'')]"

text \<open>The tables of 256 entries are zero above 127 (\<^verbatim>\<open>unhex\<close> too: its upper half is not listed).\<close>

definition tokens :: "nat list" where
  "tokens = [
     0, 0, 0, 0, 0, 0, 0, 0, 0, 0, 0, 0, 0, 0, 0, 0,
     0, 0, 0, 0, 0, 0, 0, 0, 0, 0, 0, 0, 0, 0, 0, 0,
     32, 33, 0, 35, 36, 37, 38, 39, 0, 0, 42, 43, 0, 45, 46, 0,
     48, 49, 50, 51, 52, 53, 54, 55, 56, 57, 0, 0, 0, 0, 0, 0,
     0, 97, 98, 99, 100, 101, 102, 103, 104, 105, 106, 107, 108, 109, 110, 111,
     112, 113, 114, 115, 116, 117, 118, 119, 120, 121, 122, 0, 0, 0, 94, 95,
     96, 97, 98, 99, 100, 101, 102, 103, 104, 105, 106, 107, 108, 109, 110, 111,
     112, 113, 114, 115, 116, 117, 118, 119, 120, 121, 122, 0, 124, 0, 126, 0]"

definition unhex :: "int list" where
  "unhex = [
     -1, -1, -1, -1, -1, -1, -1, -1, -1, -1, -1, -1, -1, -1, -1, -1,
     -1, -1, -1, -1, -1, -1, -1, -1, -1, -1, -1, -1, -1, -1, -1, -1,
     -1, -1, -1, -1, -1, -1, -1, -1, -1, -1, -1, -1, -1, -1, -1, -1,
     0, 1, 2, 3, 4, 5, 6, 7, 8, 9, -1, -1, -1, -1, -1, -1,
     -1, 10, 11, 12, 13, 14, 15, -1, -1, -1, -1, -1, -1, -1, -1, -1,
     -1, -1, -1, -1, -1, -1, -1, -1, -1, -1, -1, -1, -1, -1, -1, -1,
     -1, 10, 11, 12, 13, 14, 15, -1, -1, -1, -1, -1, -1, -1, -1, -1,
     -1, -1, -1, -1, -1, -1, -1, -1, -1, -1, -1, -1, -1, -1, -1, -1]"

definition normal_url_char :: "nat list" where
  "normal_url_char = [
     0, 0, 0, 0, 246, 255, 255, 127, 255, 255, 255, 255, 255, 255, 255, 127]"

section \<open>Character classes\<close>

abbreviation CR :: char where "CR \<equiv> CHR 0x0D"
abbreviation LF :: char where "LF \<equiv> CHR 0x0A"
abbreviation TAB :: char where "TAB \<equiv> CHR 0x09"

abbreviation (input) code :: "char \<Rightarrow> nat" where "code c \<equiv> of_char c"

definition LOWER :: "char \<Rightarrow> nat" where
  "LOWER c = or (code c) 32"

definition IS_ALPHA :: "char \<Rightarrow> bool" where
  "IS_ALPHA c \<longleftrightarrow> 97 \<le> LOWER c \<and> LOWER c \<le> 122"

definition IS_NUM :: "char \<Rightarrow> bool" where
  "IS_NUM c \<longleftrightarrow> 48 \<le> code c \<and> code c \<le> 57"

definition IS_ALPHANUM :: "char \<Rightarrow> bool" where
  "IS_ALPHANUM c \<longleftrightarrow> IS_ALPHA c \<or> IS_NUM c"

definition IS_HEX :: "char \<Rightarrow> bool" where
  "IS_HEX c \<longleftrightarrow> IS_NUM c \<or> (97 \<le> LOWER c \<and> LOWER c \<le> 102)"

definition IS_MARK :: "char \<Rightarrow> bool" where
  "IS_MARK c \<longleftrightarrow> c \<in> set ''-_.!~*'' \<or> c = CHR 0x27 \<or> c = CHR ''('' \<or> c = CHR '')''"

definition IS_USERINFO_CHAR :: "char \<Rightarrow> bool" where
  "IS_USERINFO_CHAR c \<longleftrightarrow> IS_ALPHANUM c \<or> IS_MARK c \<or> c \<in> set ''%;:&=+$,''"

definition table_at :: "'a list \<Rightarrow> 'a \<Rightarrow> char \<Rightarrow> 'a" where
  "table_at t z c = (if code c < length t then t ! code c else z)"

definition STRICT_TOKEN :: "char \<Rightarrow> nat" where
  "STRICT_TOKEN c = (if c = CHR '' '' then 0 else table_at tokens 0 c)"

definition TOKEN :: "char \<Rightarrow> nat" where
  "TOKEN c = STRICT_TOKEN c"

definition BIT_AT :: "nat list \<Rightarrow> nat \<Rightarrow> bool" where
  "BIT_AT a i \<longleftrightarrow> i div 8 < length a \<and> bit (a ! (i div 8)) (i mod 8)"

definition IS_URL_CHAR :: "char \<Rightarrow> bool" where
  "IS_URL_CHAR c = BIT_AT normal_url_char (code c)"

definition IS_HOST_CHAR :: "char \<Rightarrow> bool" where
  "IS_HOST_CHAR c \<longleftrightarrow> IS_ALPHANUM c \<or> c = CHR ''.'' \<or> c = CHR ''-''"

definition IS_HEADER_CHAR :: "char \<Rightarrow> bool" where
  "IS_HEADER_CHAR c \<longleftrightarrow> c = CR \<or> c = LF \<or> c = TAB \<or> (code c > 31 \<and> code c \<noteq> 127)"

definition digit :: "char \<Rightarrow> nat" where
  "digit c = code c - 48"

section \<open>Structures\<close>

record 'u http_parser =
  type_of :: http_parser_type
  flags :: "8 word"
  state :: state
  header_state :: header_states
  index :: "7 word"
  lenient_http_headers :: bool
  nread :: "32 word"
  content_length :: "64 word"
  http_major :: "16 word"
  http_minor :: "16 word"
  status_code :: "16 word"
  "method" :: "8 word"
  http_errno :: http_errno
  upgrade :: bool
  user_data :: 'u

type_synonym 'u http_cb = "('u http_parser \<Rightarrow> int \<times> 'u http_parser) option"
type_synonym 'u http_data_cb = "('u http_parser \<Rightarrow> char list \<Rightarrow> int \<times> 'u http_parser) option"

record 'u http_parser_settings =
  on_message_begin :: "'u http_cb"
  on_url :: "'u http_data_cb"
  on_status :: "'u http_data_cb"
  on_header_field :: "'u http_data_cb"
  on_header_value :: "'u http_data_cb"
  on_headers_complete :: "'u http_cb"
  on_body :: "'u http_data_cb"
  on_message_complete :: "'u http_cb"
  on_chunk_header :: "'u http_cb"
  on_chunk_complete :: "'u http_cb"

abbreviation F_CHUNKED :: "8 word" where "F_CHUNKED \<equiv> 1"
abbreviation F_CONNECTION_KEEP_ALIVE :: "8 word" where "F_CONNECTION_KEEP_ALIVE \<equiv> 2"
abbreviation F_CONNECTION_CLOSE :: "8 word" where "F_CONNECTION_CLOSE \<equiv> 4"
abbreviation F_CONNECTION_UPGRADE :: "8 word" where "F_CONNECTION_UPGRADE \<equiv> 8"
abbreviation F_TRAILING :: "8 word" where "F_TRAILING \<equiv> 16"
abbreviation F_UPGRADE :: "8 word" where "F_UPGRADE \<equiv> 32"
abbreviation F_SKIPBODY :: "8 word" where "F_SKIPBODY \<equiv> 64"
abbreviation F_CONTENTLENGTH :: "8 word" where "F_CONTENTLENGTH \<equiv> 128"

abbreviation ULLONG_MAX :: "64 word" where "ULLONG_MAX \<equiv> -1"

definition flag :: "8 word \<Rightarrow> 'u http_parser \<Rightarrow> bool" where
  "flag f p \<longleftrightarrow> and (flags p) f \<noteq> 0"

definition set_flag :: "8 word \<Rightarrow> 'u http_parser \<Rightarrow> 'u http_parser" where
  "set_flag f p = p\<lparr>flags := or (flags p) f\<rparr>"

section \<open>Small functions\<close>

definition PARSING_HEADER :: "state \<Rightarrow> bool" where
  "PARSING_HEADER s \<longleftrightarrow> s \<notin> {s_chunk_data, s_chunk_data_almost_done, s_chunk_data_done, s_body_identity,
     s_body_identity_eof, s_message_done}"

definition http_message_needs_eof :: "'u http_parser \<Rightarrow> bool" where
  "http_message_needs_eof p =
     (if type_of p = HTTP_REQUEST then False
      else if status_code p div 100 = 1 \<or> status_code p = 204 \<or> status_code p = 304 \<or> flag F_SKIPBODY p then False
      else if flag F_CHUNKED p \<or> content_length p \<noteq> ULLONG_MAX then False
      else True)"

definition http_should_keep_alive :: "'u http_parser \<Rightarrow> bool" where
  "http_should_keep_alive p =
     (if http_major p > 0 \<and> http_minor p > 0
      then (if flag F_CONNECTION_CLOSE p then False else \<not> http_message_needs_eof p)
      else (if \<not> flag F_CONNECTION_KEEP_ALIVE p then False else \<not> http_message_needs_eof p))"

definition start_state :: "'u http_parser \<Rightarrow> state" where
  "start_state p = (if type_of p = HTTP_REQUEST then s_start_req else s_start_res)"

definition NEW_MESSAGE :: "'u http_parser \<Rightarrow> state" where
  "NEW_MESSAGE p = (if http_should_keep_alive p then start_state p else s_dead)"

definition http_method_str :: "nat \<Rightarrow> string" where
  "http_method_str m = (if m < length method_strings then method_strings ! m else ''<unknown>'')"

definition http_status_str :: "nat \<Rightarrow> string" where
  "http_status_str s = (case map_of http_status_map s of Some str \<Rightarrow> str | None \<Rightarrow> ''<unknown>'')"

definition http_parser_init :: "http_parser_type \<Rightarrow> 'u http_parser \<Rightarrow> 'u http_parser" where
  "http_parser_init t p =
     \<lparr>type_of = t, flags = 0,
      state = (if t = HTTP_REQUEST then s_start_req else if t = HTTP_RESPONSE then s_start_res else s_start_req_or_res),
      header_state = h_general, index = 0, lenient_http_headers = False, nread = 0, content_length = 0,
      http_major = 0, http_minor = 0, status_code = 0, method = 0, http_errno = HPE_OK, upgrade = False,
      user_data = user_data p\<rparr>"

definition http_parser_settings_init :: "'u http_parser_settings" where
  "http_parser_settings_init = \<lparr>on_message_begin = None, on_url = None, on_status = None, on_header_field = None,
     on_header_value = None, on_headers_complete = None, on_body = None, on_message_complete = None,
     on_chunk_header = None, on_chunk_complete = None\<rparr>"

definition http_errno_name :: "http_errno \<Rightarrow> string" where
  "http_errno_name e = fst (the (map_of http_strerror_tab e))"

definition http_errno_description :: "http_errno \<Rightarrow> string" where
  "http_errno_description e = snd (the (map_of http_strerror_tab e))"

definition http_parser_pause :: "bool \<Rightarrow> 'u http_parser \<Rightarrow> 'u http_parser res" where
  "http_parser_pause paused p =
     (if http_errno p = HPE_OK \<or> http_errno p = HPE_PAUSED
      then Inr (p\<lparr>http_errno := (if paused then HPE_PAUSED else HPE_OK)\<rparr>)
      else Inl AssertFailed)"

definition http_body_is_final :: "'u http_parser \<Rightarrow> bool" where
  "http_body_is_final p \<longleftrightarrow> state p = s_message_done"

definition http_parser_version :: nat where
  "http_parser_version = or (or (2 * 0x10000) (9 * 0x00100)) (2 * 0x00001)"

definition HTTP_MAX_HEADER_SIZE :: "32 word" where
  "HTTP_MAX_HEADER_SIZE = 80 * 1024"


end
