(* ===== verification/HP_Url.thy ===== *)
theory HP_Url
  imports HP_Types
begin

text \<open>
  The URL parser of \<^verbatim>\<open>http_parser.c\<close>: the character automaton \<^verbatim>\<open>parse_url_char\<close> (shared with
  \<^verbatim>\<open>http_parser_execute\<close>), the host automaton, \<^verbatim>\<open>http_parse_host\<close> and \<^verbatim>\<open>http_parser_parse_url\<close>. Offsets and
  lengths are 16 bits wide as in \<^verbatim>\<open>struct http_parser_url\<close>; a read outside the buffer and a failed
  assertion are errors of the result type.

  Results: for a buffer shorter than 64 KiB no assertion fails and no read leaves the buffer, every
  reported field lies inside it, a reported port is the decimal value of its field, and a printed URL
  is parsed back into its parts.
\<close>

section \<open>The character automaton\<close>

definition parse_url_char :: "state \<Rightarrow> char \<Rightarrow> state" where
  "parse_url_char s ch =
     (if ch = CHR '' '' \<or> ch = CR \<or> ch = LF then s_dead
      else if ch = TAB \<or> ch = CHR 0x0C then s_dead
      else case s of
        s_req_spaces_before_url \<Rightarrow>
          if ch = CHR ''/'' \<or> ch = CHR ''*'' then s_req_path
          else if IS_ALPHA ch then s_req_schema
          else s_dead
      | s_req_schema \<Rightarrow>
          if IS_ALPHA ch then s
          else if ch = CHR '':'' then s_req_schema_slash
          else s_dead
      | s_req_schema_slash \<Rightarrow> if ch = CHR ''/'' then s_req_schema_slash_slash else s_dead
      | s_req_schema_slash_slash \<Rightarrow> if ch = CHR ''/'' then s_req_server_start else s_dead
      | s_req_path \<Rightarrow>
          if IS_URL_CHAR ch then s
          else if ch = CHR ''?'' then s_req_query_string_start
          else if ch = CHR ''#'' then s_req_fragment_start
          else s_dead
      | s_req_fragment_start \<Rightarrow>
          if IS_URL_CHAR ch then s_req_fragment
          else if ch = CHR ''?'' then s_req_fragment
          else if ch = CHR ''#'' then s
          else s_dead
      | s_req_fragment \<Rightarrow>
          if IS_URL_CHAR ch then s
          else if ch = CHR ''?'' \<or> ch = CHR ''#'' then s
          else s_dead
      | _ \<Rightarrow>
          if s = s_req_server_with_at \<and> ch = CHR ''@'' then s_dead
          else if s \<in> {s_req_server_with_at, s_req_server_start, s_req_server} then
            (if ch = CHR ''/'' then s_req_path
             else if ch = CHR ''?'' then s_req_query_string_start
             else if ch = CHR ''@'' then s_req_server_with_at
             else if IS_USERINFO_CHAR ch \<or> ch = CHR ''['' \<or> ch = CHR '']'' then s_req_server
             else s_dead)
          else if s \<in> {s_req_query_string_start, s_req_query_string} then
            (if IS_URL_CHAR ch then s_req_query_string
             else if ch = CHR ''?'' then s_req_query_string
             else if ch = CHR ''#'' then s_req_fragment_start
             else s_dead)
          else s_dead)"

section \<open>The host automaton\<close>

definition http_parse_host_char :: "http_host_state \<Rightarrow> char \<Rightarrow> http_host_state" where
  "http_parse_host_char s ch =
     (if s = s_http_userinfo \<or> s = s_http_userinfo_start then
        (if ch = CHR ''@'' then s_http_host_start
         else if IS_USERINFO_CHAR ch then s_http_userinfo
         else s_http_host_dead)
      else if s = s_http_host_start then
        (if ch = CHR ''['' then s_http_host_v6_start
         else if IS_HOST_CHAR ch then s_http_host
         else s_http_host_dead)
      else if s = s_http_host \<and> IS_HOST_CHAR ch then s_http_host
      else if s = s_http_host \<or> s = s_http_host_v6_end then
        (if ch = CHR '':'' then s_http_host_port_start else s_http_host_dead)
      else if s = s_http_host_v6 \<and> ch = CHR '']'' then s_http_host_v6_end
      else if s = s_http_host_v6 \<or> s = s_http_host_v6_start then
        (if IS_HEX ch \<or> ch = CHR '':'' \<or> ch = CHR ''.'' then s_http_host_v6
         else if s = s_http_host_v6 \<and> ch = CHR ''%'' then s_http_host_v6_zone_start
         else s_http_host_dead)
      else if s = s_http_host_v6_zone \<and> ch = CHR '']'' then s_http_host_v6_end
      else if s = s_http_host_v6_zone \<or> s = s_http_host_v6_zone_start then
        (if IS_ALPHANUM ch \<or> ch \<in> set ''%.-_~'' then s_http_host_v6_zone else s_http_host_dead)
      else if s = s_http_host_port \<or> s = s_http_host_port_start then
        (if IS_NUM ch then s_http_host_port else s_http_host_dead)
      else s_http_host_dead)"

section \<open>The URL structure\<close>

record url_field =
  off :: "16 word"
  len :: "16 word"

record http_parser_url =
  field_set :: "16 word"
  port :: "16 word"
  field_data :: "http_parser_url_fields \<Rightarrow> url_field"

fun uf_num :: "http_parser_url_fields \<Rightarrow> nat" where
  "uf_num UF_SCHEMA = 0"
| "uf_num UF_HOST = 1"
| "uf_num UF_PORT = 2"
| "uf_num UF_PATH = 3"
| "uf_num UF_QUERY = 4"
| "uf_num UF_FRAGMENT = 5"
| "uf_num UF_USERINFO = 6"
| "uf_num UF_MAX = 7"

definition uf_bit :: "http_parser_url_fields \<Rightarrow> 16 word" where
  "uf_bit f = push_bit (uf_num f) 1"

definition has_field :: "http_parser_url_fields \<Rightarrow> http_parser_url \<Rightarrow> bool" where
  "has_field f u \<longleftrightarrow> and (field_set u) (uf_bit f) \<noteq> 0"

definition add_field :: "http_parser_url_fields \<Rightarrow> http_parser_url \<Rightarrow> http_parser_url" where
  "add_field f u = u\<lparr>field_set := or (field_set u) (uf_bit f)\<rparr>"

definition set_off :: "http_parser_url_fields \<Rightarrow> nat \<Rightarrow> http_parser_url \<Rightarrow> http_parser_url" where
  "set_off f p u = u\<lparr>field_data := (field_data u)(f := (field_data u f)\<lparr>off := of_nat p\<rparr>)\<rparr>"

definition set_len :: "http_parser_url_fields \<Rightarrow> nat \<Rightarrow> http_parser_url \<Rightarrow> http_parser_url" where
  "set_len f n u = u\<lparr>field_data := (field_data u)(f := (field_data u f)\<lparr>len := of_nat n\<rparr>)\<rparr>"

definition inc_len :: "http_parser_url_fields \<Rightarrow> http_parser_url \<Rightarrow> http_parser_url" where
  "inc_len f u = u\<lparr>field_data := (field_data u)(f := (field_data u f)\<lparr>len := len (field_data u f) + 1\<rparr>)\<rparr>"

definition http_parser_url_init :: http_parser_url where
  "http_parser_url_init = \<lparr>field_set = 0, port = 0, field_data = (\<lambda>_. \<lparr>off = 0, len = 0\<rparr>)\<rparr>"

section \<open>Parsing the host\<close>

text \<open>What one character does to the structure, for the old and the new state of the automaton.\<close>

definition host_mark :: "http_host_state \<Rightarrow> http_host_state \<Rightarrow> nat \<Rightarrow> http_parser_url \<Rightarrow> http_parser_url" where
  "host_mark s new_s p u =
     (case new_s of
        s_http_host \<Rightarrow> inc_len UF_HOST (if s \<noteq> s_http_host then set_off UF_HOST p u else u)
      | s_http_host_v6 \<Rightarrow> inc_len UF_HOST (if s \<noteq> s_http_host_v6 then set_off UF_HOST p u else u)
      | s_http_host_v6_zone_start \<Rightarrow> inc_len UF_HOST u
      | s_http_host_v6_zone \<Rightarrow> inc_len UF_HOST u
      | s_http_host_port \<Rightarrow>
          inc_len UF_PORT (if s \<noteq> s_http_host_port
                           then add_field UF_PORT (set_len UF_PORT 0 (set_off UF_PORT p u)) else u)
      | s_http_userinfo \<Rightarrow>
          inc_len UF_USERINFO (if s \<noteq> s_http_userinfo
                               then add_field UF_USERINFO (set_len UF_USERINFO 0 (set_off UF_USERINFO p u)) else u)
      | _ \<Rightarrow> u)"

text \<open>The loop over the characters from position \<open>p\<close>; \<open>None\<close> for the state is \<^verbatim>\<open>return 1\<close>.\<close>

primrec host_loop ::
  "char list \<Rightarrow> nat \<Rightarrow> http_host_state \<Rightarrow> http_parser_url \<Rightarrow> http_host_state option \<times> http_parser_url" where
  "host_loop [] p s u = (Some s, u)"
| "host_loop (c # cs) p s u =
     (let new_s = http_parse_host_char s c in
      if new_s = s_http_host_dead then (None, u)
      else host_loop cs (p + 1) new_s (host_mark s new_s p u))"

definition bad_host_end :: "http_host_state \<Rightarrow> bool" where
  "bad_host_end s \<longleftrightarrow> s \<in> {s_http_host_start, s_http_host_v6_start, s_http_host_v6, s_http_host_v6_zone_start,
     s_http_host_v6_zone, s_http_host_port_start, s_http_userinfo, s_http_userinfo_start}"

definition http_parse_host :: "char list \<Rightarrow> http_parser_url \<Rightarrow> bool \<Rightarrow> (int \<times> http_parser_url) res" where
  "http_parse_host buf u found_at =
     (let o0 = unat (off (field_data u UF_HOST)); n0 = unat (len (field_data u UF_HOST)) in
      if \<not> has_field UF_HOST u then Inl AssertFailed
      else res_bind (mem_read o0 n0 buf) (\<lambda>bytes.
        case host_loop bytes o0 (if found_at then s_http_userinfo_start else s_http_host_start) (set_len UF_HOST 0 u) of
          (None, u1) \<Rightarrow> Inr (1, u1)
        | (Some s, u1) \<Rightarrow> Inr (if bad_host_end s then 1 else 0, u1)))"

section \<open>Parsing a URL\<close>

definition url_field_of :: "state \<Rightarrow> http_parser_url_fields option" where
  "url_field_of s =
     (case s of
        s_req_schema \<Rightarrow> Some UF_SCHEMA
      | s_req_server_with_at \<Rightarrow> Some UF_HOST
      | s_req_server \<Rightarrow> Some UF_HOST
      | s_req_path \<Rightarrow> Some UF_PATH
      | s_req_query_string \<Rightarrow> Some UF_QUERY
      | s_req_fragment \<Rightarrow> Some UF_FRAGMENT
      | _ \<Rightarrow> None)"

definition is_delimiter :: "state \<Rightarrow> bool" where
  "is_delimiter s \<longleftrightarrow> s \<in> {s_req_schema_slash, s_req_schema_slash_slash, s_req_server_start,
     s_req_query_string_start, s_req_fragment_start}"

primrec url_loop ::
  "char list \<Rightarrow> nat \<Rightarrow> state \<Rightarrow> http_parser_url_fields \<Rightarrow> bool \<Rightarrow> http_parser_url \<Rightarrow> (bool option \<times> http_parser_url) res" where
  "url_loop [] p s old_uf found_at u = Inr (Some found_at, u)"
| "url_loop (c # cs) p s old_uf found_at u =
     (let s' = parse_url_char s c in
      if s' = s_dead then Inr (None, u)
      else if is_delimiter s' then url_loop cs (p + 1) s' old_uf found_at u
      else let found_at' = (found_at \<or> s' = s_req_server_with_at) in
        case url_field_of s' of
          None \<Rightarrow> Inl AssertFailed
        | Some uf \<Rightarrow>
            if uf = old_uf then url_loop cs (p + 1) s' old_uf found_at' (inc_len uf u)
            else url_loop cs (p + 1) s' uf found_at' (add_field uf (set_len uf 1 (set_off uf p u))))"

text \<open>The port loop: \<open>None\<close> when the value passes 0xffff.\<close>

primrec port_loop :: "char list \<Rightarrow> nat \<Rightarrow> nat option" where
  "port_loop [] v = Some v"
| "port_loop (c # cs) v =
     (let v' = v * 10 + digit c in if v' > 0xffff then None else port_loop cs v')"

definition parse_port :: "char list \<Rightarrow> http_parser_url \<Rightarrow> (int \<times> http_parser_url) res" where
  "parse_port buf u =
     (if has_field UF_PORT u then
        (let o1 = unat (off (field_data u UF_PORT)); n1 = unat (len (field_data u UF_PORT)) in
         if \<not> o1 + n1 \<le> length buf then Inl AssertFailed
         else case port_loop (take n1 (drop o1 buf)) 0 of
                None \<Rightarrow> Inr (1, u)
              | Some v \<Rightarrow> Inr (0, u\<lparr>port := of_nat v\<rparr>))
      else Inr (0, u))"

definition http_parser_parse_url ::
  "char list \<Rightarrow> bool \<Rightarrow> http_parser_url \<Rightarrow> (int \<times> http_parser_url) res" where
  "http_parser_parse_url buf is_connect u =
     (if buf = [] then Inr (1, u)
      else
        res_bind (url_loop buf 0 (if is_connect then s_req_server_start else s_req_spaces_before_url) UF_MAX False
                   (u\<lparr>port := 0, field_set := 0\<rparr>)) (\<lambda>(r, u1).
        case r of
          None \<Rightarrow> Inr (1, u1)
        | Some found_at \<Rightarrow>
            if has_field UF_SCHEMA u1 \<and> \<not> has_field UF_HOST u1 then Inr (1, u1)
            else res_bind (if has_field UF_HOST u1 then http_parse_host buf u1 found_at else Inr (0, u1)) (\<lambda>(r2, u2).
              if r2 \<noteq> 0 then Inr (1, u2)
              else if is_connect \<and> field_set u2 \<noteq> or (uf_bit UF_HOST) (uf_bit UF_PORT) then Inr (1, u2)
              else parse_port buf u2)))"

section \<open>Fields\<close>

lemma has_field_bit: "has_field f u \<longleftrightarrow> bit (field_set u) (uf_num f)"
  by (simp add: has_field_def uf_bit_def bit_iff_and_push_bit_not_eq_0)

lemma uf_num_eq [simp]: "uf_num f = uf_num g \<longleftrightarrow> f = g"
  by (cases f; cases g) simp_all

lemma uf_num_lt: "uf_num f < 16"
  by (cases f) simp_all

lemma bit_uf_bit: "bit (uf_bit g) (uf_num f) \<longleftrightarrow> f = g"
proof -
  have "bit (push_bit (uf_num g) (1 :: 16 word)) (uf_num f) \<longleftrightarrow> uf_num f = uf_num g"
    using uf_num_lt[of f] by (auto simp: bit_exp_iff)
  then show ?thesis by (simp add: uf_bit_def)
qed

lemma has_field_add [simp]: "has_field f (add_field g u) \<longleftrightarrow> f = g \<or> has_field f u"
  by (auto simp: has_field_bit add_field_def bit_or_iff bit_uf_bit)

lemma field_ops [simp]:
  "has_field f (set_off g p u) = has_field f u" "has_field f (set_len g n u) = has_field f u"
  "has_field f (inc_len g u) = has_field f u"
  "field_data (add_field g u) = field_data u"
  "field_set (set_off g p u) = field_set u" "field_set (set_len g n u) = field_set u" "field_set (inc_len g u) = field_set u"
  by (simp_all add: has_field_def set_off_def set_len_def inc_len_def add_field_def)

definition f_off :: "http_parser_url_fields \<Rightarrow> http_parser_url \<Rightarrow> nat" where
  "f_off f u = unat (off (field_data u f))"

definition f_len :: "http_parser_url_fields \<Rightarrow> http_parser_url \<Rightarrow> nat" where
  "f_len f u = unat (len (field_data u f))"

lemma f_off_ops [simp]:
  "f_off f (set_off g p u) = (if f = g then p mod 2 ^ 16 else f_off f u)"
  "f_off f (set_len g n u) = f_off f u" "f_off f (inc_len g u) = f_off f u" "f_off f (add_field g u) = f_off f u"
  by (simp_all add: f_off_def set_off_def set_len_def inc_len_def unat_of_nat)

lemma f_len_ops [simp]:
  "f_len f (set_off g p u) = f_len f u"
  "f_len f (set_len g n u) = (if f = g then n mod 2 ^ 16 else f_len f u)" "f_len f (add_field g u) = f_len f u"
  by (simp_all add: f_len_def set_off_def set_len_def unat_of_nat)

lemma f_len_inc: "f_len f u < 2 ^ 16 - 1 \<Longrightarrow> f_len f (inc_len g u) = (if f = g then f_len f u + 1 else f_len f u)"
  by (auto simp: f_len_def inc_len_def unat_word_ariths)

lemma f_len_inc_other [simp]: "f \<noteq> g \<Longrightarrow> f_len f (inc_len g u) = f_len f u"
  by (simp add: f_len_def inc_len_def)

definition within :: "http_parser_url_fields set \<Rightarrow> nat \<Rightarrow> http_parser_url \<Rightarrow> bool" where
  "within F n u \<longleftrightarrow> (\<forall>f \<in> F. has_field f u \<longrightarrow> f_off f u + f_len f u \<le> n)"

lemma withinD: "within F n u \<Longrightarrow> f \<in> F \<Longrightarrow> has_field f u \<Longrightarrow> f_off f u + f_len f u \<le> n"
  by (simp add: within_def)

lemma within_mono: "within F n u \<Longrightarrow> n \<le> m \<Longrightarrow> within F m u"
  by (auto simp: within_def intro: order_trans)

lemma within_inc:
  assumes "within F p u" "has_field f u" "f \<in> F" "p < 2 ^ 16 - 1"
  shows "within F (p + 1) (inc_len f u)"
proof -
  have "f_len g u < 2 ^ 16 - 1" if "has_field g u" "g \<in> F" for g using assms that by (auto dest: withinD)
  then show ?thesis using assms by (auto simp: within_def f_len_inc le_Suc_eq)
qed

lemma within_new:
  assumes "within F p u" "p < 2 ^ 16 - 1"
  shows "within F (p + 1) (add_field f (set_len f 1 (set_off f p u)))"
  using assms by (auto simp: within_def le_Suc_eq)

lemma within_move:
  assumes "within F p u" "f_len f u = 0" "p < 2 ^ 16 - 1"
  shows "within F (p + 1) (inc_len f (set_off f p u))"
proof -
  have "f_len g u < 2 ^ 16 - 1" if "has_field g u" "g \<in> F" for g using assms that by (auto dest: withinD)
  then show ?thesis using assms by (auto simp: within_def f_len_inc le_Suc_eq)
qed

lemma within_fresh:
  assumes "within F p u" "p < 2 ^ 16 - 1"
  shows "within F (p + 1) (inc_len f (add_field f (set_len f 0 (set_off f p u))))"
proof -
  have "f_len g u < 2 ^ 16 - 1" if "has_field g u" "g \<in> F" for g using assms that by (auto dest: withinD)
  then show ?thesis using assms by (auto simp: within_def f_len_inc le_Suc_eq)
qed

lemma parse_url_char_result:
  "parse_url_char s c = s_dead \<or> is_delimiter (parse_url_char s c) \<or> url_field_of (parse_url_char s c) \<noteq> None"
  by (cases s) (simp_all add: parse_url_char_def is_delimiter_def url_field_of_def)

lemma url_field_of_kinds: "url_field_of s = Some f \<Longrightarrow> f \<noteq> UF_PORT \<and> f \<noteq> UF_USERINFO \<and> f \<noteq> UF_MAX"
  by (auto simp: url_field_of_def split: state.splits)

lemma url_loop_ok:
  assumes "p + length cs < 2 ^ 16" "within UNIV p u" "old \<noteq> UF_MAX \<longrightarrow> has_field old u"
  shows "\<exists>r u'. url_loop cs p s old at u = Inr (r, u') \<and> within UNIV (p + length cs) u' \<and>
     (\<forall>f \<in> {UF_PORT, UF_USERINFO}. has_field f u' \<longleftrightarrow> has_field f u)"
  using assms
proof (induction cs arbitrary: p s old at u)
  case Nil
  then show ?case by simp
next
  case (Cons c cs)
  let ?s = "parse_url_char s c"
  have small: "p < 2 ^ 16 - 1" "p + 1 + length cs < 2 ^ 16" using Cons.prems(1) by simp_all
  have up: "within UNIV (p + 1) u" using Cons.prems(2) by (rule within_mono) simp
  consider "?s = s_dead" | "?s \<noteq> s_dead" "is_delimiter ?s" | uf where "?s \<noteq> s_dead" "\<not> is_delimiter ?s" "url_field_of ?s = Some uf"
    using parse_url_char_result[of s c] by blast
  then show ?case
  proof cases
    case 1
    then show ?thesis using Cons.prems(2) by (auto simp: Let_def intro: within_mono)
  next
    case 2
    from Cons.IH[OF small(2) up Cons.prems(3), of ?s at] 2 show ?thesis by (auto simp: Let_def)
  next
    case (3 uf)
    let ?at = "at \<or> ?s = s_req_server_with_at"
    show ?thesis
    proof (cases "uf = old")
      case True
      then have h: "has_field old u" using Cons.prems(3) 3(3) url_field_of_kinds by blast
      with Cons.IH[OF small(2) within_inc[OF Cons.prems(2) h UNIV_I small(1)], of old ?s ?at] 3 True
      show ?thesis by (auto simp: Let_def)
    next
      case False
      let ?u = "add_field uf (set_len uf 1 (set_off uf p u))"
      from Cons.IH[OF small(2) within_new[OF Cons.prems(2) small(1)], of uf uf ?s ?at] 3 False url_field_of_kinds[OF 3(3)]
      show ?thesis by (auto simp: Let_def)
    qed
  qed
qed


section \<open>The host loop\<close>

definition host_fields :: "http_parser_url_fields set" where
  "host_fields = {UF_HOST, UF_PORT, UF_USERINFO}"

lemma host_fields_mem [simp]: "UF_HOST \<in> host_fields" "UF_PORT \<in> host_fields" "UF_USERINFO \<in> host_fields"
  by (simp_all add: host_fields_def)

definition before_host :: "http_host_state \<Rightarrow> bool" where
  "before_host s \<longleftrightarrow> s \<in> {s_http_userinfo_start, s_http_userinfo, s_http_host_start, s_http_host_v6_start}"

lemma host_char_into:
  "http_parse_host_char s c = s_http_host \<Longrightarrow> s = s_http_host \<or> s = s_http_host_start"
  "http_parse_host_char s c = s_http_host_v6 \<Longrightarrow> s = s_http_host_v6 \<or> s = s_http_host_v6_start"
  "http_parse_host_char s c = s_http_host_port \<Longrightarrow> (s = s_http_host_port \<or> s = s_http_host_port_start) \<and> IS_NUM c"
  "http_parse_host_char s c = s_http_userinfo \<Longrightarrow> s = s_http_userinfo \<or> s = s_http_userinfo_start"
  "http_parse_host_char s c = s_http_host_start \<Longrightarrow> s = s_http_userinfo \<or> s = s_http_userinfo_start"
  "http_parse_host_char s c = s_http_host_v6_start \<Longrightarrow> s = s_http_host_start"
  "http_parse_host_char s c \<noteq> s_http_userinfo_start"
  "http_parse_host_char s c \<noteq> s_http_host_dead \<Longrightarrow> s = s_http_host_port \<Longrightarrow> http_parse_host_char s c = s_http_host_port"
  by (auto simp: http_parse_host_char_def split: if_splits)

definition port_digits :: "char list \<Rightarrow> http_parser_url \<Rightarrow> bool" where
  "port_digits buf u \<longleftrightarrow> list_all IS_NUM (take (f_len UF_PORT u) (drop (f_off UF_PORT u) buf))"

definition host_inv :: "char list \<Rightarrow> nat \<Rightarrow> http_host_state \<Rightarrow> http_parser_url \<Rightarrow> bool" where
  "host_inv buf p s u \<longleftrightarrow> within host_fields p u \<and> has_field UF_HOST u \<and> (before_host s \<longrightarrow> f_len UF_HOST u = 0) \<and>
     (has_field UF_PORT u \<longleftrightarrow> s = s_http_host_port) \<and>
     (s = s_http_host_port \<longrightarrow> f_off UF_PORT u + f_len UF_PORT u = p \<and> port_digits buf u) \<and>
     (s = s_http_userinfo \<longrightarrow> has_field UF_USERINFO u)"

lemma port_digits_inc:
  assumes "port_digits buf u" "f_off UF_PORT u + f_len UF_PORT u = p" "p < length buf" "IS_NUM (buf ! p)"
    "p < 2 ^ 16 - 1"
  shows "port_digits buf (inc_len UF_PORT u)" "f_len UF_PORT (inc_len UF_PORT u) = f_len UF_PORT u + 1"
proof -
  show n: "f_len UF_PORT (inc_len UF_PORT u) = f_len UF_PORT u + 1"
    using assms(2,5) by (simp add: f_len_inc)
  have "take (f_len UF_PORT u + 1) (drop (f_off UF_PORT u) buf) =
      take (f_len UF_PORT u) (drop (f_off UF_PORT u) buf) @ [buf ! p]"
    using assms(2,3) by (simp add: take_Suc_conv_app_nth)
  then show "port_digits buf (inc_len UF_PORT u)"
    using assms(1,4) n by (simp add: port_digits_def)
qed

lemma host_mark_keeps:
  "has_field UF_HOST (host_mark s n p u) = has_field UF_HOST u"
  "n \<noteq> s_http_host_port \<Longrightarrow> has_field UF_PORT (host_mark s n p u) = has_field UF_PORT u"
  "n \<noteq> s_http_host \<Longrightarrow> n \<noteq> s_http_host_v6 \<Longrightarrow> n \<noteq> s_http_host_v6_zone \<Longrightarrow> n \<noteq> s_http_host_v6_zone_start \<Longrightarrow>
     f_len UF_HOST u = 0 \<Longrightarrow> f_len UF_HOST (host_mark s n p u) = 0"
  by (auto simp: host_mark_def f_len_inc split: http_host_state.splits)

lemma host_mark_within:
  assumes inv: "host_inv buf p s u" and p: "p < 2 ^ 16 - 1" and n: "http_parse_host_char s c = n"
  shows "within host_fields (p + 1) (host_mark s n p u)"
proof -
  have u: "within host_fields p u" "has_field UF_HOST u" "within host_fields (p + 1) u"
    using inv by (auto simp: host_inv_def intro: within_mono)
  show ?thesis
  proof (cases n)
    case s_http_host
    with n host_char_into(1)[of s c] inv u p show ?thesis
      by (auto simp: host_mark_def host_inv_def before_host_def intro: within_inc[simplified] within_move[simplified])
  next
    case s_http_host_v6
    with n host_char_into(2)[of s c] inv u p show ?thesis
      by (auto simp: host_mark_def host_inv_def before_host_def intro: within_inc[simplified] within_move[simplified])
  next
    case s_http_host_port
    with inv u p show ?thesis
      by (auto simp: host_mark_def host_inv_def intro: within_inc[simplified] within_fresh[simplified])
  next
    case s_http_userinfo
    with inv u p show ?thesis
      by (auto simp: host_mark_def host_inv_def intro: within_inc[simplified] within_fresh[simplified])
  qed (use u p in \<open>auto simp: host_mark_def intro: within_inc[simplified]\<close>)
qed

lemma host_step:
  assumes inv: "host_inv buf p s u" and p: "p < 2 ^ 16 - 1" "p < length buf"
    and n: "http_parse_host_char s (buf ! p) = n" "n \<noteq> s_http_host_dead"
  shows "host_inv buf (p + 1) n (host_mark s n p u)"
proof -
  note ok = host_mark_within[OF inv p(1) n(1)]
  have host: "has_field UF_HOST (host_mark s n p u)"
    using inv by (simp add: host_inv_def host_mark_keeps)
  have before: "before_host n \<longrightarrow> f_len UF_HOST (host_mark s n p u) = 0"
    using inv n host_char_into(4-7)[of s "buf ! p"]
    by (auto simp: before_host_def host_inv_def intro!: host_mark_keeps(3))
  have user: "n = s_http_userinfo \<longrightarrow> has_field UF_USERINFO (host_mark s n p u)"
    using inv by (auto simp: host_inv_def host_mark_def)
  show ?thesis
  proof (cases "n = s_http_host_port")
    case False
    then have "s \<noteq> s_http_host_port" using n host_char_into(8) by metis
    then show ?thesis
      using False ok host before user inv by (auto simp: host_inv_def host_mark_keeps)
  next
    case True
    let ?u = "if s \<noteq> s_http_host_port then add_field UF_PORT (set_len UF_PORT 0 (set_off UF_PORT p u)) else u"
    have d: "IS_NUM (buf ! p)" using True n host_char_into(3) by metis
    have "port_digits buf ?u" "f_off UF_PORT ?u + f_len UF_PORT ?u = p"
      using inv p by (auto simp: host_inv_def port_digits_def)
    from port_digits_inc[OF this p(2) d p(1)] this(2)
    have "port_digits buf (host_mark s n p u)" "f_off UF_PORT (host_mark s n p u) + f_len UF_PORT (host_mark s n p u) = p + 1"
      using True by (simp_all add: host_mark_def)
    moreover have "has_field UF_PORT (host_mark s n p u)"
      using True inv by (auto simp: host_mark_def host_inv_def)
    ultimately show ?thesis using True ok host by (simp add: host_inv_def before_host_def)
  qed
qed

lemma host_loop_ok:
  assumes "host_inv (pre @ cs @ post) (length pre) s u" "length pre + length cs < 2 ^ 16"
    and "host_loop cs (length pre) s u = (r, u')"
  shows "within host_fields (length pre + length cs) u' \<and> (case r of None \<Rightarrow> True | Some s' \<Rightarrow> host_inv (pre @ cs @ post) (length pre + length cs) s' u')"
  using assms
proof (induction cs arbitrary: pre s u)
  case Nil
  then show ?case by (auto simp: host_inv_def)
next
  case (Cons c cs)
  let ?n = "http_parse_host_char s c"
  have at: "(pre @ (c # cs) @ post) ! length pre = c" by simp
  show ?case
  proof (cases "?n = s_http_host_dead")
    case True
    then show ?thesis using Cons.prems by (auto simp: host_inv_def intro: within_mono)
  next
    case False
    have "host_inv (pre @ (c # cs) @ post) (length pre + 1) ?n (host_mark s ?n (length pre) u)"
      using Cons.prems(1,2) False by (intro host_step) (simp_all add: at)
    then have "host_inv ((pre @ [c]) @ cs @ post) (length (pre @ [c])) ?n (host_mark s ?n (length pre) u)" by simp
    from Cons.IH[OF this] Cons.prems(2,3) False show ?thesis by (auto simp: Let_def split: option.splits)
  qed
qed

lemma host_mark_other:
  "f \<notin> host_fields \<Longrightarrow> has_field f (host_mark s n p u) = has_field f u \<and>
     f_off f (host_mark s n p u) = f_off f u \<and> f_len f (host_mark s n p u) = f_len f u"
  by (auto simp: host_mark_def host_fields_def split: http_host_state.splits)

lemma host_loop_other:
  "host_loop cs p s u = (r, u') \<Longrightarrow> f \<notin> host_fields \<Longrightarrow>
     has_field f u' = has_field f u \<and> f_off f u' = f_off f u \<and> f_len f u' = f_len f u"
  by (induction cs arbitrary: p s u) (auto simp: Let_def host_mark_other split: if_splits)

lemma split_at: "o0 + n \<le> length buf \<Longrightarrow> buf = take o0 buf @ take n (drop o0 buf) @ drop (o0 + n) buf"
  by (metis append_take_drop_id drop_drop add.commute)

lemma http_parse_host_ok:
  assumes "within UNIV (length buf) u" "has_field UF_HOST u" "\<not> has_field UF_PORT u" "\<not> has_field UF_USERINFO u"
    and "length buf < 2 ^ 16"
  shows "\<exists>r u'. http_parse_host buf u at = Inr (r, u') \<and> within UNIV (length buf) u' \<and>
     (r = 0 \<longrightarrow> has_field UF_PORT u' \<longrightarrow> port_digits buf u')"
proof -
  define o0 n where "o0 = f_off UF_HOST u" and "n = f_len UF_HOST u"
  define pre cs post where "pre = take o0 buf" and "cs = take n (drop o0 buf)" and "post = drop (o0 + n) buf"
  define s where "s = (if at then s_http_userinfo_start else s_http_host_start)"
  let ?u = "set_len UF_HOST 0 u"
  have le: "o0 + n \<le> length buf" unfolding o0_def n_def using assms(1,2) by (auto dest: withinD)
  have buf: "buf = pre @ cs @ post" "length pre = o0" "length cs = n"
    unfolding pre_def cs_def post_def using le split_at[OF le] by simp_all
  obtain r u1 where lp: "host_loop cs (length pre) s ?u = (r, u1)" by fastforce
  have run: "http_parse_host buf u at = (case r of None \<Rightarrow> Inr (1, u1) | Some s' \<Rightarrow> Inr (if bad_host_end s' then 1 else 0, u1))"
  proof -
    have "mem_read o0 n buf = Inr cs" using le by (simp add: mem_read_def cs_def)
    then show ?thesis
      using assms(2) lp unfolding http_parse_host_def buf(2) s_def o0_def n_def f_off_def f_len_def
      by (simp add: Let_def split: option.splits)
  qed
  have "s \<noteq> s_http_host_port" "s \<noteq> s_http_userinfo" by (auto simp: s_def)
  then have "host_inv (pre @ cs @ post) (length pre) s ?u"
    using assms(2-4) buf(2) by (auto simp: host_inv_def within_def host_fields_def o0_def)
  from host_loop_ok[OF this _ lp] le assms(5) buf have
    fin: "within host_fields (o0 + n) u1" and st: "case r of None \<Rightarrow> True | Some s' \<Rightarrow> host_inv buf (o0 + n) s' u1"
    by auto
  have "within UNIV (length buf) u1"
    unfolding within_def
  proof (intro ballI impI)
    fix f assume f: "has_field f u1"
    show "f_off f u1 + f_len f u1 \<le> length buf"
      using withinD[OF fin _ f] le host_loop_other[OF lp, of f] f assms(1)
      by (cases "f \<in> host_fields") (auto simp: within_def host_fields_def)
  qed
  with run st show ?thesis by (auto simp: host_inv_def split: option.splits)
qed

lemma port_loop_value:
  "port_loop cs v = Some w \<Longrightarrow> v \<le> 65535 \<Longrightarrow> w = foldl (\<lambda>v c. v * 10 + digit c) v cs \<and> w \<le> 65535"
  by (induction cs arbitrary: v) (auto simp: Let_def split: if_splits)

lemma http_parser_parse_url_ok:
  assumes "length buf < 2 ^ 16"
  shows "\<exists>r u'. http_parser_parse_url buf conn u = Inr (r, u') \<and>
     (r = 0 \<longrightarrow> within UNIV (length buf) u' \<and>
        (has_field UF_PORT u' \<longrightarrow> port_digits buf u' \<and>
           unat (port u') = foldl (\<lambda>v c. v * 10 + digit c) 0 (take (f_len UF_PORT u') (drop (f_off UF_PORT u') buf))))"
proof (cases "buf = []")
  case True
  then show ?thesis by (simp add: http_parser_parse_url_def)
next
  case False
  let ?u = "u\<lparr>port := 0, field_set := 0\<rparr>" let ?s = "if conn then s_req_server_start else s_req_spaces_before_url"
  have none: "\<not> has_field f ?u" for f by (simp add: has_field_def)
  then have "within UNIV 0 ?u" by (simp add: within_def)
  from url_loop_ok[OF _ this, of buf UF_MAX ?s False] assms none obtain r u1 where
    lp: "url_loop buf 0 ?s UF_MAX False ?u = Inr (r, u1)" "within UNIV (length buf) u1"
      "\<not> has_field UF_PORT u1" "\<not> has_field UF_USERINFO u1" by auto
  have port: "\<exists>r u'. parse_port buf u2 = Inr (r, u') \<and> (r = 0 \<longrightarrow> within UNIV (length buf) u' \<and>
        (has_field UF_PORT u' \<longrightarrow> port_digits buf u' \<and>
           unat (port u') = foldl (\<lambda>v c. v * 10 + digit c) 0 (take (f_len UF_PORT u') (drop (f_off UF_PORT u') buf))))"
    if w: "within UNIV (length buf) u2" and d: "has_field UF_PORT u2 \<longrightarrow> port_digits buf u2" for u2
  proof (cases "has_field UF_PORT u2")
    case True
    let ?bs = "take (f_len UF_PORT u2) (drop (f_off UF_PORT u2) buf)"
    have keep: "within UNIV (length buf) (u2\<lparr>port := v\<rparr>)" "port_digits buf (u2\<lparr>port := v\<rparr>)"
        "f_off UF_PORT (u2\<lparr>port := v\<rparr>) = f_off UF_PORT u2" "f_len UF_PORT (u2\<lparr>port := v\<rparr>) = f_len UF_PORT u2" for v
      using w d True by (auto simp: within_def port_digits_def f_off_def f_len_def has_field_def)
    have "f_off UF_PORT u2 + f_len UF_PORT u2 \<le> length buf" using w True by (auto dest: withinD)
    then have pp: "parse_port buf u2 = (case port_loop ?bs 0 of None \<Rightarrow> Inr (1, u2) | Some v \<Rightarrow> Inr (0, u2\<lparr>port := of_nat v\<rparr>))"
      using True by (simp add: parse_port_def f_off_def f_len_def Let_def)
    show ?thesis
    proof (cases "port_loop ?bs 0")
      case None
      then show ?thesis using pp by simp
    next
      case (Some v)
      then have "v = foldl (\<lambda>v c. v * 10 + digit c) 0 ?bs" "v \<le> 65535"
        using port_loop_value[OF Some] by auto
      then show ?thesis using pp Some keep by (simp add: unat_of_nat)
    qed
  qed (use w in \<open>simp add: parse_port_def\<close>)
  have rest: "\<exists>r2 u2. (if has_field UF_HOST u1 then http_parse_host buf u1 at else Inr (0, u1)) = Inr (r2, u2) \<and>
     within UNIV (length buf) u2 \<and> (r2 = 0 \<longrightarrow> has_field UF_PORT u2 \<longrightarrow> port_digits buf u2)" for at
    using http_parse_host_ok[OF lp(2) _ lp(3,4) assms] lp by auto
  show ?thesis
  proof (cases r)
    case None
    then show ?thesis using False lp by (simp add: http_parser_parse_url_def)
  next
    case (Some at)
    from rest[of at] obtain r2 u2 where
      "(if has_field UF_HOST u1 then http_parse_host buf u1 at else Inr (0, u1)) = Inr (r2, u2)"
      "within UNIV (length buf) u2" "r2 = 0 \<longrightarrow> has_field UF_PORT u2 \<longrightarrow> port_digits buf u2" by blast
    then show ?thesis using False lp(1) Some port[of u2] by (auto simp: http_parser_parse_url_def)
  qed
qed


section \<open>Parsing a printed URL\<close>

text \<open>The structure as a map from the fields that are set to offset and length.\<close>

definition fv :: "http_parser_url \<Rightarrow> http_parser_url_fields \<rightharpoonup> nat \<times> nat" where
  "fv u f = (if has_field f u then Some (f_off f u, f_len f u) else None)"

lemma fv_inc: "fv u f = Some (q, n) \<Longrightarrow> n < 2 ^ 16 - 1 \<Longrightarrow> fv (inc_len f u) = (fv u)(f \<mapsto> (q, n + 1))"
  by (rule ext) (auto simp: fv_def f_len_inc split: if_splits)

lemma fv_new: "p < 2 ^ 16 \<Longrightarrow> fv (add_field f (set_len f 1 (set_off f p u))) = (fv u)(f \<mapsto> (p, 1))"
  by (rule ext) (auto simp: fv_def)

lemma fv_fresh: "p < 2 ^ 16 \<Longrightarrow> fv (inc_len f (add_field f (set_len f 0 (set_off f p u)))) = (fv u)(f \<mapsto> (p, 1))"
  by (subst fv_inc[of _ _ p 0]) (auto simp: fv_def fun_eq_iff)

lemma fv_move: "p < 2 ^ 16 \<Longrightarrow> fv u f = Some (q, 0) \<Longrightarrow> fv (inc_len f (set_off f p u)) = (fv u)(f \<mapsto> (p, 1))"
  by (subst fv_inc[of _ _ p 0]) (auto simp: fv_def fun_eq_iff split: if_splits)

lemma url_same_run:
  assumes "list_all (\<lambda>c. parse_url_char s c = s) cs" "s \<noteq> s_dead" "\<not> is_delimiter s" "url_field_of s = Some uf"
    "s \<noteq> s_req_server_with_at" "fv u uf = Some (q, n)" "n + length cs < 2 ^ 16"
  shows "\<exists>u1. url_loop (cs @ rest) p s uf at u = url_loop rest (p + length cs) s uf at u1 \<and>
     fv u1 = (fv u)(uf \<mapsto> (q, n + length cs))"
  using assms(1,6,7)
proof (induction cs arbitrary: p u n)
  case Nil
  then show ?case by (auto intro!: exI[of _ u])
next
  case (Cons c cs)
  have f: "fv (inc_len uf u) = (fv u)(uf \<mapsto> (q, n + 1))" using Cons.prems by (intro fv_inc) simp_all
  then have g: "fv (inc_len uf u) uf = Some (q, n + 1)" by simp
  have "n + 1 + length cs < 2 ^ 16" using Cons.prems(3) by simp
  from Cons.IH[OF _ g this, of "p + 1"] Cons.prems(1) obtain u1 where
    "url_loop (cs @ rest) (p + 1) s uf at (inc_len uf u) = url_loop rest (p + 1 + length cs) s uf at u1"
    "fv u1 = (fv (inc_len uf u))(uf \<mapsto> (q, n + 1 + length cs))" by (auto simp del: fun_upd_apply)
  then show ?case using Cons.prems(1) assms(2-5) by (intro exI[of _ u1]) (simp add: Let_def f)
qed

lemma url_run:
  assumes "parse_url_char s c = s'" "list_all (\<lambda>c. parse_url_char s' c = s') cs" "s' \<noteq> s_dead" "\<not> is_delimiter s'"
    "url_field_of s' = Some uf" "s' \<noteq> s_req_server_with_at" "uf \<noteq> old" "p + length (c # cs) < 2 ^ 16"
  shows "\<exists>u1. url_loop (c # cs @ rest) p s old at u = url_loop rest (p + length (c # cs)) s' uf at u1 \<and>
     fv u1 = (fv u)(uf \<mapsto> (p, length (c # cs)))"
proof -
  let ?u = "add_field uf (set_len uf 1 (set_off uf p u))"
  have f: "fv ?u = (fv u)(uf \<mapsto> (p, 1))" using assms(8) by (intro fv_new) simp
  from url_same_run[OF assms(2-6), of ?u p 1 rest "p + 1" at] f assms(8) obtain u1 where
    "url_loop (cs @ rest) (p + 1) s' uf at ?u = url_loop rest (p + 1 + length cs) s' uf at u1"
    "fv u1 = (fv u)(uf \<mapsto> (p, 1 + length cs))" by auto
  then show ?thesis using assms(1,3-7) by (auto simp: Let_def)
qed

lemma url_delim:
  "parse_url_char s c = s' \<Longrightarrow> is_delimiter s' \<Longrightarrow> url_loop (c # cs) p s old at u = url_loop cs (p + 1) s' old at u"
  by (auto simp: Let_def is_delimiter_def)

lemma host_run:
  assumes "list_all IS_HOST_CHAR cs" "fv u UF_HOST = Some (q, n)" "n + length cs < 2 ^ 16"
  shows "\<exists>u1. host_loop (cs @ rest) p s_http_host u = host_loop rest (p + length cs) s_http_host u1 \<and>
     fv u1 = (fv u)(UF_HOST \<mapsto> (q, n + length cs))"
  using assms
proof (induction cs arbitrary: p u n)
  case Nil
  then show ?case by (auto intro!: exI[of _ u])
next
  case (Cons c cs)
  have f: "fv (inc_len UF_HOST u) = (fv u)(UF_HOST \<mapsto> (q, n + 1))" using Cons.prems by (intro fv_inc) simp_all
  then have g: "fv (inc_len UF_HOST u) UF_HOST = Some (q, n + 1)" by simp
  have "n + 1 + length cs < 2 ^ 16" using Cons.prems(3) by simp
  from Cons.IH[OF _ g this, of "p + 1"] Cons.prems(1) obtain u1 where
    "host_loop (cs @ rest) (p + 1) s_http_host (inc_len UF_HOST u) = host_loop rest (p + 1 + length cs) s_http_host u1"
    "fv u1 = (fv (inc_len UF_HOST u))(UF_HOST \<mapsto> (q, n + 1 + length cs))" by (auto simp del: fun_upd_apply)
  then show ?case using Cons.prems(1)
    by (intro exI[of _ u1]) (simp add: Let_def f http_parse_host_char_def host_mark_def)
qed

lemma port_run:
  assumes "list_all IS_NUM cs" "fv u UF_PORT = Some (q, n)" "n + length cs < 2 ^ 16"
  shows "\<exists>u1. host_loop cs p s_http_host_port u = (Some s_http_host_port, u1) \<and>
     fv u1 = (fv u)(UF_PORT \<mapsto> (q, n + length cs))"
  using assms
proof (induction cs arbitrary: p u n)
  case Nil
  then show ?case by (auto intro!: exI[of _ u])
next
  case (Cons c cs)
  have f: "fv (inc_len UF_PORT u) = (fv u)(UF_PORT \<mapsto> (q, n + 1))" using Cons.prems by (intro fv_inc) simp_all
  then have g: "fv (inc_len UF_PORT u) UF_PORT = Some (q, n + 1)" by simp
  have "n + 1 + length cs < 2 ^ 16" using Cons.prems(3) by simp
  from Cons.IH[OF _ g this, of "p + 1"] Cons.prems(1) obtain u1 where
    "host_loop cs (p + 1) s_http_host_port (inc_len UF_PORT u) = (Some s_http_host_port, u1)"
    "fv u1 = (fv (inc_len UF_PORT u))(UF_PORT \<mapsto> (q, n + 1 + length cs))" by (auto simp del: fun_upd_apply)
  then show ?case using Cons.prems(1)
    by (intro exI[of _ u1]) (simp add: Let_def f http_parse_host_char_def host_mark_def)
qed

lemma host_port_run:
  assumes "host = h # hs" "list_all IS_HOST_CHAR host" "ds = d # ds'" "list_all IS_NUM ds"
    and "fv u UF_HOST = Some (q, 0)" "p + length host + length ds + 1 < 2 ^ 16"
  shows "\<exists>u1. host_loop (host @ '':'' @ ds) p s_http_host_start u = (Some s_http_host_port, u1) \<and>
     fv u1 = (fv u)(UF_HOST \<mapsto> (p, length host), UF_PORT \<mapsto> (p + length host + 1, length ds))"
proof -
  let ?u0 = "inc_len UF_HOST (set_off UF_HOST p u)"
  have f0: "fv ?u0 = (fv u)(UF_HOST \<mapsto> (p, 1))" using assms(5,6) by (intro fv_move) simp_all
  have nb: "h \<noteq> CHR ''[''" using assms(1,2) by (auto simp: IS_HOST_CHAR_def IS_ALPHANUM_def IS_ALPHA_def IS_NUM_def LOWER_def)
  from host_run[of hs ?u0 p 1 "'':'' @ ds" "p + 1"] f0 assms(1,2,6) obtain u1 where
    u1: "host_loop (hs @ '':'' @ ds) (p + 1) s_http_host ?u0 = host_loop ('':'' @ ds) (p + length host) s_http_host u1"
      "fv u1 = (fv u)(UF_HOST \<mapsto> (p, length host))" by auto
  have nh: "\<not> IS_HOST_CHAR CHR '':''" by code_simp
  let ?q = "p + length host + 1"
  let ?u2 = "inc_len UF_PORT (add_field UF_PORT (set_len UF_PORT 0 (set_off UF_PORT ?q u1)))"
  have f2: "fv ?u2 = (fv u1)(UF_PORT \<mapsto> (?q, 1))" using assms(6) by (intro fv_fresh) simp
  from port_run[of ds' ?u2 ?q 1 "?q + 1"] f2 assms(3,4,6) obtain u3 where
    u3: "host_loop ds' (?q + 1) s_http_host_port ?u2 = (Some s_http_host_port, u3)" "fv u3 = (fv u1)(UF_PORT \<mapsto> (?q, length ds))"
    by auto
  have "host_loop (host @ '':'' @ ds) p s_http_host_start u = (Some s_http_host_port, u3)"
    using u1(1) u3(1) nb nh assms(1-4) by (simp add: Let_def http_parse_host_char_def host_mark_def)
  with u3 u1 show ?thesis by auto
qed


lemma special_chars:
  "\<not> IS_HOST_CHAR CHR '' ''" "\<not> IS_HOST_CHAR CR" "\<not> IS_HOST_CHAR LF" "\<not> IS_HOST_CHAR TAB" "\<not> IS_HOST_CHAR (CHR 0x0C)"
  "\<not> IS_HOST_CHAR CHR ''/''" "\<not> IS_HOST_CHAR CHR ''?''" "\<not> IS_HOST_CHAR CHR ''@''"
  "\<not> IS_NUM CHR '' ''" "\<not> IS_NUM CR" "\<not> IS_NUM LF" "\<not> IS_NUM TAB" "\<not> IS_NUM (CHR 0x0C)"
  "\<not> IS_NUM CHR ''/''" "\<not> IS_NUM CHR ''?''" "\<not> IS_NUM CHR ''@''"
  "\<not> IS_ALPHA CHR '' ''" "\<not> IS_ALPHA CR" "\<not> IS_ALPHA LF" "\<not> IS_ALPHA TAB" "\<not> IS_ALPHA (CHR 0x0C)"
  "\<not> IS_ALPHA CHR ''/''" "\<not> IS_ALPHA CHR ''*''" "\<not> IS_ALPHA CHR '':''"
  "\<not> IS_URL_CHAR CHR '' ''" "\<not> IS_URL_CHAR CR" "\<not> IS_URL_CHAR LF" "\<not> IS_URL_CHAR TAB" "\<not> IS_URL_CHAR (CHR 0x0C)"
  by code_simp+

lemma server_char:
  assumes "IS_HOST_CHAR c \<or> IS_NUM c \<or> c = CHR '':''" "s = s_req_server \<or> s = s_req_server_start"
  shows "parse_url_char s c = s_req_server"
proof -
  have "IS_USERINFO_CHAR c" using assms(1)
    by (auto simp: IS_USERINFO_CHAR_def IS_HOST_CHAR_def IS_ALPHANUM_def IS_MARK_def)
  moreover have "c \<notin> {CHR '' '', CR, LF, TAB, CHR 0x0C, CHR ''/'', CHR ''?'', CHR ''@''}"
    using assms(1) special_chars by auto
  ultimately show ?thesis using assms(2) by (elim disjE) (simp_all add: parse_url_char_def)
qed

lemma schema_char:
  assumes "IS_ALPHA c" "s = s_req_schema \<or> s = s_req_spaces_before_url"
  shows "parse_url_char s c = s_req_schema"
proof -
  have "c \<notin> {CHR '' '', CR, LF, TAB, CHR 0x0C, CHR ''/'', CHR ''*''}" using assms(1) special_chars by auto
  with assms show ?thesis by (elim disjE) (simp_all add: parse_url_char_def)
qed

lemma path_char: "IS_URL_CHAR c \<Longrightarrow> parse_url_char s_req_path c = s_req_path"
proof -
  assume u: "IS_URL_CHAR c"
  then have "c \<notin> {CHR '' '', CR, LF, TAB, CHR 0x0C}" using special_chars by auto
  with u show ?thesis by (auto simp: parse_url_char_def)
qed

lemma url_delims:
  "parse_url_char s_req_schema CHR '':'' = s_req_schema_slash"
  "parse_url_char s_req_schema_slash CHR ''/'' = s_req_schema_slash_slash"
  "parse_url_char s_req_schema_slash_slash CHR ''/'' = s_req_server_start"
  "parse_url_char s_req_server CHR ''/'' = s_req_path"
  by code_simp+

lemma decimal_mono: "w \<le> foldl (\<lambda>v c. v * 10 + digit c) w ds"
proof (induction ds arbitrary: w)
  case (Cons d ds)
  have "w \<le> w * 10 + digit d" by simp
  also have "\<dots> \<le> foldl (\<lambda>v c. v * 10 + digit c) (w * 10 + digit d) ds" by (rule Cons.IH)
  finally show ?case by simp
qed simp

lemma port_loop_complete:
  "foldl (\<lambda>v c. v * 10 + digit c) v cs \<le> 65535 \<Longrightarrow> port_loop cs v = Some (foldl (\<lambda>v c. v * 10 + digit c) v cs)"
proof (induction cs arbitrary: v)
  case (Cons c cs)
  from decimal_mono[of "v * 10 + digit c" cs] Cons show ?case by (auto simp: Let_def)
qed simp

lemma decimal_show_nat: "foldl (\<lambda>v c. v * 10 + digit c) 0 (show_nat n) = n"
  using read_show_nat[of n] by (simp add: read_nat_def digit_def digit_val_def mult.commute)

lemma show_nat_digits: "list_all IS_NUM (show_nat n)"
proof (induction n rule: show_nat.induct)
  case (1 n)
  have "IS_NUM (digit_char d)" if "d < 10" for d using that by (simp add: IS_NUM_def digit_char_def)
  with 1 show ?case by (cases "n < 10") (simp_all add: show_nat.simps[of n])
qed

lemma show_nat_Cons: "\<exists>d ds. show_nat n = d # ds"
  by (subst show_nat.simps) (auto simp: neq_Nil_conv[symmetric])

lemma url_loop_printed:
  assumes "sch = a # sch'" "list_all IS_ALPHA sch" "auth = h # auth'"
    and "list_all (\<lambda>c. IS_HOST_CHAR c \<or> IS_NUM c \<or> c = CHR '':'') auth" "list_all IS_URL_CHAR pt"
    and "length (sch @ ''://'' @ auth @ ''/'' @ pt) < 2 ^ 16" "fv u = Map.empty"
  shows "\<exists>u1. url_loop (sch @ ''://'' @ auth @ ''/'' @ pt) 0 s_req_spaces_before_url UF_MAX False u = Inr (Some False, u1) \<and>
     fv u1 = [UF_SCHEMA \<mapsto> (0, length sch), UF_HOST \<mapsto> (length sch + 3, length auth),
              UF_PATH \<mapsto> (length sch + 3 + length auth, 1 + length pt)]"
proof -
  let ?p1 = "length sch" let ?p2 = "?p1 + 3" let ?p3 = "?p2 + length auth"
  have l: "list_all (\<lambda>c. parse_url_char s_req_schema c = s_req_schema) sch'"
    "list_all (\<lambda>c. parse_url_char s_req_server c = s_req_server) auth'"
    "list_all (\<lambda>c. parse_url_char s_req_path c = s_req_path) pt"
    using assms(1-5) by (auto simp: list_all_iff schema_char server_char path_char)
  have f: "parse_url_char s_req_spaces_before_url a = s_req_schema" "parse_url_char s_req_server_start h = s_req_server"
    using assms(1-4) by (auto simp: schema_char server_char)
  from url_run[OF f(1) l(1), of UF_SCHEMA UF_MAX 0 "''://'' @ auth @ ''/'' @ pt" False u] assms(1,6,7) obtain u1 where
    u1: "url_loop (sch @ ''://'' @ auth @ ''/'' @ pt) 0 s_req_spaces_before_url UF_MAX False u =
      url_loop (''://'' @ auth @ ''/'' @ pt) ?p1 s_req_schema UF_SCHEMA False u1" "fv u1 = [UF_SCHEMA \<mapsto> (0, length sch)]"
    by (auto simp: is_delimiter_def url_field_of_def simp del: url_loop.simps)
  have d: "url_loop (''://'' @ auth @ ''/'' @ pt) ?p1 s_req_schema UF_SCHEMA False u1 =
      url_loop (auth @ ''/'' @ pt) ?p2 s_req_server_start UF_SCHEMA False u1"
    by (simp add: url_delim url_delims is_delimiter_def numeral_3_eq_3)
  from url_run[OF f(2) l(2), of UF_HOST UF_SCHEMA ?p2 "''/'' @ pt" False u1] assms(3,6) u1(2) obtain u2 where
    u2: "url_loop (auth @ ''/'' @ pt) ?p2 s_req_server_start UF_SCHEMA False u1 =
      url_loop (''/'' @ pt) ?p3 s_req_server UF_HOST False u2" "fv u2 = [UF_SCHEMA \<mapsto> (0, length sch), UF_HOST \<mapsto> (?p2, length auth)]"
    by (auto simp: is_delimiter_def url_field_of_def simp del: url_loop.simps fun_upd_apply)
  from url_run[OF url_delims(4) l(3), of UF_PATH UF_HOST ?p3 "[]" False u2] assms(6) u2(2) obtain u3 where
    u3: "url_loop (''/'' @ pt) ?p3 s_req_server UF_HOST False u2 = Inr (Some False, u3)"
      "fv u3 = [UF_SCHEMA \<mapsto> (0, length sch), UF_HOST \<mapsto> (?p2, length auth), UF_PATH \<mapsto> (?p3, 1 + length pt)]"
    by (auto simp: is_delimiter_def url_field_of_def simp del: fun_upd_apply)
  show ?thesis using u1(1) d u2(1) u3 by metis
qed


definition field_text :: "char list \<Rightarrow> http_parser_url_fields \<Rightarrow> http_parser_url \<Rightarrow> char list option" where
  "field_text buf f u = (if has_field f u then Some (take (f_len f u) (drop (f_off f u) buf)) else None)"

lemma take_drop_mid: "take (length x) (drop (length pre) (pre @ x @ post)) = x"
  by simp

lemma field_text_fv: "field_text buf f u = (case fv u f of None \<Rightarrow> None | Some (q, n) \<Rightarrow> Some (take n (drop q buf)))"
  by (simp add: field_text_def fv_def)

lemma fv_set_len0: "fv u UF_HOST = Some (q, n) \<Longrightarrow> fv (set_len UF_HOST 0 u) = (fv u)(UF_HOST \<mapsto> (q, 0))"
  by (rule ext) (auto simp: fv_def split: if_splits)

text \<open>C16: Parsing a URL is memory safe and reports fields that exist: for any buffer shorter than 64 KiB
  no assertion fails and no byte outside the buffer is read; when the parser accepts, every field it
  reports lies inside the buffer, a reported port field consists of digits only, and the port number
  is their decimal value (so it is at most 65535).\<close>

theorem parse_url_fields_in_buffer:
  assumes "length buf < 2 ^ 16"
  shows "\<exists>r u'. http_parser_parse_url buf is_connect u = Inr (r, u') \<and>
     (r = 0 \<longrightarrow> (\<forall>f. has_field f u' \<longrightarrow> f_off f u' + f_len f u' \<le> length buf) \<and>
        (\<forall>ds. field_text buf UF_PORT u' = Some ds \<longrightarrow>
           list_all IS_NUM ds \<and> unat (port u') = foldl (\<lambda>v c. v * 10 + digit c) 0 ds))"
proof -
  from http_parser_parse_url_ok[OF assms, of is_connect u] obtain r u' where
    "http_parser_parse_url buf is_connect u = Inr (r, u')"
    "r = 0 \<longrightarrow> within UNIV (length buf) u' \<and> (has_field UF_PORT u' \<longrightarrow> port_digits buf u' \<and>
       unat (port u') = foldl (\<lambda>v c. v * 10 + digit c) 0 (take (f_len UF_PORT u') (drop (f_off UF_PORT u') buf)))" by blast
  then show ?thesis by (auto simp: within_def field_text_def port_digits_def)
qed

theorem parse_url_fields_in_buffer_witness:
  "\<exists>r u'. http_parser_parse_url ''http://a:80/'' False http_parser_url_init = Inr (r, u') \<and>
     (r = 0 \<longrightarrow> (\<forall>f. has_field f u' \<longrightarrow> f_off f u' + f_len f u' \<le> length ''http://a:80/'') \<and>
        (\<forall>ds. field_text ''http://a:80/'' UF_PORT u' = Some ds \<longrightarrow>
           list_all IS_NUM ds \<and> unat (port u') = foldl (\<lambda>v c. v * 10 + digit c) 0 ds))"
  by (rule parse_url_fields_in_buffer) simp

lemma parse_url_port:
  assumes "sch \<noteq> []" "list_all IS_ALPHA sch" "host \<noteq> []" "list_all IS_HOST_CHAR host" "n \<le> 65535"
    and "list_all IS_URL_CHAR pt"
    and "buf = sch @ ''://'' @ host @ '':'' @ show_nat n @ ''/'' @ pt" "length buf < 2 ^ 16"
  shows "\<exists>u'. http_parser_parse_url buf False u = Inr (0, u') \<and> port u' = of_nat n \<and>
     field_text buf UF_SCHEMA u' = Some sch \<and> field_text buf UF_HOST u' = Some host \<and>
     field_text buf UF_PORT u' = Some (show_nat n) \<and> field_text buf UF_PATH u' = Some (''/'' @ pt) \<and>
     field_text buf UF_QUERY u' = None \<and> field_text buf UF_FRAGMENT u' = None \<and> field_text buf UF_USERINFO u' = None"
proof -
  let ?ds = "show_nat n" let ?auth = "host @ '':'' @ ?ds"
  let ?u = "u\<lparr>port := 0, field_set := 0\<rparr>"
  obtain a sch' h hs d ds' where c: "sch = a # sch'" "host = h # hs" "?ds = d # ds'"
    using assms(1,3) show_nat_Cons[of n] by (auto simp: neq_Nil_conv)
  have buf: "buf = sch @ ''://'' @ ?auth @ ''/'' @ pt" using assms(7) by simp
  have "list_all (\<lambda>c. IS_HOST_CHAR c \<or> IS_NUM c \<or> c = CHR '':'') ?auth"
    using assms(4) show_nat_digits[of n] by (auto simp: list_all_iff)
  moreover have "fv ?u = Map.empty" by (simp add: fv_def has_field_def fun_eq_iff)
  ultimately obtain u1 where
    u1: "url_loop buf 0 s_req_spaces_before_url UF_MAX False ?u = Inr (Some False, u1)"
    and f1: "fv u1 = [UF_SCHEMA \<mapsto> (0, length sch), UF_HOST \<mapsto> (length sch + 3, length ?auth),
              UF_PATH \<mapsto> (length sch + 3 + length ?auth, 1 + length pt)]"
    using url_loop_printed[OF c(1) assms(2), of ?auth h "hs @ '':'' @ ?ds" pt ?u] c(2) assms(6,8) buf by auto
  have has: "has_field f u1 \<longleftrightarrow> fv u1 f \<noteq> None" for f by (simp add: fv_def)
  have h0: "f_off UF_HOST u1 = length sch + 3" "f_len UF_HOST u1 = length ?auth"
    using f1 by (auto simp: fv_def fun_eq_iff dest!: spec[of _ UF_HOST] split: if_splits)
  have rd: "mem_read (length sch + 3) (length ?auth) buf = Inr ?auth"
    by (simp add: mem_read_def buf)
  let ?u1 = "set_len UF_HOST 0 u1"
  have g: "fv ?u1 = (fv u1)(UF_HOST \<mapsto> (length sch + 3, 0))" by (rule fv_set_len0) (simp add: f1)
  have g0: "fv ?u1 UF_HOST = Some (length sch + 3, 0)" by (simp add: g)
  have "length sch + 3 + length host + length ?ds + 1 < 2 ^ 16" using assms(8) buf by simp
  from host_port_run[OF c(2) assms(4) c(3) show_nat_digits g0 this] obtain u2 where
    u2: "host_loop ?auth (length sch + 3) s_http_host_start ?u1 = (Some s_http_host_port, u2)"
    and f2: "fv u2 = (fv u1)(UF_HOST \<mapsto> (length sch + 3, length host), UF_PORT \<mapsto> (length sch + 3 + length host + 1, length ?ds))"
    by (auto simp: g simp del: fun_upd_apply)
  have hp: "http_parse_host buf u1 False = Inr (0, u2)"
    using rd u2 h0 has[of UF_HOST] f1 by (simp add: http_parse_host_def f_off_def f_len_def bad_host_end_def Let_def)
  have p2: "has_field UF_PORT u2" "f_off UF_PORT u2 = length sch + 3 + length host + 1" "f_len UF_PORT u2 = length ?ds"
    using f2 by (auto simp: fv_def fun_eq_iff dest!: spec[of _ UF_PORT] split: if_splits)
  have "take (length ?ds) (drop (length sch + 3 + length host + 1) buf) = ?ds"
    using take_drop_mid[of ?ds "sch @ ''://'' @ host @ '':''" "''/'' @ pt"] by (simp add: buf numeral_eq_Suc)
  then have "parse_port buf u2 = Inr (0, u2\<lparr>port := of_nat n\<rparr>)"
    using p2 port_loop_complete[of 0 ?ds] assms(5) decimal_show_nat[of n]
    by (simp add: parse_port_def f_off_def f_len_def Let_def) (simp add: buf)
  then have "http_parser_parse_url buf False u = Inr (0, u2\<lparr>port := of_nat n\<rparr>)"
    using u1 hp has f1 c(1) by (simp add: http_parser_parse_url_def buf)
  moreover have "fv (u2\<lparr>port := of_nat n\<rparr>) = fv u2" by (simp add: fv_def has_field_def f_off_def f_len_def fun_eq_iff)
  ultimately show ?thesis by (simp add: field_text_fv f2 f1 buf numeral_eq_Suc)
qed

text \<open>C25: An absolute URL printed from a scheme, a host name, a port number and a path is accepted and
  split back into exactly these parts: the four fields are the printed texts, no other field is
  reported, and the port is the printed number.\<close>

theorem parse_url_printed:
  assumes "sch \<noteq> []" "list_all IS_ALPHA sch" "host \<noteq> []" "list_all IS_HOST_CHAR host" "n \<le> 65535"
    and "list_all IS_URL_CHAR pt"
    and "buf = sch @ ''://'' @ host @ '':'' @ show_nat n @ ''/'' @ pt" "length buf < 2 ^ 16"
  shows "\<exists>u'. http_parser_parse_url buf False u = Inr (0, u') \<and> port u' = of_nat n \<and>
     field_text buf UF_SCHEMA u' = Some sch \<and> field_text buf UF_HOST u' = Some host \<and>
     field_text buf UF_PORT u' = Some (show_nat n) \<and> field_text buf UF_PATH u' = Some (''/'' @ pt) \<and>
     field_text buf UF_QUERY u' = None \<and> field_text buf UF_FRAGMENT u' = None \<and> field_text buf UF_USERINFO u' = None"
  using parse_url_port[OF assms] .

theorem parse_url_printed_witness:
  "\<exists>u'. http_parser_parse_url ''http://ab.c:80/x'' False http_parser_url_init = Inr (0, u') \<and> port u' = of_nat 80 \<and>
     field_text ''http://ab.c:80/x'' UF_SCHEMA u' = Some ''http'' \<and> field_text ''http://ab.c:80/x'' UF_HOST u' = Some ''ab.c'' \<and>
     field_text ''http://ab.c:80/x'' UF_PORT u' = Some (show_nat 80) \<and> field_text ''http://ab.c:80/x'' UF_PATH u' = Some (''/'' @ ''x'') \<and>
     field_text ''http://ab.c:80/x'' UF_QUERY u' = None \<and> field_text ''http://ab.c:80/x'' UF_FRAGMENT u' = None \<and>
     field_text ''http://ab.c:80/x'' UF_USERINFO u' = None"
proof -
  have s: "show_nat 80 = ''80''" "list_all IS_ALPHA ''http''" "list_all IS_HOST_CHAR ''ab.c''" "list_all IS_URL_CHAR ''x''" by code_simp+
  show ?thesis by (rule parse_url_printed[OF _ s(2) _ s(3) _ s(4)]) (simp_all add: s(1))
qed


end
