(* ===== verification/HP_Execute.thy ===== *)
theory HP_Execute
  imports HP_Url
begin

text \<open>
  \<^verbatim>\<open>http_parser_execute\<close>: the request and response parser of \<^verbatim>\<open>http_parser.c\<close>, one function per state or
  group of states of its \<^verbatim>\<open>switch\<close>. The locals of the C function are the record \<open>exec\<close>; \<open>pos\<close> is \<^verbatim>\<open>p - data\<close> and
  a mark is the offset it points to. A state's code ends in one of five ways (\<open>outcome\<close>): \<^verbatim>\<open>break\<close> to the
  next byte, \<^verbatim>\<open>goto reexecute\<close>, \<^verbatim>\<open>return\<close>, \<^verbatim>\<open>goto error\<close>, or a failed assertion, a read outside a string or
  the data, or a range outside the data shown to a callback.
  The macros that leave the function take the rest of the state's code as a continuation.
\<close>

section \<open>Local state and macros\<close>

datatype mark = M_header_field | M_header_value | M_url | M_body | M_status

record 'u exec =
  prs :: "'u http_parser"
  p_state :: state
  nrd :: "32 word"
  pos :: nat
  marks :: "mark \<Rightarrow> nat option"

record 'u env =
  settings :: "'u http_parser_settings"
  data :: "char list"
  max_header_size :: "32 word"
  lenient :: bool

abbreviation dlen :: "'u env \<Rightarrow> nat" where
  "dlen e \<equiv> length (data e)"

text \<open>\<^verbatim>\<open>*p\<close>: reading outside the data is an error of the model.\<close>

definition byte_at :: "char list \<Rightarrow> nat \<Rightarrow> char res" where
  "byte_at d q = (if q < length d then Inr (d ! q) else Inl OutOfBounds)"

lemma byte_at_Inr [simp]: "q < length d \<Longrightarrow> byte_at d q = Inr (d ! q)"
  by (simp add: byte_at_def)

lemma byte_at_InrD: "byte_at d q = Inr ch \<Longrightarrow> q < length d \<and> ch = d ! q"
  by (simp add: byte_at_def split: if_splits)

datatype 'u outcome =
    Next "'u exec"
  | Reexec "'u exec"
  | Return nat "'u http_parser"
  | Error "'u exec"
  | Stuck cxx_error

definition SET_ERRNO :: "http_errno \<Rightarrow> 'u exec \<Rightarrow> 'u exec" where
  "SET_ERRNO err x = x\<lparr>prs := (prs x)\<lparr>nread := nrd x, http_errno := err\<rparr>\<rparr>"

definition fail :: "http_errno \<Rightarrow> 'u exec \<Rightarrow> 'u outcome" where
  "fail err x = Error (SET_ERRNO err x)"

definition UPDATE_STATE :: "state \<Rightarrow> 'u exec \<Rightarrow> 'u exec" where
  "UPDATE_STATE s x = x\<lparr>p_state := s\<rparr>"

definition upd :: "('u http_parser \<Rightarrow> 'u http_parser) \<Rightarrow> 'u exec \<Rightarrow> 'u exec" where
  "upd f x = x\<lparr>prs := f (prs x)\<rparr>"

definition RETURN :: "nat \<Rightarrow> 'u exec \<Rightarrow> 'u outcome" where
  "RETURN v x = Return v ((prs x)\<lparr>nread := nrd x, state := p_state x\<rparr>)"

definition MARK :: "mark \<Rightarrow> 'u exec \<Rightarrow> 'u exec" where
  "MARK m x = (if marks x m = None then x\<lparr>marks := (marks x)(m := Some (pos x))\<rparr> else x)"

definition STRICT_CHECK :: "bool \<Rightarrow> 'u exec \<Rightarrow> ('u exec \<Rightarrow> 'u outcome) \<Rightarrow> 'u outcome" where
  "STRICT_CHECK cond x k = (if cond then fail HPE_STRICT x else k x)"

definition COUNT_HEADER_SIZE :: "'u env \<Rightarrow> nat \<Rightarrow> 'u exec \<Rightarrow> ('u exec \<Rightarrow> 'u outcome) \<Rightarrow> 'u outcome" where
  "COUNT_HEADER_SIZE e v x k =
     (let x1 = x\<lparr>nrd := nrd x + of_nat v\<rparr> in
      if nrd x1 > max_header_size e then fail HPE_HEADER_OVERFLOW x1 else k x1)"

definition assert :: "bool \<Rightarrow> 'u outcome \<Rightarrow> 'u outcome" where
  "assert b r = (if b then r else Stuck AssertFailed)"

text \<open>After a callback returned \<open>r\<close> with the parser \<open>q\<close>: record an error, take the state over, leave if the
  parser is in error or paused.\<close>

definition after_callback ::
  "http_errno \<Rightarrow> nat \<Rightarrow> int \<Rightarrow> 'u http_parser \<Rightarrow> 'u exec \<Rightarrow> ('u exec \<Rightarrow> 'u outcome) \<Rightarrow> 'u outcome" where
  "after_callback err ret r q x k =
     (let x1 = x\<lparr>prs := q\<rparr>;
          x2 = (if r \<noteq> 0 then SET_ERRNO err x1 else x1);
          x3 = UPDATE_STATE (state (prs x2)) x2
      in if http_errno (prs x3) \<noteq> HPE_OK then Return ret (prs x3) else k x3)"

definition CALLBACK_NOTIFY ::
  "'u http_cb \<Rightarrow> http_errno \<Rightarrow> nat \<Rightarrow> 'u exec \<Rightarrow> ('u exec \<Rightarrow> 'u outcome) \<Rightarrow> 'u outcome" where
  "CALLBACK_NOTIFY cb err ret x k =
     assert (http_errno (prs x) = HPE_OK)
       (case cb of
          None \<Rightarrow> k x
        | Some f \<Rightarrow> (case f ((prs x)\<lparr>state := p_state x\<rparr>) of (r, q) \<Rightarrow> after_callback err ret r q x k))"

fun data_cb :: "'u http_parser_settings \<Rightarrow> mark \<Rightarrow> 'u http_data_cb" where
  "data_cb s M_header_field = on_header_field s"
| "data_cb s M_header_value = on_header_value s"
| "data_cb s M_url = on_url s"
| "data_cb s M_body = on_body s"
| "data_cb s M_status = on_status s"

fun data_err :: "mark \<Rightarrow> http_errno" where
  "data_err M_header_field = HPE_CB_header_field"
| "data_err M_header_value = HPE_CB_header_value"
| "data_err M_url = HPE_CB_url"
| "data_err M_body = HPE_CB_body"
| "data_err M_status = HPE_CB_status"

text \<open>\<open>till\<close> is where the bytes shown to the callback end; they have to lie in the data.\<close>

definition CALLBACK_DATA ::
  "'u env \<Rightarrow> mark \<Rightarrow> nat \<Rightarrow> nat \<Rightarrow> 'u exec \<Rightarrow> ('u exec \<Rightarrow> 'u outcome) \<Rightarrow> 'u outcome" where
  "CALLBACK_DATA e m till ret x k =
     assert (http_errno (prs x) = HPE_OK)
       (case marks x m of
          None \<Rightarrow> k x
        | Some start \<Rightarrow>
            let k' = (\<lambda>y. k (y\<lparr>marks := (marks y)(m := None)\<rparr>)) in
            (case data_cb (settings e) m of
               None \<Rightarrow> k' x
             | Some f \<Rightarrow>
                 if start \<le> till \<and> till \<le> dlen e then
                   (case f ((prs x)\<lparr>state := p_state x\<rparr>) (slice start till (data e)) of
                      (r, q) \<Rightarrow> after_callback (data_err m) ret r q x k')
                 else Stuck OutOfBounds))"

definition is_eol :: "char \<Rightarrow> bool" where
  "is_eol ch \<longleftrightarrow> ch = CR \<or> ch = LF"

section \<open>Start of a message and the response line\<close>

definition new_message :: "'u exec \<Rightarrow> 'u exec" where
  "new_message x = upd (\<lambda>p. p\<lparr>flags := 0, content_length := ULLONG_MAX\<rparr>) x"

definition x_dead :: "char \<Rightarrow> 'u exec \<Rightarrow> 'u outcome" where
  "x_dead ch x = (if is_eol ch then Next x else fail HPE_CLOSED_CONNECTION x)"

definition message_begin :: "'u env \<Rightarrow> 'u exec \<Rightarrow> 'u outcome" where
  "message_begin e x = CALLBACK_NOTIFY (on_message_begin (settings e)) HPE_CB_message_begin (pos x + 1) x Next"

definition x_start_req_or_res :: "'u env \<Rightarrow> char \<Rightarrow> 'u exec \<Rightarrow> 'u outcome" where
  "x_start_req_or_res e ch x =
     (if is_eol ch then Next x
      else let x1 = new_message x in
           if ch = CHR ''H'' then message_begin e (UPDATE_STATE s_res_or_resp_H x1)
           else Reexec (UPDATE_STATE s_start_req (upd (\<lambda>p. p\<lparr>type_of := HTTP_REQUEST\<rparr>) x1)))"

abbreviation HTTP_HEAD :: "8 word" where "HTTP_HEAD \<equiv> 2"
abbreviation HTTP_CONNECT :: "8 word" where "HTTP_CONNECT \<equiv> 5"
abbreviation HTTP_SOURCE :: "8 word" where "HTTP_SOURCE \<equiv> 33"

definition x_res_or_resp_H :: "char \<Rightarrow> 'u exec \<Rightarrow> 'u outcome" where
  "x_res_or_resp_H ch x =
     (if ch = CHR ''T'' then Next (UPDATE_STATE s_res_HT (upd (\<lambda>p. p\<lparr>type_of := HTTP_RESPONSE\<rparr>) x))
      else if ch \<noteq> CHR ''E'' then fail HPE_INVALID_CONSTANT x
      else Next (UPDATE_STATE s_req_method
             (upd (\<lambda>p. p\<lparr>type_of := HTTP_REQUEST, method := HTTP_HEAD, index := 2\<rparr>) x)))"

definition x_start_res :: "'u env \<Rightarrow> char \<Rightarrow> 'u exec \<Rightarrow> 'u outcome" where
  "x_start_res e ch x =
     (if is_eol ch then Next x
      else let x1 = new_message x in
           if ch = CHR ''H'' then message_begin e (UPDATE_STATE s_res_H x1)
           else fail HPE_INVALID_CONSTANT x1)"

text \<open>The states that expect one fixed character.\<close>

definition x_expect :: "char \<Rightarrow> state \<Rightarrow> char \<Rightarrow> 'u exec \<Rightarrow> 'u outcome" where
  "x_expect want s ch x = STRICT_CHECK (ch \<noteq> want) x (\<lambda>x. Next (UPDATE_STATE s x))"

definition digit16 :: "char \<Rightarrow> 16 word" where
  "digit16 ch = of_nat (digit ch)"

definition x_http_major :: "state \<Rightarrow> char \<Rightarrow> 'u exec \<Rightarrow> 'u outcome" where
  "x_http_major s ch x =
     (if \<not> IS_NUM ch then fail HPE_INVALID_VERSION x
      else Next (UPDATE_STATE s (upd (\<lambda>p. p\<lparr>http_major := digit16 ch\<rparr>) x)))"

definition x_http_dot :: "state \<Rightarrow> char \<Rightarrow> 'u exec \<Rightarrow> 'u outcome" where
  "x_http_dot s ch x = (if ch \<noteq> CHR ''.'' then fail HPE_INVALID_VERSION x else Next (UPDATE_STATE s x))"

definition x_http_minor :: "state \<Rightarrow> char \<Rightarrow> 'u exec \<Rightarrow> 'u outcome" where
  "x_http_minor s ch x =
     (if \<not> IS_NUM ch then fail HPE_INVALID_VERSION x
      else Next (UPDATE_STATE s (upd (\<lambda>p. p\<lparr>http_minor := digit16 ch\<rparr>) x)))"

definition x_res_http_end :: "char \<Rightarrow> 'u exec \<Rightarrow> 'u outcome" where
  "x_res_http_end ch x =
     (if ch \<noteq> CHR '' '' then fail HPE_INVALID_VERSION x else Next (UPDATE_STATE s_res_first_status_code x))"

definition x_res_first_status_code :: "char \<Rightarrow> 'u exec \<Rightarrow> 'u outcome" where
  "x_res_first_status_code ch x =
     (if \<not> IS_NUM ch then (if ch = CHR '' '' then Next x else fail HPE_INVALID_STATUS x)
      else Next (UPDATE_STATE s_res_status_code (upd (\<lambda>p. p\<lparr>status_code := digit16 ch\<rparr>) x)))"

definition x_res_status_code :: "char \<Rightarrow> 'u exec \<Rightarrow> 'u outcome" where
  "x_res_status_code ch x =
     (if \<not> IS_NUM ch then
        (if ch = CHR '' '' then Next (UPDATE_STATE s_res_status_start x)
         else if is_eol ch then Reexec (UPDATE_STATE s_res_status_start x)
         else fail HPE_INVALID_STATUS x)
      else let x1 = upd (\<lambda>p. p\<lparr>status_code := status_code p * 10 + digit16 ch\<rparr>) x in
           if status_code (prs x1) > 999 then fail HPE_INVALID_STATUS x1 else Next x1)"

definition x_res_status_start :: "char \<Rightarrow> 'u exec \<Rightarrow> 'u outcome" where
  "x_res_status_start ch x =
     (let x1 = upd (\<lambda>p. p\<lparr>index := 0\<rparr>) (UPDATE_STATE s_res_status (MARK M_status x)) in
      if is_eol ch then Reexec x1 else Next x1)"

definition x_res_status :: "'u env \<Rightarrow> char \<Rightarrow> 'u exec \<Rightarrow> 'u outcome" where
  "x_res_status e ch x =
     (if ch = CR then CALLBACK_DATA e M_status (pos x) (pos x + 1) (UPDATE_STATE s_res_line_almost_done x) Next
      else if ch = LF then CALLBACK_DATA e M_status (pos x) (pos x + 1) (UPDATE_STATE s_header_field_start x) Next
      else Next x)"

section \<open>The request line\<close>

definition first_method :: "char \<Rightarrow> 8 word option" where
  "first_method ch =
     map_of [(CHR ''A'', 19), (CHR ''B'', 16), (CHR ''C'', HTTP_CONNECT), (CHR ''D'', 0), (CHR ''G'', 1),
             (CHR ''H'', HTTP_HEAD), (CHR ''L'', 9), (CHR ''M'', 10), (CHR ''N'', 25), (CHR ''O'', 6),
             (CHR ''P'', 3), (CHR ''R'', 20), (CHR ''S'', 26), (CHR ''T'', 7), (CHR ''U'', 15)] ch"

definition x_start_req :: "'u env \<Rightarrow> char \<Rightarrow> 'u exec \<Rightarrow> 'u outcome" where
  "x_start_req e ch x =
     (if is_eol ch then Next x
      else let x1 = new_message x in
        if \<not> IS_ALPHA ch then fail HPE_INVALID_METHOD x1
        else let x2 = upd (\<lambda>p. p\<lparr>method := 0, index := 1\<rparr>) x1 in
          case first_method ch of
            None \<Rightarrow> fail HPE_INVALID_METHOD x2
          | Some m \<Rightarrow> message_begin e (UPDATE_STATE s_req_method (upd (\<lambda>p. p\<lparr>method := m\<rparr>) x2)))"

text \<open>The switch over method, index and character: how a longer method name branches off.\<close>

definition method_switch :: "(nat \<times> nat \<times> char \<times> 8 word) list" where
  "method_switch =
     [(3, 1, CHR ''U'', 4), (3, 1, CHR ''A'', 28), (3, 1, CHR ''R'', 12), (4, 2, CHR ''R'', 29),
      (5, 1, CHR ''H'', 22), (5, 2, CHR ''P'', 8), (10, 1, CHR ''O'', 11), (10, 1, CHR ''E'', 23),
      (10, 1, CHR ''-'', 24), (10, 2, CHR ''A'', 21), (10, 3, CHR ''A'', 30), (26, 1, CHR ''E'', 14),
      (26, 1, CHR ''O'', 33), (20, 2, CHR ''B'', 17), (12, 4, CHR ''P'', 13), (9, 1, CHR ''I'', 31),
      (15, 2, CHR ''S'', 27), (15, 2, CHR ''B'', 18), (15, 3, CHR ''I'', 32)]"

definition switch_method :: "nat \<Rightarrow> nat \<Rightarrow> char \<Rightarrow> 8 word option" where
  "switch_method m i ch =
     map_option (\<lambda>(_, _, _, n). n) (List.find (\<lambda>(m', i', c, _). m' = m \<and> i' = i \<and> c = ch) method_switch)"

text \<open>A C string literal at an index: its last readable element is the terminating zero.\<close>

definition cstr_at :: "string \<Rightarrow> nat \<Rightarrow> char option" where
  "cstr_at s i = (if i < length s then Some (s ! i) else if i = length s then Some (CHR 0x00) else None)"

definition x_req_method :: "char \<Rightarrow> 'u exec \<Rightarrow> 'u outcome" where
  "x_req_method ch x =
     (if ch = CHR 0x00 then fail HPE_INVALID_METHOD x
      else let m = unat (method (prs x)); i = unat (index (prs x)); inc = upd (\<lambda>p. p\<lparr>index := index p + 1\<rparr>) in
        if \<not> m < length method_strings then Stuck OutOfBounds
        else case cstr_at (method_strings ! m) i of
          None \<Rightarrow> Stuck OutOfBounds
        | Some want \<Rightarrow>
            if ch = CHR '' '' \<and> want = CHR 0x00 then Next (inc (UPDATE_STATE s_req_spaces_before_url x))
            else if ch = want then Next (inc x)
            else if (65 \<le> code ch \<and> code ch \<le> 90) \<or> ch = CHR ''-'' then
              (case switch_method m i ch of
                 None \<Rightarrow> fail HPE_INVALID_METHOD x
               | Some n \<Rightarrow> Next (inc (upd (\<lambda>p. p\<lparr>method := n\<rparr>) x)))
            else fail HPE_INVALID_METHOD x)"

definition url_next :: "char \<Rightarrow> 'u exec \<Rightarrow> 'u outcome" where
  "url_next ch x =
     (let x1 = UPDATE_STATE (parse_url_char (p_state x) ch) x in
      if p_state x1 = s_dead then fail HPE_INVALID_URL x1 else Next x1)"

definition x_req_spaces_before_url :: "char \<Rightarrow> 'u exec \<Rightarrow> 'u outcome" where
  "x_req_spaces_before_url ch x =
     (if ch = CHR '' '' then Next x
      else let x1 = MARK M_url x;
               x2 = (if method (prs x1) = HTTP_CONNECT then UPDATE_STATE s_req_server_start x1 else x1)
           in url_next ch x2)"

definition x_req_schema :: "char \<Rightarrow> 'u exec \<Rightarrow> 'u outcome" where
  "x_req_schema ch x = (if ch = CHR '' '' \<or> is_eol ch then fail HPE_INVALID_URL x else url_next ch x)"

definition x_req_url :: "'u env \<Rightarrow> char \<Rightarrow> 'u exec \<Rightarrow> 'u outcome" where
  "x_req_url e ch x =
     (if ch = CHR '' '' then CALLBACK_DATA e M_url (pos x) (pos x + 1) (UPDATE_STATE s_req_http_start x) Next
      else if is_eol ch then
        CALLBACK_DATA e M_url (pos x) (pos x + 1)
          (UPDATE_STATE (if ch = CR then s_req_line_almost_done else s_header_field_start)
            (upd (\<lambda>p. p\<lparr>http_major := 0, http_minor := 9\<rparr>) x)) Next
      else url_next ch x)"

definition x_req_http_start :: "char \<Rightarrow> 'u exec \<Rightarrow> 'u outcome" where
  "x_req_http_start ch x =
     (if ch = CHR '' '' then Next x
      else if ch = CHR ''H'' then Next (UPDATE_STATE s_req_http_H x)
      else if ch = CHR ''I'' \<and> method (prs x) = HTTP_SOURCE then Next (UPDATE_STATE s_req_http_I x)
      else fail HPE_INVALID_CONSTANT x)"

definition x_req_http_end :: "char \<Rightarrow> 'u exec \<Rightarrow> 'u outcome" where
  "x_req_http_end ch x =
     (if ch = CR then Next (UPDATE_STATE s_req_line_almost_done x)
      else if ch = LF then Next (UPDATE_STATE s_header_field_start x)
      else fail HPE_INVALID_VERSION x)"

definition x_req_line_almost_done :: "char \<Rightarrow> 'u exec \<Rightarrow> 'u outcome" where
  "x_req_line_almost_done ch x =
     (if ch \<noteq> LF then fail HPE_LF_EXPECTED x else Next (UPDATE_STATE s_header_field_start x))"

section \<open>Header names\<close>

definition x_header_field_start :: "char \<Rightarrow> 'u exec \<Rightarrow> 'u outcome" where
  "x_header_field_start ch x =
     (if ch = CR then Next (UPDATE_STATE s_headers_almost_done x)
      else if ch = LF then Reexec (UPDATE_STATE s_headers_almost_done x)
      else let c = TOKEN ch in
        if c = 0 then fail HPE_INVALID_HEADER_TOKEN x
        else let h = (if c = 99 then h_C
                      else if c = 112 then h_matching_proxy_connection
                      else if c = 116 then h_matching_transfer_encoding
                      else if c = 117 then h_matching_upgrade
                      else h_general)
             in Next (UPDATE_STATE s_header_field (upd (\<lambda>p. p\<lparr>index := 0, header_state := h\<rparr>) (MARK M_header_field x))))"

text \<open>Matching one more character of a name against a constant: \<^verbatim>\<open>sizeof\<close> counts the terminating zero.\<close>

datatype matched = Mismatch | Partial | Complete

definition match_next :: "string \<Rightarrow> nat \<Rightarrow> 7 word \<Rightarrow> matched" where
  "match_next str c idx =
     (if unat idx > length str \<or> (case cstr_at str (unat idx) of None \<Rightarrow> True | Some want \<Rightarrow> c \<noteq> code want) then Mismatch
      else if unat idx = length str - 1 then Complete
      else Partial)"

definition match_field :: "string \<Rightarrow> header_states \<Rightarrow> nat \<Rightarrow> 'u http_parser \<Rightarrow> 'u http_parser" where
  "match_field str done c p =
     (let p1 = p\<lparr>index := index p + 1\<rparr> in
      case match_next str c (index p1) of
        Mismatch \<Rightarrow> p1\<lparr>header_state := h_general\<rparr>
      | Complete \<Rightarrow> p1\<lparr>header_state := done\<rparr>
      | Partial \<Rightarrow> p1)"

text \<open>The switch over the header state for one token character; \<open>None\<close> is the assertion in its default.\<close>

definition header_field_char :: "char \<Rightarrow> nat \<Rightarrow> 'u http_parser \<Rightarrow> 'u http_parser option" where
  "header_field_char ch c p =
     (case header_state p of
        h_general \<Rightarrow> Some p
      | h_C \<Rightarrow> Some (p\<lparr>index := index p + 1, header_state := (if c = 111 then h_CO else h_general)\<rparr>)
      | h_CO \<Rightarrow> Some (p\<lparr>index := index p + 1, header_state := (if c = 110 then h_CON else h_general)\<rparr>)
      | h_CON \<Rightarrow> Some (p\<lparr>index := index p + 1, header_state :=
          (if c = 110 then h_matching_connection else if c = 116 then h_matching_content_length else h_general)\<rparr>)
      | h_matching_connection \<Rightarrow> Some (match_field ''connection'' h_connection c p)
      | h_matching_proxy_connection \<Rightarrow> Some (match_field ''proxy-connection'' h_connection c p)
      | h_matching_content_length \<Rightarrow> Some (match_field ''content-length'' h_content_length c p)
      | h_matching_transfer_encoding \<Rightarrow> Some (match_field ''transfer-encoding'' h_transfer_encoding c p)
      | h_matching_upgrade \<Rightarrow> Some (match_field ''upgrade'' h_upgrade c p)
      | _ \<Rightarrow>
          if header_state p \<in> {h_connection, h_content_length, h_transfer_encoding, h_upgrade}
          then Some (if ch \<noteq> CHR '' '' then p\<lparr>header_state := h_general\<rparr> else p)
          else None)"

text \<open>\<^verbatim>\<open>while (p+1 < pe && TOKEN(p[1])) p++\<close>\<close>

function skip_token :: "char list \<Rightarrow> nat \<Rightarrow> nat \<Rightarrow> nat res" where
  "skip_token d q pe =
     (if q + 1 < pe then
        (case byte_at d (q + 1) of
           Inl err \<Rightarrow> Inl err
         | Inr ch \<Rightarrow> if TOKEN ch \<noteq> 0 then skip_token d (q + 1) pe else Inr q)
      else Inr q)"
  by pat_completeness auto
termination by (relation "measure (\<lambda>(d, q, pe). pe - q)") auto

declare skip_token.simps [simp del]

lemma skip_token_ge: "skip_token d q pe = Inr q' \<Longrightarrow> q \<le> q'"
proof (induction d q pe rule: skip_token.induct)
  case (1 d q pe)
  from "1.prems" show ?case
    using "1.IH" by (subst (asm) skip_token.simps) (fastforce split: if_splits sum.splits)
qed

text \<open>The inner loop over the name: it ends at the end of the data or at a character that is no token.\<close>

function header_field_loop :: "'u env \<Rightarrow> nat \<Rightarrow> 'u http_parser \<Rightarrow> (nat \<times> 'u http_parser) res" where
  "header_field_loop e q p =
     (if q = dlen e then Inr (q, p)
      else case byte_at (data e) q of
        Inl err \<Rightarrow> Inl err
      | Inr ch \<Rightarrow>
          let c = TOKEN ch in
          if c = 0 then Inr (q, p)
          else case header_field_char ch c p of
            None \<Rightarrow> Inl AssertFailed
          | Some p' \<Rightarrow>
              (case (if header_state p = h_general
                     then skip_token (data e) q (q + min (dlen e - q) (unat (max_header_size e))) else Inr q) of
                 Inl err \<Rightarrow> Inl err
               | Inr q' \<Rightarrow> header_field_loop e (Suc q') p'))"
  by pat_completeness auto
termination
proof (relation "measure (\<lambda>(e, q, p). dlen e - q)", goal_cases)
  case 1
  show ?case by simp
next
  case (2 e q p ch c p' q')
  then have "q < dlen e" "q \<le> q'" using skip_token_ge[of "data e" q] by (auto dest: byte_at_InrD split: if_splits)
  then show ?case by auto
qed

declare header_field_loop.simps [simp del]

definition x_header_field :: "'u env \<Rightarrow> 'u exec \<Rightarrow> 'u outcome" where
  "x_header_field e x =
     (case header_field_loop e (pos x) (prs x) of
        Inl err \<Rightarrow> Stuck err
      | Inr (q, p) \<Rightarrow>
          let x1 = x\<lparr>pos := q, prs := p\<rparr> in
          if q = dlen e
          then let x2 = x1\<lparr>pos := q - 1\<rparr> in COUNT_HEADER_SIZE e (pos x2 - pos x) x2 Next
          else COUNT_HEADER_SIZE e (q - pos x) x1 (\<lambda>x2.
                 case byte_at (data e) q of
                   Inl err \<Rightarrow> Stuck err
                 | Inr ch \<Rightarrow>
                     if ch = CHR '':''
                     then CALLBACK_DATA e M_header_field q (q + 1) (UPDATE_STATE s_header_value_discard_ws x2) Next
                     else fail HPE_INVALID_HEADER_TOKEN x2))"

section \<open>Header values\<close>

definition x_header_value_start :: "char \<Rightarrow> 'u exec \<Rightarrow> 'u outcome" where
  "x_header_value_start ch x =
     (let x1 = upd (\<lambda>p. p\<lparr>index := 0\<rparr>) (UPDATE_STATE s_header_value (MARK M_header_value x));
          c = LOWER ch; hs = (\<lambda>h. upd (\<lambda>p. p\<lparr>header_state := h\<rparr>))
      in case header_state (prs x1) of
        h_upgrade \<Rightarrow> Next (hs h_general (upd (set_flag F_UPGRADE) x1))
      | h_transfer_encoding \<Rightarrow> Next (hs (if c = 99 then h_matching_transfer_encoding_chunked else h_general) x1)
      | h_content_length \<Rightarrow>
          if \<not> IS_NUM ch then fail HPE_INVALID_CONTENT_LENGTH x1
          else if flag F_CONTENTLENGTH (prs x1) then fail HPE_UNEXPECTED_CONTENT_LENGTH x1
          else Next (hs h_content_length_num
                 (upd (\<lambda>p. (set_flag F_CONTENTLENGTH p)\<lparr>content_length := of_nat (digit ch)\<rparr>) x1))
      | h_content_length_ws \<Rightarrow> Next x1
      | h_connection \<Rightarrow>
          Next (hs (if c = 107 then h_matching_connection_keep_alive
                    else if c = 99 then h_matching_connection_close
                    else if c = 117 then h_matching_connection_upgrade
                    else h_matching_connection_token) x1)
      | h_matching_connection_token_start \<Rightarrow> Next x1
      | _ \<Rightarrow> Next (hs h_general x1))"

definition x_header_value_discard_ws :: "char \<Rightarrow> 'u exec \<Rightarrow> 'u outcome" where
  "x_header_value_discard_ws ch x =
     (if ch = CHR '' '' \<or> ch = TAB then Next x
      else if ch = CR then Next (UPDATE_STATE s_header_value_discard_ws_almost_done x)
      else if ch = LF then Next (UPDATE_STATE s_header_value_discard_lws x)
      else x_header_value_start ch x)"

text \<open>The scan of an uninteresting value: the position it stops at, and whether it met a bad character.\<close>

function hv_scan :: "char list \<Rightarrow> bool \<Rightarrow> nat \<Rightarrow> nat \<Rightarrow> (nat \<times> bool) res" where
  "hv_scan d lnt q pe =
     (if q = pe then Inr (q, False)
      else case byte_at d q of
        Inl err \<Rightarrow> Inl err
      | Inr ch \<Rightarrow>
          if is_eol ch then Inr (q - 1, False)
          else if \<not> lnt \<and> \<not> IS_HEADER_CHAR ch then Inr (q, True)
          else hv_scan d lnt (q + 1) pe)"
  by pat_completeness auto
termination by (relation "measure (\<lambda>(d, l, q, pe). length d - q)") (auto dest: byte_at_InrD)

declare hv_scan.simps [simp del]

lemma hv_scan_low: "hv_scan d lnt q pe = Inr (q', b) \<Longrightarrow> q - 1 \<le> q'"
proof (induction d lnt q pe rule: hv_scan.induct)
  case (1 d lnt q pe)
  from "1.prems" show ?case
    using "1.IH" by (subst (asm) hv_scan.simps) (fastforce split: if_splits sum.splits)
qed

lemma hv_scan_ge:
  assumes "hv_scan d lnt q pe = Inr (q', b)" "\<not> is_eol (d ! q)"
  shows "q \<le> q'"
  using assms hv_scan_low[of d lnt "q + 1" pe q' b]
  by (subst (asm) hv_scan.simps) (auto split: if_splits sum.splits dest: byte_at_InrD)

datatype 'u hv_result = HvGo header_states nat "'u http_parser" | HvFail http_errno nat "'u http_parser" | HvStuck cxx_error

definition match_value ::
  "string \<Rightarrow> header_states \<Rightarrow> header_states \<Rightarrow> header_states \<Rightarrow> nat \<Rightarrow> nat \<Rightarrow> 'u http_parser \<Rightarrow> 'u hv_result" where
  "match_value str h done other c q p =
     (let p1 = p\<lparr>index := index p + 1\<rparr> in
      case match_next str c (index p1) of
        Mismatch \<Rightarrow> HvGo other q p1
      | Complete \<Rightarrow> HvGo done q p1
      | Partial \<Rightarrow> HvGo h q p1)"

definition content_length_char :: "header_states \<Rightarrow> char \<Rightarrow> nat \<Rightarrow> 'u http_parser \<Rightarrow> 'u hv_result" where
  "content_length_char h ch q p =
     (if ch = CHR '' '' then HvGo h_content_length_ws q p
      else if \<not> IS_NUM ch then HvFail HPE_INVALID_CONTENT_LENGTH q (p\<lparr>header_state := h\<rparr>)
      else let t = content_length p * 10 + of_nat (digit ch) in
           if (ULLONG_MAX - 10) div 10 < content_length p
           then HvFail HPE_INVALID_CONTENT_LENGTH q (p\<lparr>header_state := h\<rparr>)
           else HvGo h q (p\<lparr>content_length := t\<rparr>))"

definition general_value :: "'u env \<Rightarrow> nat \<Rightarrow> 'u http_parser \<Rightarrow> 'u hv_result" where
  "general_value e q p =
     (case hv_scan (data e) (lenient e) q (q + min (dlen e - q) (unat (max_header_size e))) of
        Inl err \<Rightarrow> HvStuck err
      | Inr (q', True) \<Rightarrow> HvFail HPE_INVALID_HEADER_TOKEN q' p
      | Inr (q', False) \<Rightarrow> HvGo h_general (if q' = dlen e then q' - 1 else q') p)"

definition connection_flag :: "header_states \<Rightarrow> 8 word" where
  "connection_flag h = (if h = h_connection_keep_alive then F_CONNECTION_KEEP_ALIVE
     else if h = h_connection_close then F_CONNECTION_CLOSE else F_CONNECTION_UPGRADE)"

text \<open>The switch over the local header state for one character of the value at \<open>q\<close>.\<close>

definition header_value_char :: "'u env \<Rightarrow> header_states \<Rightarrow> char \<Rightarrow> nat \<Rightarrow> 'u http_parser \<Rightarrow> 'u hv_result" where
  "header_value_char e h ch q p =
     (let c = LOWER ch in
      case h of
        h_general \<Rightarrow> general_value e q p
      | h_connection \<Rightarrow> HvStuck AssertFailed
      | h_transfer_encoding \<Rightarrow> HvStuck AssertFailed
      | h_content_length \<Rightarrow> if ch = CHR '' '' then HvGo h q p else content_length_char h_content_length_num ch q p
      | h_content_length_num \<Rightarrow> content_length_char h_content_length_num ch q p
      | h_content_length_ws \<Rightarrow>
          if ch = CHR '' '' then HvGo h q p else HvFail HPE_INVALID_CONTENT_LENGTH q (p\<lparr>header_state := h\<rparr>)
      | h_matching_transfer_encoding_chunked \<Rightarrow> match_value ''chunked'' h h_transfer_encoding_chunked h_general c q p
      | h_matching_connection_token_start \<Rightarrow>
          HvGo (if c = 107 then h_matching_connection_keep_alive
                else if c = 99 then h_matching_connection_close
                else if c = 117 then h_matching_connection_upgrade
                else if STRICT_TOKEN (char_of c) \<noteq> 0 then h_matching_connection_token
                else if c = 32 \<or> c = 9 then h
                else h_general) q p
      | h_matching_connection_keep_alive \<Rightarrow> match_value ''keep-alive'' h h_connection_keep_alive h_matching_connection_token c q p
      | h_matching_connection_close \<Rightarrow> match_value ''close'' h h_connection_close h_matching_connection_token c q p
      | h_matching_connection_upgrade \<Rightarrow> match_value ''upgrade'' h h_connection_upgrade h_matching_connection_token c q p
      | h_matching_connection_token \<Rightarrow>
          if ch = CHR '','' then HvGo h_matching_connection_token_start q (p\<lparr>index := 0\<rparr>) else HvGo h q p
      | h_transfer_encoding_chunked \<Rightarrow> HvGo (if ch \<noteq> CHR '' '' then h_general else h) q p
      | _ \<Rightarrow>
          if h \<in> {h_connection_keep_alive, h_connection_close, h_connection_upgrade} then
            (if ch = CHR '','' then
               HvGo h_matching_connection_token_start q ((set_flag (connection_flag h) p)\<lparr>index := 0\<rparr>)
             else if ch \<noteq> CHR '' '' then HvGo h_matching_connection_token q p
             else HvGo h q p)
          else HvGo h_general q p)"

lemma header_value_char_ge:
  assumes "header_value_char e h ch q p = HvGo h' q' p'" "\<not> is_eol (data e ! q)" "q < dlen e"
  shows "q \<le> q'"
proof (cases "h = h_general")
  case True
  let ?pe = "q + min (dlen e - q) (unat (max_header_size e))"
  from assms True show ?thesis
    using hv_scan_ge[of "data e" "lenient e" q ?pe]
    by (fastforce simp: header_value_char_def general_value_def Let_def split: prod.splits bool.splits if_splits sum.splits)
next
  case False
  with assms(1) show ?thesis
    by (cases h) (auto simp: header_value_char_def Let_def match_value_def content_length_char_def
        split: matched.splits if_splits)
qed


definition header_value_done :: "'u env \<Rightarrow> nat \<Rightarrow> header_states \<Rightarrow> 'u exec \<Rightarrow> 'u outcome" where
  "header_value_done e start h x =
     (let x1 = upd (\<lambda>p. p\<lparr>header_state := h\<rparr>) x;
          x2 = (if pos x1 = dlen e then x1\<lparr>pos := pos x1 - 1\<rparr> else x1)
      in COUNT_HEADER_SIZE e (pos x2 - start) x2 Next)"

function header_value_loop :: "'u env \<Rightarrow> nat \<Rightarrow> header_states \<Rightarrow> 'u exec \<Rightarrow> 'u outcome" where
  "header_value_loop e start h x =
     (if pos x = dlen e then header_value_done e start h x
      else case byte_at (data e) (pos x) of
        Inl err \<Rightarrow> Stuck err
      | Inr ch \<Rightarrow>
        if ch = CR then
          CALLBACK_DATA e M_header_value (pos x) (pos x + 1)
            (upd (\<lambda>p. p\<lparr>header_state := h\<rparr>) (UPDATE_STATE s_header_almost_done x)) (header_value_done e start h)
        else if ch = LF then
          COUNT_HEADER_SIZE e (pos x - start) (UPDATE_STATE s_header_almost_done x) (\<lambda>x1.
            CALLBACK_DATA e M_header_value (pos x1) (pos x1) (upd (\<lambda>p. p\<lparr>header_state := h\<rparr>) x1) Reexec)
        else if \<not> lenient e \<and> \<not> IS_HEADER_CHAR ch then fail HPE_INVALID_HEADER_TOKEN x
        else case header_value_char e h ch (pos x) (prs x) of
          HvStuck err \<Rightarrow> Stuck err
        | HvFail err q p \<Rightarrow> fail err (x\<lparr>pos := q, prs := p\<rparr>)
        | HvGo h' q p \<Rightarrow> header_value_loop e start h' (x\<lparr>pos := q + 1, prs := p\<rparr>))"
  by pat_completeness auto
termination
proof (relation "measure (\<lambda>(e, start, h, x). dlen e - pos x)", goal_cases)
  case 1
  show ?case by simp
next
  case (2 e start h x ch h' q p)
  then have "pos x < dlen e" "ch = data e ! pos x" by (auto dest: byte_at_InrD)
  then have "pos x < dlen e" "pos x \<le> q" using 2 header_value_char_ge[of e h ch "pos x" "prs x" h' q p] by (auto simp: is_eol_def)
  then show ?case by auto
qed

declare header_value_loop.simps [simp del]

definition x_header_value :: "'u env \<Rightarrow> 'u exec \<Rightarrow> 'u outcome" where
  "x_header_value e x = header_value_loop e (pos x) (header_state (prs x)) x"

definition x_header_almost_done :: "char \<Rightarrow> 'u exec \<Rightarrow> 'u outcome" where
  "x_header_almost_done ch x =
     (if ch \<noteq> LF then fail HPE_LF_EXPECTED x else Next (UPDATE_STATE s_header_value_lws x))"

definition header_flag :: "'u http_parser \<Rightarrow> 'u http_parser" where
  "header_flag p =
     (case header_state p of
        h_connection_keep_alive \<Rightarrow> set_flag F_CONNECTION_KEEP_ALIVE p
      | h_connection_close \<Rightarrow> set_flag F_CONNECTION_CLOSE p
      | h_transfer_encoding_chunked \<Rightarrow> set_flag F_CHUNKED p
      | h_connection_upgrade \<Rightarrow> set_flag F_CONNECTION_UPGRADE p
      | _ \<Rightarrow> p)"

definition x_header_value_lws :: "char \<Rightarrow> 'u exec \<Rightarrow> 'u outcome" where
  "x_header_value_lws ch x =
     (if ch = CHR '' '' \<or> ch = TAB then
        Reexec (UPDATE_STATE s_header_value_start
          (upd (\<lambda>p. if header_state p = h_content_length_num then p\<lparr>header_state := h_content_length_ws\<rparr> else p) x))
      else Reexec (UPDATE_STATE s_header_field_start (upd header_flag x)))"

definition x_header_value_discard_lws :: "'u env \<Rightarrow> char \<Rightarrow> 'u exec \<Rightarrow> 'u outcome" where
  "x_header_value_discard_lws e ch x =
     (if ch = CHR '' '' \<or> ch = TAB then Next (UPDATE_STATE s_header_value_discard_ws x)
      else if header_state (prs x) = h_content_length then fail HPE_INVALID_CONTENT_LENGTH x
      else CALLBACK_DATA e M_header_value (pos x) (pos x)
             (UPDATE_STATE s_header_field_start (MARK M_header_value (upd header_flag x))) Reexec)"

section \<open>End of the headers\<close>

definition set_upgrade :: "'u http_parser \<Rightarrow> 'u http_parser" where
  "set_upgrade p =
     (if flag F_UPGRADE p \<and> flag F_CONNECTION_UPGRADE p
      then p\<lparr>upgrade := (type_of p = HTTP_REQUEST \<or> status_code p = 101)\<rparr>
      else p\<lparr>upgrade := (method p = HTTP_CONNECT)\<rparr>)"

text \<open>\<^verbatim>\<open>on_headers_complete\<close>: 0 goes on, 1 skips the body, 2 upgrades as well, anything else is an error. The
  parser's \<^verbatim>\<open>state\<close> member is not written before this call.\<close>

definition headers_complete :: "'u env \<Rightarrow> 'u exec \<Rightarrow> 'u outcome" where
  "headers_complete e x =
     (let go = (\<lambda>y. if http_errno (prs y) \<noteq> HPE_OK then RETURN (pos y) y else Reexec y) in
      case on_headers_complete (settings e) of
        None \<Rightarrow> go x
      | Some f \<Rightarrow>
          (case f (prs x) of (r, q) \<Rightarrow>
             let y = x\<lparr>prs := q\<rparr> in
             if r = 0 then go y
             else if r = 2 then go (upd (\<lambda>p. set_flag F_SKIPBODY (p\<lparr>upgrade := True\<rparr>)) y)
             else if r = 1 then go (upd (set_flag F_SKIPBODY) y)
             else RETURN (pos y) (SET_ERRNO HPE_CB_headers_complete y)))"

definition x_headers_almost_done :: "'u env \<Rightarrow> char \<Rightarrow> 'u exec \<Rightarrow> 'u outcome" where
  "x_headers_almost_done e ch x =
     STRICT_CHECK (ch \<noteq> LF) x (\<lambda>x.
       if flag F_TRAILING (prs x) then
         CALLBACK_NOTIFY (on_chunk_complete (settings e)) HPE_CB_chunk_complete (pos x) (UPDATE_STATE s_message_done x) Reexec
       else if flag F_CHUNKED (prs x) \<and> flag F_CONTENTLENGTH (prs x) then fail HPE_UNEXPECTED_CONTENT_LENGTH x
       else headers_complete e (upd set_upgrade (UPDATE_STATE s_headers_done x)))"

definition message_complete :: "'u env \<Rightarrow> 'u exec \<Rightarrow> ('u exec \<Rightarrow> 'u outcome) \<Rightarrow> 'u outcome" where
  "message_complete e x k =
     CALLBACK_NOTIFY (on_message_complete (settings e)) HPE_CB_message_complete (pos x + 1)
       (UPDATE_STATE (NEW_MESSAGE (prs x)) x) k"

definition hasBody :: "'u http_parser \<Rightarrow> bool" where
  "hasBody p \<longleftrightarrow> flag F_CHUNKED p \<or> (content_length p > 0 \<and> content_length p \<noteq> ULLONG_MAX)"

definition x_headers_done :: "'u env \<Rightarrow> char \<Rightarrow> 'u exec \<Rightarrow> 'u outcome" where
  "x_headers_done e ch x =
     STRICT_CHECK (ch \<noteq> LF) x (\<lambda>x0.
       let x = (upd (\<lambda>p. p\<lparr>nread := 0\<rparr>) x0)\<lparr>nrd := 0\<rparr>; p = prs x in
       if upgrade p \<and> (method p = HTTP_CONNECT \<or> flag F_SKIPBODY p \<or> \<not> hasBody p)
       then message_complete e x (\<lambda>y. RETURN (pos y + 1) y)
       else if flag F_SKIPBODY p then message_complete e x Next
       else if flag F_CHUNKED p then Next (UPDATE_STATE s_chunk_size_start x)
       else if content_length p = 0 then message_complete e x Next
       else if content_length p \<noteq> ULLONG_MAX then Next (UPDATE_STATE s_body_identity x)
       else if \<not> http_message_needs_eof p then message_complete e x Next
       else Next (UPDATE_STATE s_body_identity_eof x))"

section \<open>The body\<close>

text \<open>The common part of the two states that take a counted run of bytes: \<open>pos\<close> ends on the last of them.\<close>

definition take_body :: "'u env \<Rightarrow> 'u exec \<Rightarrow> 'u exec" where
  "take_body e x =
     (let x1 = MARK M_body x; to_read = min (content_length (prs x1)) (of_nat (dlen e - pos x1)) in
      (upd (\<lambda>p. p\<lparr>content_length := content_length p - to_read\<rparr>) x1)\<lparr>pos := pos x1 + unat to_read - 1\<rparr>)"

definition x_body_identity :: "'u env \<Rightarrow> 'u exec \<Rightarrow> 'u outcome" where
  "x_body_identity e x =
     assert (content_length (prs x) \<noteq> 0 \<and> content_length (prs x) \<noteq> ULLONG_MAX)
       (let x1 = take_body e x in
        if content_length (prs x1) = 0
        then CALLBACK_DATA e M_body (pos x1 + 1) (pos x1) (UPDATE_STATE s_message_done x1) Reexec
        else Next x1)"

definition x_body_identity_eof :: "'u env \<Rightarrow> 'u exec \<Rightarrow> 'u outcome" where
  "x_body_identity_eof e x = Next ((MARK M_body x)\<lparr>pos := dlen e - 1\<rparr>)"

definition x_message_done :: "'u env \<Rightarrow> 'u exec \<Rightarrow> 'u outcome" where
  "x_message_done e x =
     message_complete e x (\<lambda>y. if upgrade (prs y) then RETURN (pos y + 1) y else Next y)"

definition x_chunk_size_start :: "char \<Rightarrow> 'u exec \<Rightarrow> 'u outcome" where
  "x_chunk_size_start ch x =
     assert (nrd x = 1 \<and> flag F_CHUNKED (prs x))
       (let v = table_at unhex 0 ch in
        if v = -1 then fail HPE_INVALID_CHUNK_SIZE x
        else Next (UPDATE_STATE s_chunk_size (upd (\<lambda>p. p\<lparr>content_length := of_int v\<rparr>) x)))"

definition x_chunk_size :: "char \<Rightarrow> 'u exec \<Rightarrow> 'u outcome" where
  "x_chunk_size ch x =
     assert (flag F_CHUNKED (prs x))
       (if ch = CR then Next (UPDATE_STATE s_chunk_size_almost_done x)
        else let v = table_at unhex 0 ch in
          if v = -1 then
            (if ch = CHR '';'' \<or> ch = CHR '' '' then Next (UPDATE_STATE s_chunk_parameters x)
             else fail HPE_INVALID_CHUNK_SIZE x)
          else let cl = content_length (prs x); t = cl * 16 + of_int v in
            if (ULLONG_MAX - 16) div 16 < cl then fail HPE_INVALID_CONTENT_LENGTH x
            else Next (upd (\<lambda>p. p\<lparr>content_length := t\<rparr>) x))"

definition x_chunk_parameters :: "char \<Rightarrow> 'u exec \<Rightarrow> 'u outcome" where
  "x_chunk_parameters ch x =
     assert (flag F_CHUNKED (prs x))
       (if ch = CR then Next (UPDATE_STATE s_chunk_size_almost_done x) else Next x)"

definition x_chunk_size_almost_done :: "'u env \<Rightarrow> char \<Rightarrow> 'u exec \<Rightarrow> 'u outcome" where
  "x_chunk_size_almost_done e ch x =
     assert (flag F_CHUNKED (prs x))
       (STRICT_CHECK (ch \<noteq> LF) x (\<lambda>x0.
          let x = (upd (\<lambda>p. p\<lparr>nread := 0\<rparr>) x0)\<lparr>nrd := 0\<rparr>;
              x1 = (if content_length (prs x) = 0 then UPDATE_STATE s_header_field_start (upd (set_flag F_TRAILING) x)
                    else UPDATE_STATE s_chunk_data x)
          in CALLBACK_NOTIFY (on_chunk_header (settings e)) HPE_CB_chunk_header (pos x + 1) x1 Next))"

definition x_chunk_data :: "'u env \<Rightarrow> 'u exec \<Rightarrow> 'u outcome" where
  "x_chunk_data e x =
     assert (flag F_CHUNKED (prs x) \<and> content_length (prs x) \<noteq> 0 \<and> content_length (prs x) \<noteq> ULLONG_MAX)
       (let x1 = take_body e x in
        Next (if content_length (prs x1) = 0 then UPDATE_STATE s_chunk_data_almost_done x1 else x1))"

definition x_chunk_data_almost_done :: "'u env \<Rightarrow> char \<Rightarrow> 'u exec \<Rightarrow> 'u outcome" where
  "x_chunk_data_almost_done e ch x =
     assert (flag F_CHUNKED (prs x) \<and> content_length (prs x) = 0)
       (STRICT_CHECK (ch \<noteq> CR) x (\<lambda>x.
          CALLBACK_DATA e M_body (pos x) (pos x + 1) (UPDATE_STATE s_chunk_data_done x) Next))"

definition x_chunk_data_done :: "'u env \<Rightarrow> char \<Rightarrow> 'u exec \<Rightarrow> 'u outcome" where
  "x_chunk_data_done e ch x =
     assert (flag F_CHUNKED (prs x))
       (STRICT_CHECK (ch \<noteq> LF) x (\<lambda>x0.
          let x = (upd (\<lambda>p. p\<lparr>nread := 0\<rparr>) x0)\<lparr>nrd := 0\<rparr> in
          CALLBACK_NOTIFY (on_chunk_complete (settings e)) HPE_CB_chunk_complete (pos x + 1)
            (UPDATE_STATE s_chunk_size_start x) Next))"

section \<open>The loop\<close>

definition dispatch :: "'u env \<Rightarrow> 'u exec \<Rightarrow> 'u outcome" where
  "dispatch e x =
     (case byte_at (data e) (pos x) of
      Inl err \<Rightarrow> Stuck err
    | Inr ch \<Rightarrow> (case p_state x of
        s_dead \<Rightarrow> x_dead ch x
      | s_start_req_or_res \<Rightarrow> x_start_req_or_res e ch x
      | s_res_or_resp_H \<Rightarrow> x_res_or_resp_H ch x
      | s_start_res \<Rightarrow> x_start_res e ch x
      | s_res_H \<Rightarrow> x_expect CHR ''T'' s_res_HT ch x
      | s_res_HT \<Rightarrow> x_expect CHR ''T'' s_res_HTT ch x
      | s_res_HTT \<Rightarrow> x_expect CHR ''P'' s_res_HTTP ch x
      | s_res_HTTP \<Rightarrow> x_expect CHR ''/'' s_res_http_major ch x
      | s_res_http_major \<Rightarrow> x_http_major s_res_http_dot ch x
      | s_res_http_dot \<Rightarrow> x_http_dot s_res_http_minor ch x
      | s_res_http_minor \<Rightarrow> x_http_minor s_res_http_end ch x
      | s_res_http_end \<Rightarrow> x_res_http_end ch x
      | s_res_first_status_code \<Rightarrow> x_res_first_status_code ch x
      | s_res_status_code \<Rightarrow> x_res_status_code ch x
      | s_res_status_start \<Rightarrow> x_res_status_start ch x
      | s_res_status \<Rightarrow> x_res_status e ch x
      | s_res_line_almost_done \<Rightarrow> x_expect LF s_header_field_start ch x
      | s_start_req \<Rightarrow> x_start_req e ch x
      | s_req_method \<Rightarrow> x_req_method ch x
      | s_req_spaces_before_url \<Rightarrow> x_req_spaces_before_url ch x
      | s_req_schema \<Rightarrow> x_req_schema ch x
      | s_req_schema_slash \<Rightarrow> x_req_schema ch x
      | s_req_schema_slash_slash \<Rightarrow> x_req_schema ch x
      | s_req_server_start \<Rightarrow> x_req_schema ch x
      | s_req_server \<Rightarrow> x_req_url e ch x
      | s_req_server_with_at \<Rightarrow> x_req_url e ch x
      | s_req_path \<Rightarrow> x_req_url e ch x
      | s_req_query_string_start \<Rightarrow> x_req_url e ch x
      | s_req_query_string \<Rightarrow> x_req_url e ch x
      | s_req_fragment_start \<Rightarrow> x_req_url e ch x
      | s_req_fragment \<Rightarrow> x_req_url e ch x
      | s_req_http_start \<Rightarrow> x_req_http_start ch x
      | s_req_http_H \<Rightarrow> x_expect CHR ''T'' s_req_http_HT ch x
      | s_req_http_HT \<Rightarrow> x_expect CHR ''T'' s_req_http_HTT ch x
      | s_req_http_HTT \<Rightarrow> x_expect CHR ''P'' s_req_http_HTTP ch x
      | s_req_http_I \<Rightarrow> x_expect CHR ''C'' s_req_http_IC ch x
      | s_req_http_IC \<Rightarrow> x_expect CHR ''E'' s_req_http_HTTP ch x
      | s_req_http_HTTP \<Rightarrow> x_expect CHR ''/'' s_req_http_major ch x
      | s_req_http_major \<Rightarrow> x_http_major s_req_http_dot ch x
      | s_req_http_dot \<Rightarrow> x_http_dot s_req_http_minor ch x
      | s_req_http_minor \<Rightarrow> x_http_minor s_req_http_end ch x
      | s_req_http_end \<Rightarrow> x_req_http_end ch x
      | s_req_line_almost_done \<Rightarrow> x_req_line_almost_done ch x
      | s_header_field_start \<Rightarrow> x_header_field_start ch x
      | s_header_field \<Rightarrow> x_header_field e x
      | s_header_value_discard_ws \<Rightarrow> x_header_value_discard_ws ch x
      | s_header_value_start \<Rightarrow> x_header_value_start ch x
      | s_header_value \<Rightarrow> x_header_value e x
      | s_header_almost_done \<Rightarrow> x_header_almost_done ch x
      | s_header_value_lws \<Rightarrow> x_header_value_lws ch x
      | s_header_value_discard_ws_almost_done \<Rightarrow> x_expect LF s_header_value_discard_lws ch x
      | s_header_value_discard_lws \<Rightarrow> x_header_value_discard_lws e ch x
      | s_headers_almost_done \<Rightarrow> x_headers_almost_done e ch x
      | s_headers_done \<Rightarrow> x_headers_done e ch x
      | s_body_identity \<Rightarrow> x_body_identity e x
      | s_body_identity_eof \<Rightarrow> x_body_identity_eof e x
      | s_message_done \<Rightarrow> x_message_done e x
      | s_chunk_size_start \<Rightarrow> x_chunk_size_start ch x
      | s_chunk_size \<Rightarrow> x_chunk_size ch x
      | s_chunk_parameters \<Rightarrow> x_chunk_parameters ch x
      | s_chunk_size_almost_done \<Rightarrow> x_chunk_size_almost_done e ch x
      | s_chunk_data \<Rightarrow> x_chunk_data e x
      | s_chunk_data_almost_done \<Rightarrow> x_chunk_data_almost_done e ch x
      | s_chunk_data_done \<Rightarrow> x_chunk_data_done e ch x))"

definition next_byte :: "'u env \<Rightarrow> 'u exec \<Rightarrow> 'u outcome" where
  "next_byte e x = (if PARSING_HEADER (p_state x) then COUNT_HEADER_SIZE e 1 x (dispatch e) else dispatch e x)"

definition all_marks :: "mark list" where
  "all_marks = [M_header_field, M_header_value, M_url, M_body, M_status]"

primrec flush_marks :: "'u env \<Rightarrow> mark list \<Rightarrow> 'u exec \<Rightarrow> 'u outcome" where
  "flush_marks e [] x = RETURN (dlen e) x"
| "flush_marks e (m # ms) x = CALLBACK_DATA e m (pos x) (pos x) x (flush_marks e ms)"

definition finish_loop :: "'u env \<Rightarrow> 'u exec \<Rightarrow> 'u outcome" where
  "finish_loop e x =
     assert (length (filter (\<lambda>m. marks x m \<noteq> None) all_marks) \<le> 1) (flush_marks e all_marks x)"

definition on_error :: "'u exec \<Rightarrow> 'u outcome" where
  "on_error x = (let x1 = (if http_errno (prs x) = HPE_OK then SET_ERRNO HPE_UNKNOWN x else x) in RETURN (pos x1) x1)"

text \<open>One turn of the loop or of \<^verbatim>\<open>reexecute\<close> per unit of fuel; \<open>fresh\<close> tells them apart. Running out is \<open>None\<close>.\<close>

fun exec_loop :: "nat \<Rightarrow> 'u env \<Rightarrow> bool \<Rightarrow> 'u exec \<Rightarrow> 'u outcome option" where
  "exec_loop 0 e fresh x = None"
| "exec_loop (Suc n) e fresh x =
     (if fresh \<and> pos x = dlen e then Some (finish_loop e x)
      else case (if fresh then next_byte e x else dispatch e x) of
        Next y \<Rightarrow> exec_loop n e True (y\<lparr>pos := pos y + 1\<rparr>)
      | Reexec y \<Rightarrow> exec_loop n e False y
      | Error y \<Rightarrow> Some (on_error y)
      | r \<Rightarrow> Some r)"

definition is_url_state :: "state \<Rightarrow> bool" where
  "is_url_state s \<longleftrightarrow> s \<in> {s_req_path, s_req_schema, s_req_schema_slash, s_req_schema_slash_slash, s_req_server_start,
     s_req_server, s_req_server_with_at, s_req_query_string_start, s_req_query_string, s_req_fragment_start, s_req_fragment}"

definition initial_mark :: "state \<Rightarrow> mark \<Rightarrow> nat option" where
  "initial_mark s m =
     (if s = s_header_field \<and> m = M_header_field \<or> s = s_header_value \<and> m = M_header_value \<or>
         is_url_state s \<and> m = M_url \<or> s = s_res_status \<and> m = M_status then Some 0 else None)"

definition exec_fuel :: "'u env \<Rightarrow> nat" where
  "exec_fuel e = 6 * (dlen e + 1)"

definition at_eof :: "'u env \<Rightarrow> 'u exec \<Rightarrow> 'u outcome" where
  "at_eof e x =
     (case p_state x of
        s_body_identity_eof \<Rightarrow>
          CALLBACK_NOTIFY (on_message_complete (settings e)) HPE_CB_message_complete 0 x (\<lambda>y. Return 0 (prs y))
      | s_dead \<Rightarrow> Return 0 (prs x)
      | s_start_req_or_res \<Rightarrow> Return 0 (prs x)
      | s_start_res \<Rightarrow> Return 0 (prs x)
      | s_start_req \<Rightarrow> Return 0 (prs x)
      | _ \<Rightarrow> Return 1 (prs (SET_ERRNO HPE_INVALID_EOF_STATE x)))"

definition http_parser_execute ::
  "'u http_parser_settings \<Rightarrow> 32 word \<Rightarrow> char list \<Rightarrow> 'u http_parser \<Rightarrow> 'u outcome option" where
  "http_parser_execute cbs max_size bytes p =
     (let e = \<lparr>settings = cbs, data = bytes, max_header_size = max_size, lenient = lenient_http_headers p\<rparr>;
          x = \<lparr>prs = p, p_state = state p, nrd = nread p, pos = 0, marks = initial_mark (state p)\<rparr>
      in if http_errno p \<noteq> HPE_OK then Some (Return 0 p)
         else if bytes = [] then Some (at_eof e (x\<lparr>marks := (\<lambda>_. None)\<rparr>))
         else exec_loop (exec_fuel e) e True x)"

definition http_parser_set_max_header_size :: "32 word \<Rightarrow> 'u env \<Rightarrow> 'u env" where
  "http_parser_set_max_header_size sz e = e\<lparr>max_header_size := sz\<rparr>"

end
