(* ===== verification/HP_Safety.thy ===== *)
theory HP_Safety
  imports HP_Execute
begin

text \<open>
  Safety of \<^verbatim>\<open>http_parser_execute\<close>: with callbacks that change nothing of the parser but its error number
  (pausing) and the user's data, a run on any bytes ends, no assertion fails, no string is read past its
  terminating zero, no byte outside the data is read or shown to a callback, the number of bytes reported as parsed is at most the number given, and the header
  bytes counted stay within the limit unless the parser reports \<^verbatim>\<open>HPE_HEADER_OVERFLOW\<close>. The invariant that
  gives this is kept from call to call, so it holds along every sequence of calls from \<^verbatim>\<open>http_parser_init\<close>.
\<close>

section \<open>Callbacks\<close>

definition cb_frame :: "'u http_parser \<Rightarrow> 'u http_parser \<Rightarrow> bool" where
  "cb_frame p q \<longleftrightarrow> q = p\<lparr>http_errno := http_errno q, user_data := user_data q\<rparr>"

definition notify_ok :: "'u http_cb \<Rightarrow> bool" where
  "notify_ok cb \<longleftrightarrow> (case cb of None \<Rightarrow> True | Some f \<Rightarrow> \<forall>p. cb_frame p (snd (f p)))"

definition data_ok :: "'u http_data_cb \<Rightarrow> bool" where
  "data_ok cb \<longleftrightarrow> (case cb of None \<Rightarrow> True | Some f \<Rightarrow> \<forall>p bs. cb_frame p (snd (f p bs)))"

definition settings_ok :: "'u http_parser_settings \<Rightarrow> bool" where
  "settings_ok s \<longleftrightarrow> notify_ok (on_message_begin s) \<and> data_ok (on_url s) \<and> data_ok (on_status s) \<and>
     data_ok (on_header_field s) \<and> data_ok (on_header_value s) \<and> notify_ok (on_headers_complete s) \<and>
     data_ok (on_body s) \<and> notify_ok (on_message_complete s) \<and> notify_ok (on_chunk_header s) \<and>
     notify_ok (on_chunk_complete s)"

lemma settings_okD:
  assumes "settings_ok s"
  shows "notify_ok (on_message_begin s)" "notify_ok (on_headers_complete s)" "notify_ok (on_message_complete s)"
    "notify_ok (on_chunk_header s)" "notify_ok (on_chunk_complete s)" "data_ok (data_cb s m)"
  using assms by (simp_all add: settings_ok_def) (cases m; simp)

lemma cb_frame_fields:
  assumes "cb_frame p q"
  shows "type_of q = type_of p" "flags q = flags p" "state q = state p" "header_state q = header_state p" "index q = index p"
    "lenient_http_headers q = lenient_http_headers p" "nread q = nread p" "content_length q = content_length p"
    "http_major q = http_major p" "http_minor q = http_minor p" "status_code q = status_code p" "method q = method p"
    "upgrade q = upgrade p"
proof -
  obtain a b where "q = p\<lparr>http_errno := a, user_data := b\<rparr>" using assms unfolding cb_frame_def by blast
  then show "type_of q = type_of p" "flags q = flags p" "state q = state p" "header_state q = header_state p" "index q = index p"
    "lenient_http_headers q = lenient_http_headers p" "nread q = nread p" "content_length q = content_length p"
    "http_major q = http_major p" "http_minor q = http_minor p" "status_code q = status_code p" "method q = method p"
    "upgrade q = upgrade p"
    by simp_all
qed

section \<open>The invariant\<close>

definition method_ok :: "'u http_parser \<Rightarrow> bool" where
  "method_ok p \<longleftrightarrow> unat (method p) < length method_strings \<and>
     unat (index p) \<le> length (method_strings ! unat (method p)) \<and> 0 < unat (index p)"

definition field_states :: "header_states set" where
  "field_states = {h_general, h_C, h_CO, h_CON, h_matching_connection, h_matching_proxy_connection,
     h_matching_content_length, h_matching_transfer_encoding, h_matching_upgrade, h_connection, h_content_length,
     h_transfer_encoding, h_upgrade}"

definition chunk_states :: "state set" where
  "chunk_states = {s_chunk_size_start, s_chunk_size, s_chunk_parameters, s_chunk_size_almost_done, s_chunk_data,
     s_chunk_data_almost_done, s_chunk_data_done}"

text \<open>What holds of the parser \<open>p\<close> in state \<open>s\<close> with \<open>n\<close> header bytes counted, between two bytes.\<close>

definition pinv :: "state \<Rightarrow> 'u http_parser \<Rightarrow> 32 word \<Rightarrow> bool" where
  "pinv s p n \<longleftrightarrow>
     (s = s_req_method \<longrightarrow> method_ok p) \<and>
     (s = s_header_field \<longrightarrow> header_state p \<in> field_states) \<and>
     (s = s_header_value \<longrightarrow> header_state p \<noteq> h_connection \<and> header_state p \<noteq> h_transfer_encoding) \<and>
     (s \<in> chunk_states \<longrightarrow> flag F_CHUNKED p) \<and>
     (s = s_body_identity \<or> s = s_chunk_data \<longrightarrow> content_length p \<noteq> 0 \<and> content_length p \<noteq> ULLONG_MAX) \<and>
     (s = s_chunk_data_almost_done \<longrightarrow> content_length p = 0) \<and>
     (s = s_chunk_size \<or> s = s_chunk_parameters \<or> s = s_chunk_size_almost_done \<longrightarrow> content_length p \<noteq> ULLONG_MAX) \<and>
     (s = s_chunk_size_start \<longrightarrow> n = 0)"

fun region :: "mark \<Rightarrow> state set" where
  "region M_header_field = {s_header_field}"
| "region M_header_value = {s_header_value}"
| "region M_url = {s. is_url_state s}"
| "region M_body = {s_body_identity, s_body_identity_eof, s_chunk_data, s_chunk_data_almost_done}"
| "region M_status = {s_res_status}"

text \<open>A mark is set in its own states only, and never lies beyond the current byte.\<close>

definition marks_ok :: "'u exec \<Rightarrow> bool" where
  "marks_ok x \<longleftrightarrow> (\<forall>m s. marks x m = Some s \<longrightarrow> p_state x \<in> region m \<and> s \<le> pos x)"

definition inv :: "'u env \<Rightarrow> 'u exec \<Rightarrow> bool" where
  "inv e x \<longleftrightarrow> http_errno (prs x) = HPE_OK \<and> pinv (p_state x) (prs x) (nrd x) \<and> marks_ok x \<and>
     nrd x \<le> max_header_size e \<and> nread (prs x) \<le> max_header_size e"

text \<open>How many times in a row \<^verbatim>\<open>reexecute\<close> can be reached.\<close>

definition rank :: "state \<Rightarrow> nat" where
  "rank s =
     (if s = s_header_value_discard_lws \<or> s = s_header_value_lws then 4
      else if s = s_header_field_start then 3
      else if s = s_headers_almost_done \<or> s = s_res_status_code then 2
      else if s \<in> {s_headers_done, s_start_req_or_res, s_res_status_start, s_body_identity, s_header_value} then 1
      else 0)"

text \<open>What a state's code may end in, entered with \<open>x\<close>.\<close>

fun good :: "'u env \<Rightarrow> 'u exec \<Rightarrow> 'u outcome \<Rightarrow> bool" where
  "good e x (Next y) \<longleftrightarrow> pos x \<le> pos y \<and> pos y < dlen e \<and> inv e y"
| "good e x (Reexec y) \<longleftrightarrow> pos x \<le> pos y \<and> pos y < dlen e \<and> inv e y \<and> rank (p_state y) < rank (p_state x) \<and>
     p_state y \<noteq> s_chunk_size_start"
| "good e x (Return n p) \<longleftrightarrow> n \<le> dlen e \<and> nread p \<le> max_header_size e \<and>
     (http_errno p = HPE_OK \<or> http_errno p = HPE_PAUSED \<longrightarrow> pinv (state p) p (nread p))"
| "good e x (Error y) \<longleftrightarrow> pos y < dlen e \<and> http_errno (prs y) \<noteq> HPE_OK \<and> http_errno (prs y) \<noteq> HPE_PAUSED \<and>
     (http_errno (prs y) = HPE_HEADER_OVERFLOW \<or> nrd y \<le> max_header_size e)"
| "good e x (Stuck err) \<longleftrightarrow> False"

lemma good_fail [intro]:
  "pos y < dlen e \<Longrightarrow> nrd y \<le> max_header_size e \<Longrightarrow> err \<noteq> HPE_OK \<Longrightarrow> err \<noteq> HPE_PAUSED \<Longrightarrow> good e x (fail err y)"
  by (simp add: fail_def SET_ERRNO_def)

lemma good_count:
  assumes "pos y < dlen e"
    and "\<And>z. z = y\<lparr>nrd := nrd y + of_nat v\<rparr> \<Longrightarrow> nrd z \<le> max_header_size e \<Longrightarrow> good e x (k z)"
  shows "good e x (COUNT_HEADER_SIZE e v y k)"
  using assms by (auto simp: COUNT_HEADER_SIZE_def Let_def fail_def SET_ERRNO_def not_less)

lemma good_strict:
  "pos y < dlen e \<Longrightarrow> nrd y \<le> max_header_size e \<Longrightarrow> (\<not> c \<Longrightarrow> good e x (k y)) \<Longrightarrow> good e x (STRICT_CHECK c y k)"
  by (auto simp: STRICT_CHECK_def)

text \<open>The state of a run after a callback: only error number and user data differ.\<close>

definition same :: "'u exec \<Rightarrow> 'u exec \<Rightarrow> bool" where
  "same y z \<longleftrightarrow> pos z = pos y \<and> p_state z = p_state y \<and> nrd z = nrd y \<and> marks z = marks y \<and>
     http_errno (prs z) = HPE_OK \<and> flags (prs z) = flags (prs y) \<and> content_length (prs z) = content_length (prs y) \<and>
     header_state (prs z) = header_state (prs y) \<and> index (prs z) = index (prs y) \<and> method (prs z) = method (prs y) \<and>
     nread (prs z) = nread (prs y) \<and> upgrade (prs z) = upgrade (prs y) \<and> type_of (prs z) = type_of (prs y)"

lemma pinv_cong:
  "flags q = flags p \<Longrightarrow> content_length q = content_length p \<Longrightarrow> header_state q = header_state p \<Longrightarrow> index q = index p \<Longrightarrow>
   method q = method p \<Longrightarrow> pinv s q n = pinv s p n"
  by (simp add: pinv_def method_ok_def flag_def)

lemma same_pinv: "same y z \<Longrightarrow> pinv s (prs z) n = pinv s (prs y) n"
  by (rule pinv_cong) (simp_all add: same_def)

lemma good_after_callback:
  assumes frame: "cb_frame ((prs y)\<lparr>state := p_state y\<rparr>) q" and err: "err \<noteq> HPE_OK" "err \<noteq> HPE_PAUSED"
    and ret: "ret \<le> dlen e" and nr: "nread (prs y) \<le> max_header_size e" "nrd y \<le> max_header_size e"
    and p: "pinv (p_state y) (prs y) (nread (prs y))"
    and k: "\<And>z. same y z \<Longrightarrow> good e x (k z)"
  shows "good e x (after_callback err ret r q y k)"
proof -
  note f = cb_frame_fields[OF frame]
  show ?thesis
  proof (cases "r \<noteq> 0 \<or> http_errno q \<noteq> HPE_OK")
    case True
    have "pinv (state q) q (nread q)" using p f by (subst pinv_cong[of _ "prs y"]) simp_all
    with True show ?thesis
      using f err ret nr by (auto simp: after_callback_def Let_def SET_ERRNO_def UPDATE_STATE_def)
  next
    case False
    have "same y (UPDATE_STATE (state q) (y\<lparr>prs := q\<rparr>))"
      using False f by (simp add: same_def UPDATE_STATE_def)
    with False k show ?thesis by (simp add: after_callback_def Let_def UPDATE_STATE_def)
  qed
qed

lemma good_notify:
  assumes "notify_ok cb" "http_errno (prs y) = HPE_OK" "err \<noteq> HPE_OK" "err \<noteq> HPE_PAUSED" "ret \<le> dlen e"
    and "nread (prs y) \<le> max_header_size e" "nrd y \<le> max_header_size e" "pinv (p_state y) (prs y) (nread (prs y))"
    and "\<And>z. same y z \<Longrightarrow> good e x (k z)"
  shows "good e x (CALLBACK_NOTIFY cb err ret y k)"
proof (cases cb)
  case None
  then show ?thesis using assms(2,9) by (simp add: CALLBACK_NOTIFY_def assert_def same_def)
next
  case (Some f)
  obtain r q where rq: "f ((prs y)\<lparr>state := p_state y\<rparr>) = (r, q)" by fastforce
  have "cb_frame ((prs y)\<lparr>state := p_state y\<rparr>) q"
    using assms(1) Some rq by (auto simp: notify_ok_def dest: spec[of _ "(prs y)\<lparr>state := p_state y\<rparr>"])
  from good_after_callback[OF this assms(3-9)] Some rq assms(2) show ?thesis
    by (simp add: CALLBACK_NOTIFY_def assert_def)
qed

lemma data_err_not: "data_err m \<noteq> HPE_OK" "data_err m \<noteq> HPE_PAUSED"
  by (cases m; simp)+

lemma good_data:
  assumes "settings_ok (settings e)" "http_errno (prs y) = HPE_OK" "ret \<le> dlen e"
    and "nread (prs y) \<le> max_header_size e" "nrd y \<le> max_header_size e" "marks y m \<noteq> None \<Longrightarrow> pinv (p_state y) (prs y) (nread (prs y))"
    and "\<And>z. same (y\<lparr>marks := (marks y)(m := None)\<rparr>) z \<Longrightarrow> good e x (k z)"
    and till: "\<And>s. marks y m = Some s \<Longrightarrow> s \<le> till" "till \<le> dlen e"
  shows "good e x (CALLBACK_DATA e m till ret y k)"
proof (cases "marks y m")
  case None
  then have "y\<lparr>marks := (marks y)(m := None)\<rparr> = y" by (simp add: fun_upd_idem)
  then have "same (y\<lparr>marks := (marks y)(m := None)\<rparr>) y" using assms(2) by (simp add: same_def)
  with None assms(2,7) show ?thesis by (simp add: CALLBACK_DATA_def assert_def)
next
  case (Some start)
  let ?k = "\<lambda>z. k (z\<lparr>marks := (marks z)(m := None)\<rparr>)"
  have k: "good e x (?k z)" if "same y z" for z
    using that by (intro assms(7)) (simp add: same_def)
  show ?thesis
  proof (cases "data_cb (settings e) m")
    case None
    then show ?thesis using Some assms(2) k[of y] by (simp add: CALLBACK_DATA_def assert_def same_def)
  next
    case cb: (Some f)
    let ?bs = "slice start till (data e)"
    obtain r q where rq: "f ((prs y)\<lparr>state := p_state y\<rparr>) ?bs = (r, q)" by fastforce
    have "\<forall>p bs. cb_frame p (snd (f p bs))" using settings_okD(6)[OF assms(1), of m] cb by (simp add: data_ok_def)
    then have "cb_frame ((prs y)\<lparr>state := p_state y\<rparr>) q" using rq by (metis snd_conv)
    from good_after_callback[OF this data_err_not assms(3-5) assms(6), where x = x and k = ?k and r = r] k Some cb rq assms(2) till show ?thesis
      by (simp add: CALLBACK_DATA_def assert_def)
  qed
qed

section \<open>The states one by one\<close>

declare good.simps [simp del]

text \<open>What holds when a state's code starts: as \<open>inv\<close>, but the byte has been counted.\<close>

definition dinv :: "'u env \<Rightarrow> state \<Rightarrow> 'u exec \<Rightarrow> bool" where
  "dinv e s x \<longleftrightarrow> settings_ok (settings e) \<and> dlen e < 2 ^ 64 \<and> p_state x = s \<and> pos x < dlen e \<and> http_errno (prs x) = HPE_OK \<and>
     pinv s (prs x) 0 \<and> marks_ok x \<and> nrd x \<le> max_header_size e \<and> nread (prs x) \<le> max_header_size e \<and>
     (s = s_chunk_size_start \<longrightarrow> nrd x = 1)"

lemmas step_simps = inv_def pinv_def marks_ok_def upd_def UPDATE_STATE_def new_message_def chunk_states_def
  is_url_state_def same_def flag_def set_flag_def method_ok_def field_states_def

lemma dinvD:
  assumes "dinv e s x"
  shows "p_state x = s" "pos x < dlen e" "http_errno (prs x) = HPE_OK" "pinv s (prs x) 0" "marks_ok x"
    "nrd x \<le> max_header_size e" "nread (prs x) \<le> max_header_size e" "settings_ok (settings e)"
    "s = s_chunk_size_start \<longrightarrow> nrd x = 1" "dlen e < 2 ^ 64"
  using assms by (simp_all add: dinv_def)

lemma marks_okD:
  assumes "marks_ok x"
  shows "marks x m \<noteq> None \<Longrightarrow> p_state x \<in> region m" "marks x m = Some s \<Longrightarrow> s \<le> pos x"
  using assms by (auto simp: marks_ok_def)

lemma no_marks:
  assumes "dinv e s x" "\<forall>m. s \<notin> region m"
  shows "marks x = (\<lambda>_. None)"
  using assms by (auto simp: dinv_def marks_ok_def fun_eq_iff)

lemma not_region:
  "s \<notin> {s_header_field, s_header_value, s_body_identity, s_body_identity_eof, s_chunk_data, s_chunk_data_almost_done, s_res_status} \<Longrightarrow>
   \<not> is_url_state s \<Longrightarrow> \<forall>m. s \<notin> region m"
proof
  fix m
  assume "s \<notin> {s_header_field, s_header_value, s_body_identity, s_body_identity_eof, s_chunk_data, s_chunk_data_almost_done, s_res_status}"
    "\<not> is_url_state s"
  then show "s \<notin> region m" by (cases m) simp_all
qed

text \<open>A state without obligations, and moving to it.\<close>

definition plain :: "state \<Rightarrow> bool" where
  "plain s \<longleftrightarrow> s \<notin> {s_req_method, s_header_field, s_header_value, s_body_identity} \<and> s \<notin> chunk_states"

lemma pinv_plain: "plain s \<Longrightarrow> pinv s p n"
  by (simp add: pinv_def plain_def chunk_states_def)

lemma good_move:
  assumes "dinv e s x" "plain s'" "\<forall>m. marks x m \<noteq> None \<longrightarrow> s' \<in> region m"
  shows "good e x (Next (UPDATE_STATE s' (upd f x))) \<longleftrightarrow>
     http_errno (f (prs x)) = HPE_OK \<and> nread (f (prs x)) \<le> max_header_size e"
  using assms by (auto simp: good.simps dinv_def inv_def UPDATE_STATE_def upd_def pinv_plain marks_ok_def)

lemma good_goto:
  assumes "dinv e s x" "plain s'" "\<forall>m. marks x m \<noteq> None \<longrightarrow> s' \<in> region m"
  shows "good e x (Next (UPDATE_STATE s' x))"
  using assms by (auto simp: good.simps dinv_def inv_def UPDATE_STATE_def pinv_plain marks_ok_def)

lemma good_stay: "dinv e s x \<Longrightarrow> s \<noteq> s_chunk_size_start \<Longrightarrow> good e x (Next x)"
  by (auto simp: good.simps dinv_def inv_def pinv_def)

lemma good_err: "dinv e s x \<Longrightarrow> err \<noteq> HPE_OK \<Longrightarrow> err \<noteq> HPE_PAUSED \<Longrightarrow> good e x (fail err (upd f x))"
  "dinv e s x \<Longrightarrow> err \<noteq> HPE_OK \<Longrightarrow> err \<noteq> HPE_PAUSED \<Longrightarrow> good e x (fail err x)"
  by (auto simp: dinv_def upd_def intro!: good_fail)

lemma good_dead: "dinv e s_dead x \<Longrightarrow> good e x (x_dead ch x)"
  by (simp add: x_dead_def good_stay good_err)

lemma good_expect:
  assumes "dinv e s x" "\<forall>m. s \<notin> region m" "plain s'"
  shows "good e x (x_expect want s' ch x)"
  unfolding x_expect_def using assms no_marks[OF assms(1,2)]
  by (intro good_strict good_goto) (auto simp: dinv_def)

lemma good_http_major: "dinv e s x \<Longrightarrow> \<forall>m. s \<notin> region m \<Longrightarrow> plain s' \<Longrightarrow> good e x (x_http_major s' ch x)"
  using no_marks[of e s x] by (auto simp: x_http_major_def good_err good_move) (auto simp: dinv_def)

lemma good_http_minor: "dinv e s x \<Longrightarrow> \<forall>m. s \<notin> region m \<Longrightarrow> plain s' \<Longrightarrow> good e x (x_http_minor s' ch x)"
  using no_marks[of e s x] by (auto simp: x_http_minor_def good_err good_move) (auto simp: dinv_def)

lemma good_http_dot: "dinv e s x \<Longrightarrow> \<forall>m. s \<notin> region m \<Longrightarrow> plain s' \<Longrightarrow> good e x (x_http_dot s' ch x)"
  using no_marks[of e s x] by (auto simp: x_http_dot_def good_err good_goto)

lemma good_res_http_end: "dinv e s_res_http_end x \<Longrightarrow> good e x (x_res_http_end ch x)"
  using no_marks[of e s_res_http_end x, OF _ not_region]
  by (auto simp: x_res_http_end_def good_err good_goto plain_def chunk_states_def is_url_state_def)

lemma good_res_first_status_code: "dinv e s_res_first_status_code x \<Longrightarrow> good e x (x_res_first_status_code ch x)"
  using no_marks[of e s_res_first_status_code x, OF _ not_region]
  by (auto simp: x_res_first_status_code_def good_err good_stay good_move plain_def chunk_states_def is_url_state_def)
    (auto simp: dinv_def)

lemma good_res_status_code:
  assumes d: "dinv e s_res_status_code x"
  shows "good e x (x_res_status_code ch x)"
proof -
  have "marks x = (\<lambda>_. None)" using no_marks[OF d not_region] by (simp add: is_url_state_def)
  with d show ?thesis
    by (auto simp: x_res_status_code_def good.simps dinv_def step_simps rank_def Let_def intro!: good_fail)
qed

lemma good_res_status_start:
  assumes d: "dinv e s_res_status_start x"
  shows "good e x (x_res_status_start ch x)"
proof -
  have "marks x = (\<lambda>_. None)" using no_marks[OF d not_region] by (simp add: is_url_state_def)
  with d show ?thesis
    by (auto simp: x_res_status_start_def good.simps dinv_def step_simps rank_def Let_def MARK_def)
qed

lemma clear_mark: "dinv e s x \<Longrightarrow> (\<And>m'. s \<in> region m' \<Longrightarrow> m' = m) \<Longrightarrow> (marks x)(m := None) = (\<lambda>_. None)"
  using marks_okD(1)[of x] by (fastforce simp: dinv_def fun_eq_iff)

lemma region_inj: "s \<in> region m \<Longrightarrow> s \<in> region m' \<Longrightarrow> m' = m"
  by (cases m; cases m') (auto simp: is_url_state_def)

text \<open>Leaving a marked region through the mark's callback.\<close>

lemma good_leave:
  assumes d: "dinv e s x" and m: "s \<in> region m" and s': "plain s'" "s' \<noteq> s_chunk_size_start"
    and f: "http_errno (f (prs x)) = HPE_OK" "nread (f (prs x)) \<le> max_header_size e"
  shows "good e x (CALLBACK_DATA e m (pos x) (pos x + 1) (UPDATE_STATE s' (upd f x)) Next)"
proof (rule good_data)
  have c: "(marks x)(m := None) = (\<lambda>_. None)" using d by (rule clear_mark) (rule region_inj[OF m])
  fix z assume "same (UPDATE_STATE s' (upd f x)\<lparr>marks := (marks (UPDATE_STATE s' (upd f x)))(m := None)\<rparr>) z"
  then have z: "pos z = pos x" "p_state z = s'" "nrd z = nrd x" "marks z = (\<lambda>_. None)" "http_errno (prs z) = HPE_OK"
      "nread (prs z) = nread (f (prs x))"
    using c by (simp_all add: same_def UPDATE_STATE_def upd_def)
  then show "good e x (Next z)"
    using d s' f by (simp add: good.simps dinv_def inv_def pinv_plain marks_ok_def)
qed (use d f s' in \<open>auto simp: dinv_def UPDATE_STATE_def upd_def pinv_plain dest: marks_okD(2)\<close>)

lemma upd_id: "upd (\<lambda>p. p) x = x"
  by (simp add: upd_def)

lemma good_res_status:
  assumes d: "dinv e s_res_status x"
  shows "good e x (x_res_status e ch x)"
  using d good_leave[OF d, of M_status s_res_line_almost_done "\<lambda>p. p"] good_leave[OF d, of M_status s_header_field_start "\<lambda>p. p"]
  by (auto simp: x_res_status_def good_stay upd_id plain_def chunk_states_def dinvD)


section \<open>Starting a message and the request line\<close>

lemma good_message_begin:
  assumes "settings_ok (settings e)" "pos y = pos x" "pos x < dlen e" "http_errno (prs y) = HPE_OK" "marks y = (\<lambda>_. None)"
    "nrd y \<le> max_header_size e" "nread (prs y) \<le> max_header_size e" "\<And>n. pinv (p_state y) (prs y) n"
  shows "good e x (message_begin e y)"
  unfolding message_begin_def
proof (rule good_notify)
  fix z assume z: "same y z"
  then show "good e x (Next z)"
    using assms same_pinv[OF z] by (auto simp: good.simps inv_def marks_ok_def same_def)
qed (use assms settings_okD(1) in auto)

lemma good_start_req_or_res:
  assumes d: "dinv e s_start_req_or_res x"
  shows "good e x (x_start_req_or_res e ch x)"
proof -
  have m: "marks x = (\<lambda>_. None)" using no_marks[OF d not_region] by (simp add: is_url_state_def)
  have "good e x (message_begin e (UPDATE_STATE s_res_or_resp_H (new_message x)))"
    using d m by (intro good_message_begin) (auto simp: dinv_def step_simps)
  moreover have "good e x (Reexec (UPDATE_STATE s_start_req (upd (\<lambda>p. p\<lparr>type_of := HTTP_REQUEST\<rparr>) (new_message x))))"
    using d m by (auto simp: good.simps dinv_def step_simps rank_def)
  ultimately show ?thesis using d by (simp add: x_start_req_or_res_def Let_def good_stay)
qed

lemma good_res_or_resp_H:
  assumes d: "dinv e s_res_or_resp_H x"
  shows "good e x (x_res_or_resp_H ch x)"
proof -
  have m: "marks x = (\<lambda>_. None)" using no_marks[OF d not_region] by (simp add: is_url_state_def)
  have "length method_strings = 34" "method_strings ! 2 = ''HEAD''" by (simp_all add: method_strings_def)
  with d m show ?thesis
    by (auto simp: x_res_or_resp_H_def good.simps dinv_def step_simps intro!: good_fail)
qed

lemma good_start_res:
  assumes d: "dinv e s_start_res x"
  shows "good e x (x_start_res e ch x)"
proof -
  have m: "marks x = (\<lambda>_. None)" using no_marks[OF d not_region] by (simp add: is_url_state_def)
  have "good e x (message_begin e (UPDATE_STATE s_res_H (new_message x)))"
    using d m by (intro good_message_begin) (auto simp: dinv_def step_simps)
  then show ?thesis using d by (auto simp: x_start_res_def Let_def good_stay good_err new_message_def)
qed

lemma first_method_ok:
  "first_method ch = Some m \<Longrightarrow> unat m < length method_strings \<and> 1 \<le> length (method_strings ! unat m)"
  by (auto simp: first_method_def method_strings_def split: if_splits)

lemma good_start_req:
  assumes d: "dinv e s_start_req x"
  shows "good e x (x_start_req e ch x)"
proof -
  have m: "marks x = (\<lambda>_. None)" using no_marks[OF d not_region] by (simp add: is_url_state_def)
  let ?x2 = "upd (\<lambda>p. p\<lparr>method := 0, index := 1\<rparr>) (new_message x)"
  have "good e x (message_begin e (UPDATE_STATE s_req_method (upd (\<lambda>p. p\<lparr>method := mt\<rparr>) ?x2)))"
    if "first_method ch = Some mt" for mt
    using d m first_method_ok[OF that] by (intro good_message_begin) (auto simp: dinv_def step_simps)
  moreover have "good e x (fail HPE_INVALID_METHOD (new_message x))" "good e x (fail HPE_INVALID_METHOD ?x2)"
    using d by (auto simp: dinv_def upd_def new_message_def intro!: good_fail)
  ultimately show ?thesis using d by (auto simp: x_start_req_def Let_def good_stay split: option.splits)
qed

lemma method_switch_ok:
  "list_all (\<lambda>(m, i, c, n). unat n < length method_strings \<and> i + 1 \<le> length (method_strings ! unat n) \<and> i + 1 < 128) method_switch"
  by code_simp

lemma find_SomeD: "List.find P xs = Some t \<Longrightarrow> P t \<and> t \<in> set xs"
  by (induction xs) (auto split: if_splits)

lemma switch_method_ok:
  assumes "switch_method m i ch = Some n"
  shows "unat n < length method_strings \<and> i + 1 \<le> length (method_strings ! unat n) \<and> i + 1 < 128"
proof -
  from assms obtain t where t: "List.find (\<lambda>(m', i', c, _). m' = m \<and> i' = i \<and> c = ch) method_switch = Some t"
      "n = (case t of (_, _, _, n) \<Rightarrow> n)"
    by (auto simp: switch_method_def)
  then have "t = (m, i, ch, n)" "t \<in> set method_switch"
    by (auto dest!: find_SomeD split: prod.splits)
  then have "(m, i, ch, n) \<in> set method_switch" by simp
  with method_switch_ok show ?thesis by (auto simp: list_all_iff)
qed

lemma method_length: "m < length method_strings \<Longrightarrow> length (method_strings ! m) < 127"
proof -
  have "list_all (\<lambda>s. length s < 127) method_strings" by code_simp
  then show "m < length method_strings \<Longrightarrow> length (method_strings ! m) < 127" by (auto simp: list_all_iff)
qed

lemma index_inc: "unat (i :: 7 word) < 127 \<Longrightarrow> unat (i + 1) = unat i + 1"
  by (simp add: unat_word_ariths)

lemma good_req_method:
  assumes d: "dinv e s_req_method x"
  shows "good e x (x_req_method ch x)"
proof -
  have m: "marks x = (\<lambda>_. None)" using no_marks[OF d not_region] by (simp add: is_url_state_def)
  let ?p = "prs x" let ?m = "unat (method ?p)" and ?i = "unat (index ?p)"
  have ok: "?m < length method_strings" "?i \<le> length (method_strings ! ?m)" "0 < ?i"
    using d by (auto simp: dinv_def pinv_def method_ok_def)
  have i: "unat (index ?p + 1) = ?i + 1" using ok method_length[OF ok(1)] by (intro index_inc) simp
  obtain want where want: "cstr_at (method_strings ! ?m) ?i = Some want"
      "want = CHR 0x00 \<or> ?i < length (method_strings ! ?m)"
    using ok by (cases "?i < length (method_strings ! ?m)") (simp_all add: cstr_at_def)
  have next_ok: "good e x (Next (upd (\<lambda>p. p\<lparr>index := index p + 1\<rparr>) (upd (\<lambda>p. p\<lparr>method := n\<rparr>) x)))"
    if "unat n < length method_strings" "?i + 1 \<le> length (method_strings ! unat n)" for n
    using d m i that by (auto simp: good.simps dinv_def inv_def upd_def marks_ok_def pinv_def method_ok_def chunk_states_def)
  have same: "good e x (Next (upd (\<lambda>p. p\<lparr>index := index p + 1\<rparr>) x))" if "?i < length (method_strings ! ?m)"
    using next_ok[of "method ?p"] ok that by (simp add: upd_def)
  have "good e x (Next (upd (\<lambda>p. p\<lparr>index := index p + 1\<rparr>) (UPDATE_STATE s_req_spaces_before_url x)))"
    using d m by (auto simp: good.simps dinv_def step_simps)
  with ok(1) want same next_ok switch_method_ok d show ?thesis
    by (auto simp: x_req_method_def Let_def good_err split: option.splits)
qed

lemma plain_url: "is_url_state s \<Longrightarrow> plain s"
  by (auto simp: is_url_state_def plain_def chunk_states_def)

lemma parse_url_char_states: "parse_url_char s c \<noteq> s_dead \<Longrightarrow> is_url_state (parse_url_char s c)"
  using parse_url_char_result[of s c]
  by (auto simp: is_url_state_def is_delimiter_def url_field_of_def split: state.splits)

lemma good_url_next:
  assumes "settings_ok (settings e)" "pos y = pos x" "pos x < dlen e" "http_errno (prs y) = HPE_OK"
    "\<forall>m s. marks y m = Some s \<longrightarrow> m = M_url \<and> s \<le> pos x" "nrd y \<le> max_header_size e" "nread (prs y) \<le> max_header_size e"
  shows "good e x (url_next ch y)"
proof (cases "parse_url_char (p_state y) ch = s_dead")
  case True
  then show ?thesis using assms by (auto simp: url_next_def UPDATE_STATE_def intro!: good_fail)
next
  case False
  note u = parse_url_char_states[OF this]
  have "inv e (UPDATE_STATE (parse_url_char (p_state y) ch) y)"
    using assms(4,6,7) assms(2,5) u plain_url[OF u] by (fastforce simp: inv_def UPDATE_STATE_def marks_ok_def pinv_plain)
  with assms False show ?thesis by (auto simp: url_next_def Let_def good.simps UPDATE_STATE_def)
qed

lemma good_req_spaces_before_url:
  assumes d: "dinv e s_req_spaces_before_url x"
  shows "good e x (x_req_spaces_before_url ch x)"
proof -
  have m: "marks x = (\<lambda>_. None)" using no_marks[OF d not_region] by (simp add: is_url_state_def)
  have "good e x (url_next ch (UPDATE_STATE s_req_server_start (MARK M_url x)))" "good e x (url_next ch (MARK M_url x))"
    using d m by (auto simp: dinv_def MARK_def UPDATE_STATE_def intro!: good_url_next split: if_splits)
  with d show ?thesis by (auto simp: x_req_spaces_before_url_def Let_def good_stay)
qed

lemma url_marks: "dinv e s x \<Longrightarrow> is_url_state s \<Longrightarrow> \<forall>m s. marks x m = Some s \<longrightarrow> m = M_url \<and> s \<le> pos x"
  using region_inj[of s M_url] by (auto simp: dinv_def marks_ok_def)

lemma good_req_schema: "dinv e s x \<Longrightarrow> is_url_state s \<Longrightarrow> good e x (x_req_schema ch x)"
  using url_marks[of e s x] by (auto simp: x_req_schema_def good_err dinvD intro!: good_url_next)

lemma good_req_url:
  assumes d: "dinv e s x" "is_url_state s"
  shows "good e x (x_req_url e ch x)"
proof -
  have r: "s \<in> region M_url" using d(2) by simp
  have pl: "plain s_req_http_start" "plain s_req_line_almost_done" "plain s_header_field_start"
    by (auto simp: plain_def chunk_states_def)
  let ?f = "\<lambda>p. p\<lparr>http_major := 0, http_minor := 9\<rparr>"
  have "good e x (url_next ch x)" using d url_marks[OF d] by (intro good_url_next) (auto simp: dinv_def)
  moreover have "good e x (CALLBACK_DATA e M_url (pos x) (pos x + 1) (UPDATE_STATE s_req_http_start x) Next)"
    using good_leave[OF d(1) r pl(1), of "\<lambda>p. p"] d by (simp add: upd_id dinvD[OF d(1)])
  moreover have "good e x (CALLBACK_DATA e M_url (pos x) (pos x + 1) (UPDATE_STATE s' (upd ?f x)) Next)"
    if "s' = s_req_line_almost_done \<or> s' = s_header_field_start" for s'
    using that good_leave[OF d(1) r pl(2), of ?f] good_leave[OF d(1) r pl(3), of ?f] by (auto simp: dinvD[OF d(1)])
  ultimately show ?thesis by (auto simp: x_req_url_def)
qed

lemma good_req_http_start:
  assumes d: "dinv e s_req_http_start x"
  shows "good e x (x_req_http_start ch x)"
proof -
  have m: "marks x = (\<lambda>_. None)" using no_marks[OF d not_region] by (simp add: is_url_state_def)
  with d show ?thesis by (auto simp: x_req_http_start_def good_stay good_err good_goto plain_def chunk_states_def)
qed

lemma good_req_http_end:
  assumes d: "dinv e s_req_http_end x"
  shows "good e x (x_req_http_end ch x)"
proof -
  have m: "marks x = (\<lambda>_. None)" using no_marks[OF d not_region] by (simp add: is_url_state_def)
  with d show ?thesis by (auto simp: x_req_http_end_def good_err good_goto plain_def chunk_states_def)
qed

lemma good_req_line_almost_done:
  assumes d: "dinv e s_req_line_almost_done x"
  shows "good e x (x_req_line_almost_done ch x)"
proof -
  have m: "marks x = (\<lambda>_. None)" using no_marks[OF d not_region] by (simp add: is_url_state_def)
  with d show ?thesis by (auto simp: x_req_line_almost_done_def good_err good_goto plain_def chunk_states_def)
qed


section \<open>Headers\<close>

lemma good_header_field_start:
  assumes d: "dinv e s_header_field_start x"
  shows "good e x (x_header_field_start ch x)"
proof -
  have m: "marks x = (\<lambda>_. None)" using no_marks[OF d not_region] by (simp add: is_url_state_def)
  have "good e x (Next (UPDATE_STATE s_header_field (upd (\<lambda>p. p\<lparr>index := 0, header_state := h\<rparr>) (MARK M_header_field x))))"
    if "h \<in> field_states" for h
    using d m that by (auto simp: good.simps dinv_def step_simps MARK_def split: if_splits)
  moreover have "good e x (Reexec (UPDATE_STATE s_headers_almost_done x))"
    using d m by (auto simp: good.simps dinv_def step_simps rank_def)
  moreover have "good e x (Next (UPDATE_STATE s_headers_almost_done x))"
    using d m by (intro good_goto) (auto simp: plain_def chunk_states_def)
  ultimately show ?thesis using d
    by (simp add: x_header_field_start_def Let_def good_err field_states_def)
qed

lemma skip_token_ok: "q < pe \<Longrightarrow> pe \<le> length d \<Longrightarrow> \<exists>q'. skip_token d q pe = Inr q' \<and> q \<le> q' \<and> q' < pe"
proof (induction d q pe rule: skip_token.induct)
  case (1 d q pe)
  show ?case
  proof (cases "q + 1 < pe \<and> TOKEN (d ! (q + 1)) \<noteq> 0")
    case True
    with "1.prems" "1.IH"[of "d ! (q + 1)"] obtain q' where "skip_token d (q + 1) pe = Inr q'" "q + 1 \<le> q'" "q' < pe" by auto
    with True "1.prems" show ?thesis by (subst skip_token.simps) auto
  next
    case False
    with "1.prems" show ?thesis by (subst skip_token.simps) auto
  qed
qed

definition hframe :: "'u http_parser \<Rightarrow> 'u http_parser \<Rightarrow> bool" where
  "hframe p q \<longleftrightarrow> http_errno q = http_errno p \<and> nread q = nread p"

lemma header_field_char_ok:
  assumes "header_state p \<in> field_states"
  shows "\<exists>q. header_field_char ch c p = Some q \<and> header_state q \<in> field_states \<and> hframe p q"
  using assms by (auto simp: field_states_def header_field_char_def hframe_def match_field_def Let_def split: matched.splits)

lemma skip_general_ok:
  assumes "q < dlen e"
  shows "\<exists>q'. (if header_state p = h_general
        then skip_token (data e) q (q + min (dlen e - q) (unat (max_header_size e))) else Inr q) = Inr q' \<and> q \<le> q' \<and> q' < dlen e"
proof (cases "max_header_size e = 0")
  case True
  have "skip_token (data e) q q = Inr q" by (subst skip_token.simps) simp
  with True assms show ?thesis by simp
next
  case False
  then have "0 < unat (max_header_size e)" by (simp add: unat_gt_0)
  then have "q < q + min (dlen e - q) (unat (max_header_size e))" using assms by simp
  moreover have "q + min (dlen e - q) (unat (max_header_size e)) \<le> dlen e" using assms by simp
  ultimately obtain q' where
    "skip_token (data e) q (q + min (dlen e - q) (unat (max_header_size e))) = Inr q'" "q \<le> q'"
    "q' < q + min (dlen e - q) (unat (max_header_size e))" using skip_token_ok by blast
  then show ?thesis using assms by auto
qed

lemma header_field_loop_ok:
  assumes "header_state p \<in> field_states" "q \<le> dlen e"
  shows "\<exists>q' p'. header_field_loop e q p = Inr (q', p') \<and> q \<le> q' \<and> q' \<le> dlen e \<and> header_state p' \<in> field_states \<and> hframe p p'"
  using assms
proof (induction e q p rule: header_field_loop.induct)
  case (1 e q p)
  let ?ch = "data e ! q" let ?c = "TOKEN ?ch"
  show ?case
  proof (cases "q = dlen e \<or> ?c = 0")
    case True
    with "1.prems" show ?thesis by (subst header_field_loop.simps) (auto simp: Let_def hframe_def)
  next
    case False
    then have lt: "q < dlen e" using "1.prems" by simp
    obtain p1 where p1: "header_field_char ?ch ?c p = Some p1" "header_state p1 \<in> field_states" "hframe p p1"
      using header_field_char_ok[OF "1.prems"(1)] by blast
    obtain r where r: "(if header_state p = h_general
        then skip_token (data e) q (q + min (dlen e - q) (unat (max_header_size e))) else Inr q) = Inr r" "q \<le> r" "r < dlen e"
      using skip_general_ok[OF lt] by blast
    from "1.IH"[OF _ _ refl _ p1(1) r(1)] False lt p1 r obtain q' p' where
      "header_field_loop e (Suc r) p1 = Inr (q', p')" "Suc r \<le> q'" "q' \<le> dlen e" "header_state p' \<in> field_states" "hframe p1 p'"
      by auto
    then show ?thesis using False lt p1 r
      by (subst header_field_loop.simps) (auto simp: Let_def hframe_def)
  qed
qed

lemma good_header_field:
  assumes d: "dinv e s_header_field x"
  shows "good e x (x_header_field e x)"
proof -
  have m: "\<forall>m. marks x m \<noteq> None \<longrightarrow> m = M_header_field"
    using d region_inj[of s_header_field M_header_field] by (auto simp: dinv_def marks_ok_def)
  have "header_state (prs x) \<in> field_states" using d by (simp add: dinv_def pinv_def)
  from header_field_loop_ok[OF this, of "pos x" e] d obtain q p where
    l: "header_field_loop e (pos x) (prs x) = Inr (q, p)" "pos x \<le> q" "q \<le> dlen e" "header_state p \<in> field_states" "hframe (prs x) p"
    by (auto simp: dinv_def)
  show ?thesis
  proof (cases "q = dlen e")
    case True
    let ?x = "x\<lparr>prs := p, pos := q - 1\<rparr>"
    have "good e x (COUNT_HEADER_SIZE e v ?x Next)" for v
      using d l True m by (intro good_count) (fastforce simp: good.simps dinv_def inv_def marks_ok_def pinv_def chunk_states_def hframe_def)+
    then show ?thesis using l True by (simp add: x_header_field_def Let_def)
  next
    case False
    let ?x = "x\<lparr>pos := q, prs := p\<rparr>"
    have "good e x (COUNT_HEADER_SIZE e v ?x (\<lambda>x2. if data e ! q = CHR '':''
        then CALLBACK_DATA e M_header_field q (q + 1) (UPDATE_STATE s_header_value_discard_ws x2) Next
        else fail HPE_INVALID_HEADER_TOKEN x2))" for v
    proof (rule good_count)
      fix z assume z: "z = ?x\<lparr>nrd := nrd ?x + of_nat v\<rparr>" "nrd z \<le> max_header_size e"
      let ?y = "UPDATE_STATE s_header_value_discard_ws z"
      have "good e x (CALLBACK_DATA e M_header_field q (q + 1) ?y Next)"
      proof (rule good_data)
        fix w assume "same (?y\<lparr>marks := (marks ?y)(M_header_field := None)\<rparr>) w"
        then show "good e x (Next w)"
          using z d l False m by (auto simp: good.simps same_def inv_def UPDATE_STATE_def dinv_def pinv_def chunk_states_def
              marks_ok_def hframe_def)
      qed (use z d l False in \<open>auto simp: UPDATE_STATE_def dinv_def pinv_def chunk_states_def hframe_def dest!: marks_okD(2)\<close>)
      moreover have "good e x (fail HPE_INVALID_HEADER_TOKEN z)"
        using z l False by (intro good_fail) auto
      ultimately show "good e x (if data e ! q = CHR '':''
        then CALLBACK_DATA e M_header_field q (q + 1) (UPDATE_STATE s_header_value_discard_ws z) Next
        else fail HPE_INVALID_HEADER_TOKEN z)" by simp
    qed (use l False in auto)
    then show ?thesis using l False by (simp add: x_header_field_def Let_def)
  qed
qed

lemma good_header_value_start:
  assumes d: "dinv e s x" and s: "s = s_header_value_start \<or> s = s_header_value_discard_ws"
  shows "good e x (x_header_value_start ch x)"
proof -
  have m: "marks x = (\<lambda>_. None)" using s no_marks[OF d not_region] by (auto simp: is_url_state_def)
  let ?x1 = "upd (\<lambda>p. p\<lparr>index := 0\<rparr>) (UPDATE_STATE s_header_value (MARK M_header_value x))"
  have hs: "header_state (prs ?x1) = header_state (prs x)" by (simp add: upd_def UPDATE_STATE_def MARK_def)
  have ok: "good e x (Next (upd f ?x1))"
    if "header_state (f (prs ?x1)) \<noteq> h_connection" "header_state (f (prs ?x1)) \<noteq> h_transfer_encoding"
      "\<And>p. http_errno (f p) = http_errno p" "\<And>p. nread (f p) = nread p" for f
    using d m that s by (auto simp: good.simps dinv_def step_simps MARK_def split: if_splits)
  have okk: "good e x (Next (upd (\<lambda>p. p\<lparr>header_state := h\<rparr>) (upd g ?x1)))"
    if "h \<noteq> h_connection" "h \<noteq> h_transfer_encoding" "\<And>p. http_errno (g p) = http_errno p" "\<And>p. nread (g p) = nread p" for h g
    using ok[of "\<lambda>p. (g p)\<lparr>header_state := h\<rparr>"] that by (simp add: upd_def)
  have ok1: "good e x (Next ?x1)" if "header_state (prs x) \<noteq> h_connection" "header_state (prs x) \<noteq> h_transfer_encoding"
    using ok[of "\<lambda>p. p"] that hs by (simp add: upd_id)
  have okh: "good e x (Next (upd (\<lambda>p. p\<lparr>header_state := h\<rparr>) ?x1))" if "h \<noteq> h_connection" "h \<noteq> h_transfer_encoding" for h
    using ok[of "\<lambda>p. p\<lparr>header_state := h\<rparr>"] that by simp
  have er: "good e x (fail HPE_INVALID_CONTENT_LENGTH ?x1)" "good e x (fail HPE_UNEXPECTED_CONTENT_LENGTH ?x1)"
    using d m by (auto simp: dinv_def upd_def UPDATE_STATE_def MARK_def intro!: good_fail)
  show ?thesis
    unfolding x_header_value_start_def Let_def hs
    by (cases "header_state (prs x)")
      (use er in \<open>auto simp: set_flag_def intro!: okk okh ok1\<close>)
qed

lemma good_header_value_discard_ws:
  assumes d: "dinv e s_header_value_discard_ws x"
  shows "good e x (x_header_value_discard_ws ch x)"
proof -
  have m: "marks x = (\<lambda>_. None)" using no_marks[OF d not_region] by (simp add: is_url_state_def)
  with d good_header_value_start[OF d] show ?thesis
    by (auto simp: x_header_value_discard_ws_def good_stay good_goto plain_def chunk_states_def)
qed


lemma hv_scan_ok:
  "q \<le> pe \<Longrightarrow> pe \<le> length d \<Longrightarrow> \<exists>q' b. hv_scan d lnt q pe = Inr (q', b) \<and> q' \<le> pe \<and> (b \<longrightarrow> q' < pe)"
proof (induction d lnt q pe rule: hv_scan.induct)
  case (1 d lnt q pe)
  show ?case
  proof (cases "q = pe")
    case True
    then show ?thesis by (auto simp: hv_scan.simps)
  next
    case False
    then have lt: "q < length d" "q < pe" using "1.prems" by auto
    have step: "hv_scan d lnt q pe = (if is_eol (d ! q) then Inr (q - 1, False)
        else if \<not> lnt \<and> \<not> IS_HEADER_CHAR (d ! q) then Inr (q, True) else hv_scan d lnt (q + 1) pe)"
      using False lt by (subst hv_scan.simps) simp
    show ?thesis
    proof (cases "is_eol (d ! q) \<or> \<not> lnt \<and> \<not> IS_HEADER_CHAR (d ! q)")
      case True
      then have "hv_scan d lnt q pe = (if is_eol (d ! q) then Inr (q - 1, False) else Inr (q, True))" using step by auto
      then show ?thesis using lt
        by (intro exI[of _ "if is_eol (d ! q) then q - 1 else q"] exI[of _ "\<not> is_eol (d ! q)"]) auto
    next
      case go: False
      have "\<exists>q' b. hv_scan d lnt (q + 1) pe = Inr (q', b) \<and> q' \<le> pe \<and> (b \<longrightarrow> q' < pe)"
        by (rule "1.IH"[OF False byte_at_Inr[OF lt(1)]]) (use go lt "1.prems" in simp_all)
      moreover have "hv_scan d lnt q pe = hv_scan d lnt (q + 1) pe" using go step by auto
      ultimately show ?thesis by simp
    qed
  qed
qed

lemma header_value_char_ok:
  assumes "h \<noteq> h_connection" "h \<noteq> h_transfer_encoding" "q < dlen e" "\<not> is_eol (data e ! q)"
  shows "case header_value_char e h ch q p of
     HvGo h' q' p' \<Rightarrow> h' \<noteq> h_connection \<and> h' \<noteq> h_transfer_encoding \<and> q \<le> q' \<and> q' < dlen e \<and> hframe p p'
   | HvFail err q' p' \<Rightarrow> q' < dlen e \<and> hframe p p' \<and> err \<noteq> HPE_OK \<and> err \<noteq> HPE_PAUSED
   | HvStuck err \<Rightarrow> False"
proof (cases "h = h_general")
  case True
  let ?pe = "q + min (dlen e - q) (unat (max_header_size e))"
  have pe: "?pe \<le> dlen e" using assms(3) by simp
  obtain q' b where s: "hv_scan (data e) (lenient e) q ?pe = Inr (q', b)" and le: "q' \<le> ?pe" and bad: "b \<longrightarrow> q' < ?pe"
    using hv_scan_ok[of q ?pe "data e" "lenient e", OF le_add1 pe] by blast
  have "q \<le> q'" using hv_scan_ge[OF s assms(4)] .
  with True s le bad assms(3) show ?thesis
    by (cases b) (auto simp: header_value_char_def general_value_def Let_def hframe_def)
next
  case False
  with assms show ?thesis
    by (cases h) (auto simp: header_value_char_def Let_def match_value_def content_length_char_def hframe_def set_flag_def
        split: matched.splits)
qed


lemma good_header_value_done:
  assumes "pos x \<le> dlen e" "start \<le> pos x" "start < dlen e" "http_errno (prs x) = HPE_OK" "nread (prs x) \<le> max_header_size e"
    "p_state x = s_header_almost_done \<and> marks x = (\<lambda>_. None) \<or>
     p_state x = s_header_value \<and> (\<forall>m s. marks x m = Some s \<longrightarrow> p_state x \<in> region m \<and> s \<le> start)"
    "h \<noteq> h_connection" "h \<noteq> h_transfer_encoding" "pos x0 = start"
  shows "good e x0 (header_value_done e start h x)"
  unfolding header_value_done_def Let_def
  using assms
  by (intro good_count) (fastforce simp: good.simps inv_def upd_def pinv_def marks_ok_def chunk_states_def)+

lemma good_header_value_loop:
  assumes "settings_ok (settings e)" "start < dlen e" "pos x0 = start" "p_state x0 = s_header_value"
    and "pos x \<le> dlen e" "start \<le> pos x" "http_errno (prs x) = HPE_OK" "nread (prs x) \<le> max_header_size e"
    "nrd x \<le> max_header_size e" "p_state x = s_header_value" "\<forall>m s. marks x m = Some s \<longrightarrow> p_state x \<in> region m \<and> s \<le> start"
    "h \<noteq> h_connection" "h \<noteq> h_transfer_encoding"
  shows "good e x0 (header_value_loop e start h x)"
  using assms
proof (induction e start h x rule: header_value_loop.induct[case_names loop])
  case (loop e start h x)
  note pr = loop.prems
  let ?ch = "data e ! pos x"
  have m: "\<forall>m. marks x m \<noteq> None \<longrightarrow> m = M_header_value"
    using pr(10,11) region_inj[of s_header_value M_header_value] by auto
  have s: "s \<le> pos x" if "marks x m = Some s" for m s using pr(6,11) that by fastforce
  show ?case
  proof (cases "pos x = dlen e")
    case True
    with pr show ?thesis by (subst header_value_loop.simps) (auto intro: good_header_value_done)
  next
    case False
    then have lt: "pos x < dlen e" using pr(5) by simp
    let ?y = "upd (\<lambda>p. p\<lparr>header_state := h\<rparr>) (UPDATE_STATE s_header_almost_done x)"
    have cr: "good e x0 (CALLBACK_DATA e M_header_value (pos x) (pos x + 1) ?y (header_value_done e start h))"
    proof (rule good_data)
      fix z assume "same (?y\<lparr>marks := (marks ?y)(M_header_value := None)\<rparr>) z"
      then show "good e x0 (header_value_done e start h z)"
        using pr lt m by (intro good_header_value_done) (auto simp: same_def upd_def UPDATE_STATE_def fun_eq_iff)
    qed (use pr lt s in \<open>auto simp: upd_def UPDATE_STATE_def pinv_def chunk_states_def\<close>)
    have lf: "good e x0 (COUNT_HEADER_SIZE e (pos x - start) (UPDATE_STATE s_header_almost_done x) (\<lambda>x1.
            CALLBACK_DATA e M_header_value (pos x1) (pos x1) (upd (\<lambda>p. p\<lparr>header_state := h\<rparr>) x1) Reexec))"
    proof (rule good_count)
      fix z assume z: "z = (UPDATE_STATE s_header_almost_done x)\<lparr>nrd := nrd (UPDATE_STATE s_header_almost_done x) + of_nat (pos x - start)\<rparr>"
          "nrd z \<le> max_header_size e"
      let ?z = "upd (\<lambda>p. p\<lparr>header_state := h\<rparr>) z"
      show "good e x0 (CALLBACK_DATA e M_header_value (pos z) (pos z) ?z Reexec)"
      proof (rule good_data)
        fix w assume "same (?z\<lparr>marks := (marks ?z)(M_header_value := None)\<rparr>) w"
        then show "good e x0 (Reexec w)"
          using z pr lt m by (auto simp: good.simps same_def inv_def upd_def UPDATE_STATE_def pinv_def chunk_states_def marks_ok_def rank_def)
      qed (use z pr lt s in \<open>auto simp: upd_def UPDATE_STATE_def pinv_def chunk_states_def\<close>)
    qed (use lt in \<open>simp add: UPDATE_STATE_def\<close>)
    have bad: "good e x0 (fail HPE_INVALID_HEADER_TOKEN x)" using pr lt by (intro good_fail) auto
    show ?thesis
    proof (cases "is_eol ?ch \<or> \<not> lenient e \<and> \<not> IS_HEADER_CHAR ?ch")
      case True
      with cr lf bad lt show ?thesis by (subst header_value_loop.simps) (auto simp: Let_def is_eol_def)
    next
      case ok: False
      note hv = header_value_char_ok[OF pr(12,13) lt, where ch = ?ch and p = "prs x"]
      have step: "header_value_loop e start h x = (case header_value_char e h ?ch (pos x) (prs x) of
          HvStuck err \<Rightarrow> Stuck err
        | HvFail err q p \<Rightarrow> fail err (x\<lparr>pos := q, prs := p\<rparr>)
        | HvGo h' q p \<Rightarrow> header_value_loop e start h' (x\<lparr>pos := q + 1, prs := p\<rparr>))"
        using ok lt by (subst header_value_loop.simps) (auto simp: Let_def is_eol_def)
      show ?thesis
      proof (cases "header_value_char e h ?ch (pos x) (prs x)")
        case (HvGo h' q p)
        with hv ok have g: "h' \<noteq> h_connection" "h' \<noteq> h_transfer_encoding" "pos x \<le> q" "q < dlen e" "hframe (prs x) p" by auto
        have "good e x0 (header_value_loop e start h' (x\<lparr>pos := q + 1, prs := p\<rparr>))"
          using ok HvGo False g pr
          by (intro loop.IH[OF _ _ _ _ _ HvGo]) (auto simp: is_eol_def hframe_def)
        with step HvGo show ?thesis by simp
      next
        case (HvFail err q p)
        with hv ok step pr show ?thesis by (auto intro!: good_fail)
      next
        case (HvStuck err)
        with hv ok show ?thesis by auto
      qed
    qed
  qed
qed

lemma good_header_value:
  assumes d: "dinv e s_header_value x"
  shows "good e x (x_header_value e x)"
  unfolding x_header_value_def
  by (rule good_header_value_loop) (use d in \<open>auto simp: dinv_def pinv_def marks_ok_def\<close>)

lemma good_header_almost_done:
  assumes d: "dinv e s_header_almost_done x"
  shows "good e x (x_header_almost_done ch x)"
proof -
  have m: "marks x = (\<lambda>_. None)" using no_marks[OF d not_region] by (simp add: is_url_state_def)
  with d show ?thesis by (auto simp: x_header_almost_done_def good_err good_goto plain_def chunk_states_def)
qed

lemma header_flag_frame: "hframe p (header_flag p)"
  by (auto simp: header_flag_def hframe_def set_flag_def split: header_states.splits)

lemma good_header_value_lws:
  assumes d: "dinv e s_header_value_lws x"
  shows "good e x (x_header_value_lws ch x)"
proof -
  have m: "marks x = (\<lambda>_. None)" using no_marks[OF d not_region] by (simp add: is_url_state_def)
  with d header_flag_frame[of "prs x"] show ?thesis
    by (auto simp: x_header_value_lws_def good.simps dinv_def step_simps rank_def hframe_def)
qed

lemma good_header_value_discard_lws:
  assumes d: "dinv e s_header_value_discard_lws x"
  shows "good e x (x_header_value_discard_lws e ch x)"
proof -
  have m: "marks x = (\<lambda>_. None)" using no_marks[OF d not_region] by (simp add: is_url_state_def)
  let ?y = "UPDATE_STATE s_header_field_start (MARK M_header_value (upd header_flag x))"
  have y: "pos ?y = pos x" "p_state ?y = s_header_field_start" "nrd ?y = nrd x" "http_errno (prs ?y) = HPE_OK"
    "nread (prs ?y) = nread (prs x)" "(marks ?y)(M_header_value := None) = (\<lambda>_. None)"
    using d m header_flag_frame[of "prs x"] by (auto simp: UPDATE_STATE_def MARK_def upd_def dinv_def hframe_def fun_eq_iff)
  have "good e x (CALLBACK_DATA e M_header_value (pos x) (pos x) ?y Reexec)"
  proof (rule good_data)
    fix z assume "same (?y\<lparr>marks := (marks ?y)(M_header_value := None)\<rparr>) z"
    then show "good e x (Reexec z)"
      using y d by (auto simp: good.simps same_def inv_def pinv_def chunk_states_def marks_ok_def rank_def dinv_def)
  next
    show "s \<le> pos x" if "marks ?y M_header_value = Some s" for s using that m by (simp add: UPDATE_STATE_def MARK_def upd_def)
  qed (use y d in \<open>auto simp: dinv_def pinv_def chunk_states_def\<close>)
  with d m show ?thesis
    by (auto simp: x_header_value_discard_lws_def good_err good_goto plain_def chunk_states_def)
qed

section \<open>End of the headers and body\<close>

lemma set_upgrade_frame: "hframe p (set_upgrade p)"
  by (simp add: set_upgrade_def hframe_def)

lemma good_RETURN:
  assumes "n \<le> dlen e" "nrd y \<le> max_header_size e"
    "http_errno (prs y) = HPE_OK \<or> http_errno (prs y) = HPE_PAUSED \<longrightarrow> pinv (p_state y) (prs y) (nrd y)"
  shows "good e x (RETURN n y)"
proof -
  have "pinv s ((prs y)\<lparr>nread := a, state := b\<rparr>) c = pinv s (prs y) c" for s a b c
    by (rule pinv_cong) simp_all
  with assms show ?thesis by (simp add: RETURN_def good.simps)
qed

lemma good_headers_complete:
  assumes "settings_ok (settings e)" "pos y = pos x" "pos x < dlen e" "http_errno (prs y) = HPE_OK" "marks y = (\<lambda>_. None)"
    "nrd y \<le> max_header_size e" "nread (prs y) \<le> max_header_size e" "p_state y = s_headers_done"
    "rank (p_state x) > 1"
  shows "good e x (headers_complete e y)"
proof -
  have pl: "pinv s_headers_done p n" for p :: "'a http_parser" and n by (rule pinv_plain) (simp add: plain_def chunk_states_def)
  have go: "good e x (if http_errno (prs z) \<noteq> HPE_OK then RETURN (pos z) z else Reexec z)"
    if "pos z = pos x" "marks z = (\<lambda>_. None)" "nrd z = nrd y" "nread (prs z) = nread (prs y)" "p_state z = s_headers_done" for z
    using that assms pl
    by (auto simp: good.simps inv_def marks_ok_def rank_def intro!: good_RETURN)
  have err: "good e x (RETURN (pos y) (SET_ERRNO HPE_CB_headers_complete (y\<lparr>prs := q\<rparr>)))" for q
    using assms by (intro good_RETURN) (auto simp: SET_ERRNO_def)
  show ?thesis
  proof (cases "on_headers_complete (settings e)")
    case None
    then show ?thesis using go[of y] assms by (simp add: headers_complete_def Let_def)
  next
    case (Some f)
    obtain r q where rq: "f (prs y) = (r, q)" by fastforce
    have "\<forall>p. cb_frame p (snd (f p))" using settings_okD(2)[OF assms(1)] Some by (simp add: notify_ok_def)
    then have "cb_frame (prs y) q" using rq by (metis snd_conv)
    then have n: "nread q = nread (prs y)" by (rule cb_frame_fields)
    show ?thesis
      using Some rq n assms err[of q] go[of "y\<lparr>prs := q\<rparr>"] go[of "upd (set_flag F_SKIPBODY) (y\<lparr>prs := q\<rparr>)"]
        go[of "upd (\<lambda>p. set_flag F_SKIPBODY (p\<lparr>upgrade := True\<rparr>)) (y\<lparr>prs := q\<rparr>)"]
      by (auto simp: headers_complete_def Let_def upd_def set_flag_def)
  qed
qed

lemma good_headers_almost_done:
  assumes d: "dinv e s_headers_almost_done x"
  shows "good e x (x_headers_almost_done e ch x)"
  unfolding x_headers_almost_done_def
proof (rule good_strict)
  have m: "marks x = (\<lambda>_. None)" using no_marks[OF d not_region] by (simp add: is_url_state_def)
  have "good e x (CALLBACK_NOTIFY (on_chunk_complete (settings e)) HPE_CB_chunk_complete (pos x) (UPDATE_STATE s_message_done x) Reexec)"
  proof (rule good_notify)
    fix z assume "same (UPDATE_STATE s_message_done x) z"
    then show "good e x (Reexec z)"
      using d m by (auto simp: good.simps same_def inv_def UPDATE_STATE_def pinv_def chunk_states_def marks_ok_def rank_def dinv_def)
  qed (use d settings_okD(5) in \<open>auto simp: dinv_def UPDATE_STATE_def pinv_def chunk_states_def\<close>)
  moreover have "good e x (headers_complete e (upd set_upgrade (UPDATE_STATE s_headers_done x)))"
    using d m set_upgrade_frame[of "prs x"]
    by (intro good_headers_complete) (auto simp: dinv_def upd_def UPDATE_STATE_def hframe_def rank_def)
  ultimately show "good e x (if flag F_TRAILING (prs x) then
         CALLBACK_NOTIFY (on_chunk_complete (settings e)) HPE_CB_chunk_complete (pos x) (UPDATE_STATE s_message_done x) Reexec
       else if flag F_CHUNKED (prs x) \<and> flag F_CONTENTLENGTH (prs x) then fail HPE_UNEXPECTED_CONTENT_LENGTH x
       else headers_complete e (upd set_upgrade (UPDATE_STATE s_headers_done x)))"
    using d by (auto simp: good_err)
qed (use d in \<open>auto simp: dinv_def\<close>)

lemma plain_new_message: "plain (NEW_MESSAGE p)" "\<not> is_url_state (NEW_MESSAGE p)"
  by (auto simp: NEW_MESSAGE_def start_state_def plain_def chunk_states_def is_url_state_def)

lemma good_message_complete:
  assumes "settings_ok (settings e)" "pos y = pos x" "pos x < dlen e" "http_errno (prs y) = HPE_OK" "marks y = (\<lambda>_. None)"
    "nrd y \<le> max_header_size e" "nread (prs y) \<le> max_header_size e"
    and k: "\<And>z. pos z = pos x \<Longrightarrow> marks z = (\<lambda>_. None) \<Longrightarrow> http_errno (prs z) = HPE_OK \<Longrightarrow> nrd z = nrd y \<Longrightarrow>
       nread (prs z) = nread (prs y) \<Longrightarrow> plain (p_state z) \<Longrightarrow> good e x (k z)"
  shows "good e x (message_complete e y k)"
  unfolding message_complete_def
proof (rule good_notify)
  fix z assume "same (UPDATE_STATE (NEW_MESSAGE (prs y)) y) z"
  then show "good e x (k z)"
    using assms(2,5) plain_new_message by (intro k) (auto simp: same_def UPDATE_STATE_def)
qed (use assms settings_okD(3) plain_new_message in \<open>auto simp: UPDATE_STATE_def intro!: pinv_plain\<close>)

lemma good_plain_next:
  "pos z = pos x \<Longrightarrow> pos x < dlen e \<Longrightarrow> marks z = (\<lambda>_. None) \<Longrightarrow> http_errno (prs z) = HPE_OK \<Longrightarrow> nrd z \<le> max_header_size e \<Longrightarrow>
   nread (prs z) \<le> max_header_size e \<Longrightarrow> plain (p_state z) \<Longrightarrow> good e x (Next z)"
  by (auto simp: good.simps inv_def pinv_plain marks_ok_def)

lemma good_headers_done:
  assumes d: "dinv e s_headers_done x"
  shows "good e x (x_headers_done e ch x)"
  unfolding x_headers_done_def
proof (rule good_strict)
  have m: "marks x = (\<lambda>_. None)" using no_marks[OF d not_region] by (simp add: is_url_state_def)
  let ?x = "(upd (\<lambda>p. p\<lparr>nread := 0\<rparr>) x)\<lparr>nrd := 0\<rparr>"
  have x: "pos ?x = pos x" "marks ?x = (\<lambda>_. None)" "nrd ?x = 0" "nread (prs ?x) = 0" "http_errno (prs ?x) = HPE_OK"
    "pos x < dlen e" "settings_ok (settings e)" "p_state ?x = s_headers_done"
    using d m by (auto simp: dinv_def upd_def)
  have mc: "good e x (message_complete e ?x Next)" "good e x (message_complete e ?x (\<lambda>y. RETURN (pos y + 1) y))"
    using x by (auto intro!: good_message_complete good_plain_next good_RETURN simp: pinv_plain)
  have ch: "good e x (Next (UPDATE_STATE s_chunk_size_start ?x))" if "flag F_CHUNKED (prs ?x)"
    using x that by (auto simp: good.simps inv_def UPDATE_STATE_def pinv_def chunk_states_def marks_ok_def)
  have bi: "good e x (Next (UPDATE_STATE s_body_identity ?x))" if "content_length (prs ?x) \<noteq> 0" "content_length (prs ?x) \<noteq> ULLONG_MAX"
    using x that by (auto simp: good.simps inv_def UPDATE_STATE_def pinv_def chunk_states_def marks_ok_def)
  have be: "good e x (Next (UPDATE_STATE s_body_identity_eof ?x))"
    using x by (auto simp: good.simps inv_def UPDATE_STATE_def pinv_def chunk_states_def marks_ok_def)
  show "good e x (let x = ?x; p = prs x in
       if upgrade p \<and> (method p = HTTP_CONNECT \<or> flag F_SKIPBODY p \<or> \<not> hasBody p)
       then message_complete e x (\<lambda>y. RETURN (pos y + 1) y)
       else if flag F_SKIPBODY p then message_complete e x Next
       else if flag F_CHUNKED p then Next (UPDATE_STATE s_chunk_size_start x)
       else if content_length p = 0 then message_complete e x Next
       else if content_length p \<noteq> ULLONG_MAX then Next (UPDATE_STATE s_body_identity x)
       else if \<not> http_message_needs_eof p then message_complete e x Next
       else Next (UPDATE_STATE s_body_identity_eof x))"
    unfolding Let_def using mc ch bi be by simp
qed (use d in \<open>auto simp: dinv_def\<close>)


lemma take_body_ok:
  assumes d: "dinv e s x" and s: "s = s_body_identity \<or> s = s_chunk_data"
  defines "y \<equiv> take_body e x"
  shows "pos x \<le> pos y" "pos y < dlen e" "content_length (prs y) \<noteq> ULLONG_MAX" "p_state y = s" "nrd y = nrd x"
    "hframe (prs x) (prs y)" "flags (prs y) = flags (prs x)" "\<forall>m s. marks y m = Some s \<longrightarrow> m = M_body \<and> s \<le> pos y"
proof -
  let ?cl = "content_length (prs x)" let ?n = "min ?cl (of_nat (dlen e - pos x))"
  have cl: "?cl \<noteq> 0" "?cl \<noteq> ULLONG_MAX" using d s by (auto simp: dinv_def pinv_def)
  have lt: "pos x < dlen e" "dlen e - pos x < 2 ^ 64" using d by (auto simp: dinv_def)
  have r: "unat (of_nat (dlen e - pos x) :: 64 word) = dlen e - pos x" using lt(2) by (simp add: unat_of_nat)
  have n: "unat ?n = min (unat ?cl) (dlen e - pos x)"
    by (cases "?cl \<le> of_nat (dlen e - pos x)") (use r in \<open>auto simp: min_def word_le_nat_alt\<close>)
  have pos: "0 < unat ?cl" using cl(1) by (simp add: unat_gt_0)
  have y: "prs y = (prs x)\<lparr>content_length := ?cl - ?n\<rparr>" "pos y = pos x + unat ?n - 1" "p_state y = p_state x" "nrd y = nrd x"
    "marks y = marks (MARK M_body x)"
    by (simp_all add: y_def take_body_def Let_def upd_def MARK_def)
  have n1: "1 \<le> unat ?n" "unat ?n \<le> dlen e - pos x" unfolding n using pos lt by auto
  then show py: "pos x \<le> pos y" "pos y < dlen e" unfolding y(2) using lt(1) by linarith+
  have "unat (?cl - ?n) = unat ?cl - unat ?n" by (rule unat_sub) simp
  then have "unat (?cl - ?n) < unat ?cl" using n pos lt by simp
  moreover have "unat ?cl \<le> unat ULLONG_MAX" by (simp flip: word_le_nat_alt)
  ultimately show "content_length (prs y) \<noteq> ULLONG_MAX" using y by auto
  show "p_state y = s" "nrd y = nrd x" "hframe (prs x) (prs y)" "flags (prs y) = flags (prs x)"
    using y d by (simp_all add: dinv_def hframe_def)
  have "s \<in> region M_body" using s by auto
  then have "m = M_body \<and> s' \<le> pos x" if "marks y m = Some s'" for m s'
    using that y(5) d region_inj[of s M_body m] marks_okD(1)[of x m] marks_okD(2)[of x m s']
    by (auto simp: MARK_def dinv_def split: if_splits)
  with py show "\<forall>m s. marks y m = Some s \<longrightarrow> m = M_body \<and> s \<le> pos y" by fastforce
qed

lemma UPDATE_STATE_same: "p_state x = s \<Longrightarrow> UPDATE_STATE s x = x"
  by (simp add: UPDATE_STATE_def)

lemma body_marks:
  "\<forall>m s. marks y m = Some s \<longrightarrow> m = M_body \<and> s \<le> pos y \<Longrightarrow> s' \<in> region M_body \<Longrightarrow> marks_ok (UPDATE_STATE s' y)"
  by (fastforce simp: marks_ok_def UPDATE_STATE_def)

lemma good_body_identity:
  assumes d: "dinv e s_body_identity x"
  shows "good e x (x_body_identity e x)"
proof -
  let ?y = "take_body e x"
  note t = take_body_ok[OF d disjI1, OF refl]
  have cl: "content_length (prs x) \<noteq> 0" "content_length (prs x) \<noteq> ULLONG_MAX" using d by (auto simp: dinv_def pinv_def)
  have "good e x (CALLBACK_DATA e M_body (pos ?y + 1) (pos ?y) (UPDATE_STATE s_message_done ?y) Reexec)"
  proof (rule good_data)
    fix z assume "same (UPDATE_STATE s_message_done ?y\<lparr>marks := (marks (UPDATE_STATE s_message_done ?y))(M_body := None)\<rparr>) z"
    then show "good e x (Reexec z)"
      using t d by (auto simp: good.simps same_def inv_def UPDATE_STATE_def pinv_def chunk_states_def marks_ok_def rank_def dinv_def hframe_def)
  qed (use t d in \<open>auto simp: dinv_def UPDATE_STATE_def pinv_def chunk_states_def hframe_def intro: le_SucI\<close>)
  moreover have "good e x (Next ?y)" if "content_length (prs ?y) \<noteq> 0"
    using t d that body_marks[OF t(8), of s_body_identity]
    by (simp add: good.simps inv_def pinv_def chunk_states_def dinv_def hframe_def UPDATE_STATE_same)
  ultimately show ?thesis using cl by (simp add: x_body_identity_def assert_def Let_def)
qed

lemma good_body_identity_eof:
  assumes d: "dinv e s_body_identity_eof x"
  shows "good e x (x_body_identity_eof e x)"
proof -
  have "s \<le> dlen e - 1" if "marks x m = Some s" for m s
    using d that marks_okD(2)[of x m s] unfolding dinv_def by linarith
  moreover have "m = M_body" if "marks x m \<noteq> None" for m
    using d that region_inj[of s_body_identity_eof M_body m] marks_okD(1)[of x m] by (simp add: dinv_def)
  ultimately have "marks_ok ((MARK M_body x)\<lparr>pos := dlen e - 1\<rparr>)" using d
    by (auto simp: marks_ok_def MARK_def dinv_def split: if_splits)
  with d show ?thesis
    by (auto simp: x_body_identity_eof_def good.simps inv_def dinv_def pinv_def chunk_states_def MARK_def split: if_splits)
qed

lemma good_message_done:
  assumes d: "dinv e s_message_done x"
  shows "good e x (x_message_done e x)"
proof -
  have m: "marks x = (\<lambda>_. None)" using no_marks[OF d not_region] by (simp add: is_url_state_def)
  with d show ?thesis
    by (auto simp: x_message_done_def dinv_def intro!: good_message_complete good_plain_next good_RETURN simp: pinv_plain)
qed

lemma unhex_small: "table_at unhex 0 ch = -1 \<or> (0 \<le> table_at unhex 0 ch \<and> table_at unhex 0 ch < 16)"
proof -
  have "list_all (\<lambda>v. v = -1 \<or> (0 \<le> v \<and> v < 16)) unhex" by code_simp
  then show ?thesis by (auto simp: table_at_def list_all_iff)
qed

lemma chunk_digit_bound:
  assumes "\<not> (ULLONG_MAX - 16) div 16 < (cl :: 64 word)" "0 \<le> v" "v < 16"
  shows "unat (cl * 16 + of_int v) = 16 * unat cl + nat v" "cl * 16 + of_int v \<noteq> ULLONG_MAX"
proof -
  have "(ULLONG_MAX - 16) div 16 = (1152921504606846974 :: 64 word)" by simp
  then have c: "unat cl \<le> 1152921504606846974" using assms(1) by (simp add: not_less word_le_nat_alt)
  obtain k where k: "v = int k" "k < 16" using assms(2,3) by (metis nonneg_int_cases of_nat_less_numeral_iff)
  then have v: "unat (of_int v :: 64 word) = k" by (simp add: unat_of_nat)
  show u: "unat (cl * 16 + of_int v) = 16 * unat cl + nat v"
    using c k v by (simp add: unat_word_ariths)
  have m: "unat ULLONG_MAX = 18446744073709551615" by (simp add: unsigned_minus_1_eq_mask mask_eq_exp_minus_1)
  show "cl * 16 + of_int v \<noteq> ULLONG_MAX"
  proof
    assume "cl * 16 + of_int v = ULLONG_MAX"
    then have "16 * unat cl + k = 18446744073709551615" using u m k by simp
    with c k(2) show False by linarith
  qed
qed

lemma good_chunk_size_start:
  assumes d: "dinv e s_chunk_size_start x"
  shows "good e x (x_chunk_size_start ch x)"
proof -
  have m: "marks x = (\<lambda>_. None)" using no_marks[OF d not_region] by (simp add: is_url_state_def)
  let ?v = "table_at unhex 0 ch"
  have as: "nrd x = 1" "flag F_CHUNKED (prs x)" using d by (auto simp: dinv_def pinv_def chunk_states_def)
  have "(of_int ?v :: 64 word) \<noteq> ULLONG_MAX" if "?v \<noteq> -1"
    using that unhex_small[of ch] chunk_digit_bound(2)[of 0 ?v] by (auto simp: not_less)
  with d m as show ?thesis
    by (auto simp: x_chunk_size_start_def assert_def Let_def good_err)
      (auto simp: good.simps dinv_def step_simps)
qed

lemma good_chunk_size:
  assumes d: "dinv e s_chunk_size x"
  shows "good e x (x_chunk_size ch x)"
proof -
  have m: "marks x = (\<lambda>_. None)" using no_marks[OF d not_region] by (simp add: is_url_state_def)
  let ?v = "table_at unhex 0 ch" let ?cl = "content_length (prs x)"
  have as: "flag F_CHUNKED (prs x)" "?cl \<noteq> ULLONG_MAX" using d by (auto simp: dinv_def pinv_def chunk_states_def)
  have mv: "good e x (Next (UPDATE_STATE s_chunk_size_almost_done x))" "good e x (Next (UPDATE_STATE s_chunk_parameters x))"
    using d m as by (auto simp: good.simps dinv_def inv_def UPDATE_STATE_def pinv_def chunk_states_def marks_ok_def)
  have "good e x (Next (upd (\<lambda>p. p\<lparr>content_length := ?cl * 16 + of_int ?v\<rparr>) x))"
    if "?v \<noteq> -1" "\<not> (ULLONG_MAX - 16) div 16 < ?cl"
    using d m as that unhex_small[of ch] chunk_digit_bound(2)[of ?cl ?v]
    by (auto simp: good.simps dinv_def inv_def upd_def pinv_def chunk_states_def marks_ok_def flag_def)
  with d as mv show ?thesis
    by (simp add: x_chunk_size_def assert_def Let_def good_err)
qed

lemma good_chunk_parameters:
  assumes d: "dinv e s_chunk_parameters x"
  shows "good e x (x_chunk_parameters ch x)"
proof -
  have m: "marks x = (\<lambda>_. None)" using no_marks[OF d not_region] by (simp add: is_url_state_def)
  with d show ?thesis
    by (auto simp: x_chunk_parameters_def assert_def good_stay)
      (auto simp: good.simps dinv_def inv_def UPDATE_STATE_def pinv_def chunk_states_def marks_ok_def)
qed

lemma good_chunk_size_almost_done:
  assumes d: "dinv e s_chunk_size_almost_done x"
  shows "good e x (x_chunk_size_almost_done e ch x)"
proof -
  have m: "marks x = (\<lambda>_. None)" using no_marks[OF d not_region] by (simp add: is_url_state_def)
  have as: "flag F_CHUNKED (prs x)" "content_length (prs x) \<noteq> ULLONG_MAX" using d by (auto simp: dinv_def pinv_def chunk_states_def)
  let ?x = "(upd (\<lambda>p. p\<lparr>nread := 0\<rparr>) x)\<lparr>nrd := 0\<rparr>"
  let ?y = "if content_length (prs ?x) = 0 then UPDATE_STATE s_header_field_start (upd (set_flag F_TRAILING) ?x)
            else UPDATE_STATE s_chunk_data ?x"
  have "good e x (CALLBACK_NOTIFY (on_chunk_header (settings e)) HPE_CB_chunk_header (pos x + 1) ?y Next)"
  proof (rule good_notify)
    fix z assume "same ?y z"
    then show "good e x (Next z)"
      using d m as by (auto simp: good.simps same_def inv_def UPDATE_STATE_def upd_def set_flag_def pinv_def chunk_states_def
          marks_ok_def dinv_def flag_def split: if_splits)
  qed (use d as settings_okD(4) in \<open>auto simp: dinv_def UPDATE_STATE_def upd_def set_flag_def pinv_def chunk_states_def flag_def\<close>)
  with as d show ?thesis
    by (auto simp: x_chunk_size_almost_done_def assert_def Let_def dinv_def intro!: good_strict) (simp add: upd_def)
qed

lemma good_chunk_data:
  assumes d: "dinv e s_chunk_data x"
  shows "good e x (x_chunk_data e x)"
proof -
  let ?y = "take_body e x"
  note t = take_body_ok[OF d disjI2, OF refl]
  have as: "flag F_CHUNKED (prs x)" "content_length (prs x) \<noteq> 0" "content_length (prs x) \<noteq> ULLONG_MAX"
    using d by (auto simp: dinv_def pinv_def chunk_states_def)
  have m: "marks_ok ?y" "marks_ok (UPDATE_STATE s_chunk_data_almost_done ?y)"
    using body_marks[OF t(8), of s_chunk_data] body_marks[OF t(8), of s_chunk_data_almost_done] t(4)
    by (simp_all add: UPDATE_STATE_same)
  from t d m as show ?thesis
    by (simp add: x_chunk_data_def assert_def Let_def good.simps inv_def pinv_def chunk_states_def dinv_def hframe_def flag_def)
      (simp add: UPDATE_STATE_def)
qed

lemma good_chunk_data_almost_done:
  assumes d: "dinv e s_chunk_data_almost_done x"
  shows "good e x (x_chunk_data_almost_done e ch x)"
proof -
  have as: "flag F_CHUNKED (prs x)" "content_length (prs x) = 0" using d by (auto simp: dinv_def pinv_def chunk_states_def)
  have r: "s_chunk_data_almost_done \<in> region M_body" by simp
  have c: "(marks x)(M_body := None) = (\<lambda>_. None)" using d by (rule clear_mark) (rule region_inj[OF r])
  have "good e x (CALLBACK_DATA e M_body (pos x) (pos x + 1) (UPDATE_STATE s_chunk_data_done x) Next)"
  proof (rule good_data)
    fix z assume "same (UPDATE_STATE s_chunk_data_done x\<lparr>marks := (marks (UPDATE_STATE s_chunk_data_done x))(M_body := None)\<rparr>) z"
    then show "good e x (Next z)"
      using d as c by (auto simp: good.simps same_def inv_def UPDATE_STATE_def pinv_def chunk_states_def marks_ok_def dinv_def flag_def)
  qed (use d as in \<open>auto simp: dinv_def UPDATE_STATE_def pinv_def chunk_states_def dest: marks_okD(2)\<close>)
  with as d show ?thesis
    by (auto simp: x_chunk_data_almost_done_def assert_def dinv_def intro!: good_strict)
qed

lemma good_chunk_data_done:
  assumes d: "dinv e s_chunk_data_done x"
  shows "good e x (x_chunk_data_done e ch x)"
proof -
  have m: "marks x = (\<lambda>_. None)" using no_marks[OF d not_region] by (simp add: is_url_state_def)
  have as: "flag F_CHUNKED (prs x)" using d by (auto simp: dinv_def pinv_def chunk_states_def)
  let ?x = "(upd (\<lambda>p. p\<lparr>nread := 0\<rparr>) x)\<lparr>nrd := 0\<rparr>"
  have "good e x (CALLBACK_NOTIFY (on_chunk_complete (settings e)) HPE_CB_chunk_complete (pos x + 1) (UPDATE_STATE s_chunk_size_start ?x) Next)"
  proof (rule good_notify)
    fix z assume "same (UPDATE_STATE s_chunk_size_start ?x) z"
    then show "good e x (Next z)"
      using d m as by (auto simp: good.simps same_def inv_def UPDATE_STATE_def upd_def pinv_def chunk_states_def marks_ok_def dinv_def flag_def)
  qed (use d as settings_okD(5) in \<open>auto simp: dinv_def UPDATE_STATE_def upd_def pinv_def chunk_states_def flag_def\<close>)
  with as d show ?thesis
    by (auto simp: x_chunk_data_done_def assert_def Let_def dinv_def intro!: good_strict) (simp add: upd_def)
qed

section \<open>The loop\<close>

lemma simple_states:
  "\<forall>m. s_res_H \<notin> region m" "\<forall>m. s_res_HT \<notin> region m" "\<forall>m. s_res_HTT \<notin> region m" "\<forall>m. s_res_HTTP \<notin> region m"
  "\<forall>m. s_res_http_major \<notin> region m" "\<forall>m. s_res_http_dot \<notin> region m" "\<forall>m. s_res_http_minor \<notin> region m"
  "\<forall>m. s_res_line_almost_done \<notin> region m" "\<forall>m. s_req_http_H \<notin> region m" "\<forall>m. s_req_http_HT \<notin> region m"
  "\<forall>m. s_req_http_HTT \<notin> region m" "\<forall>m. s_req_http_I \<notin> region m" "\<forall>m. s_req_http_IC \<notin> region m"
  "\<forall>m. s_req_http_HTTP \<notin> region m" "\<forall>m. s_req_http_major \<notin> region m" "\<forall>m. s_req_http_dot \<notin> region m"
  "\<forall>m. s_req_http_minor \<notin> region m" "\<forall>m. s_header_value_discard_ws_almost_done \<notin> region m"
  by (intro not_region; simp add: is_url_state_def)+

lemma plain_states:
  "plain s_res_HT" "plain s_res_HTT" "plain s_res_HTTP" "plain s_res_http_major" "plain s_res_http_dot" "plain s_res_http_minor"
  "plain s_res_http_end" "plain s_header_field_start" "plain s_req_http_HT" "plain s_req_http_HTT" "plain s_req_http_HTTP"
  "plain s_req_http_IC" "plain s_req_http_major" "plain s_req_http_dot" "plain s_req_http_minor" "plain s_req_http_end"
  "plain s_header_value_discard_lws"
  by (simp_all add: plain_def chunk_states_def)

lemma good_dispatch:
  assumes d: "dinv e (p_state x) x"
  shows "good e x (dispatch e x)"
proof -
  have b: "byte_at (data e) (pos x) = Inr (data e ! pos x)" using dinvD(2)[OF d] by simp
  show ?thesis
  proof (cases "p_state x")
  qed (use d b in \<open>simp add: dispatch_def good_dead good_start_req_or_res good_res_or_resp_H good_start_res good_expect good_http_major
      good_http_dot good_http_minor good_res_http_end good_res_first_status_code good_res_status_code good_res_status_start
      good_res_status good_start_req good_req_method good_req_spaces_before_url good_req_schema good_req_url
      good_req_http_start good_req_http_end good_req_line_almost_done good_header_field_start good_header_field
      good_header_value_discard_ws good_header_value_start good_header_value good_header_almost_done good_header_value_lws
      good_header_value_discard_lws good_headers_almost_done good_headers_done good_body_identity good_body_identity_eof
      good_message_done good_chunk_size_start good_chunk_size good_chunk_parameters good_chunk_size_almost_done
      good_chunk_data good_chunk_data_almost_done good_chunk_data_done simple_states plain_states is_url_state_def\<close>)+
qed

lemma good_next_byte:
  assumes "settings_ok (settings e)" "dlen e < 2 ^ 64" "inv e x" "pos x < dlen e"
  shows "good e x (next_byte e x)"
proof (cases "PARSING_HEADER (p_state x)")
  case True
  have "good e x (COUNT_HEADER_SIZE e 1 x (dispatch e))"
  proof (rule good_count)
    fix z assume z: "z = x\<lparr>nrd := nrd x + of_nat 1\<rparr>" "nrd z \<le> max_header_size e"
    have "pinv (p_state x) (prs x) 0" using assms(3) by (auto simp: inv_def pinv_def)
    moreover have "p_state x = s_chunk_size_start \<longrightarrow> nrd z = 1" using assms(3) z by (auto simp: inv_def pinv_def)
    ultimately have "dinv e (p_state z) z" using z assms by (auto simp: dinv_def inv_def marks_ok_def)
    then have "good e z (dispatch e z)" by (rule good_dispatch)
    then show "good e x (dispatch e z)" using z by (cases "dispatch e z") (auto simp: good.simps)
  qed (use assms in simp)
  with True show ?thesis by (simp add: next_byte_def)
next
  case False
  then have "p_state x \<noteq> s_chunk_size_start" by (auto simp: PARSING_HEADER_def)
  moreover have "pinv (p_state x) (prs x) 0" using assms(3) by (auto simp: inv_def pinv_def)
  ultimately have "dinv e (p_state x) x" using assms by (auto simp: dinv_def inv_def)
  with False show ?thesis by (simp add: next_byte_def good_dispatch)
qed

lemma good_reexec:
  assumes "settings_ok (settings e)" "dlen e < 2 ^ 64" "inv e x" "pos x < dlen e" "p_state x \<noteq> s_chunk_size_start"
  shows "good e x (dispatch e x)"
proof (rule good_dispatch)
  have "pinv (p_state x) (prs x) 0" using assms(3) by (auto simp: inv_def pinv_def)
  then show "dinv e (p_state x) x" using assms by (auto simp: dinv_def inv_def)
qed

text \<open>What a whole call may return: at most the bytes given, the header bytes within the limit or the
  overflow error, and, unless the parser reports an error, the invariant for the next call.\<close>

definition final_ok :: "'u env \<Rightarrow> 'u outcome \<Rightarrow> bool" where
  "final_ok e r \<longleftrightarrow> (case r of
      Return n p \<Rightarrow> n \<le> dlen e \<and> (http_errno p = HPE_HEADER_OVERFLOW \<or> nread p \<le> max_header_size e) \<and>
        (http_errno p = HPE_OK \<or> http_errno p = HPE_PAUSED \<longrightarrow> pinv (state p) p (nread p))
    | _ \<Rightarrow> False)"

lemma marks_at_most_one:
  assumes "marks_ok x"
  shows "length (filter (\<lambda>m. marks x m \<noteq> None) all_marks) \<le> 1"
proof (rule ccontr)
  let ?f = "filter (\<lambda>m. marks x m \<noteq> None) all_marks"
  assume "\<not> length ?f \<le> 1"
  then obtain a b r where ab: "?f = a # b # r" by (cases ?f rule: list.exhaust; cases "tl ?f") auto
  have "distinct ?f" by (simp add: all_marks_def)
  with ab have "a \<noteq> b" by simp
  moreover have "marks x a \<noteq> None" "marks x b \<noteq> None"
    using arg_cong[OF ab, of set] by auto
  ultimately show False using marks_okD(1)[OF assms] region_inj by metis
qed

lemma good_flush:
  assumes "settings_ok (settings e)" "pos x = dlen e" "http_errno (prs x) = HPE_OK" "nrd x \<le> max_header_size e"
    "nread (prs x) \<le> max_header_size e" "pinv (p_state x) (prs x) (nrd x)" "marks_ok x"
  shows "good e x0 (flush_marks e ms x)"
  using assms
proof (induction ms arbitrary: x)
  case Nil
  then show ?case by (auto intro!: good_RETURN)
next
  case (Cons m ms)
  show ?case unfolding flush_marks.simps
  proof (rule good_data)
    fix z assume z: "same (x\<lparr>marks := (marks x)(m := None)\<rparr>) z"
    show "good e x0 (flush_marks e ms z)"
      using z Cons.prems by (intro Cons.IH) (auto simp: same_def same_pinv[OF z] marks_ok_def)
  next
    assume "marks x m \<noteq> None"
    then have "p_state x \<in> region m" using marks_okD(1)[OF Cons.prems(7)] by simp
    then have "p_state x \<noteq> s_chunk_size_start" by (cases m) (auto simp: is_url_state_def)
    then show "pinv (p_state x) (prs x) (nread (prs x))" using Cons.prems(6) by (simp add: pinv_def)
  qed (use Cons.prems in \<open>auto dest: marks_okD(2)\<close>)
qed


fun returns :: "'u outcome \<Rightarrow> bool" where
  "returns (Return n p) \<longleftrightarrow> True"
| "returns (Stuck err) \<longleftrightarrow> True"
| "returns _ \<longleftrightarrow> False"

lemma returns_flush: "returns (flush_marks e ms x)"
proof (induction ms arbitrary: x)
  case Nil
  then show ?case by (simp add: RETURN_def)
next
  case (Cons m ms)
  then show ?case
    by (auto simp: CALLBACK_DATA_def assert_def after_callback_def Let_def split: option.splits prod.splits)
qed

lemma final_finish:
  assumes "settings_ok (settings e)" "inv e x" "pos x = dlen e"
  shows "final_ok e (finish_loop e x)"
proof -
  have "good e x (flush_marks e all_marks x)"
    using assms by (intro good_flush) (auto simp: inv_def)
  moreover have "finish_loop e x = flush_marks e all_marks x"
    using assms(2) marks_at_most_one[of x] by (simp add: finish_loop_def assert_def inv_def)
  ultimately show ?thesis using returns_flush[of e all_marks x]
    by (cases "flush_marks e all_marks x") (auto simp: good.simps final_ok_def)
qed

lemma final_error: "good e x (Error y) \<Longrightarrow> final_ok e (on_error y)"
  by (auto simp: good.simps on_error_def Let_def RETURN_def final_ok_def)

lemma rank_le: "rank s \<le> 4"
  by (simp add: rank_def)

lemma exec_loop_ok:
  assumes "settings_ok (settings e)" "dlen e < 2 ^ 64" "inv e x"
    and "if fresh then pos x \<le> dlen e else pos x < dlen e \<and> p_state x \<noteq> s_chunk_size_start"
    and "6 * (dlen e - pos x) + (if fresh then 5 else rank (p_state x)) < n"
  shows "\<exists>r. exec_loop n e fresh x = Some r \<and> final_ok e r"
  using assms(3-5)
proof (induction n arbitrary: fresh x)
  case 0
  then show ?case by simp
next
  case (Suc n)
  show ?case
  proof (cases "fresh \<and> pos x = dlen e")
    case True
    then show ?thesis using Suc.prems final_finish[OF assms(1) Suc.prems(1)] by auto
  next
    case False
    let ?r = "if fresh then next_byte e x else dispatch e x"
    have lt: "pos x < dlen e" using False Suc.prems(2) by (auto split: if_splits)
    have g: "good e x ?r"
      using good_next_byte[OF assms(1,2) Suc.prems(1) lt] good_reexec[OF assms(1,2) Suc.prems(1) lt] Suc.prems(2)
      by (auto split: if_splits)
    have step: "exec_loop (Suc n) e fresh x = (case ?r of
        Next y \<Rightarrow> exec_loop n e True (y\<lparr>pos := pos y + 1\<rparr>)
      | Reexec y \<Rightarrow> exec_loop n e False y
      | Error y \<Rightarrow> Some (on_error y)
      | r \<Rightarrow> Some r)" using False by auto
    show ?thesis
    proof (cases ?r)
      case (Next y)
      with g have y: "pos x \<le> pos y" "pos y < dlen e" "inv e y" by (auto simp: good.simps)
      have "inv e (y\<lparr>pos := pos y + 1\<rparr>)" using y by (auto simp: inv_def marks_ok_def intro: le_SucI)
      moreover have "6 * (dlen e - pos (y\<lparr>pos := pos y + 1\<rparr>)) + 5 < n" using y Suc.prems(3) by (auto split: if_splits)
      ultimately show ?thesis using Suc.IH[of "y\<lparr>pos := pos y + 1\<rparr>" True] step Next y by simp
    next
      case (Reexec y)
      with g have y: "pos x \<le> pos y" "pos y < dlen e" "inv e y" "rank (p_state y) < rank (p_state x)" "p_state y \<noteq> s_chunk_size_start"
        by (auto simp: good.simps)
      have "6 * (dlen e - pos y) + rank (p_state y) < n"
        using y Suc.prems(3) rank_le[of "p_state x"] by (auto split: if_splits)
      then show ?thesis using Suc.IH[of y False] step Reexec y by simp
    next
      case (Error y)
      then show ?thesis using g step final_error[of e x y] by simp
    next
      case (Return k p)
      then show ?thesis using g step by (auto simp: good.simps final_ok_def)
    next
      case (Stuck err)
      then show ?thesis using g by (simp add: good.simps)
    qed
  qed
qed

section \<open>Properties\<close>

text \<open>The invariant between calls.\<close>

definition parser_ok :: "32 word \<Rightarrow> 'u http_parser \<Rightarrow> bool" where
  "parser_ok lim p \<longleftrightarrow> pinv (state p) p (nread p) \<and> nread p \<le> lim"

lemma initial_marks: "marks x = initial_mark (p_state x) \<Longrightarrow> marks_ok x"
  by (auto simp: marks_ok_def initial_mark_def split: if_splits)

lemma at_eof_ok:
  assumes "settings_ok (settings e)" "data e = []" "parser_ok (max_header_size e) (prs x)" "http_errno (prs x) = HPE_OK"
    "p_state x = state (prs x)" "nrd x = nread (prs x)"
  shows "\<exists>n q. at_eof e x = Return n q \<and> n \<le> 1 \<and> nread q \<le> max_header_size e \<and>
     (http_errno q = HPE_OK \<or> http_errno q = HPE_PAUSED \<longrightarrow> pinv (state q) q (nread q))"
proof (cases "p_state x = s_body_identity_eof")
  case True
  have ok: "pinv s_body_identity_eof p n" for p :: "'a http_parser" and n by (rule pinv_plain) (simp add: plain_def chunk_states_def)
  show ?thesis
  proof (cases "on_message_complete (settings e)")
    case None
    then show ?thesis using True assms ok by (simp add: at_eof_def CALLBACK_NOTIFY_def assert_def parser_ok_def)
  next
    case (Some f)
    obtain r q where rq: "f ((prs x)\<lparr>state := p_state x\<rparr>) = (r, q)" by fastforce
    have "\<forall>p. cb_frame p (snd (f p))" using settings_okD(3)[OF assms(1)] Some by (simp add: notify_ok_def)
    then have "cb_frame ((prs x)\<lparr>state := p_state x\<rparr>) q" using rq by (metis snd_conv)
    note f = cb_frame_fields[OF this]
    show ?thesis using True Some rq assms ok f
      by (auto simp: at_eof_def CALLBACK_NOTIFY_def assert_def after_callback_def Let_def SET_ERRNO_def UPDATE_STATE_def parser_ok_def)
  qed
next
  case False
  then show ?thesis using assms
    by (cases "p_state x") (auto simp: at_eof_def SET_ERRNO_def parser_ok_def)
qed

lemma execute_ok:
  assumes "settings_ok cbs" "length bytes < 2 ^ 64" "parser_ok lim p" "http_errno p = HPE_OK"
  shows "\<exists>n q. http_parser_execute cbs lim bytes p = Some (Return n q) \<and> n \<le> max 1 (length bytes) \<and>
     (bytes \<noteq> [] \<longrightarrow> n \<le> length bytes) \<and> (http_errno q = HPE_HEADER_OVERFLOW \<or> nread q \<le> lim) \<and>
     (http_errno q = HPE_OK \<or> http_errno q = HPE_PAUSED \<longrightarrow> parser_ok lim q)"
proof -
  let ?e = "\<lparr>settings = cbs, data = bytes, max_header_size = lim, lenient = lenient_http_headers p\<rparr>"
  let ?x = "\<lparr>prs = p, p_state = state p, nrd = nread p, pos = 0, marks = initial_mark (state p)\<rparr>"
  show ?thesis
  proof (cases "bytes = []")
    case True
    from at_eof_ok[of ?e "?x\<lparr>marks := \<lambda>_. None\<rparr>"] assms True obtain n q where
      "at_eof ?e (?x\<lparr>marks := \<lambda>_. None\<rparr>) = Return n q" "n \<le> 1" "nread q \<le> lim"
      "http_errno q = HPE_OK \<or> http_errno q = HPE_PAUSED \<longrightarrow> pinv (state q) q (nread q)" by auto
    then show ?thesis using True assms(4) by (auto simp: http_parser_execute_def Let_def parser_ok_def)
  next
    case False
    have "inv ?e ?x" using assms(3,4) initial_marks[of ?x] by (simp add: inv_def parser_ok_def)
    from exec_loop_ok[of ?e, OF _ _ this, of True "exec_fuel ?e"] assms(1,2) obtain r where
      r: "exec_loop (exec_fuel ?e) ?e True ?x = Some r" "final_ok ?e r" by (auto simp: exec_fuel_def)
    then obtain n q where "r = Return n q" by (cases r) (auto simp: final_ok_def)
    with r False assms(4) show ?thesis
      by (auto simp: http_parser_execute_def Let_def final_ok_def parser_ok_def)
  qed
qed

text \<open>C3: A call of \<^verbatim>\<open>http_parser_execute\<close> on any bytes is safe: with callbacks that change nothing of the
  parser but its error number and the user's data, the call returns, no assertion fails, no byte outside the data and no
  character outside a matcher string is read, and every range of bytes shown to a callback lies in the data; it reports at most as many bytes as it was given (1 for an unexpected
  end of input); the header bytes counted stay within the limit unless \<^verbatim>\<open>HPE_HEADER_OVERFLOW\<close> is
  reported; and a parser that is not in error satisfies the invariant the next call needs.\<close>

theorem execute_safe:
  assumes "settings_ok cbs" "length bytes < 2 ^ 64" "parser_ok lim p" "http_errno p = HPE_OK"
  shows "\<exists>n q. http_parser_execute cbs lim bytes p = Some (Return n q) \<and> n \<le> max 1 (length bytes) \<and>
     (bytes \<noteq> [] \<longrightarrow> n \<le> length bytes) \<and> (http_errno q = HPE_HEADER_OVERFLOW \<or> nread q \<le> lim) \<and>
     (http_errno q = HPE_OK \<or> http_errno q = HPE_PAUSED \<longrightarrow> parser_ok lim q)"
  using assms by (rule execute_ok)

definition blank_parser :: "unit http_parser" where
  "blank_parser = \<lparr>type_of = HTTP_REQUEST, flags = 0, state = s_dead, header_state = h_general, index = 0,
     lenient_http_headers = False, nread = 0, content_length = 0, http_major = 0, http_minor = 0, status_code = 0,
     method = 0, http_errno = HPE_OK, upgrade = False, user_data = ()\<rparr>"

lemma init_ok: "parser_ok lim (http_parser_init t p)" "http_errno (http_parser_init t p) = HPE_OK"
  by (auto simp: parser_ok_def http_parser_init_def pinv_def chunk_states_def)

lemma no_callbacks_ok: "settings_ok http_parser_settings_init"
  by (simp add: settings_ok_def http_parser_settings_init_def notify_ok_def data_ok_def)

theorem execute_safe_witness:
  "\<exists>n q. http_parser_execute http_parser_settings_init HTTP_MAX_HEADER_SIZE ''GET / HTTP/1.1'' (http_parser_init HTTP_REQUEST blank_parser) = Some (Return n q) \<and>
     n \<le> max 1 (length ''GET / HTTP/1.1'') \<and> (''GET / HTTP/1.1'' \<noteq> [] \<longrightarrow> n \<le> length ''GET / HTTP/1.1'') \<and>
     (http_errno q = HPE_HEADER_OVERFLOW \<or> nread q \<le> HTTP_MAX_HEADER_SIZE) \<and>
     (http_errno q = HPE_OK \<or> http_errno q = HPE_PAUSED \<longrightarrow> parser_ok HTTP_MAX_HEADER_SIZE q)"
  by (rule execute_safe[OF no_callbacks_ok _ init_ok]) simp

text \<open>The parsers a program can reach: initialised, fed with bytes, paused and resumed.\<close>

inductive parser_reach :: "'u http_parser_settings \<Rightarrow> 32 word \<Rightarrow> 'u http_parser \<Rightarrow> bool"
  for cbs :: "'u http_parser_settings" and lim :: "32 word" where
  init: "parser_reach cbs lim (http_parser_init t p)"
| exec: "parser_reach cbs lim p \<Longrightarrow> length bytes < 2 ^ 64 \<Longrightarrow> http_parser_execute cbs lim bytes p = Some (Return n q) \<Longrightarrow>
     parser_reach cbs lim q"
| pause: "parser_reach cbs lim p \<Longrightarrow> http_parser_pause b p = Inr q \<Longrightarrow> parser_reach cbs lim q"

lemma execute_error: "http_errno p \<noteq> HPE_OK \<Longrightarrow> http_parser_execute cbs lim bytes p = Some (Return 0 p)"
  by (simp add: http_parser_execute_def Let_def)

lemma reach_ok:
  assumes "parser_reach cbs lim p" "settings_ok cbs"
  shows "http_errno p = HPE_OK \<or> http_errno p = HPE_PAUSED \<longrightarrow> parser_ok lim p"
  using assms
proof (induction rule: parser_reach.induct)
  case (init t p)
  then show ?case by (simp add: init_ok)
next
  case (exec p bytes n q)
  show ?case
  proof (cases "http_errno p = HPE_OK")
    case True
    with exec execute_ok[OF exec.prems exec.hyps(2), of lim p] show ?thesis by auto
  next
    case False
    with exec execute_error[OF False, of cbs lim bytes] show ?thesis by auto
  qed
next
  case (pause p b q)
  then have "q = p\<lparr>http_errno := (if b then HPE_PAUSED else HPE_OK)\<rparr>" "parser_ok lim p"
    by (auto simp: http_parser_pause_def split: if_splits)
  moreover have "pinv s (p\<lparr>http_errno := a\<rparr>) n = pinv s p n" for s a n by (rule pinv_cong) simp_all
  ultimately show ?case by (simp add: parser_ok_def)
qed

lemma reach_nread:
  assumes "parser_reach cbs lim p" "settings_ok cbs"
  shows "http_errno p = HPE_HEADER_OVERFLOW \<or> nread p \<le> lim"
  using assms
proof (induction rule: parser_reach.induct)
  case (init t p)
  then show ?case by (simp add: http_parser_init_def)
next
  case (exec p bytes n q)
  show ?case
  proof (cases "http_errno p = HPE_OK")
    case True
    with reach_ok[OF exec.hyps(1) exec.prems] have "parser_ok lim p" by simp
    from execute_ok[OF exec.prems exec.hyps(2) this True] exec.hyps(3) show ?thesis by auto
  next
    case False
    with exec execute_error[OF False, of cbs lim bytes] show ?thesis by auto
  qed
next
  case (pause p b q)
  then show ?case by (auto simp: http_parser_pause_def split: if_splits)
qed

text \<open>C18: No sequence of calls can break the parser. Along every run that starts with \<^verbatim>\<open>http_parser_init\<close> and
  feeds any pieces of bytes, pauses and resumes: a parser that is not in error satisfies the parser's invariant; the header bytes it has
  counted are within the limit unless it reports \<^verbatim>\<open>HPE_HEADER_OVERFLOW\<close>; the next \<^verbatim>\<open>http_parser_execute\<close> returns, without a
  failed assertion or a read outside the data, reports at most the bytes it was given (1 for an unexpected end of input), and leaves a parser
  of such a run; a parser that is paused or in error takes no byte and is not changed; and pausing or resuming fails its assertion exactly when the parser is in error.\<close>

theorem parser_never_stuck:
  assumes "parser_reach cbs lim p" "settings_ok cbs" "length bytes < 2 ^ 64"
  shows "(http_errno p = HPE_OK \<or> http_errno p = HPE_PAUSED \<longrightarrow> parser_ok lim p) \<and>
     (http_errno p = HPE_HEADER_OVERFLOW \<or> nread p \<le> lim) \<and>
     (http_errno p = HPE_OK \<longrightarrow> (\<exists>n q. http_parser_execute cbs lim bytes p = Some (Return n q) \<and>
        n \<le> (if bytes = [] then 1 else length bytes) \<and> parser_reach cbs lim q)) \<and>
     (http_errno p \<noteq> HPE_OK \<longrightarrow> http_parser_execute cbs lim bytes p = Some (Return 0 p)) \<and>
     (http_parser_pause b p = Inl AssertFailed \<longleftrightarrow> http_errno p \<noteq> HPE_OK \<and> http_errno p \<noteq> HPE_PAUSED)"
proof (intro conjI impI)
  assume ok: "http_errno p = HPE_OK"
  with reach_ok[OF assms(1,2)] have "parser_ok lim p" by blast
  from execute_ok[OF assms(2,3) this ok] parser_reach.exec[OF assms(1,3)]
  show "\<exists>n q. http_parser_execute cbs lim bytes p = Some (Return n q) \<and> n \<le> (if bytes = [] then 1 else length bytes) \<and> parser_reach cbs lim q"
    by (cases "bytes = []") auto
next
  show "http_parser_pause b p = Inl AssertFailed \<longleftrightarrow> http_errno p \<noteq> HPE_OK \<and> http_errno p \<noteq> HPE_PAUSED"
    by (auto simp: http_parser_pause_def)
qed (use reach_ok[OF assms(1,2)] reach_nread[OF assms(1,2)] execute_error[of p] in auto)

theorem parser_never_stuck_witness:
  "parser_ok HTTP_MAX_HEADER_SIZE (http_parser_init HTTP_BOTH blank_parser) \<and>
   (\<exists>n q. http_parser_execute http_parser_settings_init HTTP_MAX_HEADER_SIZE ''junk'' (http_parser_init HTTP_BOTH blank_parser) = Some (Return n q) \<and>
     n \<le> length ''junk'' \<and> parser_reach http_parser_settings_init HTTP_MAX_HEADER_SIZE q)"
  using parser_never_stuck[OF parser_reach.init[of http_parser_settings_init HTTP_MAX_HEADER_SIZE HTTP_BOTH blank_parser] no_callbacks_ok, of "''junk''" True]
  by (simp add: init_ok)

lemma content_length_digit:
  assumes "IS_NUM ch" "\<not> (ULLONG_MAX - 10) div 10 < (cl :: 64 word)"
  shows "unat (cl * 10 + of_nat (digit ch)) = 10 * unat cl + digit ch"
proof -
  have "(ULLONG_MAX - 10) div 10 = (1844674407370955160 :: 64 word)" by simp
  then have c: "unat cl \<le> 1844674407370955160" using assms(2) by (simp add: not_less word_le_nat_alt)
  have d: "digit ch \<le> 9" using assms(1) by (auto simp: IS_NUM_def digit_def)
  show ?thesis using c d by (simp add: unat_word_ariths unat_of_nat)
qed

text \<open>C35: The length arithmetic never wraps and refuses only lengths at the end of the 64-bit range: a
  decimal digit of a Content-Length value is accepted exactly when the value so far is at most
  1844674407370955160, and then the new value is ten times the old one plus the digit; a hexadecimal
  digit of a chunk size is accepted exactly when the size so far is at most 1152921504606846974, and then
  it becomes sixteen times the old one plus the digit. Otherwise the parser stops with
  \<^verbatim>\<open>HPE_INVALID_CONTENT_LENGTH\<close>.\<close>

theorem length_arithmetic_exact:
  assumes "IS_NUM ch" "flag F_CHUNKED (prs x)" "table_at unhex 0 ch' \<noteq> -1" "ch' \<noteq> CR"
  shows "(if unat (content_length p) \<le> 1844674407370955160
      then \<exists>p'. content_length_char h ch q p = HvGo h q p' \<and> unat (content_length p') = 10 * unat (content_length p) + digit ch
      else content_length_char h ch q p = HvFail HPE_INVALID_CONTENT_LENGTH q (p\<lparr>header_state := h\<rparr>)) \<and>
     (if unat (content_length (prs x)) \<le> 1152921504606846974
      then \<exists>x'. x_chunk_size ch' x = Next x' \<and>
        unat (content_length (prs x')) = 16 * unat (content_length (prs x)) + nat (table_at unhex 0 ch')
      else x_chunk_size ch' x = fail HPE_INVALID_CONTENT_LENGTH x)"
proof
  have ns: "ch \<noteq> CHR '' ''" using assms(1) special_chars by auto
  show "if unat (content_length p) \<le> 1844674407370955160
      then \<exists>p'. content_length_char h ch q p = HvGo h q p' \<and> unat (content_length p') = 10 * unat (content_length p) + digit ch
      else content_length_char h ch q p = HvFail HPE_INVALID_CONTENT_LENGTH q (p\<lparr>header_state := h\<rparr>)"
    using ns assms(1) content_length_digit[OF assms(1), of "content_length p"]
    by (simp add: content_length_char_def Let_def word_less_nat_alt)
  show "if unat (content_length (prs x)) \<le> 1152921504606846974
      then \<exists>x'. x_chunk_size ch' x = Next x' \<and>
        unat (content_length (prs x')) = 16 * unat (content_length (prs x)) + nat (table_at unhex 0 ch')
      else x_chunk_size ch' x = fail HPE_INVALID_CONTENT_LENGTH x"
    using assms(2-4) chunk_digit_bound(1)[of "content_length (prs x)"] unhex_small[of ch']
    by (auto simp: x_chunk_size_def assert_def Let_def upd_def word_less_nat_alt)
qed

definition chunk_exec :: "unit exec" where
  "chunk_exec = \<lparr>prs = blank_parser\<lparr>flags := 1, content_length := 10\<rparr>, p_state = s_chunk_size, nrd = 2, pos = 0, marks = (\<lambda>_. None)\<rparr>"

theorem length_arithmetic_exact_witness:
  "(\<exists>p'. content_length_char h_content_length_num CHR ''7'' 3 (blank_parser\<lparr>content_length := 12\<rparr>) = HvGo h_content_length_num 3 p' \<and>
      unat (content_length p') = 127) \<and>
   (\<exists>x'. x_chunk_size CHR ''f'' chunk_exec = Next x' \<and> unat (content_length (prs x')) = 175)"
proof -
  have "IS_NUM CHR ''7''" "table_at unhex 0 CHR ''f'' \<noteq> -1" by code_simp+
  moreover have "flag F_CHUNKED (prs chunk_exec)" by (simp add: flag_def chunk_exec_def)
  moreover have "digit CHR ''7'' = 7" "table_at unhex 0 CHR ''f'' = 15" by code_simp+
  ultimately show ?thesis
    using length_arithmetic_exact[of "CHR ''7''" chunk_exec "CHR ''f''" "blank_parser\<lparr>content_length := 12\<rparr>" h_content_length_num 3]
    by (simp add: chunk_exec_def)
qed

text \<open>Every method of the table is recognised: fed with a method's name and a space, a fresh request
  parser accepts all bytes, waits for the URL and has the number of exactly that method.\<close>

theorem methods_recognised:
  "list_all (\<lambda>m. case http_parser_execute http_parser_settings_init HTTP_MAX_HEADER_SIZE (method_strings ! m @ '' '')
        (http_parser_init HTTP_REQUEST blank_parser) of
      Some (Return n q) \<Rightarrow> n = length (method_strings ! m) + 1 \<and> http_errno q = HPE_OK \<and>
        state q = s_req_spaces_before_url \<and> unat (method q) = m
    | _ \<Rightarrow> False) [0..<34]"
  by code_simp

text \<open>A byte of 128 or more is accepted as the digit zero of a chunk size: the table \<^verbatim>\<open>unhex\<close> lists only
  its first 128 entries and the rest are zero instead of -1.\<close>

theorem chunk_size_accepts_high_bytes:
  assumes "128 \<le> code ch" "flag F_CHUNKED (prs x)" "unat (content_length (prs x)) < 2 ^ 59"
  shows "x_chunk_size ch x = Next (upd (\<lambda>p. p\<lparr>content_length := content_length p * 16\<rparr>) x)"
proof -
  have "length unhex = 128" by code_simp
  then have v: "table_at unhex 0 ch = 0" using assms(1) by (simp add: table_at_def)
  have "ch \<noteq> CR" using assms(1) by auto
  moreover have "(ULLONG_MAX - 16) div 16 = (1152921504606846974 :: 64 word)" by simp
  then have "\<not> (ULLONG_MAX - 16) div 16 < content_length (prs x)" using assms(3) by (simp add: not_less word_le_nat_alt)
  ultimately show ?thesis using assms(2) v by (simp add: x_chunk_size_def assert_def upd_def)
qed

theorem chunk_size_accepts_high_bytes_witness:
  "x_chunk_size (CHR 0xE9) chunk_exec = Next (upd (\<lambda>p. p\<lparr>content_length := content_length p * 16\<rparr>) chunk_exec)"
  by (rule chunk_size_accepts_high_bytes) (simp_all add: flag_def chunk_exec_def)

end
