(* ===== verification/TW_Address.thy ===== *)
theory TW_Address
  imports TW_Prelude
begin

text \<open>
  \<^verbatim>\<open>src/base/address.cpp\<close> and \<^verbatim>\<open>include/base/endian.h\<close>: socket addresses on a little-endian host, their
  textual form, and the split of a host string into node and service. Network-order fields are kept
  as the machine words the structures hold. \<^verbatim>\<open>getaddrinfo\<close> and \<^verbatim>\<open>inet_pton\<close> are parameters.
\<close>

unbundle bit_operations_syntax

section \<open>Byte order\<close>

primrec le_bytes :: "nat \<Rightarrow> nat \<Rightarrow> nat list" where
  "le_bytes 0 n = []"
| "le_bytes (Suc k) n = n mod 256 # le_bytes k (n div 256)"

primrec le_val :: "nat list \<Rightarrow> nat" where
  "le_val [] = 0"
| "le_val (b # bs) = b + 256 * le_val bs"

text \<open>\<^verbatim>\<open>bswap_16\<close> and \<^verbatim>\<open>bswap_32\<close>; on a little-endian host they are \<^verbatim>\<open>byteswapOnLittleEndian\<close>.\<close>

definition byteswap16 :: "16 word \<Rightarrow> 16 word" where
  "byteswap16 w = of_nat (le_val (rev (le_bytes 2 (unat w))))"

definition byteswap32 :: "32 word \<Rightarrow> 32 word" where
  "byteswap32 w = of_nat (le_val (rev (le_bytes 4 (unat w))))"

lemma length_le_bytes [simp]: "length (le_bytes k n) = k"
  by (induction k arbitrary: n) auto

lemma le_bytes_small: "b \<in> set (le_bytes k n) \<Longrightarrow> b < 256"
  by (induction k arbitrary: n) auto

lemma le_bytes_val: "\<forall>b \<in> set bs. b < 256 \<Longrightarrow> le_bytes (length bs) (le_val bs) = bs"
  by (induction bs) auto

lemma le_val_bytes: "le_val (le_bytes k n) = n mod 256 ^ k"
proof (induction k arbitrary: n)
  case (Suc k)
  then show ?case by (simp add: mod_mult2_eq)
qed simp

lemma le_val_less: "\<forall>b \<in> set bs. b < 256 \<Longrightarrow> le_val bs < 256 ^ length bs"
proof (induction bs)
  case (Cons b bs)
  then have "b + 256 * le_val bs < 256 + 256 * le_val bs" "le_val bs + 1 \<le> 256 ^ length bs" by simp_all
  then show ?case by simp
qed simp

lemma swap_twice: "le_val (rev (le_bytes k (le_val (rev (le_bytes k n))))) = n mod 256 ^ k"
proof -
  have "le_bytes k (le_val (rev (le_bytes k n))) = rev (le_bytes k n)"
    using le_bytes_val[of "rev (le_bytes k n)"] le_bytes_small by auto
  then show ?thesis by (simp add: le_val_bytes)
qed

lemma swap_less: "le_val (rev (le_bytes k n)) < 256 ^ k"
  using le_val_less[of "rev (le_bytes k n)"] le_bytes_small by auto

lemma byteswap_twice [simp]: "byteswap16 (byteswap16 w) = w" "byteswap32 (byteswap32 v) = v"
proof -
  have "unat (byteswap16 w) = le_val (rev (le_bytes 2 (unat w)))"
    using swap_less[of 2 "unat w"] by (simp add: byteswap16_def unat_of_nat)
  then have "byteswap16 (byteswap16 w) = of_nat (unat w mod 256 ^ 2)"
    unfolding byteswap16_def[of "byteswap16 w"] by (simp only: swap_twice)
  also have "unat w mod 256 ^ 2 = unat w" using unsigned_less[of w, where ?'a = nat] by simp
  finally show "byteswap16 (byteswap16 w) = w" by simp
  have "unat (byteswap32 v) = le_val (rev (le_bytes 4 (unat v)))"
    using swap_less[of 4 "unat v"] by (simp add: byteswap32_def unat_of_nat)
  then have "byteswap32 (byteswap32 v) = of_nat (unat v mod 256 ^ 4)"
    unfolding byteswap32_def[of "byteswap32 v"] by (simp only: swap_twice)
  also have "unat v mod 256 ^ 4 = unat v" using unsigned_less[of v, where ?'a = nat] by simp
  finally show "byteswap32 (byteswap32 v) = v" by simp
qed

section \<open>IPv4\<close>

abbreviation (input) AF_UNIX :: nat where "AF_UNIX \<equiv> 1"
abbreviation (input) AF_INET :: nat where "AF_INET \<equiv> 2"
abbreviation (input) AF_INET6 :: nat where "AF_INET6 \<equiv> 10"

record IPv4Address =
  sin_family :: nat
  sin_port :: "16 word"
  s_addr :: "32 word"

definition IPv4Address_ctor :: "32 word \<Rightarrow> 16 word \<Rightarrow> IPv4Address" where
  "IPv4Address_ctor address port = \<lparr>sin_family = AF_INET, sin_port = byteswap16 port, s_addr = byteswap32 address\<rparr>"

text \<open>\<open>inet_pton\<close> gives the network-order word of a dotted address, none if the text is not one.\<close>

definition IPv4Address_Create :: "(string \<Rightarrow> 32 word option) \<Rightarrow> string \<Rightarrow> 16 word \<Rightarrow> IPv4Address option" where
  "IPv4Address_Create inet_pton address port =
     (let rt = (IPv4Address_ctor 0 0)\<lparr>sin_port := byteswap16 port\<rparr> in
      case inet_pton address of None \<Rightarrow> None | Some a \<Rightarrow> Some (rt\<lparr>s_addr := a\<rparr>))"

definition IPv4_getPort :: "IPv4Address \<Rightarrow> 32 word" where
  "IPv4_getPort a = ucast (byteswap16 (sin_port a))"

definition IPv4_setPort :: "16 word \<Rightarrow> IPv4Address \<Rightarrow> IPv4Address" where
  "IPv4_setPort v a = a\<lparr>sin_port := byteswap16 v\<rparr>"

definition byte_text :: "32 word \<Rightarrow> nat \<Rightarrow> string" where
  "byte_text addr k = show_nat (unat (drop_bit k addr AND 0xff))"

definition IPv4_insert :: "IPv4Address \<Rightarrow> string" where
  "IPv4_insert a =
     (let addr = byteswap32 (s_addr a) in
      byte_text addr 24 @ ''.'' @ byte_text addr 16 @ ''.'' @ byte_text addr 8 @ ''.'' @ byte_text addr 0 @
      '':'' @ show_nat (unat (byteswap16 (sin_port a))))"

section \<open>IPv6\<close>

text \<open>\<^verbatim>\<open>s6_addr\<close> is 16 bytes; \<^verbatim>\<open>addr[i]\<close> of the printer reads two of them as a little-endian word.\<close>

record IPv6Address =
  sin6_family :: nat
  sin6_port :: "16 word"
  s6_addr :: "nat list"

definition IPv6Address_ctor :: "nat list \<Rightarrow> 16 word \<Rightarrow> IPv6Address" where
  "IPv6Address_ctor address port = \<lparr>sin6_family = AF_INET6, sin6_port = byteswap16 port, s6_addr = take 16 address\<rparr>"

definition IPv6Address_Create :: "(string \<Rightarrow> nat list option) \<Rightarrow> string \<Rightarrow> 16 word \<Rightarrow> IPv6Address option" where
  "IPv6Address_Create inet_pton address port =
     (case inet_pton address of
        None \<Rightarrow> None
      | Some a \<Rightarrow> Some \<lparr>sin6_family = AF_INET6, sin6_port = byteswap16 port, s6_addr = a\<rparr>)"

definition IPv6_getPort :: "IPv6Address \<Rightarrow> 32 word" where
  "IPv6_getPort a = ucast (byteswap16 (sin6_port a))"

definition IPv6_setPort :: "16 word \<Rightarrow> IPv6Address \<Rightarrow> IPv6Address" where
  "IPv6_setPort v a = a\<lparr>sin6_port := byteswap16 v\<rparr>"

definition group_at :: "IPv6Address \<Rightarrow> nat \<Rightarrow> 16 word" where
  "group_at a i = of_nat (s6_addr a ! (2 * i) + 256 * (s6_addr a ! (2 * i + 1)))"

definition hex_char :: "nat \<Rightarrow> char" where
  "hex_char d = ''0123456789abcdef'' ! d"

fun show_hex :: "nat \<Rightarrow> string" where
  "show_hex n = (if n < 16 then [hex_char n] else show_hex (n div 16) @ [hex_char (n mod 16)])"

declare show_hex.simps [simp del]

text \<open>The loop over the groups, from index \<open>i\<close>; \<open>prev\<close> is the group before.\<close>

fun print_groups :: "nat \<Rightarrow> 16 word \<Rightarrow> bool \<Rightarrow> 16 word list \<Rightarrow> string \<times> bool" where
  "print_groups i prev used_zeros [] = ([], used_zeros)"
| "print_groups i prev used_zeros (g # gs) =
     (if g = 0 \<and> \<not> used_zeros then print_groups (i + 1) g used_zeros gs
      else let gap = i > 0 \<and> prev = 0 \<and> \<not> used_zeros;
               (s, u) = print_groups (i + 1) g (used_zeros \<or> gap) gs
           in ((if gap then '':'' else []) @ (if i > 0 then '':'' else []) @ show_hex (unat (byteswap16 g)) @ s, u))"

definition IPv6_insert :: "IPv6Address \<Rightarrow> string" where
  "IPv6_insert a =
     (let gs = map (group_at a) [0, 1, 2, 3, 4, 5, 6, 7]; (s, used_zeros) = print_groups 0 0 False gs
      in ''['' @ s @ (if \<not> used_zeros \<and> gs ! 7 = 0 then ''::'' else []) @ '']:'' @ show_nat (unat (byteswap16 (sin6_port a))))"

section \<open>Unix and unknown addresses\<close>

text \<open>\<^verbatim>\<open>sun_path\<close> has 108 bytes at offset 2; copying \<open>n\<close> bytes of a C++ string includes its terminator;
  \<^verbatim>\<open>m_length\<close> is a 32-bit \<^verbatim>\<open>socklen_t\<close>.\<close>

record UnixAddress =
  sun_path :: "char list"
  m_length :: nat

abbreviation (input) sun_path_size :: nat where "sun_path_size \<equiv> 108"
abbreviation (input) sun_path_offset :: nat where "sun_path_offset \<equiv> 2"

definition UnixAddress_default :: UnixAddress where
  "UnixAddress_default = \<lparr>sun_path = replicate sun_path_size CHR 0x00, m_length = sun_path_offset + (sun_path_size - 1)\<rparr>"

definition UnixAddress_ctor :: "string \<Rightarrow> UnixAddress res" where
  "UnixAddress_ctor path =
     (let n = (length path + 1) mod 2 ^ 32;
          n' = (if path \<noteq> [] \<and> hd path = CHR 0x00 then (n + 2 ^ 32 - 1) mod 2 ^ 32 else n) in
      if n' > sun_path_size then Inl LogicError
      else Inr \<lparr>sun_path = take n' (path @ [CHR 0x00]) @ replicate (sun_path_size - n') CHR 0x00, m_length = n' + sun_path_offset\<rparr>)"

definition setAddrLen :: "nat \<Rightarrow> UnixAddress \<Rightarrow> UnixAddress" where
  "setAddrLen v a = a\<lparr>m_length := v\<rparr>"

text \<open>The path is a C string, or the bytes of an abstract name; \<^verbatim>\<open>insert\<close> prints the same text.\<close>

definition getPath :: "UnixAddress \<Rightarrow> string res" where
  "getPath a =
     (if m_length a > sun_path_offset \<and> sun_path a ! 0 = CHR 0x00 then
        (if m_length a - sun_path_offset \<le> length (sun_path a)
         then Inr ([CHR 0x5C, CHR ''0''] @ take (m_length a - sun_path_offset - 1) (drop 1 (sun_path a)))
         else Inl OutOfBounds)
      else Inr (takeWhile (\<lambda>c. c \<noteq> CHR 0x00) (sun_path a)))"

definition Unix_insert :: "UnixAddress \<Rightarrow> string res" where
  "Unix_insert a =
     (if m_length a > sun_path_offset \<and> sun_path a ! 0 = CHR 0x00 then
        (if m_length a - sun_path_offset \<le> length (sun_path a)
         then Inr ([CHR 0x5C, CHR ''0''] @ take (m_length a - sun_path_offset - 1) (drop 1 (sun_path a)))
         else Inl OutOfBounds)
      else Inr (takeWhile (\<lambda>c. c \<noteq> CHR 0x00) (sun_path a)))"

definition Unknown_insert :: "nat \<Rightarrow> string" where
  "Unknown_insert family = ''[UnknownAddress family='' @ show_nat family @ '']''"

datatype Address = IPv4 IPv4Address | IPv6 IPv6Address | Unix UnixAddress | Unknown nat

fun getFamily :: "Address \<Rightarrow> nat" where
  "getFamily (IPv4 a) = sin_family a"
| "getFamily (IPv6 a) = sin6_family a"
| "getFamily (Unix a) = AF_UNIX"
| "getFamily (Unknown f) = f"

fun toString :: "Address \<Rightarrow> string res" where
  "toString (IPv4 a) = Inr (IPv4_insert a)"
| "toString (IPv6 a) = Inr (IPv6_insert a)"
| "toString (Unix a) = Unix_insert a"
| "toString (Unknown f) = Inr (Unknown_insert f)"

text \<open>The size of the structure, as it goes to the system calls.\<close>

fun getAddrLen :: "Address \<Rightarrow> nat" where
  "getAddrLen (IPv4 a) = 16"
| "getAddrLen (IPv6 a) = 28"
| "getAddrLen (Unix a) = m_length a"
| "getAddrLen (Unknown f) = 16"

definition IPv6Address_default :: IPv6Address where
  "IPv6Address_default = \<lparr>sin6_family = AF_INET6, sin6_port = 0, s6_addr = replicate 16 0\<rparr>"

text \<open>\<^verbatim>\<open>Address::Create\<close>: a null pointer, or a structure that starts with its family.\<close>

definition Address_Create :: "(nat \<times> IPv4Address \<times> IPv6Address) option \<Rightarrow> Address option" where
  "Address_Create addr =
     (case addr of
        None \<Rightarrow> None
      | Some (family, v4, v6) \<Rightarrow>
          Some (if family = AF_INET then IPv4 v4 else if family = AF_INET6 then IPv6 v6 else Unknown family))"

section \<open>Host strings\<close>

definition memchr :: "char \<Rightarrow> string \<Rightarrow> nat option" where
  "memchr c s = (let n = length (takeWhile (\<lambda>x. x \<noteq> c) s) in if n < length s then Some n else None)"

text \<open>The text from a position up to the terminator, as \<^verbatim>\<open>getaddrinfo\<close> reads it.\<close>

definition cstr_from :: "string \<Rightarrow> nat \<Rightarrow> string" where
  "cstr_from s i = takeWhile (\<lambda>c. c \<noteq> CHR 0x00) (drop i s)"

definition bracketed :: "string \<Rightarrow> string \<times> string option" where
  "bracketed host =
     (if host \<noteq> [] \<and> hd host = CHR ''['' then
        (case memchr CHR '']'' (drop 1 host) of
           None \<Rightarrow> ([], None)
         | Some k \<Rightarrow>
             (take k (drop 1 host),
              if k + 2 < length host \<and> host ! (k + 2) = CHR '':'' then Some (cstr_from host (k + 3)) else None))
      else ([], None))"

definition split_host :: "string \<Rightarrow> string \<times> string option" where
  "split_host host =
     (let (node, service) = bracketed host in
      if node \<noteq> [] then (node, service)
      else case memchr CHR '':'' host of
        None \<Rightarrow> (host, None)
      | Some k \<Rightarrow>
          if memchr CHR '':'' (drop (k + 1) host) = None
          then (if k = 0 then host else take k host, Some (cstr_from host (k + 1)))
          else (host, Some (cstr_from host k)))"

text \<open>\<open>getaddrinfo\<close> maps node and service to the family-tagged results, or an error.\<close>

definition Address_Lookup ::
  "(string \<Rightarrow> string option \<Rightarrow> (nat \<times> IPv4Address \<times> IPv6Address) option list option) \<Rightarrow> string \<Rightarrow> Address option list \<Rightarrow> bool \<times> Address option list" where
  "Address_Lookup getaddrinfo host result =
     (case split_host host of (node, service) \<Rightarrow>
        (case getaddrinfo node service of
           None \<Rightarrow> (False, result)
         | Some rs \<Rightarrow> let result' = result @ map Address_Create rs in (result' \<noteq> [], result')))"

fun first_ip :: "Address option list \<Rightarrow> Address option" where
  "first_ip [] = None"
| "first_ip (Some (IPv4 a) # as) = Some (IPv4 a)"
| "first_ip (Some (IPv6 a) # as) = Some (IPv6 a)"
| "first_ip (_ # as) = first_ip as"

definition LookupAnyIPAddress ::
  "(string \<Rightarrow> string option \<Rightarrow> (nat \<times> IPv4Address \<times> IPv6Address) option list option) \<Rightarrow> string \<Rightarrow> Address option" where
  "LookupAnyIPAddress getaddrinfo host =
     (case Address_Lookup getaddrinfo host [] of (ok, rs) \<Rightarrow> if ok then first_ip rs else None)"


section \<open>Properties\<close>

text \<open>An address word is its four bytes, most significant first.\<close>

definition ipv4_word :: "nat \<Rightarrow> nat \<Rightarrow> nat \<Rightarrow> nat \<Rightarrow> 32 word" where
  "ipv4_word a b c d = of_nat (((a * 256 + b) * 256 + c) * 256 + d)"

lemma byte_text_at: "byte_text w k = show_nat (unat w div 2 ^ k mod 256)"
proof -
  have "drop_bit k w AND 0xff = take_bit 8 (drop_bit k w)"
    by (simp add: take_bit_eq_mask mask_eq_exp_minus_1)
  moreover have "take_bit 32 (unat w) = unat w"
    using unsigned_less[of w, where ?'a = nat] by (simp add: take_bit_nat_eq_self_iff)
  ultimately have "unat (drop_bit k w AND 0xff) = take_bit 8 (drop_bit k (unat w))"
    by (simp add: unsigned_take_bit_eq unsigned_drop_bit_eq)
  then show ?thesis by (simp add: byte_text_def take_bit_eq_mod drop_bit_eq_div)
qed

lemma unat_ipv4_word:
  assumes "a < 256" "b < 256" "c < 256" "d < 256"
  shows "unat (ipv4_word a b c d) = ((a * 256 + b) * 256 + c) * 256 + d"
proof -
  have "((a * 256 + b) * 256 + c) * 256 + d < 2 ^ 32" using assms by simp
  then show ?thesis unfolding ipv4_word_def by (simp only: unat_of_nat) simp
qed

text \<open>The IPv6 text of a list of group values.\<close>

definition sep_groups :: "nat list \<Rightarrow> string" where
  "sep_groups gs = concat (map (\<lambda>g. '':'' @ show_hex g) gs)"

definition join_groups :: "nat list \<Rightarrow> string" where
  "join_groups gs = drop 1 (sep_groups gs)"

definition group_bytes :: "nat list \<Rightarrow> nat list" where
  "group_bytes gs = concat (map (\<lambda>g. [g div 256, g mod 256]) gs)"

text \<open>The little-endian load of a group stored in network order.\<close>

definition net_group :: "nat \<Rightarrow> 16 word" where
  "net_group g = byteswap16 (of_nat g)"

lemma sep_groups_simps [simp]: "sep_groups [] = []" "sep_groups (g # gs) = '':'' @ show_hex g @ sep_groups gs"
  by (simp_all add: sep_groups_def)

lemma join_groups_simps [simp]: "join_groups [] = []" "join_groups (g # gs) = show_hex g @ sep_groups gs"
  by (simp_all add: join_groups_def)

lemma of_nat_16_eq_0: "g < 65536 \<Longrightarrow> (of_nat g :: 16 word) = 0 \<longleftrightarrow> g = 0"
  by (simp add: word_unat_eq_iff unat_of_nat)

lemma byteswap16_eq_0 [simp]: "byteswap16 w = 0 \<longleftrightarrow> w = 0"
proof -
  have "byteswap16 0 = 0" by code_simp
  then show ?thesis by (metis byteswap_twice(1))
qed

lemma net_group_eq_0: "g < 65536 \<Longrightarrow> net_group g = 0 \<longleftrightarrow> g = 0"
  by (simp add: net_group_def of_nat_16_eq_0)

lemma unat_net_group: "g < 65536 \<Longrightarrow> unat (byteswap16 (net_group g)) = g"
  by (simp add: net_group_def unat_of_nat)

lemma le_bytes_2: "le_bytes 2 g = [g mod 256, g div 256 mod 256]"
  using le_bytes.simps by (simp only: numeral_2_eq_2)

lemma net_group_bytes: "g < 65536 \<Longrightarrow> net_group g = of_nat (g div 256 + 256 * (g mod 256))"
proof -
  assume g: "g < 65536"
  then have "unat (of_nat g :: 16 word) = g" by (simp add: unat_of_nat)
  moreover from g have "g div 256 mod 256 = g div 256" by simp
  ultimately show ?thesis unfolding net_group_def byteswap16_def le_bytes_2 by (simp only:) simp
qed

lemma print_after_gap:
  "i > 0 \<Longrightarrow> \<forall>g \<in> set gs. g < 65536 \<Longrightarrow> print_groups i prev True (map net_group gs) = (sep_groups gs, True)"
  by (induction gs arbitrary: i prev) (simp_all add: unat_net_group)

lemma print_zeros:
  "print_groups i prev False (replicate n (net_group 0) @ gs) =
   print_groups (i + n) (if n = 0 then prev else 0) False gs"
proof (induction n arbitrary: i prev)
  case (Suc n)
  have "net_group 0 = 0" by (simp add: net_group_eq_0)
  with Suc show ?case by simp
qed simp

lemma print_nonzero:
  assumes "\<forall>g \<in> set pre. g < 65536 \<and> g \<noteq> 0" "i = 0 \<or> prev \<noteq> 0"
  shows "print_groups i prev False (map net_group pre @ gs) =
    (let (s, u) = print_groups (i + length pre) (if pre = [] then prev else net_group (last pre)) False gs
     in ((if i = 0 then join_groups pre else sep_groups pre) @ s, u))"
  using assms
proof (induction pre arbitrary: i prev)
  case (Cons g pre)
  then have "net_group g \<noteq> 0" by (simp add: net_group_eq_0)
  with Cons show ?case by (auto simp: unat_net_group split: prod.split)
qed (simp add: join_groups_def)

lemma print_post:
  assumes "\<forall>g \<in> set post. g < 65536" "post \<noteq> []" "hd post \<noteq> 0" "i > 0"
  shows "print_groups i 0 False (map net_group post) = (''::'' @ join_groups post, True)"
proof (cases post)
  case (Cons g gs)
  then show ?thesis using assms by (simp add: net_group_eq_0 unat_net_group print_after_gap)
qed (use assms in simp)


lemma group_bytes_nth: "i < length gs \<Longrightarrow> group_bytes gs ! (2 * i) = gs ! i div 256 \<and> group_bytes gs ! (2 * i + 1) = gs ! i mod 256"
proof (induction gs arbitrary: i)
  case (Cons g gs)
  then show ?case by (cases i) (auto simp: group_bytes_def)
qed simp

lemma length_group_bytes [simp]: "length (group_bytes gs) = 2 * length gs"
  by (induction gs) (simp_all add: group_bytes_def)

lemma groups_of_bytes:
  assumes "length gs = 8" "\<forall>g \<in> set gs. g < 65536"
  shows "map (group_at (IPv6Address_ctor (group_bytes gs) port)) [0, 1, 2, 3, 4, 5, 6, 7] = map net_group gs"
proof -
  have "group_at (IPv6Address_ctor (group_bytes gs) port) i = net_group (gs ! i)" if "i < 8" for i
    using that assms group_bytes_nth[of i gs]
    by (simp add: group_at_def IPv6Address_ctor_def net_group_bytes del: of_nat_add of_nat_mult)
  moreover have "[0, 1, 2, 3, 4, 5, 6, 7] = [0..<8]" by code_simp
  ultimately have "map (group_at (IPv6Address_ctor (group_bytes gs) port)) [0, 1, 2, 3, 4, 5, 6, 7] = map (\<lambda>i. net_group (gs ! i)) [0..<8]"
    by simp
  then show ?thesis using assms(1) by (simp add: list_eq_iff_nth_eq)
qed

lemma ipv4_text:
  assumes "a < 256" "b < 256" "c < 256" "d < 256"
  shows "IPv4_insert (IPv4Address_ctor (ipv4_word a b c d) port) =
    show_nat a @ ''.'' @ show_nat b @ ''.'' @ show_nat c @ ''.'' @ show_nat d @ '':'' @ show_nat (unat port)"
proof -
  let ?w = "((a * 256 + b) * 256 + c) * 256 + d"
  have 2: "?w div 2 ^ 8 = (a * 256 + b) * 256 + c" using assms(4) by simp
  then have 3: "?w div 2 ^ 16 = a * 256 + b" using assms(3) div_mult2_eq[of ?w 256 256] by simp
  then have 4: "?w div 2 ^ 24 = a" using assms(2) div_mult2_eq[of ?w 65536 256] by simp
  have m: "(y * 256 + x) mod 256 = x" if "x < 256" for x y :: nat using that by simp
  have mods: "?w div 2 ^ 24 mod 256 = a" "?w div 2 ^ 16 mod 256 = b" "?w div 2 ^ 8 mod 256 = c" "?w div 2 ^ 0 mod 256 = d"
    unfolding 2 3 4 power_0 div_by_1 using assms(1) m[OF assms(2)] m[OF assms(3)] m[OF assms(4)] by (simp, blast+)
  show ?thesis
    unfolding IPv4_insert_def IPv4Address_ctor_def IPv4Address.simps byteswap_twice Let_def byte_text_at unat_ipv4_word[OF assms] mods
    by simp
qed

lemma ipv6_text:
  assumes gs: "gs = pre @ replicate n 0 @ post" and len: "length gs = 8" and less: "\<forall>g \<in> set gs. g < 65536"
    and pre0: "0 \<notin> set pre" and gap: "post \<noteq> [] \<Longrightarrow> 0 < n \<and> hd post \<noteq> 0"
  shows "IPv6_insert (IPv6Address_ctor (group_bytes gs) port) =
    ''['' @ join_groups pre @ (if n = 0 then [] else ''::'') @ join_groups post @ '']:'' @ show_nat (unat port)"
proof -
  have pre: "\<forall>g \<in> set pre. g < 65536 \<and> g \<noteq> 0" and post: "\<forall>g \<in> set post. g < 65536"
    using gs less pre0 by auto
  define body where "body = print_groups 0 0 False (map net_group gs)"
  have body: "body = (let (s, u) = print_groups (length pre + n) (if n = 0 then if pre = [] then 0 else net_group (last pre) else 0) False
                              (map net_group post) in (join_groups pre @ s, u))"
    using print_nonzero[OF pre, of 0 0 "replicate n (net_group 0) @ map net_group post"]
    by (simp add: body_def gs print_zeros)
  have last: "map net_group gs ! 7 = net_group (last gs)" using len last_conv_nth[of gs] by fastforce
  have "fst body @ (if \<not> snd body \<and> net_group (last gs) = 0 then ''::'' else []) =
    join_groups pre @ (if n = 0 then [] else ''::'') @ join_groups post"
  proof (cases "post = []")
    case True
    have "net_group (last gs) = 0 \<longleftrightarrow> n \<noteq> 0"
      using True gs len pre last_in_set[of pre]
      by (cases n) (fastforce simp: net_group_eq_0 replicate_append_same[symmetric])+
    with True body show ?thesis by simp
  qed (use gap print_post[OF post] body in simp)
  then show ?thesis
    unfolding IPv6_insert_def Let_def groups_of_bytes[OF len less] last body_def[symmetric] prod.case_eq_if
    by (simp add: IPv6Address_ctor_def)
qed

text \<open>The text of an address built from its host-order value and port: an IPv4 address is its four
  bytes in decimal with the port behind a colon; an IPv6 address is its eight groups in hexadecimal, in
  which the first run of zero groups, and only it, is written as a double colon.\<close>

theorem address_text:
  assumes "a < 256" "b < 256" "c < 256" "d < 256"
    and "gs = pre @ replicate n 0 @ post" "length gs = 8" "\<forall>g \<in> set gs. g < 65536"
    and "0 \<notin> set pre" "post \<noteq> [] \<Longrightarrow> 0 < n \<and> hd post \<noteq> 0"
  shows "IPv4_insert (IPv4Address_ctor (ipv4_word a b c d) port) =
           show_nat a @ ''.'' @ show_nat b @ ''.'' @ show_nat c @ ''.'' @ show_nat d @ '':'' @ show_nat (unat port) \<and>
         IPv6_insert (IPv6Address_ctor (group_bytes gs) port) =
           ''['' @ join_groups pre @ (if n = 0 then [] else ''::'') @ join_groups post @ '']:'' @ show_nat (unat port)"
  using ipv4_text[OF assms(1-4)] ipv6_text[OF assms(5-9)] by blast

theorem address_text_witness:
  "IPv4_insert (IPv4Address_ctor (ipv4_word 192 168 1 20) 8080) =
     show_nat 192 @ ''.'' @ show_nat 168 @ ''.'' @ show_nat 1 @ ''.'' @ show_nat 20 @ '':'' @ show_nat (unat (8080 :: 16 word)) \<and>
   IPv6_insert (IPv6Address_ctor (group_bytes [0x2001, 0xdb8, 0, 0, 0, 0, 0, 1]) 8080) =
     ''['' @ join_groups [0x2001, 0xdb8] @ (if 5 = (0 :: nat) then [] else ''::'') @ join_groups [1] @ '']:'' @ show_nat (unat (8080 :: 16 word))"
proof -
  have "[0x2001, 0xdb8, 0, 0, 0, 0, 0, 1] = [0x2001, 0xdb8] @ replicate 5 0 @ [1 :: nat]" by code_simp
  then show ?thesis by (intro address_text) simp_all
qed

text \<open>A non-empty Unix path without a terminator in it, of at most 107 bytes, is the path read back and is
  stored in the 108 bytes with its terminator; a longer one is refused with a logic error.\<close>

theorem unix_path_roundtrip:
  assumes "CHR 0x00 \<notin> set path" "path \<noteq> []" "length path < 2 ^ 32 - 1"
  shows "if length path \<le> 107
         then \<exists>a. UnixAddress_ctor path = Inr a \<and> getPath a = Inr path \<and>
                  length (sun_path a) = sun_path_size \<and> m_length a = length path + 1 + sun_path_offset
         else UnixAddress_ctor path = Inl LogicError"
proof (cases "length path \<le> 107")
  case True
  have hd: "hd path \<noteq> CHR 0x00" using assms(1,2) by (metis hd_in_set)
  have tw: "takeWhile (\<lambda>c. c \<noteq> CHR 0x00) (path @ CHR 0x00 # r) = path" for r
    using assms(1) by (subst takeWhile_append2) auto
  with True hd assms(2) show ?thesis by (simp add: UnixAddress_ctor_def getPath_def nth_append hd_conv_nth)
next
  case False
  have "hd path \<noteq> CHR 0x00" using assms(1,2) by (metis hd_in_set)
  with False assms show ?thesis by (simp add: UnixAddress_ctor_def)
qed


theorem unix_path_roundtrip_witness:
  "\<exists>a. UnixAddress_ctor ''/tmp/s'' = Inr a \<and> getPath a = Inr ''/tmp/s'' \<and>
        length (sun_path a) = sun_path_size \<and> m_length a = length ''/tmp/s'' + 1 + sun_path_offset"
  using unix_path_roundtrip[of "''/tmp/s''"] by simp

text \<open>A Unix address prints as its path, and its length covers the family and the stored bytes, at most the whole structure.\<close>

lemma toString_Unix: "toString (Unix a) = getPath a"
  by (simp add: Unix_insert_def getPath_def)

lemma unix_length: "UnixAddress_ctor path = Inr a \<Longrightarrow> 2 \<le> getAddrLen (Unix a) \<and> getAddrLen (Unix a) \<le> 110 \<and> length (sun_path a) = 108"
  by (auto simp: UnixAddress_ctor_def Let_def min_def split: if_splits)

text \<open>The empty path reads back as an abstract name.\<close>

lemma unix_empty_path: "res_bind (UnixAddress_ctor []) getPath = Inr [CHR 0x5C, CHR ''0'']"
  by (simp add: UnixAddress_ctor_def getPath_def)

lemma memchr_None: "c \<notin> set s \<Longrightarrow> memchr c s = None"
proof -
  assume "c \<notin> set s"
  then have "takeWhile (\<lambda>x. x \<noteq> c) s = s" by (auto simp: takeWhile_eq_all_conv)
  then show ?thesis unfolding memchr_def by (simp only: Let_def less_irrefl if_False)
qed

lemma memchr_first: "c \<notin> set s \<Longrightarrow> memchr c (s @ c # t) = Some (length s)"
proof -
  assume "c \<notin> set s"
  then have "takeWhile (\<lambda>x. x \<noteq> c) (s @ c # t) = s" by (subst takeWhile_append2) auto
  then show ?thesis by (simp add: memchr_def)
qed

lemma cstr_from_end: "CHR 0x00 \<notin> set t \<Longrightarrow> cstr_from (s @ t) (length s) = t"
  by (auto simp: cstr_from_def takeWhile_eq_all_conv)

text \<open>The host strings \<^verbatim>\<open>Lookup\<close> documents are split into the node and service they were made
  of: a name with a service, a bracketed IPv6 literal with a service, and a bare name.\<close>

theorem split_host_printed:
  assumes node: "node \<noteq> []" "CHR '':'' \<notin> set node" "hd node \<noteq> CHR ''[''"
    and v6: "v6 \<noteq> []" "CHR '']'' \<notin> set v6"
    and service: "CHR '':'' \<notin> set service" "CHR 0x00 \<notin> set service"
  shows "split_host (node @ '':'' @ service) = (node, Some service) \<and>
         split_host (''['' @ v6 @ '']:'' @ service) = (v6, Some service) \<and>
         split_host (''['' @ v6 @ '']'') = (v6, None) \<and>
         split_host node = (node, None)"
proof (intro conjI)
  show "split_host (node @ '':'' @ service) = (node, Some service)"
    using node service memchr_first[of "CHR '':''" node service] cstr_from_end[of service "node @ '':''"]
    by (simp add: split_host_def bracketed_def memchr_None)
  show "split_host (''['' @ v6 @ '']:'' @ service) = (v6, Some service)"
    using v6 service memchr_first[of "CHR '']''" v6 "'':'' @ service"] cstr_from_end[of service "''['' @ v6 @ '']:''"]
    by (simp add: split_host_def bracketed_def nth_append numeral_3_eq_3)
  show "split_host (''['' @ v6 @ '']'') = (v6, None)"
    using v6 memchr_first[of "CHR '']''" v6 "[]"] by (simp add: split_host_def bracketed_def)
  show "split_host node = (node, None)"
    using node by (simp add: split_host_def bracketed_def memchr_None)
qed

theorem split_host_printed_witness:
  "split_host ''www.sylar.top:80'' = (''www.sylar.top'', Some ''80'') \<and> split_host ''[fe80::1]:443'' = (''fe80::1'', Some ''443'')"
  using split_host_printed[of "''www.sylar.top''" "''fe80::1''" "''80''"] split_host_printed[of "''www.sylar.top''" "''fe80::1''" "''443''"]
  by simp

text \<open>A bare IPv6 literal is not recognised: the text from its first colon on is passed as the service.\<close>

lemma split_host_bare_ipv6: "split_host ''fe80::1'' = (''fe80::1'', Some ''::1'')"
  by code_simp

text \<open>The lookup appends what the resolver gives, and the first address of an IP family is chosen.\<close>

lemma Lookup_keeps:
  "Address_Lookup g host result = (ok, result') \<Longrightarrow> \<exists>new. result' = result @ new \<and> (ok \<longrightarrow> result' \<noteq> [])"
  by (auto simp: Address_Lookup_def Let_def split: prod.splits option.splits)

lemma first_ip_is_first:
  "first_ip as = Some a \<Longrightarrow> \<exists>pre post. as = pre @ Some a # post \<and> first_ip pre = None"
proof (induction as)
  case (Cons x as)
  consider "first_ip [x] = Some a" "x = Some a" | "first_ip [x] = None" "first_ip (x # as) = first_ip as"
    using Cons.prems by (cases x rule: option.exhaust; cases "the x") auto
  then show ?case
  proof cases
    case 2
    with Cons obtain pre post where "as = pre @ Some a # post" "first_ip pre = None" by auto
    with 2 have "x # as = (x # pre) @ Some a # post \<and> first_ip (x # pre) = None"
      by (cases x rule: option.exhaust; cases "the x") auto
    then show ?thesis by blast
  qed (auto intro: exI[of _ "[]"])
qed simp

end
