(* ===== verification/TW_Std.thy ===== *)
theory TW_Std
  imports TW_Prelude
begin

text \<open>
  The ordered set \<^verbatim>\<open>std::set<T, Comparator>\<close>: its elements in order, with iterators as
  positions (the end iterator is the length). Searches compare with the comparator only, so
  they find an element whether or not it is equal, and erasing at the end iterator is
  undefined. The locale \<open>std_set\<close> holds what a strict order promises for these operations. At the end, the singletons of
  \<^verbatim>\<open>include/base/singleton.h\<close>, which are static objects of the language.
\<close>

section \<open>Operations\<close>

definition set_lower_bound :: "('a \<Rightarrow> 'a \<Rightarrow> bool) \<Rightarrow> 'a \<Rightarrow> 'a list \<Rightarrow> nat" where
  "set_lower_bound lt x xs = length (takeWhile (\<lambda>y. lt y x) xs)"

definition set_hit :: "('a \<Rightarrow> 'a \<Rightarrow> bool) \<Rightarrow> 'a \<Rightarrow> 'a list \<Rightarrow> nat \<Rightarrow> bool" where
  "set_hit lt x xs i \<longleftrightarrow> i < length xs \<and> \<not> lt x (xs ! i)"

definition set_find :: "('a \<Rightarrow> 'a \<Rightarrow> bool) \<Rightarrow> 'a \<Rightarrow> 'a list \<Rightarrow> nat" where
  "set_find lt x xs = (let i = set_lower_bound lt x xs in if set_hit lt x xs i then i else length xs)"

definition set_erase :: "nat \<Rightarrow> 'a list \<Rightarrow> 'a list res" where
  "set_erase i xs = (if i < length xs then Inr (take i xs @ drop (Suc i) xs) else Inl Undefined)"

definition set_insert :: "('a \<Rightarrow> 'a \<Rightarrow> bool) \<Rightarrow> 'a \<Rightarrow> 'a list \<Rightarrow> nat \<times> 'a list" where
  "set_insert lt x xs =
     (let i = set_lower_bound lt x xs in
      (i, if set_hit lt x xs i then xs else take i xs @ x # drop i xs))"

section \<open>The laws of a strict order\<close>

locale std_set =
  fixes lt :: "'a \<Rightarrow> 'a \<Rightarrow> bool"
  assumes lt_irrefl: "\<not> lt x x"
    and lt_trans: "lt x y \<Longrightarrow> lt y z \<Longrightarrow> lt x z"
    and lt_total: "lt x y \<or> x = y \<or> lt y x"
begin

lemma lt_asym: "lt x y \<Longrightarrow> \<not> lt y x"
  using lt_trans lt_irrefl by blast

lemma sorted_distinct: "sorted_wrt lt xs \<Longrightarrow> distinct xs"
  by (induction xs) (auto simp: lt_irrefl)

lemma lower_bound_split:
  "sorted_wrt lt xs \<Longrightarrow> set_lower_bound lt x xs = length ys \<Longrightarrow> xs = ys @ zs \<Longrightarrow>
     (\<forall>y \<in> set ys. lt y x) \<and> (\<forall>z \<in> set zs. \<not> lt z x)"
proof (induction xs arbitrary: ys)
  case Nil
  then show ?case by simp
next
  case (Cons a xs)
  show ?case
  proof (cases "lt a x")
    case True
    with Cons.prems obtain ys' where "ys = a # ys'" "xs = ys' @ zs" "set_lower_bound lt x xs = length ys'"
      by (cases ys) (auto simp: set_lower_bound_def)
    with Cons.IH[of ys'] Cons.prems(1) True show ?thesis by simp
  next
    case False
    with Cons.prems(2) have "ys = []" by (simp add: set_lower_bound_def)
    then have "ys = []" "zs = a # xs" using Cons.prems(3) by simp_all
    moreover have "\<forall>z \<in> set xs. \<not> lt z x" using Cons.prems(1) False lt_trans by auto
    ultimately show ?thesis using False by simp
  qed
qed

lemma lower_bound_le: "set_lower_bound lt x xs \<le> length xs"
  by (simp add: set_lower_bound_def length_takeWhile_le)

lemma lower_bound_parts:
  assumes "sorted_wrt lt xs"
  obtains ys zs where "xs = ys @ zs" "set_lower_bound lt x xs = length ys"
    "\<forall>y \<in> set ys. lt y x" "\<forall>z \<in> set zs. \<not> lt z x"
proof -
  let ?n = "set_lower_bound lt x xs"
  have n: "?n = length (take ?n xs)" using lower_bound_le[of x xs] by simp
  from lower_bound_split[OF assms n, of "drop ?n xs"] show thesis
    by (intro that[OF _ n, of "drop ?n xs"]) auto
qed

lemma find_member:
  assumes "sorted_wrt lt xs" "x \<in> set xs"
  shows "\<exists>ys zs. xs = ys @ x # zs \<and> set_find lt x xs = length ys"
proof -
  from lower_bound_parts[OF assms(1), of x] obtain ys zs where s: "xs = ys @ zs"
    "set_lower_bound lt x xs = length ys" "\<forall>y \<in> set ys. lt y x" "\<forall>z \<in> set zs. \<not> lt z x" by blast
  with assms(2) lt_irrefl have "x \<in> set zs" by auto
  then obtain z zs' where z: "zs = z # zs'" by (cases zs) auto
  have "z = x"
  proof (rule ccontr)
    assume "z \<noteq> x"
    with z \<open>x \<in> set zs\<close> assms(1) s(1) have "lt z x" by (auto simp: sorted_wrt_append)
    with s(4) z show False by simp
  qed
  with s z lt_irrefl show ?thesis
    by (auto simp: set_find_def set_hit_def nth_append)
qed

lemma find_other:
  assumes "sorted_wrt lt xs" "x \<notin> set xs"
  shows "set_find lt x xs = length xs"
proof -
  from lower_bound_parts[OF assms(1), of x] obtain ys zs where s: "xs = ys @ zs"
    "set_lower_bound lt x xs = length ys" "\<forall>z \<in> set zs. \<not> lt z x" by blast
  then show ?thesis using assms(2) lt_total[of x]
    by (cases zs) (auto simp: set_find_def set_hit_def nth_append)
qed

lemma find_erase:
  assumes "sorted_wrt lt xs" "x \<in> set xs"
  shows "set_find lt x xs < length xs" "set_erase (set_find lt x xs) xs = Inr (remove1 x xs)"
proof -
  from find_member[OF assms] obtain ys zs where s: "xs = ys @ x # zs" "set_find lt x xs = length ys" by blast
  moreover have "x \<notin> set ys" using sorted_distinct[OF assms(1)] s(1) by auto
  ultimately show "set_find lt x xs < length xs" "set_erase (set_find lt x xs) xs = Inr (remove1 x xs)"
    by (auto simp: set_erase_def remove1_append)
qed

lemma sorted_remove1: "sorted_wrt lt xs \<Longrightarrow> sorted_wrt lt (remove1 x xs)"
  by (induction xs) (auto dest: notin_set_remove1 set_remove1_subset[THEN subsetD])

lemma insert_new:
  assumes "sorted_wrt lt xs" "x \<notin> set xs" "set_insert lt x xs = (i, xs')"
  shows "sorted_wrt lt xs'" "set xs' = insert x (set xs)" "i < length xs'" "xs' ! i = x"
    "i = 0 \<longleftrightarrow> (\<forall>y \<in> set xs. lt x y)"
proof -
  from lower_bound_parts[OF assms(1), of x] obtain ys zs where s: "xs = ys @ zs"
    "set_lower_bound lt x xs = length ys" "\<forall>y \<in> set ys. lt y x" "\<forall>z \<in> set zs. \<not> lt z x" by blast
  have gt: "\<forall>z \<in> set zs. lt x z" using s(1,4) assms(2) lt_total[of x] by auto
  then have nohit: "\<not> set_hit lt x xs (length ys)" using s(1) by (cases zs) (auto simp: set_hit_def)
  then have r: "i = length ys" "xs' = ys @ x # zs" using assms(3) s by (auto simp: set_insert_def Let_def)
  show "sorted_wrt lt xs'" using r assms(1) s gt by (auto simp: sorted_wrt_append lt_trans)
  show "set xs' = insert x (set xs)" "i < length xs'" "xs' ! i = x" using r s(1) by auto
  show "i = 0 \<longleftrightarrow> (\<forall>y \<in> set xs. lt x y)" using r(1) s(1,3) gt lt_asym by (cases ys) auto
qed

lemmas set_facts = find_member find_other find_erase insert_new

end


section \<open>Singletons\<close>

text \<open>
  \<^verbatim>\<open>include/base/singleton.h\<close>: each template instance has a static local object, made at its first call. \<open>a\<close> is the address a new
  object gets. The four functions have statics of their own, also for the same arguments \<^verbatim>\<open>T\<close>, \<^verbatim>\<open>X\<close>, \<^verbatim>\<open>N\<close>.
\<close>

type_synonym template_args = "string \<times> string \<times> int"

datatype static_var = Static_X template_args | Static_PtrX template_args | Static_Singleton template_args | Static_SingletonPtr template_args

type_synonym statics_table = "static_var \<rightharpoonup> nat"

definition static_local :: "static_var \<Rightarrow> nat \<Rightarrow> statics_table \<Rightarrow> nat \<times> statics_table" where
  "static_local v a st = (case st v of Some p \<Rightarrow> (p, st) | None \<Rightarrow> (a, st(v \<mapsto> a)))"

definition GetInstanceX :: "template_args \<Rightarrow> nat \<Rightarrow> statics_table \<Rightarrow> nat \<times> statics_table" where
  "GetInstanceX t a st = static_local (Static_X t) a st"

definition GetInstancePtr :: "template_args \<Rightarrow> nat \<Rightarrow> statics_table \<Rightarrow> nat \<times> statics_table" where
  "GetInstancePtr t a st = static_local (Static_PtrX t) a st"

definition Singleton_GetInstance :: "template_args \<Rightarrow> nat \<Rightarrow> statics_table \<Rightarrow> nat \<times> statics_table" where
  "Singleton_GetInstance t a st = static_local (Static_Singleton t) a st"

definition SingletonPtr_GetInstance :: "template_args \<Rightarrow> nat \<Rightarrow> statics_table \<Rightarrow> nat \<times> statics_table" where
  "SingletonPtr_GetInstance t a st = static_local (Static_SingletonPtr t) a st"

lemmas singleton_defs = GetInstanceX_def GetInstancePtr_def Singleton_GetInstance_def SingletonPtr_GetInstance_def

text \<open>An object is never replaced or shared between instances, and every later call gives the same one.\<close>

lemma static_local_stable:
  assumes "inj_on st (dom st)" "a \<notin> ran st" "static_local v a st = (p, st')"
  shows "inj_on st' (dom st') \<and> st \<subseteq>\<^sub>m st' \<and> st' v = Some p \<and> (\<forall>st2 b. st' \<subseteq>\<^sub>m st2 \<longrightarrow> static_local v b st2 = (p, st2))"
proof (cases "st v")
  case None
  with assms(3) have st': "p = a" "st' = st(v \<mapsto> a)" by (auto simp: static_local_def)
  have "inj_on st' (dom st')" using assms(1,2) None by (auto simp: st' inj_on_def ran_def dom_def)
  then show ?thesis using None by (auto simp: st' map_le_def static_local_def split: option.splits)
next
  case (Some q)
  with assms show ?thesis by (auto simp: static_local_def map_le_def dom_def)
qed

lemma singletons_of_different_types:
  assumes "inj_on st (dom st)" "a \<notin> ran st" "Singleton_GetInstance t a st = (p, st')" "b \<notin> ran st'" "Singleton_GetInstance t' b st' = (q, st'')"
  shows "p = q \<longleftrightarrow> t = t'"
proof -
  have i: "inj_on st' (dom st')" "st' (Static_Singleton t) = Some p" using static_local_stable[OF assms(1,2)] assms(3) by (auto simp: singleton_defs)
  from static_local_stable[OF i(1) assms(4)] assms(5) have j: "inj_on st'' (dom st'')" "st' \<subseteq>\<^sub>m st''" "st'' (Static_Singleton t') = Some q"
    by (auto simp: singleton_defs)
  then have "st'' (Static_Singleton t) = Some p" using i(2) by (auto simp: map_le_def dom_def)
  with j(3) show ?thesis using inj_onD[OF j(1), of "Static_Singleton t" "Static_Singleton t'"] by auto
qed

end
