(* ===== verification/TW_Socket.thy ===== *)
theory TW_Socket
  imports TW_Address TW_Std
begin

text \<open>
  \<^verbatim>\<open>src/base/fd_manager.cpp\<close> and \<^verbatim>\<open>src/base/socket.cpp\<close>: the table of descriptor contexts, and sockets. The results of the
  system calls an operation makes are given by a record \<open>sys\<close>; each operation makes each call at most
  once. What the program does to the kernel is recorded: the descriptors it has open and the calls of \<^verbatim>\<open>close\<close>.
  The operations that cancel the events of a socket are in \<^verbatim>\<open>TW_ServerStop\<close>.
\<close>

section \<open>Descriptor contexts\<close>

record FdCtx =
  m_isInit :: bool
  m_isSocket :: bool
  m_sysNonblock :: bool
  m_userNonblock :: bool
  m_isClosed :: bool
  ctx_fd :: int
  ctx_recvTimeout :: "64 word"
  ctx_sendTimeout :: "64 word"

text \<open>\<open>fstat\<close> says whether the descriptor is a socket, none when the call fails.\<close>

definition FdCtx_init :: "(int \<Rightarrow> bool option) \<Rightarrow> FdCtx \<Rightarrow> bool \<times> FdCtx" where
  "FdCtx_init fstat c =
     (if m_isInit c then (True, c)
      else let c1 = c\<lparr>ctx_recvTimeout := -1, ctx_sendTimeout := -1\<rparr>;
               c2 = (case fstat (ctx_fd c) of
                       None \<Rightarrow> c1\<lparr>m_isInit := False, m_isSocket := False\<rparr>
                     | Some s \<Rightarrow> c1\<lparr>m_isInit := True, m_isSocket := s\<rparr>);
               c3 = (if m_isSocket c2 then c2 else c2\<lparr>m_sysNonblock := False\<rparr>);
               c4 = c3\<lparr>m_userNonblock := False, m_isClosed := False\<rparr>
           in (m_isInit c4, c4))"

definition FdCtx_ctor :: "(int \<Rightarrow> bool option) \<Rightarrow> int \<Rightarrow> FdCtx" where
  "FdCtx_ctor fstat fd =
     snd (FdCtx_init fstat \<lparr>m_isInit = False, m_isSocket = False, m_sysNonblock = False, m_userNonblock = False,
            m_isClosed = False, ctx_fd = fd, ctx_recvTimeout = -1, ctx_sendTimeout = -1\<rparr>)"

abbreviation (input) SO_RCVTIMEO :: int where "SO_RCVTIMEO \<equiv> 20"
abbreviation (input) SO_SNDTIMEO :: int where "SO_SNDTIMEO \<equiv> 21"

definition setUserNonblock :: "bool \<Rightarrow> FdCtx \<Rightarrow> FdCtx" where
  "setUserNonblock v c = c\<lparr>m_userNonblock := v\<rparr>"

definition setSysNonblock :: "bool \<Rightarrow> FdCtx \<Rightarrow> FdCtx" where
  "setSysNonblock v c = c\<lparr>m_sysNonblock := v\<rparr>"

definition setTimeout :: "int \<Rightarrow> 64 word \<Rightarrow> FdCtx \<Rightarrow> FdCtx" where
  "setTimeout type v c = (if type = SO_RCVTIMEO then c\<lparr>ctx_recvTimeout := v\<rparr> else c\<lparr>ctx_sendTimeout := v\<rparr>)"

definition getTimeout :: "int \<Rightarrow> FdCtx \<Rightarrow> 64 word" where
  "getTimeout type c = (if type = SO_RCVTIMEO then ctx_recvTimeout c else ctx_sendTimeout c)"

text \<open>The table holds shared pointers to contexts in a store.\<close>

record FdManager =
  m_datas :: "nat option list"
  ctxs :: "nat \<rightharpoonup> FdCtx"
  next_ctx :: nat

definition FdManager_ctor :: FdManager where
  "FdManager_ctor = \<lparr>m_datas = replicate 64 None, ctxs = Map.empty, next_ctx = 0\<rparr>"

text \<open>The first half of \<^verbatim>\<open>get\<close>, under the read lock: \<^term>\<open>Inr None\<close> when a context has to be made.\<close>

definition get_read :: "int \<Rightarrow> bool \<Rightarrow> FdManager \<Rightarrow> nat option option res" where
  "get_read fd auto_create m =
     (if fd = -1 then Inr (Some None)
      else if size_to_int (length (m_datas m)) \<le> fd then (if \<not> auto_create then Inr (Some None) else Inr None)
      else if fd < 0 \<or> nat fd \<ge> length (m_datas m) then Inl OutOfBounds
      else if m_datas m ! nat fd \<noteq> None \<or> \<not> auto_create then Inr (Some (m_datas m ! nat fd)) else Inr None)"

text \<open>The second half, under the write lock; \<^verbatim>\<open>fd * 1.5\<close> is computed in floating point and cut off.\<close>

definition resize_to :: "nat \<Rightarrow> 'a option list \<Rightarrow> 'a option list" where
  "resize_to n xs = take n xs @ replicate (n - length xs) None"

definition get_write :: "(int \<Rightarrow> bool option) \<Rightarrow> int \<Rightarrow> FdManager \<Rightarrow> (nat \<times> FdManager) res" where
  "get_write fstat fd m =
     (let p = next_ctx m;
          ds = (if fd \<ge> size_to_int (length (m_datas m)) then resize_to (nat fd * 3 div 2) (m_datas m) else m_datas m)
      in if fd < 0 \<or> nat fd \<ge> length ds then Inl OutOfBounds
         else Inr (p, \<lparr>m_datas = ds[nat fd := Some p], ctxs = (ctxs m)(p \<mapsto> FdCtx_ctor fstat fd), next_ctx = p + 1\<rparr>))"

definition FdManager_get :: "(int \<Rightarrow> bool option) \<Rightarrow> int \<Rightarrow> bool \<Rightarrow> FdManager \<Rightarrow> (nat option \<times> FdManager) res" where
  "FdManager_get fstat fd auto_create m =
     res_bind (get_read fd auto_create m) (\<lambda>r.
     case r of
       Some p \<Rightarrow> Inr (p, m)
     | None \<Rightarrow> res_bind (get_write fstat fd m) (\<lambda>(p, m'). Inr (Some p, m')))"

definition FdManager_del :: "int \<Rightarrow> FdManager \<Rightarrow> FdManager res" where
  "FdManager_del fd m =
     (if size_to_int (length (m_datas m)) \<le> fd then Inr m
      else if fd < 0 \<or> nat fd \<ge> length (m_datas m) then Inl OutOfBounds
      else Inr (m\<lparr>m_datas := (m_datas m)[nat fd := None]\<rparr>))"

section \<open>Sockets\<close>

abbreviation (input) SOCK_STREAM :: int where "SOCK_STREAM \<equiv> 1"
abbreviation (input) SOCK_DGRAM :: int where "SOCK_DGRAM \<equiv> 2"

record Socket =
  m_sock :: int
  m_family :: nat
  m_type :: int
  m_protocol :: int
  m_isConnected :: bool
  m_localAddress :: "Address option"
  m_remoteAddress :: "Address option"

text \<open>Results of the system calls: a failing call gives \<open>-1\<close>, \<^term>\<open>False\<close> or \<^term>\<open>None\<close>.\<close>

record sys =
  sys_socket :: int
  sys_bind :: "int \<Rightarrow> Address \<Rightarrow> bool"
  sys_connect :: "int \<Rightarrow> Address \<Rightarrow> bool"
  sys_listen :: "int \<Rightarrow> int \<Rightarrow> bool"
  sys_accept :: "int \<Rightarrow> int"
  sys_setsockopt :: "int \<Rightarrow> int \<Rightarrow> int \<Rightarrow> bool"
  sys_getpeername :: "int \<Rightarrow> nat \<Rightarrow> Address option"
  sys_getsockname :: "int \<Rightarrow> nat \<Rightarrow> Address option"
  sys_fstat :: "int \<Rightarrow> bool option"
  sys_getsockopt :: "int \<Rightarrow> int \<Rightarrow> int \<Rightarrow> int list option"
  sys_errno :: int

text \<open>The descriptors the process has open, the calls of \<^verbatim>\<open>close\<close> and \<^verbatim>\<open>connect\<close> it made, and the options it set.\<close>

record net =
  net_open :: "int set"
  net_closes :: "int list"
  net_connects :: "(int \<times> Address) list"
  net_opts :: "(int \<times> int \<times> int \<times> int list) list"
  fd_mgr :: FdManager

definition Socket_ctor :: "nat \<Rightarrow> int \<Rightarrow> int \<Rightarrow> Socket" where
  "Socket_ctor family type protocol =
     \<lparr>m_sock = -1, m_family = family, m_type = type, m_protocol = protocol, m_isConnected = False,
      m_localAddress = None, m_remoteAddress = None\<rparr>"

definition sys_close :: "int \<Rightarrow> net \<Rightarrow> net" where
  "sys_close fd w = w\<lparr>net_open := net_open w - {fd}, net_closes := net_closes w @ [fd]\<rparr>"

definition Socket_close :: "Socket \<Rightarrow> net \<Rightarrow> bool \<times> Socket \<times> net" where
  "Socket_close s w =
     (if \<not> m_isConnected s \<and> m_sock s = -1 then (True, s, w)
      else let s1 = s\<lparr>m_isConnected := False\<rparr> in
        if m_sock s1 \<noteq> -1 then (False, s1\<lparr>m_sock := -1\<rparr>, sys_close (m_sock s1) w) else (False, s1, w))"

definition isValid :: "Socket \<Rightarrow> bool" where
  "isValid s \<longleftrightarrow> m_sock s \<noteq> -1"

text \<open>The value of an option is the list of the integers it consists of.\<close>

definition setOption :: "sys \<Rightarrow> int \<Rightarrow> int \<Rightarrow> int list \<Rightarrow> Socket \<Rightarrow> net \<Rightarrow> bool \<times> net" where
  "setOption y level option val s w =
     (if sys_setsockopt y (m_sock s) level option then (True, w\<lparr>net_opts := net_opts w @ [(m_sock s, level, option, val)]\<rparr>) else (False, w))"

text \<open>\<^verbatim>\<open>SOL_SOCKET\<close> is 1, \<^verbatim>\<open>SO_REUSEADDR\<close> 2, \<^verbatim>\<open>IPPROTO_TCP\<close> 6 and \<^verbatim>\<open>TCP_NODELAY\<close> 1.\<close>

definition initSock :: "sys \<Rightarrow> Socket \<Rightarrow> net \<Rightarrow> net" where
  "initSock y s w =
     (let w1 = snd (setOption y 1 2 [1] s w) in if m_type s = SOCK_STREAM then snd (setOption y 6 1 [1] s w1) else w1)"

definition newSock :: "sys \<Rightarrow> Socket \<Rightarrow> net \<Rightarrow> Socket \<times> net" where
  "newSock y s w =
     (let s1 = s\<lparr>m_sock := sys_socket y\<rparr> in
      if m_sock s1 \<noteq> -1 then (s1, initSock y s1 (w\<lparr>net_open := insert (m_sock s1) (net_open w)\<rparr>)) else (s1, w))"

definition CreateTCP :: "Address \<Rightarrow> Socket" where
  "CreateTCP address = Socket_ctor (getFamily address) SOCK_STREAM 0"

definition CreateUDP :: "sys \<Rightarrow> Address \<Rightarrow> net \<Rightarrow> Socket \<times> net" where
  "CreateUDP y address w =
     (case newSock y (Socket_ctor (getFamily address) SOCK_DGRAM 0) w of (s, w') \<Rightarrow> (s\<lparr>m_isConnected := True\<rparr>, w'))"

definition CreateTCPSocket :: Socket where
  "CreateTCPSocket = Socket_ctor AF_INET SOCK_STREAM 0"

definition CreateUDPSocket :: "sys \<Rightarrow> net \<Rightarrow> Socket \<times> net" where
  "CreateUDPSocket y w = (case newSock y (Socket_ctor AF_INET SOCK_DGRAM 0) w of (s, w') \<Rightarrow> (s\<lparr>m_isConnected := True\<rparr>, w'))"

definition CreateTCPSocket6 :: Socket where
  "CreateTCPSocket6 = Socket_ctor AF_INET6 SOCK_STREAM 0"

definition CreateUDPSocket6 :: "sys \<Rightarrow> net \<Rightarrow> Socket \<times> net" where
  "CreateUDPSocket6 y w = (case newSock y (Socket_ctor AF_INET6 SOCK_DGRAM 0) w of (s, w') \<Rightarrow> (s\<lparr>m_isConnected := True\<rparr>, w'))"

definition CreateUnixTCPSocket :: Socket where
  "CreateUnixTCPSocket = Socket_ctor AF_UNIX SOCK_STREAM 0"

definition CreateUnixUDPSocket :: Socket where
  "CreateUnixUDPSocket = Socket_ctor AF_UNIX SOCK_DGRAM 0"

text \<open>The address the kernel reports for a socket of a family, or an unknown address when the call fails.\<close>

definition getRemoteAddress :: "sys \<Rightarrow> Socket \<Rightarrow> Address \<times> Socket" where
  "getRemoteAddress y s =
     (case m_remoteAddress s of
        Some a \<Rightarrow> (a, s)
      | None \<Rightarrow>
          (case sys_getpeername y (m_sock s) (m_family s) of
             None \<Rightarrow> (Unknown (m_family s), s)
           | Some a \<Rightarrow> (a, s\<lparr>m_remoteAddress := Some a\<rparr>)))"

definition getLocalAddress :: "sys \<Rightarrow> Socket \<Rightarrow> Address \<times> Socket" where
  "getLocalAddress y s =
     (case m_localAddress s of
        Some a \<Rightarrow> (a, s)
      | None \<Rightarrow>
          (case sys_getsockname y (m_sock s) (m_family s) of
             None \<Rightarrow> (Unknown (m_family s), s)
           | Some a \<Rightarrow> (a, s\<lparr>m_localAddress := Some a\<rparr>)))"

text \<open>The common start of \<^verbatim>\<open>bind\<close> and \<^verbatim>\<open>connect\<close>.\<close>

definition ensure_sock :: "sys \<Rightarrow> Socket \<Rightarrow> net \<Rightarrow> Socket \<times> net" where
  "ensure_sock y s w = (if \<not> isValid s then newSock y s w else (s, w))"

definition Socket_bind :: "sys \<Rightarrow> Address \<Rightarrow> Socket \<Rightarrow> net \<Rightarrow> bool \<times> Socket \<times> net" where
  "Socket_bind y addr s w =
     (case ensure_sock y (s\<lparr>m_localAddress := Some addr\<rparr>) w of (s1, w1) \<Rightarrow>
        if \<not> isValid s1 then (False, s1, w1)
        else if getFamily addr \<noteq> m_family s1 then (False, s1, w1)
        else if \<not> sys_bind y (m_sock s1) addr then (False, s1, w1)
        else (True, snd (getLocalAddress y s1), w1))"

definition Socket_connect :: "sys \<Rightarrow> Address \<Rightarrow> 64 word \<Rightarrow> Socket \<Rightarrow> net \<Rightarrow> bool \<times> Socket \<times> net" where
  "Socket_connect y addr timeout_ms s w =
     (case ensure_sock y (s\<lparr>m_remoteAddress := Some addr\<rparr>) w of (s1, w1) \<Rightarrow>
        if \<not> isValid s1 then (False, s1, w1)
        else if getFamily addr \<noteq> m_family s1 then (False, s1, w1)
        else
          let w2 = (if timeout_ms = -1 then w1\<lparr>net_connects := net_connects w1 @ [(m_sock s1, addr)]\<rparr> else w1) in
          if timeout_ms = -1 \<and> \<not> sys_connect y (m_sock s1) addr then (False, snd (Socket_close s1 w2))
          else (True, snd (getLocalAddress y (snd (getRemoteAddress y (s1\<lparr>m_isConnected := True\<rparr>)))), w2))"

definition reconnect :: "sys \<Rightarrow> 64 word \<Rightarrow> Socket \<Rightarrow> net \<Rightarrow> bool \<times> Socket \<times> net" where
  "reconnect y timeout_ms s w =
     (case m_remoteAddress s of
        None \<Rightarrow> (False, s, w)
      | Some a \<Rightarrow> Socket_connect y a timeout_ms (s\<lparr>m_localAddress := None\<rparr>) w)"

definition Socket_listen :: "sys \<Rightarrow> int \<Rightarrow> Socket \<Rightarrow> bool" where
  "Socket_listen y backlog s = (if \<not> isValid s then False else sys_listen y (m_sock s) backlog)"

definition Socket_init :: "sys \<Rightarrow> int \<Rightarrow> Socket \<Rightarrow> net \<Rightarrow> (bool \<times> Socket \<times> net) res" where
  "Socket_init y sock s w =
     res_bind (FdManager_get (sys_fstat y) sock True (fd_mgr w)) (\<lambda>(p, fm).
     let w1 = w\<lparr>fd_mgr := fm\<rparr> in
     case p of
       None \<Rightarrow> Inr (False, s, w1)
     | Some q \<Rightarrow>
         (case ctxs fm q of
            None \<Rightarrow> Inl Undefined
          | Some ctx \<Rightarrow>
              if m_isClosed ctx then Inr (False, s, w1)
              else let s1 = s\<lparr>m_sock := sock, m_isConnected := True\<rparr>; w2 = initSock y s1 w1
                   in Inr (True, snd (getRemoteAddress y (snd (getLocalAddress y s1))), w2)))"

definition Socket_accept :: "sys \<Rightarrow> Socket \<Rightarrow> net \<Rightarrow> (Socket option \<times> net) res" where
  "Socket_accept y s w =
     (let newsock = sys_accept y (m_sock s) in
      if newsock = -1 then Inr (None, w)
      else res_bind (Socket_init y newsock (Socket_ctor (m_family s) (m_type s) (m_protocol s)) (w\<lparr>net_open := insert newsock (net_open w)\<rparr>))
        (\<lambda>(ok, s', w'). Inr (if ok then Some s' else None, w')))"

text \<open>\<^verbatim>\<open>SO_ERROR\<close> is 4.\<close>

definition getOption :: "sys \<Rightarrow> int \<Rightarrow> int \<Rightarrow> Socket \<Rightarrow> int list option" where
  "getOption y level option s = sys_getsockopt y (m_sock s) level option"

definition getError :: "sys \<Rightarrow> Socket \<Rightarrow> int" where
  "getError y s = (case getOption y 1 4 s of None \<Rightarrow> sys_errno y | Some v \<Rightarrow> (case v of [] \<Rightarrow> 0 | e # _ \<Rightarrow> e))"

text \<open>
  Sending and receiving. The calls of the kernel and what they return: a number, the bytes stored into the
  buffers, and the address stored into \<^verbatim>\<open>msg_name\<close> or the address argument.
\<close>

datatype io_call =
    Sys_send string int
  | Sys_sendto string int Address
  | Sys_sendmsg "string list" "Address option" int
  | Sys_recv nat int
  | Sys_recvfrom nat int
  | Sys_recvmsg "nat list" bool int

type_synonym io_reply = "int \<times> string list \<times> Address option"
type_synonym 'k io_kernel = "int \<Rightarrow> io_call \<Rightarrow> 'k \<Rightarrow> io_reply \<times> 'k"

definition send :: "'k io_kernel \<Rightarrow> string \<Rightarrow> int \<Rightarrow> Socket \<Rightarrow> 'k \<Rightarrow> int \<times> 'k" where
  "send io buf flags s k = (if m_isConnected s then map_prod fst id (io (m_sock s) (Sys_send buf flags) k) else (-1, k))"

definition send_iovec :: "'k io_kernel \<Rightarrow> string list \<Rightarrow> int \<Rightarrow> Socket \<Rightarrow> 'k \<Rightarrow> int \<times> 'k" where
  "send_iovec io bufs flags s k = (if m_isConnected s then map_prod fst id (io (m_sock s) (Sys_sendmsg bufs None flags) k) else (-1, k))"

definition sendTo :: "'k io_kernel \<Rightarrow> string \<Rightarrow> Address \<Rightarrow> int \<Rightarrow> Socket \<Rightarrow> 'k \<Rightarrow> int \<times> 'k" where
  "sendTo io buf to flags s k = (if m_isConnected s then map_prod fst id (io (m_sock s) (Sys_sendto buf flags to) k) else (-1, k))"

definition sendTo_iovec :: "'k io_kernel \<Rightarrow> string list \<Rightarrow> Address \<Rightarrow> int \<Rightarrow> Socket \<Rightarrow> 'k \<Rightarrow> int \<times> 'k" where
  "sendTo_iovec io bufs to flags s k =
     (if m_isConnected s then map_prod fst id (io (m_sock s) (Sys_sendmsg bufs (Some to) flags) k) else (-1, k))"

definition recv :: "'k io_kernel \<Rightarrow> nat \<Rightarrow> int \<Rightarrow> Socket \<Rightarrow> 'k \<Rightarrow> (int \<times> string list) \<times> 'k" where
  "recv io len flags s k =
     (if m_isConnected s then map_prod (\<lambda>(rt, stored, _). (rt, stored)) id (io (m_sock s) (Sys_recv len flags) k) else ((-1, []), k))"

definition recv_iovec :: "'k io_kernel \<Rightarrow> nat list \<Rightarrow> int \<Rightarrow> Socket \<Rightarrow> 'k \<Rightarrow> (int \<times> string list) \<times> 'k" where
  "recv_iovec io lens flags s k =
     (if m_isConnected s then map_prod (\<lambda>(rt, stored, _). (rt, stored)) id (io (m_sock s) (Sys_recvmsg lens False flags) k) else ((-1, []), k))"

definition recvFrom :: "'k io_kernel \<Rightarrow> nat \<Rightarrow> int \<Rightarrow> Socket \<Rightarrow> 'k \<Rightarrow> io_reply \<times> 'k" where
  "recvFrom io len flags s k = (if m_isConnected s then io (m_sock s) (Sys_recvfrom len flags) k else ((-1, [], None), k))"

definition recvFrom_iovec :: "'k io_kernel \<Rightarrow> nat list \<Rightarrow> int \<Rightarrow> Socket \<Rightarrow> 'k \<Rightarrow> io_reply \<times> 'k" where
  "recvFrom_iovec io lens flags s k = (if m_isConnected s then io (m_sock s) (Sys_recvmsg lens True flags) k else ((-1, [], None), k))"

definition getSendTimeout :: "sys \<Rightarrow> Socket \<Rightarrow> net \<Rightarrow> (64 word \<times> net) res" where
  "getSendTimeout y s w =
     res_bind (FdManager_get (sys_fstat y) (m_sock s) True (fd_mgr w)) (\<lambda>(p, fm).
     Inr (case p of None \<Rightarrow> -1 | Some q \<Rightarrow> (case ctxs fm q of None \<Rightarrow> -1 | Some c \<Rightarrow> getTimeout SO_SNDTIMEO c), w\<lparr>fd_mgr := fm\<rparr>))"

definition getRecvTimeout :: "sys \<Rightarrow> Socket \<Rightarrow> net \<Rightarrow> (64 word \<times> net) res" where
  "getRecvTimeout y s w =
     res_bind (FdManager_get (sys_fstat y) (m_sock s) True (fd_mgr w)) (\<lambda>(p, fm).
     Inr (case p of None \<Rightarrow> -1 | Some q \<Rightarrow> (case ctxs fm q of None \<Rightarrow> -1 | Some c \<Rightarrow> getTimeout SO_RCVTIMEO c), w\<lparr>fd_mgr := fm\<rparr>))"

text \<open>The seconds and microseconds of a time in milliseconds; division truncates, and the results are cut to 32 bits.\<close>

definition timeval_of :: "int \<Rightarrow> int list" where
  "timeval_of v = [signed_take_bit 31 (sgn v * (\<bar>v\<bar> div 1000)), signed_take_bit 31 (sgn v * (\<bar>v\<bar> mod 1000) * 1000)]"

definition setSendTimeout :: "sys \<Rightarrow> int \<Rightarrow> Socket \<Rightarrow> net \<Rightarrow> net" where
  "setSendTimeout y v s w = snd (setOption y 1 SO_SNDTIMEO (timeval_of v) s w)"

definition setRecvTimeout :: "sys \<Rightarrow> int \<Rightarrow> Socket \<Rightarrow> net \<Rightarrow> net" where
  "setRecvTimeout y v s w = snd (setOption y 1 SO_RCVTIMEO (timeval_of v) s w)"


section \<open>The table of contexts\<close>

definition fm_inv :: "FdManager \<Rightarrow> bool" where
  "fm_inv m \<longleftrightarrow> 64 \<le> length (m_datas m) \<and> length (m_datas m) < 2 ^ 31 \<and>
     (\<forall>i < length (m_datas m). \<forall>p. m_datas m ! i = Some p \<longrightarrow>
        p < next_ctx m \<and> (\<exists>c. ctxs m p = Some c \<and> ctx_fd c = int i \<and> \<not> m_isClosed c))"

inductive fm_reach :: "FdManager \<Rightarrow> bool" where
  new: "fm_reach FdManager_ctor"
| get: "fm_reach m \<Longrightarrow> 0 \<le> fd \<Longrightarrow> fd < 2 ^ 30 \<Longrightarrow> FdManager_get fstat fd auto_create m = Inr (p, m') \<Longrightarrow> fm_reach m'"
| del: "fm_reach m \<Longrightarrow> 0 \<le> fd \<Longrightarrow> FdManager_del fd m = Inr m' \<Longrightarrow> fm_reach m'"

lemma FdCtx_ctor_simps [simp]: "ctx_fd (FdCtx_ctor fstat fd) = fd" "\<not> m_isClosed (FdCtx_ctor fstat fd)"
  by (auto simp: FdCtx_ctor_def FdCtx_init_def Let_def split: option.split)

lemma get_write_inv:
  assumes "fm_inv m" "0 \<le> fd" "fd < 2 ^ 30"
  shows "\<exists>m'. get_write fstat fd m = Inr (next_ctx m, m') \<and> fm_inv m' \<and> nat fd < length (m_datas m') \<and>
     m_datas m' ! nat fd = Some (next_ctx m) \<and> ctxs m' (next_ctx m) = Some (FdCtx_ctor fstat fd)"
proof -
  let ?ds = "if fd \<ge> size_to_int (length (m_datas m)) then resize_to (nat fd * 3 div 2) (m_datas m) else m_datas m"
  have len: "64 \<le> length (m_datas m)" "length (m_datas m) < 2 ^ 31" using assms(1) by (simp_all add: fm_inv_def)
  have ds: "length (m_datas m) \<le> length ?ds" "length ?ds < 2 ^ 31" "nat fd < length ?ds"
    using len assms(2,3) by (auto simp: resize_to_def size_simps)
  have old: "i < length (m_datas m) \<and> m_datas m ! i = Some p" if "i < length ?ds" "?ds ! i = Some p" for i p
    using that len assms(2) by (auto simp: resize_to_def size_simps nth_append split: if_splits)
  let ?m = "\<lparr>m_datas = ?ds[nat fd := Some (next_ctx m)], ctxs = (ctxs m)(next_ctx m \<mapsto> FdCtx_ctor fstat fd), next_ctx = next_ctx m + 1\<rparr>"
  have "get_write fstat fd m = Inr (next_ctx m, ?m)" using ds(3) assms(2) by (simp add: get_write_def Let_def)
  moreover have "p < next_ctx ?m \<and> (\<exists>c. ctxs ?m p = Some c \<and> ctx_fd c = int i \<and> \<not> m_isClosed c)"
    if "i < length (m_datas ?m)" "m_datas ?m ! i = Some p" for i p
  proof (cases "i = nat fd")
    case True
    with that ds(3) assms(2) show ?thesis by simp
  next
    case False
    with that old[of i p] have "i < length (m_datas m) \<and> m_datas m ! i = Some p" by simp
    with assms(1) have "p < next_ctx m" "\<exists>c. ctxs m p = Some c \<and> ctx_fd c = int i \<and> \<not> m_isClosed c" by (auto simp: fm_inv_def)
    then show ?thesis by auto
  qed
  ultimately show ?thesis using ds len by (intro exI[of _ ?m]) (simp add: fm_inv_def)
qed

lemma get_read_cases:
  assumes "fm_inv m" "0 \<le> fd" "get_read fd b m = Inr r"
  shows "r = None \<and> b \<or> r = Some None \<or> (\<exists>p. r = Some (Some p) \<and> nat fd < length (m_datas m) \<and> m_datas m ! nat fd = Some p)"
  using assms by (auto simp: get_read_def fm_inv_def size_simps split: if_splits)

lemma get_read_defined: "fm_inv m \<Longrightarrow> 0 \<le> fd \<Longrightarrow> \<exists>r. get_read fd b m = Inr r \<and> (b \<longrightarrow> r \<noteq> Some None)"
  by (auto simp: get_read_def fm_inv_def size_simps)

lemma fm_reach_inv: "fm_reach m \<Longrightarrow> fm_inv m"
proof (induction rule: fm_reach.induct)
  case new
  show ?case by (simp add: fm_inv_def FdManager_ctor_def)
next
  case (get m fd fstat b p m')
  then obtain r where r: "get_read fd b m = Inr r" using get_read_defined by blast
  with get get_write_inv[OF get.IH get.hyps(2,3), of fstat] show ?case
    by (cases r) (auto simp: FdManager_get_def)
next
  case (del m fd m')
  then show ?case by (auto simp: FdManager_del_def fm_inv_def nth_list_update split: if_splits)
qed

lemma fd_context:
  assumes "fm_reach m" "0 \<le> fd" "fd < 2 ^ 30"
  shows "\<exists>p m' c. FdManager_get fstat fd True m = Inr (Some p, m') \<and> ctxs m' p = Some c \<and> ctx_fd c = fd \<and> \<not> m_isClosed c \<and>
     (\<forall>fstat' b. FdManager_get fstat' fd b m' = Inr (Some p, m')) \<and>
     (\<exists>m''. FdManager_del fd m' = Inr m'' \<and> FdManager_get fstat fd False m'' = Inr (None, m''))"
proof -
  note inv = fm_reach_inv[OF assms(1)]
  have "\<exists>p m'. FdManager_get fstat fd True m = Inr (Some p, m') \<and> fm_inv m' \<and> nat fd < length (m_datas m') \<and> m_datas m' ! nat fd = Some p"
  proof -
    obtain r where r: "get_read fd True m = Inr r" "r \<noteq> Some None" using get_read_defined[OF inv assms(2), of True] by auto
    show ?thesis
    proof (cases r)
      case None
      with r get_write_inv[OF inv assms(2,3), of fstat] show ?thesis by (auto simp: FdManager_get_def)
    next
      case (Some q)
      with r get_read_cases[OF inv assms(2) r(1)] inv show ?thesis by (auto simp: FdManager_get_def)
    qed
  qed
  then obtain p m' where p: "FdManager_get fstat fd True m = Inr (Some p, m')" "fm_inv m'" "nat fd < length (m_datas m')" "m_datas m' ! nat fd = Some p"
    by blast
  have lt: "fd < size_to_int (length (m_datas m'))" using p(2,3) assms(2) by (simp add: fm_inv_def size_simps)
  have "\<exists>c. ctxs m' p = Some c \<and> ctx_fd c = fd \<and> \<not> m_isClosed c" using p(2-4) assms(2) by (auto simp: fm_inv_def)
  moreover have "FdManager_get fstat' fd b m' = Inr (Some p, m')" for fstat' b
    using lt p(3,4) assms(2) by (simp add: FdManager_get_def get_read_def)
  moreover have "\<exists>m''. FdManager_del fd m' = Inr m'' \<and> FdManager_get fstat fd False m'' = Inr (None, m'')"
    using lt p(3) assms(2) by (simp add: FdManager_del_def FdManager_get_def get_read_def)
  ultimately show ?thesis using p(1) by blast
qed

text \<open>C33: the descriptor table gives every descriptor one context until it is deleted: in every table that whole calls of
  \<^verbatim>\<open>get\<close> and \<^verbatim>\<open>del\<close> reach (the interleaving of two of them is \<open>get_race\<close>) a lookup of a descriptor succeeds, its context belongs to this descriptor and is not closed, looking it up again
  gives the same object and changes nothing, and after deleting it a lookup that may not create finds none.\<close>

theorem fd_context_stable:
  assumes "fm_reach m" "0 \<le> fd" "fd < 2 ^ 30"
  shows "\<exists>p m' c. FdManager_get fstat fd True m = Inr (Some p, m') \<and> ctxs m' p = Some c \<and> ctx_fd c = fd \<and> \<not> m_isClosed c \<and>
     (\<forall>fstat' b. FdManager_get fstat' fd b m' = Inr (Some p, m')) \<and>
     (\<exists>m''. FdManager_del fd m' = Inr m'' \<and> FdManager_get fstat fd False m'' = Inr (None, m''))"
  using assms by (rule fd_context)

theorem fd_context_stable_witness:
  "\<exists>p m' c. FdManager_get (\<lambda>_. Some True) 70 True FdManager_ctor = Inr (Some p, m') \<and> ctxs m' p = Some c \<and> ctx_fd c = 70"
  using fd_context_stable[OF fm_reach.new, of 70 "\<lambda>_. Some True"] by auto

text \<open>Two threads that both found no context make one each, and the table keeps the second.\<close>

lemma get_race:
  assumes "fm_inv m" "0 \<le> fd" "fd < 2 ^ 30" "get_write fstat fd m = Inr (p, m1)" "get_write fstat fd m1 = Inr (q, m2)"
  shows "p \<noteq> q \<and> m_datas m2 ! nat fd = Some q"
proof -
  have 1: "p = next_ctx m" "next_ctx m1 = next_ctx m + 1" "fm_inv m1"
    using assms(4) get_write_inv[OF assms(1-3), of fstat] by (auto simp: get_write_def Let_def split: if_splits)
  have "q = next_ctx m1 \<and> m_datas m2 ! nat fd = Some (next_ctx m1)" using assms(5) get_write_inv[OF 1(3) assms(2,3), of fstat] by auto
  with 1 show ?thesis by simp
qed

section \<open>A socket owns its descriptor\<close>

text \<open>What a TCP socket can go through, in a process that has the descriptors \<open>base\<close> open otherwise. The kernel hands
  out descriptors that are not open.\<close>

inductive sock_reach :: "int set \<Rightarrow> Socket \<Rightarrow> net \<Rightarrow> bool" for base where
  create: "net_open w = base \<Longrightarrow> sock_reach base (Socket_ctor family type protocol) w"
| bind: "sock_reach base s w \<Longrightarrow> sys_socket y \<notin> base \<Longrightarrow> Socket_bind y a s w = (b, s', w') \<Longrightarrow> sock_reach base s' w'"
| connect: "sock_reach base s w \<Longrightarrow> sys_socket y \<notin> base \<Longrightarrow> Socket_connect y a t s w = (b, s', w') \<Longrightarrow> sock_reach base s' w'"
| reconnect: "sock_reach base s w \<Longrightarrow> sys_socket y \<notin> base \<Longrightarrow> reconnect y t s w = (b, s', w') \<Longrightarrow> sock_reach base s' w'"
| close: "sock_reach base s w \<Longrightarrow> Socket_close s w = (b, s', w') \<Longrightarrow> sock_reach base s' w'"

definition sock_inv :: "int set \<Rightarrow> Socket \<Rightarrow> net \<Rightarrow> bool" where
  "sock_inv base s w \<longleftrightarrow> (m_isConnected s \<longrightarrow> isValid s) \<and> net_open w = base \<union> (if isValid s then {m_sock s} else {}) \<and>
     (isValid s \<longrightarrow> m_sock s \<notin> base)"

lemma setOption_open [simp]: "net_open (snd (setOption y l opt v s w)) = net_open w"
  by (simp add: setOption_def)

lemma initSock_open [simp]: "net_open (initSock y s w) = net_open w"
  by (simp add: initSock_def Let_def)

lemma address_keeps [simp]:
  "m_sock (snd (getLocalAddress y s)) = m_sock s" "m_isConnected (snd (getLocalAddress y s)) = m_isConnected s"
  "m_sock (snd (getRemoteAddress y s)) = m_sock s" "m_isConnected (snd (getRemoteAddress y s)) = m_isConnected s"
  by (auto simp: getLocalAddress_def getRemoteAddress_def split: option.splits)

lemma ensure_sock_inv:
  assumes "sock_inv base s w" "sys_socket y \<notin> base" "ensure_sock y s w = (s', w')"
  shows "sock_inv base s' w'"
  using assms by (auto simp: ensure_sock_def newSock_def sock_inv_def isValid_def Let_def split: if_splits)

lemma close_inv: "sock_inv base s w \<Longrightarrow> Socket_close s w = (b, s', w') \<Longrightarrow> sock_inv base s' w'"
  by (auto simp: Socket_close_def sys_close_def sock_inv_def isValid_def Let_def split: if_splits)

lemma bind_inv:
  assumes "sock_inv base s w" "sys_socket y \<notin> base" "Socket_bind y a s w = (b, s', w')"
  shows "sock_inv base s' w'"
proof -
  obtain s1 w1 where e: "ensure_sock y (s\<lparr>m_localAddress := Some a\<rparr>) w = (s1, w1)" by force
  have "sock_inv base (s\<lparr>m_localAddress := Some a\<rparr>) w" using assms(1) by (simp add: sock_inv_def isValid_def)
  then have i: "sock_inv base s1 w1" using ensure_sock_inv assms(2) e by blast
  have "w' = w1 \<and> (s' = s1 \<or> s' = snd (getLocalAddress y s1))"
    using assms(3) e unfolding Socket_bind_def by (auto split: if_splits)
  with i show ?thesis by (auto simp: sock_inv_def isValid_def)
qed

lemma connect_inv:
  assumes "sock_inv base s w" "sys_socket y \<notin> base" "Socket_connect y a t s w = (b, s', w')"
  shows "sock_inv base s' w'"
proof -
  obtain s1 w1 where e: "ensure_sock y (s\<lparr>m_remoteAddress := Some a\<rparr>) w = (s1, w1)" by force
  have "sock_inv base (s\<lparr>m_remoteAddress := Some a\<rparr>) w" using assms(1) by (simp add: sock_inv_def isValid_def)
  then have i: "sock_inv base s1 w1" using ensure_sock_inv assms(2) e by blast
  then have c: "sock_inv base s1 (w1\<lparr>net_connects := x\<rparr>)" for x by (simp add: sock_inv_def)
  have closed: "sock_inv base (fst (snd (Socket_close s1 w2))) (snd (snd (Socket_close s1 w2)))" if "sock_inv base s1 w2" for w2
    using close_inv[OF that, of "fst (Socket_close s1 w2)"] by simp
  consider "\<not> isValid s1 \<or> getFamily a \<noteq> m_family s1" | "isValid s1" "getFamily a = m_family s1" "t = -1" "\<not> sys_connect y (m_sock s1) a"
    | "isValid s1" "getFamily a = m_family s1" "t \<noteq> -1 \<or> sys_connect y (m_sock s1) a" by blast
  then show ?thesis
  proof cases
    case 1
    then have "s' = s1 \<and> w' = w1" using assms(3) e by (auto simp: Socket_connect_def split: if_splits)
    with i show ?thesis by simp
  next
    case 2
    then have "(s', w') = snd (Socket_close s1 (w1\<lparr>net_connects := net_connects w1 @ [(m_sock s1, a)]\<rparr>))"
      using assms(3) e by (auto simp: Socket_connect_def)
    with closed[OF c, of "net_connects w1 @ [(m_sock s1, a)]"] show ?thesis by (metis fst_conv snd_conv)
  next
    case 3
    then have "m_sock s' = m_sock s1" "net_open w' = net_open w1" using assms(3) e by (auto simp: Socket_connect_def Let_def split: if_splits)
    with i 3(1) show ?thesis by (simp add: sock_inv_def isValid_def)
  qed
qed

lemma sock_reach_inv: "sock_reach base s w \<Longrightarrow> sock_inv base s w"
proof (induction rule: sock_reach.induct)
  case (create w family type protocol)
  then show ?case by (simp add: sock_inv_def Socket_ctor_def isValid_def)
next
  case (reconnect s w y t b s' w')
  have "sock_inv base (s\<lparr>m_localAddress := None\<rparr>) w" using reconnect.IH by (simp add: sock_inv_def isValid_def)
  with reconnect connect_inv show ?case by (auto simp: reconnect_def split: option.splits)
qed (auto intro: bind_inv connect_inv close_inv)

text \<open>C17: a TCP socket owns its descriptor: whatever sequence of binding, connecting, reconnecting and closing it goes
  through, with any outcome of the system calls, it is connected only with a valid descriptor, the process
  has exactly the other descriptors and that of the socket open, so none leaks and no foreign one is
  closed; closing then leaves the other descriptors open, and closing again does nothing.\<close>

theorem socket_owns_descriptor:
  assumes "sock_reach base s w"
  shows "(m_isConnected s \<longrightarrow> isValid s) \<and> net_open w = base \<union> (if isValid s then {m_sock s} else {}) \<and> (isValid s \<longrightarrow> m_sock s \<notin> base) \<and>
     (case Socket_close s w of (b, s', w') \<Rightarrow> net_open w' = base \<and> \<not> isValid s' \<and> Socket_close s' w' = (True, s', w'))"
proof -
  note inv = sock_reach_inv[OF assms]
  then show ?thesis by (auto simp: sock_inv_def Socket_close_def sys_close_def isValid_def Let_def split: if_splits)
qed

definition demo_sys :: sys where
  "demo_sys = \<lparr>sys_socket = 5, sys_bind = (\<lambda>_ _. True), sys_connect = (\<lambda>_ _. True), sys_listen = (\<lambda>_ _. True), sys_accept = (\<lambda>_. 6),
     sys_setsockopt = (\<lambda>_ _ _. True), sys_getpeername = (\<lambda>_ _. None), sys_getsockname = (\<lambda>_ _. None), sys_fstat = (\<lambda>_. Some True), sys_getsockopt = (\<lambda>_ _ _. Some [0]),
     sys_errno = 0\<rparr>"

definition demo_net :: net where
  "demo_net = \<lparr>net_open = {0, 1}, net_closes = [], net_connects = [], net_opts = [], fd_mgr = FdManager_ctor\<rparr>"

theorem socket_owns_descriptor_witness:
  "case Socket_bind demo_sys (Unknown 2) (Socket_ctor 2 1 0) demo_net of (b, s, w) \<Rightarrow> b \<and> net_open w = {0, 1, 5}"
proof -
  obtain b s w where h: "Socket_bind demo_sys (Unknown 2) (Socket_ctor 2 1 0) demo_net = (b, s, w)" by (metis prod_cases3)
  have "sock_reach {0, 1} (Socket_ctor 2 1 0) demo_net" by (rule sock_reach.create) (simp add: demo_net_def)
  then have "sock_reach {0, 1} s w" by (rule sock_reach.bind[OF _ _ h]) (simp add: demo_sys_def)
  from socket_owns_descriptor[OF this] have "net_open w = {0, 1} \<union> (if isValid s then {m_sock s} else {})" by blast
  moreover have "b \<and> m_sock s = 5" using h
    by (auto simp: Socket_bind_def ensure_sock_def newSock_def isValid_def Socket_ctor_def demo_sys_def getLocalAddress_def Let_def split: if_splits)
  ultimately show ?thesis using h by (auto simp: isValid_def)
qed

text \<open>With a timeout \<^verbatim>\<open>connect\<close> makes no system call and still reports success.\<close>

lemma connect_timeout_skips:
  assumes "isValid s" "getFamily a = m_family s" "t \<noteq> -1"
  shows "\<exists>s'. Socket_connect y a t s w = (True, s', w) \<and> m_isConnected s'"
  using assms by (auto simp: Socket_connect_def ensure_sock_def isValid_def)

text \<open>A UDP socket counts as connected also when no descriptor could be made.\<close>

lemma udp_connected_without_descriptor:
  "sys_socket y = -1 \<Longrightarrow> m_isConnected (fst (CreateUDP y a w)) \<and> \<not> isValid (fst (CreateUDP y a w))"
  by (simp add: CreateUDP_def newSock_def Let_def isValid_def)

text \<open>No call reaches the kernel through a socket that is not connected, on any of the eight overloads.\<close>

lemma unconnected_io:
  assumes "\<not> m_isConnected s"
  shows "send io b f s k = (-1, k)" "send_iovec io bs f s k = (-1, k)" "sendTo io b a f s k = (-1, k)" "sendTo_iovec io bs a f s k = (-1, k)"
    "recv io n f s k = ((-1, []), k)" "recv_iovec io ns f s k = ((-1, []), k)" "recvFrom io n f s k = ((-1, [], None), k)"
    "recvFrom_iovec io ns f s k = ((-1, [], None), k)"
  using assms by (simp_all add: send_def send_iovec_def sendTo_def sendTo_iovec_def recv_def recv_iovec_def recvFrom_def recvFrom_iovec_def)

end
