(* ===== verification/TW_Buffer.thy ===== *)
theory TW_Buffer
  imports TW_Prelude
begin

text \<open>
  The growable byte buffer of \<^verbatim>\<open>src/base/buffer.cpp\<close>. The record has the class's
  three data members; the two positions are \<^verbatim>\<open>size_t\<close>, so the differences the code
  computes wrap around. A pointer into the buffer is its offset; a \<^verbatim>\<open>const char*\<close>
  argument is \<open>None\<close> for a null pointer. The abstraction \<open>content\<close> reads a buffer as
  the byte queue it implements; the locale \<open>byte_queue\<close> is that contract, its
  interpretation \<open>bq\<close> discharges it for the code's operations, and the components
  above use the buffer through it.
\<close>

section \<open>The operations of the class\<close>

record buffer =
  buffer :: "char list"
  readPos :: nat
  writePos :: nat

definition Buffer_ctor :: "int \<Rightarrow> buffer res" where
  "Buffer_ctor initBuffSize =
     res_bind (vec_resize (nat (initBuffSize mod 2 ^ 64)) CHR 0x00 [])
       (\<lambda>v. Inr \<lparr>buffer = v, readPos = 0, writePos = 0\<rparr>)"

definition WritableBytes :: "buffer \<Rightarrow> nat" where
  "WritableBytes b = size_sub (length (buffer b)) (writePos b)"

definition ReadableBytes :: "buffer \<Rightarrow> nat" where
  "ReadableBytes b = size_sub (writePos b) (readPos b)"

definition PrependableBytes :: "buffer \<Rightarrow> nat" where
  "PrependableBytes b = readPos b"

definition Peek :: "buffer \<Rightarrow> nat" where
  "Peek b = readPos b"

definition BeginWrite :: "buffer \<Rightarrow> nat" where
  "BeginWrite b = writePos b"

definition HasWritten :: "nat \<Rightarrow> buffer \<Rightarrow> buffer" where
  "HasWritten len b = b\<lparr>writePos := size_add (writePos b) len\<rparr>"

definition Retrieve :: "nat \<Rightarrow> buffer \<Rightarrow> buffer" where
  "Retrieve len b = b\<lparr>readPos := size_add (readPos b) len\<rparr>"

definition RetrieveUntil :: "nat \<Rightarrow> buffer \<Rightarrow> buffer res" where
  "RetrieveUntil end b =
     res_bind (cxx_assert (Peek b \<le> end)) (\<lambda>_. Inr (Retrieve (end - Peek b) b))"

definition RetrieveAll :: "buffer \<Rightarrow> buffer" where
  "RetrieveAll b =
     b\<lparr>buffer := replicate (length (buffer b)) CHR 0x00, readPos := 0, writePos := 0\<rparr>"

definition RetrieveAllToStr :: "buffer \<Rightarrow> (string \<times> buffer) res" where
  "RetrieveAllToStr b =
     res_bind (mem_read (Peek b) (ReadableBytes b) (buffer b)) (\<lambda>str. Inr (str, RetrieveAll b))"

definition MakeSpace :: "nat \<Rightarrow> buffer \<Rightarrow> buffer res" where
  "MakeSpace len b =
     (if size_add (WritableBytes b) (PrependableBytes b) < len
      then res_bind (vec_resize (size_add (size_add (writePos b) len) 1) CHR 0x00 (buffer b))
             (\<lambda>v. Inr (b\<lparr>buffer := v\<rparr>))
      else let readable = ReadableBytes b in
           res_bind (mem_copy (readPos b) (writePos b) 0 (buffer b)) (\<lambda>v.
             let b' = b\<lparr>buffer := v, readPos := 0, writePos := readable\<rparr> in
             res_bind (cxx_assert (readable = ReadableBytes b')) (\<lambda>_. Inr b')))"

definition EnsureWriteable :: "nat \<Rightarrow> buffer \<Rightarrow> buffer res" where
  "EnsureWriteable len b =
     res_bind (if WritableBytes b < len then MakeSpace len b else Inr b) (\<lambda>b'.
       res_bind (cxx_assert (len \<le> WritableBytes b')) (\<lambda>_. Inr b'))"

definition Append :: "char list option \<Rightarrow> nat \<Rightarrow> buffer \<Rightarrow> buffer res" where
  "Append str len b =
     (case str of
        None \<Rightarrow> Inl AssertFailed
      | Some s \<Rightarrow>
          res_bind (EnsureWriteable len b) (\<lambda>b1.
          res_bind (mem_read 0 len s) (\<lambda>xs.
          res_bind (mem_write (BeginWrite b1) xs (buffer b1)) (\<lambda>v.
          Inr (HasWritten len (b1\<lparr>buffer := v\<rparr>))))))"

definition Append_string :: "string \<Rightarrow> buffer \<Rightarrow> buffer res" where
  "Append_string str b = Append (Some str) (length str) b"

definition Append_data :: "char list option \<Rightarrow> nat \<Rightarrow> buffer \<Rightarrow> buffer res" where
  "Append_data dat len b = Append dat len b"

definition Append_buffer :: "buffer \<Rightarrow> buffer \<Rightarrow> buffer res" where
  "Append_buffer buff b = Append (Some (drop (Peek buff) (buffer buff))) (ReadableBytes buff) b"

text \<open>
  The system calls are parameters. A call either fails with an error number or, for a read,
  delivers bytes (at most as many as it was given room for) and, for a write, says how many
  bytes it took.
\<close>

datatype 'a io_result = IoErr int | IoOk 'a

definition stack_buf_size :: nat where
  "stack_buf_size = 65535"

text \<open>
  \<^verbatim>\<open>readv\<close> gets the room in the two areas and fills the first before the second; the
  result carries the returned length, the error number when it is set, and the buffer.
\<close>

definition ReadFd :: "(nat \<Rightarrow> char list io_result) \<Rightarrow> buffer \<Rightarrow> (int \<times> int option \<times> buffer) res" where
  "ReadFd readv b =
     (let writeable = WritableBytes b in
      case readv (writeable + stack_buf_size) of
        IoErr errno \<Rightarrow> Inr (-1, Some errno, b)
      | IoOk dat \<Rightarrow>
          res_bind (mem_write (BeginWrite b) (take writeable dat) (buffer b)) (\<lambda>v.
            let b1 = b\<lparr>buffer := v\<rparr>; len = length dat in
            if len \<le> writeable
            then Inr (int len, None, b1\<lparr>writePos := size_add (writePos b1) len\<rparr>)
            else res_bind (Append (Some (drop writeable dat)) (len - writeable)
                             (b1\<lparr>writePos := length (buffer b1)\<rparr>))
                   (\<lambda>b2. Inr (int len, None, b2))))"

definition WriteFd :: "(char list \<Rightarrow> nat io_result) \<Rightarrow> buffer \<Rightarrow> (int \<times> int option \<times> buffer) res" where
  "WriteFd write b =
     res_bind (mem_read (Peek b) (ReadableBytes b) (buffer b)) (\<lambda>bytes.
       case write bytes of
         IoErr errno \<Rightarrow> Inr (-1, Some errno, b)
       | IoOk len \<Rightarrow> Inr (int len, None, Retrieve len b))"

section \<open>Invariant and abstraction\<close>

definition buf_inv :: "buffer \<Rightarrow> bool" where
  "buf_inv b \<longleftrightarrow> readPos b \<le> writePos b \<and> writePos b \<le> length (buffer b) \<and> length (buffer b) \<le> vec_max"

definition content :: "buffer \<Rightarrow> char list" where
  "content b = slice (readPos b) (writePos b) (buffer b)"

text \<open>How many bytes can still be appended before the vector reaches its largest size.\<close>

definition room :: "buffer \<Rightarrow> nat" where
  "room b = vec_max - 1 - writePos b"

lemma buf_inv_lt: "buf_inv b \<Longrightarrow> length (buffer b) < 2 ^ 63" "buf_inv b \<Longrightarrow> writePos b < 2 ^ 63"
  by (simp_all add: buf_inv_def vec_max_def)

lemma buf_sizes [size_simps]:
  assumes "buf_inv b"
  shows "WritableBytes b = length (buffer b) - writePos b"
    and "ReadableBytes b = writePos b - readPos b"
    and "PrependableBytes b = readPos b"
  using assms by (simp_all add: WritableBytes_def ReadableBytes_def PrependableBytes_def
      buf_inv_def vec_max_def size_sub_le)

lemma space_sum:
  assumes "buf_inv b"
  shows "size_add (WritableBytes b) (PrependableBytes b) = length (buffer b) - writePos b + readPos b"
  unfolding buf_sizes[OF assms]
  by (intro size_add_small) (use assms in \<open>auto simp: buf_inv_def vec_max_def\<close>)

lemma length_content: "buf_inv b \<Longrightarrow> length (content b) = ReadableBytes b"
  by (simp add: content_def buf_sizes buf_inv_def)

lemma Buffer_ctor_ok:
  assumes "0 \<le> n" "nat n \<le> vec_max"
  shows "\<exists>b. Buffer_ctor n = Inr b \<and> buf_inv b \<and> content b = [] \<and> length (buffer b) = nat n"
proof -
  have "n < 2 ^ 64" using assms by (simp add: vec_max_def)
  with assms have "nat (n mod 2 ^ 64) = nat n" by simp
  with assms show ?thesis
    by (simp add: Buffer_ctor_def vec_resize_def buf_inv_def content_def)
qed

section \<open>Making room\<close>

lemma MakeSpace_grow:
  assumes "buf_inv b" "length (buffer b) - writePos b + readPos b < len"
    and "writePos b + len + 1 \<le> vec_max"
  shows "\<exists>v. MakeSpace len b = Inr (b\<lparr>buffer := v\<rparr>) \<and> length v = writePos b + len + 1 \<and>
           (\<forall>i j. j \<le> writePos b \<longrightarrow> slice i j v = slice i j (buffer b))"
proof -
  let ?n = "writePos b + len + 1"
  let ?v = "take ?n (buffer b) @ replicate (?n - length (buffer b)) CHR 0x00"
  have len: "length (buffer b) \<le> ?n"
    using assms by (simp add: buf_inv_def)
  then have v: "?v = buffer b @ replicate (?n - length (buffer b)) CHR 0x00" by simp
  have "size_add (WritableBytes b) (PrependableBytes b) < len"
    using assms by (simp add: space_sum)
  moreover have "size_add (size_add (writePos b) len) 1 = ?n"
    using assms by (simp add: size_add_small vec_max_def)
  ultimately have "MakeSpace len b = Inr (b\<lparr>buffer := ?v\<rparr>)"
    using assms by (simp add: MakeSpace_def vec_resize_def)
  moreover have "length ?v = ?n" using len by simp
  moreover have "slice i j ?v = slice i j (buffer b)" if "j \<le> writePos b" for i j
  proof -
    have "j \<le> length (buffer b)" using that assms(1) by (simp add: buf_inv_def)
    with slice_before[of j "length (buffer b)" "buffer b" i] v show ?thesis by simp
  qed
  ultimately show ?thesis by blast
qed

lemma MakeSpace_shift:
  assumes "buf_inv b" "len \<le> length (buffer b) - writePos b + readPos b"
  shows "MakeSpace len b = Inr (b\<lparr>buffer := content b @ drop (writePos b - readPos b) (buffer b),
           readPos := 0, writePos := writePos b - readPos b\<rparr>)"
proof -
  let ?v = "content b @ drop (writePos b - readPos b) (buffer b)"
  let ?b' = "b\<lparr>buffer := ?v, readPos := 0, writePos := writePos b - readPos b\<rparr>"
  have "\<not> size_add (WritableBytes b) (PrependableBytes b) < len"
    using assms by (auto simp: space_sum)
  moreover have "mem_copy (readPos b) (writePos b) 0 (buffer b) = Inr ?v"
    using assms by (simp add: mem_copy_ok buf_inv_def content_def slice_def)
  moreover have "ReadableBytes ?b' = ReadableBytes b"
    using assms by (simp add: buf_sizes)
      (auto simp: ReadableBytes_def buf_inv_def vec_max_def intro!: size_sub_le[of 0, simplified])
  ultimately show ?thesis
    using assms by (simp add: MakeSpace_def Let_def buf_sizes)
qed

lemma EnsureWriteable_ok:
  assumes inv: "buf_inv b" and small: "writePos b + len + 1 \<le> vec_max"
  shows "\<exists>b'. EnsureWriteable len b = Inr b' \<and> buf_inv b' \<and> content b' = content b \<and>
           writePos b' + len \<le> length (buffer b') \<and> writePos b' \<le> writePos b"
proof (cases "len \<le> WritableBytes b")
  case True
  with inv have "writePos b + len \<le> length (buffer b)" by (auto simp: buf_sizes buf_inv_def)
  with True inv show ?thesis by (simp add: EnsureWriteable_def)
next
  case noroom: False
  show ?thesis
  proof (cases "length (buffer b) - writePos b + readPos b < len")
    case True
    from MakeSpace_grow[OF inv True small] obtain v where
      v: "MakeSpace len b = Inr (b\<lparr>buffer := v\<rparr>)" "length v = writePos b + len + 1"
        "\<And>i j. j \<le> writePos b \<Longrightarrow> slice i j v = slice i j (buffer b)" by blast
    let ?b' = "b\<lparr>buffer := v\<rparr>"
    have inv': "buf_inv ?b'" using inv small v(2) by (simp add: buf_inv_def)
    have "len \<le> WritableBytes ?b'" using v(2) by (simp add: buf_sizes[OF inv'])
    with noroom v inv' show ?thesis
      by (simp add: EnsureWriteable_def content_def)
  next
    case False
    let ?b' = "b\<lparr>buffer := content b @ drop (writePos b - readPos b) (buffer b),
           readPos := 0, writePos := writePos b - readPos b\<rparr>"
    have ms: "MakeSpace len b = Inr ?b'"
      using MakeSpace_shift[OF inv] False by simp
    have lc: "length (content b) = writePos b - readPos b"
      using inv by (simp add: length_content buf_sizes)
    have inv': "buf_inv ?b'" using inv lc by (auto simp: buf_inv_def)
    have "content ?b' = content b" using lc by (simp add: content_def[of ?b'] slice_def)
    moreover have room: "writePos ?b' + len \<le> length (buffer ?b')"
      using inv lc False by (auto simp: buf_inv_def)
    moreover from room have "len \<le> WritableBytes ?b'" by (simp add: buf_sizes[OF inv'])
    ultimately show ?thesis using noroom ms inv'
      by (simp add: EnsureWriteable_def)
  qed
qed

section \<open>The operations on the queue of bytes\<close>

lemma Append_string_ok:
  assumes inv: "buf_inv b" and fits: "length s \<le> room b" "0 < room b"
  shows "\<exists>b'. Append_string s b = Inr b' \<and> buf_inv b' \<and> content b' = content b @ s \<and>
           writePos b' \<le> writePos b + length s"
proof -
  have "writePos b + length s + 1 \<le> vec_max" using fits by (simp add: room_def)
  from EnsureWriteable_ok[OF inv this] obtain b1 where
    b1: "EnsureWriteable (length s) b = Inr b1" "buf_inv b1" "content b1 = content b"
      "writePos b1 + length s \<le> length (buffer b1)" "writePos b1 \<le> writePos b" by blast
  let ?v = "take (writePos b1) (buffer b1) @ s @ drop (writePos b1 + length s) (buffer b1)"
  let ?b' = "b1\<lparr>buffer := ?v, writePos := writePos b1 + length s\<rparr>"
  have add: "size_add (writePos b1) (length s) = writePos b1 + length s"
    using b1 by (simp add: size_add_small buf_inv_def vec_max_def)
  have "Append_string s b = Inr ?b'"
    using b1 add by (simp add: Append_string_def Append_def mem_simps BeginWrite_def HasWritten_def)
  moreover have "buf_inv ?b'" using b1 by (simp add: buf_inv_def)
  moreover have "content ?b' = content b @ s"
  proof -
    have "content ?b' = slice (readPos b1) (writePos b1) ?v @ slice (writePos b1) (writePos b1 + length s) ?v"
      using b1 by (simp add: content_def slice_append buf_inv_def)
    also have "slice (readPos b1) (writePos b1) ?v = content b1"
      using b1 by (simp add: slice_before content_def buf_inv_def)
    also have "slice (writePos b1) (writePos b1 + length s) ?v = s"
      using b1 by (intro slice_write) simp
    finally show ?thesis using b1 by simp
  qed
  ultimately show ?thesis using b1 by auto
qed

lemma Retrieve_ok:
  assumes "buf_inv b" "n \<le> ReadableBytes b"
  shows "buf_inv (Retrieve n b)" "content (Retrieve n b) = drop n (content b)"
    "writePos (Retrieve n b) = writePos b"
proof -
  have "size_add (readPos b) n = readPos b + n"
    using assms by (intro size_add_small) (auto simp: buf_sizes buf_inv_def vec_max_def)
  with assms show "buf_inv (Retrieve n b)" "content (Retrieve n b) = drop n (content b)"
    "writePos (Retrieve n b) = writePos b"
    by (auto simp: Retrieve_def buf_inv_def content_def drop_slice buf_sizes)
qed

lemma RetrieveUntil_ok: "RetrieveUntil (Peek b + n) b = Inr (Retrieve n b)"
  by (simp add: RetrieveUntil_def)

lemma RetrieveAll_ok:
  assumes "buf_inv b"
  shows "buf_inv (RetrieveAll b)" "content (RetrieveAll b) = []" "writePos (RetrieveAll b) = 0"
  using assms by (simp_all add: RetrieveAll_def buf_inv_def content_def)

lemma RetrieveAllToStr_ok:
  "buf_inv b \<Longrightarrow> RetrieveAllToStr b = Inr (content b, RetrieveAll b)"
  by (simp add: RetrieveAllToStr_def Peek_def buf_sizes buf_inv_def mem_simps content_def slice_def)

section \<open>The contract: a queue of bytes\<close>

locale byte_queue =
  fixes cont :: "'q \<Rightarrow> char list" and invar :: "'q \<Rightarrow> bool" and space :: "'q \<Rightarrow> nat"
    and append :: "char list \<Rightarrow> 'q \<Rightarrow> 'q res" and retrieve :: "nat \<Rightarrow> 'q \<Rightarrow> 'q"
    and clear :: "'q \<Rightarrow> 'q"
  assumes append_ok: "invar q \<Longrightarrow> length s < space q \<Longrightarrow>
      \<exists>q'. append s q = Inr q' \<and> invar q' \<and> cont q' = cont q @ s \<and> space q \<le> space q' + length s"
    and retrieve_cont: "invar q \<Longrightarrow> n \<le> length (cont q) \<Longrightarrow> cont (retrieve n q) = drop n (cont q)"
    and retrieve_invar: "invar q \<Longrightarrow> n \<le> length (cont q) \<Longrightarrow> invar (retrieve n q)"
    and clear_cont: "invar q \<Longrightarrow> cont (clear q) = []"
    and clear_invar: "invar q \<Longrightarrow> invar (clear q)"
    and retrieve_space: "invar q \<Longrightarrow> n \<le> length (cont q) \<Longrightarrow> space (retrieve n q) = space q"
    and clear_space: "invar q \<Longrightarrow> space q \<le> space (clear q)"
begin

fun append_all :: "char list list \<Rightarrow> 'q \<Rightarrow> 'q res" where
  "append_all [] q = Inr q"
| "append_all (s # ss) q = res_bind (append s q) (append_all ss)"

lemma append_all_fun:
  "append_all [] = Inr" "append_all (s # ss) = (\<lambda>q. res_bind (append s q) (append_all ss))"
  by (simp_all add: fun_eq_iff)

lemma append_all_append: "append_all (xs @ ys) q = res_bind (append_all xs q) (append_all ys)"
  by (induction xs arbitrary: q) (auto simp: res_bind_assoc intro!: res_bind_cong)

lemma append_all_ok:
  assumes "invar q" "length (concat ss) < space q"
  shows "\<exists>q'. append_all ss q = Inr q' \<and> invar q' \<and> cont q' = cont q @ concat ss \<and>
           space q \<le> space q' + length (concat ss)"
  using assms
proof (induction ss arbitrary: q)
  case Nil
  then show ?case by simp
next
  case (Cons s ss)
  from Cons.prems append_ok[of q s] obtain q1 where
    q1: "append s q = Inr q1" "invar q1" "cont q1 = cont q @ s" "space q \<le> space q1 + length s"
    by auto
  with Cons.prems have "length (concat ss) < space q1" by simp
  from Cons.IH[OF q1(2) this] q1 show ?case by fastforce
qed

text \<open>What is read back after an append, in whatever pieces, is what was there, then what was
  appended.\<close>

lemma retrieve_retrieve:
  assumes "invar q" "m + n \<le> length (cont q)"
  shows "cont (retrieve n (retrieve m q)) = drop (m + n) (cont q)" "invar (retrieve n (retrieve m q))"
  using assms by (simp_all add: retrieve_cont retrieve_invar add.commute)

end

interpretation bq: byte_queue content buf_inv room Append_string Retrieve RetrieveAll
proof
  fix q :: buffer and s :: string assume "buf_inv q" "length s < room q"
  from Append_string_ok[OF \<open>buf_inv q\<close>, of s] \<open>length s < room q\<close>
  show "\<exists>q'. Append_string s q = Inr q' \<and> buf_inv q' \<and> content q' = content q @ s \<and>
          room q \<le> room q' + length s"
    by (force simp: room_def)
qed (simp_all add: Retrieve_ok RetrieveAll_ok length_content room_def)

section \<open>Socket input and output\<close>

lemma ReadFd_ok:
  assumes inv: "buf_inv b" and io: "readv (WritableBytes b + stack_buf_size) = IoOk dat"
    and fits: "length dat \<le> WritableBytes b + stack_buf_size"
    and big: "length (buffer b) + stack_buf_size + 1 < vec_max"
  shows "\<exists>b'. ReadFd readv b = Inr (int (length dat), None, b') \<and> buf_inv b' \<and>
           content b' = content b @ dat"
proof -
  let ?w = "WritableBytes b" and ?d0 = "take (WritableBytes b) dat"
  let ?v = "take (writePos b) (buffer b) @ ?d0 @ drop (writePos b + length ?d0) (buffer b)"
  let ?b1 = "b\<lparr>buffer := ?v\<rparr>"
  have w: "?w = length (buffer b) - writePos b" using inv by (rule buf_sizes)
  have fit0: "writePos b + length ?d0 \<le> length (buffer b)" using inv w by (auto simp: buf_inv_def)
  have lv: "length ?v = length (buffer b)" using fit0 by simp
  have mw: "mem_write (BeginWrite b) ?d0 (buffer b) = Inr ?v"
    using fit0 by (simp add: BeginWrite_def mem_simps)
  have pre: "slice (readPos b) (writePos b) ?v = content b"
    using inv by (simp add: slice_before content_def buf_inv_def)
  have seg: "slice (writePos b) (writePos b + length ?d0) ?v = ?d0"
    using fit0 by (rule slice_write)
  have cont: "slice (readPos b) (writePos b + length ?d0) ?v = content b @ ?d0"
    using slice_append[of "readPos b" "writePos b" "writePos b + length ?d0" ?v] pre seg inv
    by (simp add: buf_inv_def)
  show ?thesis
  proof (cases "length dat \<le> ?w")
    case True
    let ?b' = "?b1\<lparr>writePos := writePos b + length dat\<rparr>"
    have "size_add (writePos b) (length dat) = writePos b + length dat"
      using True inv w by (intro size_add_small) (auto simp: buf_inv_def vec_max_def)
    then have "ReadFd readv b = Inr (int (length dat), None, ?b')"
      using True io mw by (simp add: ReadFd_def Let_def)
    moreover have "buf_inv ?b'" using True inv w lv by (auto simp: buf_inv_def)
    moreover have "content ?b' = content b @ dat" using True cont by (simp add: content_def)
    ultimately show ?thesis by blast
  next
    case False
    let ?b2 = "?b1\<lparr>writePos := length (buffer b)\<rparr>" and ?d1 = "drop ?w dat"
    have d0: "length ?d0 = length (buffer b) - writePos b" using False w by simp
    have inv2: "buf_inv ?b2" using inv lv by (simp add: buf_inv_def)
    have "content ?b2 = slice (readPos b) (writePos b + length ?d0) ?v"
      using d0 inv by (simp add: content_def buf_inv_def)
    with cont have cont2: "content ?b2 = content b @ ?d0" by (rule trans[rotated])
    have "length ?d1 < room ?b2" using fits big by (simp add: room_def)
    from bq.append_ok[OF inv2 this] obtain b3 where
      b3: "Append_string ?d1 ?b2 = Inr b3" "buf_inv b3" "content b3 = content ?b2 @ ?d1" by blast
    then have "Append (Some ?d1) (length dat - ?w) ?b2 = Inr b3"
      by (simp add: Append_string_def)
    then have "ReadFd readv b = Inr (int (length dat), None, b3)"
      using False io mw lv by (simp add: ReadFd_def Let_def)
    with b3 cont2 show ?thesis by simp
  qed
qed

text \<open>How far the vector can grow.\<close>

lemma size_add_le: "size_add a b \<le> a + b"
  by (simp add: size_add_def)

lemma MakeSpace_length:
  assumes "MakeSpace len b = Inr b'"
  shows "length (buffer b') \<le> max (length (buffer b)) (writePos b + len + 1)"
proof -
  have "size_add (size_add (writePos b) len) 1 \<le> writePos b + len + 1"
    using size_add_le[of "size_add (writePos b) len" 1] size_add_le[of "writePos b" len] by linarith
  with assms show ?thesis
    by (auto simp: MakeSpace_def Let_def res_bind_Inr_iff vec_resize_def cxx_assert_def
        split: if_splits dest!: mem_length(2))
qed

lemma Append_length:
  assumes "Append p n b = Inr b'"
  shows "length (buffer b') \<le> max (length (buffer b)) (writePos b + n + 1)"
proof -
  from assms obtain b1 where "EnsureWriteable n b = Inr b1" "length (buffer b') = length (buffer b1)"
    by (auto simp: Append_def res_bind_Inr_iff mem_write_def HasWritten_def cxx_assert_def split: if_splits option.splits)
  moreover from this have "length (buffer b1) \<le> max (length (buffer b)) (writePos b + n + 1)"
    by (auto simp: EnsureWriteable_def res_bind_Inr_iff cxx_assert_def split: if_splits dest!: MakeSpace_length)
  ultimately show ?thesis by simp
qed

lemma ReadFd_length:
  assumes "ReadFd readv b = Inr (int (length dat), e, b')" "readv (WritableBytes b + stack_buf_size) = IoOk dat"
  shows "length (buffer b') \<le> length (buffer b) + 2 * length dat"
proof (cases "length dat \<le> WritableBytes b")
  case True
  with assms show ?thesis by (auto simp: ReadFd_def Let_def res_bind_Inr_iff mem_write_def split: if_splits)
next
  case False
  with assms obtain v where v: "mem_write (BeginWrite b) (take (WritableBytes b) dat) (buffer b) = Inr v"
    and a: "Append (Some (drop (WritableBytes b) dat)) (length dat - WritableBytes b)
      (b\<lparr>buffer := v, writePos := length v\<rparr>) = Inr b'"
    by (auto simp: ReadFd_def Let_def res_bind_Inr_iff split: if_splits)
  from Append_length[OF a] mem_length(1)[OF v] False show ?thesis by simp
qed

lemma WriteFd_ok:
  assumes "buf_inv b" and "write (content b) = IoOk n" and "n \<le> length (content b)"
  shows "WriteFd write b = Inr (int n, None, Retrieve n b)"
proof -
  have "mem_read (Peek b) (ReadableBytes b) (buffer b) = Inr (content b)"
    using assms(1) by (simp add: Peek_def buf_sizes buf_inv_def mem_simps content_def slice_def)
  with assms show ?thesis by (simp add: WriteFd_def)
qed

section \<open>Properties\<close>

text \<open>
  What users of a buffer do with it, in any order: append a string, raw bytes of which only the first \<open>n\<close> count, or the unread bytes of another
  buffer; read \<open>n\<close> bytes at \<^verbatim>\<open>Peek\<close> and retrieve them, by number or up to a pointer; take everything; drop everything after reading it.
  A step gives the bytes it read and the buffer after it.
\<close>

datatype buf_op = PutStr string | PutData string nat | PutBuf buffer | Take nat | TakeUntil nat | TakeAll | DropAll

definition put_result :: "buffer res \<Rightarrow> (string \<times> buffer) res" where
  "put_result r = res_bind r (\<lambda>b. Inr ([], b))"

fun buf_step :: "buf_op \<Rightarrow> buffer \<Rightarrow> (string \<times> buffer) res" where
  "buf_step (PutStr s) b = put_result (Append_string s b)"
| "buf_step (PutData s n) b = put_result (Append_data (Some s) n b)"
| "buf_step (PutBuf c) b = put_result (Append_buffer c b)"
| "buf_step (Take n) b = res_bind (mem_read (Peek b) n (buffer b)) (\<lambda>out. Inr (out, Retrieve n b))"
| "buf_step (TakeUntil n) b =
     res_bind (mem_read (Peek b) n (buffer b)) (\<lambda>out. res_bind (RetrieveUntil (Peek b + n) b) (\<lambda>b'. Inr (out, b')))"
| "buf_step TakeAll b = RetrieveAllToStr b"
| "buf_step DropAll b = res_bind (mem_read (Peek b) (ReadableBytes b) (buffer b)) (\<lambda>out. Inr (out, RetrieveAll b))"

fun buf_steps :: "buf_op list \<Rightarrow> buffer \<Rightarrow> (string \<times> buffer) res" where
  "buf_steps [] b = Inr ([], b)"
| "buf_steps (a # as) b =
     res_bind (buf_step a b) (\<lambda>(out, b1). res_bind (buf_steps as b1) (\<lambda>(outs, b2). Inr (out @ outs, b2)))"

text \<open>The same operations on a plain list of bytes: what they add, how many they take, and when they may be used.\<close>

fun added :: "buf_op \<Rightarrow> string" where
  "added (PutStr s) = s"
| "added (PutData s n) = take n s"
| "added (PutBuf c) = content c"
| "added _ = []"

fun taken :: "buf_op \<Rightarrow> nat \<Rightarrow> nat" where
  "taken (Take n) len = n"
| "taken (TakeUntil n) len = n"
| "taken TakeAll len = len"
| "taken DropAll len = len"
| "taken _ len = 0"

fun allowed :: "buf_op \<Rightarrow> nat \<Rightarrow> bool" where
  "allowed (PutData s n) len \<longleftrightarrow> n \<le> length s"
| "allowed (PutBuf c) len \<longleftrightarrow> buf_inv c"
| "allowed (Take n) len \<longleftrightarrow> n \<le> len"
| "allowed (TakeUntil n) len \<longleftrightarrow> n \<le> len"
| "allowed _ len \<longleftrightarrow> True"

fun all_allowed :: "buf_op list \<Rightarrow> nat \<Rightarrow> bool" where
  "all_allowed [] len \<longleftrightarrow> True"
| "all_allowed (a # as) len \<longleftrightarrow> allowed a len \<and> all_allowed as (len + length (added a) - taken a len)"

fun queue_steps :: "buf_op list \<Rightarrow> string \<Rightarrow> string \<times> string" where
  "queue_steps [] q = ([], q)"
| "queue_steps (a # as) q =
     (let n = taken a (length q); (outs, q') = queue_steps as (drop n q @ added a) in (take n q @ outs, q'))"

lemma Append_take: "n \<le> length s \<Longrightarrow> Append (Some s) n b = Append_string (take n s) b"
  by (simp add: Append_def Append_string_def mem_simps slice_def min_def)

lemma Append_buffer_content:
  assumes "buf_inv c"
  shows "Append_buffer c b = Append_string (content c) b"
proof -
  have "ReadableBytes c \<le> length (drop (Peek c) (buffer c))"
    using assms by (auto simp: buf_sizes[OF assms] Peek_def buf_inv_def)
  from Append_take[OF this, of b] show ?thesis
    by (simp add: Append_buffer_def buf_sizes[OF assms] Peek_def content_def slice_def)
qed

lemma read_front:
  assumes "buf_inv b" "n \<le> length (content b)"
  shows "mem_read (Peek b) n (buffer b) = Inr (take n (content b))"
proof -
  have "n \<le> writePos b - readPos b" "readPos b + n \<le> length (buffer b)"
    using assms by (auto simp: length_content buf_sizes buf_inv_def)
  then show ?thesis by (simp add: mem_simps Peek_def content_def slice_def min_def)
qed

lemma buf_step_ok:
  assumes "buf_inv b" "allowed a (length (content b))" "length (added a) < room b"
  shows "\<exists>b'. buf_step a b = Inr (take (taken a (length (content b))) (content b), b') \<and> buf_inv b' \<and>
    content b' = drop (taken a (length (content b))) (content b) @ added a \<and> room b \<le> room b' + length (added a)"
proof (cases a)
  case (PutStr s)
  with bq.append_ok[OF assms(1), of s] assms(3) show ?thesis by (auto simp: put_result_def)
next
  case (PutData s n)
  with bq.append_ok[OF assms(1), of "take n s"] assms(2,3) show ?thesis
    by (auto simp: put_result_def Append_data_def Append_take)
next
  case (PutBuf c)
  with bq.append_ok[OF assms(1), of "content c"] assms(2,3) show ?thesis
    by (auto simp: put_result_def Append_buffer_content)
next
  case (Take n)
  with assms read_front[OF assms(1), of n] show ?thesis
    by (simp add: bq.retrieve_cont bq.retrieve_invar bq.retrieve_space)
next
  case (TakeUntil n)
  with assms read_front[OF assms(1), of n] show ?thesis
    by (simp add: RetrieveUntil_ok bq.retrieve_cont bq.retrieve_invar bq.retrieve_space)
next
  case TakeAll
  with assms(1) show ?thesis by (simp add: RetrieveAllToStr_ok bq.clear_cont bq.clear_invar bq.clear_space)
next
  case DropAll
  with assms(1) read_front[OF assms(1) order_refl] show ?thesis
    by (simp add: length_content bq.clear_cont bq.clear_invar bq.clear_space)
qed

lemma taken_le: "allowed a len \<Longrightarrow> taken a len \<le> len"
  by (cases a) auto

lemma queue_conserves:
  assumes "all_allowed as (length q)" "queue_steps as q = (outs, q')"
  shows "outs @ q' = q @ concat (map added as)"
  using assms
proof (induction as arbitrary: q outs q')
  case (Cons a as)
  let ?n = "taken a (length q)"
  obtain os where o: "queue_steps as (drop ?n q @ added a) = (os, q')" "outs = take ?n q @ os"
    using Cons.prems(2) by (auto simp: Let_def split: prod.splits)
  have "?n \<le> length q" using Cons.prems(1) taken_le by simp
  with Cons.prems(1) have "all_allowed as (length (drop ?n q @ added a))" by simp
  from Cons.IH[OF this o(1)] o(2) show ?case by simp
qed simp

lemma buf_steps_refine:
  assumes "buf_inv b" "all_allowed as (length (content b))" "length (concat (map added as)) < room b"
  shows "\<exists>outs b'. buf_steps as b = Inr (outs, b') \<and> buf_inv b' \<and> queue_steps as (content b) = (outs, content b')"
  using assms
proof (induction as arbitrary: b)
  case (Cons a as)
  let ?n = "taken a (length (content b))"
  from Cons.prems buf_step_ok[OF Cons.prems(1), of a] obtain b1 where
    b1: "buf_step a b = Inr (take ?n (content b), b1)" "buf_inv b1" "content b1 = drop ?n (content b) @ added a"
      "room b \<le> room b1 + length (added a)" by auto
  have "?n \<le> length (content b)" using Cons.prems(2) taken_le by simp
  then have "all_allowed as (length (content b1))" using b1(3) Cons.prems(2) by simp
  moreover have "length (concat (map added as)) < room b1" using b1(4) Cons.prems(3) by simp
  ultimately obtain outs b' where "buf_steps as b1 = Inr (outs, b')" "buf_inv b'" "queue_steps as (content b1) = (outs, content b')"
    using Cons.IH[OF b1(2)] by blast
  with b1 show ?case by (simp add: Let_def)
qed simp

text \<open>C14: A buffer is a first-in first-out queue of bytes. For any sequence of operations - appending strings, raw bytes and the unread
  bytes of another buffer, reading and retrieving any number of the unread bytes (by number or up to a pointer), taking or dropping
  everything - on a consistent buffer, in which no operation retrieves more than is readable and the appended bytes fit in the largest vector: no operation
  fails, the buffer stays consistent, each operation reads and leaves exactly the bytes that the same operation reads and leaves on a plain list of bytes, and
  so the bytes read, followed by those still unread, are the initially unread bytes followed by the appended ones,
  whether the code grew the vector, moved the data to the front or used the free space.\<close>

theorem Buffer_fifo:
  assumes "buf_inv b" "all_allowed as (length (content b))" "length (concat (map added as)) < room b"
  shows "\<exists>outs b'. buf_steps as b = Inr (outs, b') \<and> buf_inv b' \<and> queue_steps as (content b) = (outs, content b') \<and>
    outs @ content b' = content b @ concat (map added as)"
  using buf_steps_refine[OF assms] queue_conserves[OF assms(2)] by blast

definition small_buffer :: buffer where
  "small_buffer = \<lparr>buffer = ''xyab'', readPos = 2, writePos = 4\<rparr>"

lemma small_buffer_inv: "buf_inv small_buffer" and small_buffer_content: "content small_buffer = ''ab''"
  by (simp_all add: small_buffer_def buf_inv_def vec_max_def content_def slice_def)

theorem Buffer_fifo_witness:
  "\<exists>b'. buf_steps [PutStr ''cd'', Take 3, PutBuf small_buffer, TakeUntil 2, PutData ''efg'' 2] small_buffer = Inr (''abcda'', b') \<and>
     content b' = ''bef''"
proof -
  let ?as = "[PutStr ''cd'', Take 3, PutBuf small_buffer, TakeUntil 2, PutData ''efg'' 2]"
  have "length (concat (map added ?as)) < room small_buffer"
    by (simp add: small_buffer_content) (simp add: room_def vec_max_def small_buffer_def)
  from Buffer_fifo[OF small_buffer_inv _ this] show ?thesis
    by (auto simp: small_buffer_content small_buffer_inv Let_def)
qed

text \<open>A scatter read from a socket appends exactly the bytes the kernel delivered, in order and
  none lost, whether they fit in the buffer's free space or spill over into the stack area; the
  returned length is their number and the buffer stays consistent.\<close>

theorem ReadFd_appends:
  assumes "buf_inv b" "readv (WritableBytes b + stack_buf_size) = IoOk dat"
    and "length dat \<le> WritableBytes b + stack_buf_size"
    and "length (buffer b) + stack_buf_size + 1 < vec_max"
  shows "\<exists>b'. ReadFd readv b = Inr (int (length dat), None, b') \<and> buf_inv b' \<and>
           content b' = content b @ dat"
  using assms by (rule ReadFd_ok)

theorem ReadFd_appends_witness:
  "\<exists>b'. ReadFd (\<lambda>_. IoOk ''GET /'') small_buffer = Inr (int (length ''GET /''), None, b') \<and> buf_inv b' \<and>
     content b' = content small_buffer @ ''GET /''"
  by (rule ReadFd_appends)
    (simp_all add: small_buffer_inv, simp_all add: small_buffer_def stack_buf_size_def vec_max_def)

text \<open>A read position past the write position makes \<^verbatim>\<open>ReadableBytes\<close> wrap around to a huge
  value instead of going negative: nothing in \<^verbatim>\<open>Retrieve\<close> prevents it, so the bound on its
  argument is the caller's obligation.\<close>

theorem Retrieve_too_far_wraps:
  assumes "buf_inv b" "ReadableBytes b < n" "n < 2 ^ 63"
  shows "ReadableBytes (Retrieve n b) = 2 ^ 64 - (n - ReadableBytes b)"
proof -
  from assms have le: "readPos b \<le> writePos b" "writePos b < 2 ^ 63" "writePos b - readPos b < n"
    by (auto simp: buf_sizes buf_inv_def vec_max_def)
  then have "size_add (readPos b) n = readPos b + n" using assms(3) by (intro size_add_small) simp
  moreover have "size_sub (writePos b) (readPos b + n) = 2 ^ 64 - (readPos b + n - writePos b)"
    using le assms(3) by (intro size_sub_wraps) auto
  ultimately have "ReadableBytes (Retrieve n b) = 2 ^ 64 - (readPos b + n - writePos b)"
    by (simp add: ReadableBytes_def Retrieve_def)
  moreover have "ReadableBytes b = writePos b - readPos b" by (rule buf_sizes(2)[OF assms(1)])
  ultimately show ?thesis using le by simp
qed

theorem Retrieve_too_far_wraps_witness:
  "ReadableBytes (Retrieve 3 small_buffer) = 2 ^ 64 - (3 - ReadableBytes small_buffer) \<and>
   ReadableBytes small_buffer = 2"
proof -
  have r: "ReadableBytes small_buffer = 2"
    by (simp add: length_content[OF small_buffer_inv, symmetric] small_buffer_content)
  with Retrieve_too_far_wraps[OF small_buffer_inv, of 3] show ?thesis by simp
qed

end
