(* ===== verification/TW_HttpRequest.thy ===== *)
theory TW_HttpRequest
  imports TW_Buffer
begin

text \<open>
  The request parser of \<^verbatim>\<open>src/http/httprequest.cpp\<close>: the line-oriented state machine
  over the read buffer, the two regular expressions it matches lines against, the decoder
  of url-encoded form bodies and the user check against the database. The MySQL client
  library is the parameter \<open>db_api\<close>, with the state of the database threaded through it.
  \<open>parse_str\<close> is the same parser on a plain byte string; \<open>parse_loop_refines\<close> shows that
  the parser over the buffer computes exactly that on the buffer's content.
\<close>

section \<open>Data\<close>

datatype PARSE_STATE = REQUEST_LINE | HEADERS | BODY | FINISH

record HttpRequest =
  rq_state :: PARSE_STATE
  rq_method :: string
  rq_path :: string
  rq_version :: string
  rq_body :: string
  rq_header :: "string \<rightharpoonup> string"
  rq_post :: "string \<rightharpoonup> string"

definition DEFAULT_HTML :: "string list" where
  "DEFAULT_HTML = [''/index'', ''/register'', ''/login'', ''/welcome'', ''/video'', ''/picture'']"

definition DEFAULT_HTML_TAG :: "string \<rightharpoonup> int" where
  "DEFAULT_HTML_TAG = [''/login.html'' \<mapsto> 1, ''/register.html'' \<mapsto> 0]"

definition Request_Init :: HttpRequest where
  "Request_Init = \<lparr>rq_state = REQUEST_LINE, rq_method = [], rq_path = [], rq_version = [],
     rq_body = [], rq_header = Map.empty, rq_post = Map.empty\<rparr>"

section \<open>Request line, path and header lines\<close>

text \<open>
  \<^verbatim>\<open>regex_match\<close> of the whole line with \<^verbatim>\<open>^([^ ]*) ([^ ]*) HTTP/([^ ]*)$\<close>: the three
  groups hold no space, so each ends at the next one.
\<close>

definition match_request_line :: "string \<Rightarrow> (string \<times> string \<times> string) option" where
  "match_request_line line =
     (let nonsp = (\<lambda>c. c \<noteq> CHR '' '') in
      case dropWhile nonsp line of
        [] \<Rightarrow> None
      | _ # r1 \<Rightarrow>
          (case dropWhile nonsp r1 of
             [] \<Rightarrow> None
           | _ # r2 \<Rightarrow>
               if take 5 r2 = ''HTTP/'' \<and> list_all nonsp (drop 5 r2)
               then Some (takeWhile nonsp line, takeWhile nonsp r1, drop 5 r2) else None))"

definition ParseRequestLine :: "string \<Rightarrow> HttpRequest \<Rightarrow> bool \<times> HttpRequest" where
  "ParseRequestLine line rq =
     (case match_request_line line of
        Some (m, p, v) \<Rightarrow>
          (True, rq\<lparr>rq_method := m, rq_path := p, rq_version := v, rq_state := HEADERS\<rparr>)
      | None \<Rightarrow> (False, rq))"

definition ParsePath :: "HttpRequest \<Rightarrow> HttpRequest" where
  "ParsePath rq =
     (if rq_path rq = ''/'' then rq\<lparr>rq_path := ''/index.html''\<rparr>
      else if rq_path rq \<in> set DEFAULT_HTML then rq\<lparr>rq_path := rq_path rq @ ''.html''\<rparr>
      else rq)"

text \<open>
  \<^verbatim>\<open>regex_match\<close> of the whole line with \<^verbatim>\<open>^([^:]*): ?(.*)$\<close>: the first group ends at
  the first colon, one space after it is skipped, and \<^verbatim>\<open>.\<close> matches neither CR nor LF.
\<close>

definition match_header_line :: "string \<Rightarrow> (string \<times> string) option" where
  "match_header_line line =
     (case dropWhile (\<lambda>c. c \<noteq> CHR '':'') line of
        [] \<Rightarrow> None
      | _ # r \<Rightarrow>
          if list_all (\<lambda>c. c \<noteq> CHR 0x0A \<and> c \<noteq> CHR 0x0D) r
          then Some (takeWhile (\<lambda>c. c \<noteq> CHR '':'') line,
                     (if r \<noteq> [] \<and> hd r = CHR '' '' then tl r else r))
          else None)"

definition ParseHeader :: "string \<Rightarrow> HttpRequest \<Rightarrow> HttpRequest" where
  "ParseHeader line rq =
     (case match_header_line line of
        Some (k, v) \<Rightarrow> rq\<lparr>rq_header := (rq_header rq)(k \<mapsto> v)\<rparr>
      | None \<Rightarrow> rq\<lparr>rq_state := BODY\<rparr>)"

section \<open>Form bodies\<close>

definition ConverHex :: "char \<Rightarrow> int" where
  "ConverHex ch =
     (let v = char_to_int ch in
      if 65 \<le> v \<and> v \<le> 70 then v - 65 + 10
      else if 97 \<le> v \<and> v \<le> 102 then v - 97 + 10
      else v)"

text \<open>
  The loop of \<^verbatim>\<open>ParseFromUrlencoded_\<close>: \<open>n\<close> is the body's size as an \<^verbatim>\<open>int\<close>, \<open>i\<close> the
  position, \<open>j\<close> the start of the current field. A percent sign reads and writes the two
  positions after it; the write is out of bounds when they are not both inside the string.
\<close>

function urlenc_loop ::
  "int \<Rightarrow> string \<Rightarrow> nat \<Rightarrow> nat \<Rightarrow> string \<Rightarrow> (string \<rightharpoonup> string) \<Rightarrow>
   (string \<times> nat \<times> nat \<times> string \<times> (string \<rightharpoonup> string)) res"
where
  "urlenc_loop n body i j key post =
     (if int i < n then
        (if length body \<le> i then Inl OutOfBounds
         else let ch = body ! i in
         if ch = CHR ''='' then urlenc_loop n body (i + 1) (i + 1) (slice j i body) post
         else if ch = CHR ''+'' then urlenc_loop n (body[i := CHR '' '']) (i + 1) j key post
         else if ch = CHR ''%'' then
           (if i + 2 < length body then
              let num = ConverHex (body ! (i + 1)) * 16 + ConverHex (body ! (i + 2));
                  body' = body[i + 2 := int_to_char (c_mod num 10 + 48),
                               i + 1 := int_to_char (c_div num 10 + 48)]
              in urlenc_loop n body' (i + 3) j key post
            else Inl OutOfBounds)
         else if ch = CHR ''&'' then
           urlenc_loop n body (i + 1) (i + 1) key (post(key \<mapsto> slice j i body))
         else urlenc_loop n body (i + 1) j key post)
      else Inr (body, i, j, key, post))"
  by pat_completeness auto
termination
  by (relation "measure (\<lambda>(n, body, i, j, key, post). nat n - i)") auto

declare urlenc_loop.simps [simp del]

definition ParseFromUrlencoded :: "HttpRequest \<Rightarrow> HttpRequest res" where
  "ParseFromUrlencoded rq =
     (if rq_body rq = [] then Inr rq
      else res_bind (urlenc_loop (size_to_int (length (rq_body rq))) (rq_body rq) 0 0 [] (rq_post rq))
        (\<lambda>(body, i, j, key, post).
           res_bind (cxx_assert (j \<le> i)) (\<lambda>_.
             let post' = (if post key = None \<and> j < i then post(key \<mapsto> slice j i body) else post)
             in Inr (rq\<lparr>rq_body := body, rq_post := post'\<rparr>))))"

section \<open>The user check\<close>

text \<open>
  The MySQL client: whether a connection was obtained, the return code of
  \<^verbatim>\<open>mysql_query\<close>, and the rows (two columns each) of \<^verbatim>\<open>mysql_use_result\<close>, \<open>None\<close> for a
  null result. \<open>'d\<close> is the state of connection and database.
\<close>

record 'd db_api =
  db_conn :: "'d \<Rightarrow> bool"
  mysql_query :: "'d \<Rightarrow> string \<Rightarrow> int \<times> 'd"
  mysql_use_result :: "'d \<Rightarrow> (string \<times> string) list option \<times> 'd"

definition Connection_Update :: "'d db_api \<Rightarrow> string \<Rightarrow> 'd \<Rightarrow> bool \<times> 'd" where
  "Connection_Update api sql d =
     (case mysql_query api d (c_str sql) of (rc, d') \<Rightarrow> if rc \<noteq> 0 then (False, d') else (True, d'))"

definition Connection_Query :: "'d db_api \<Rightarrow> string \<Rightarrow> 'd \<Rightarrow> (string \<times> string) list option \<times> 'd" where
  "Connection_Query api sql d =
     (case mysql_query api d (c_str sql) of
        (rc, d') \<Rightarrow> if rc \<noteq> 0 then (None, d') else mysql_use_result api d')"

abbreviation (input) quote :: string where
  "quote \<equiv> [CHR 0x27]"

definition select_sql :: "string \<Rightarrow> string" where
  "select_sql name = snprintf 256
     (''SELECT username, password FROM user WHERE username='' @ quote @ c_str name @ quote @ '' LIMIT 1'')"

definition insert_sql :: "string \<Rightarrow> string \<Rightarrow> string" where
  "insert_sql name pwd = snprintf 256
     (''INSERT INTO user(username, password) VALUES('' @ quote @ c_str name @ quote @ '','' @
      quote @ c_str pwd @ quote @ '')'')"

definition check_rows :: "bool \<Rightarrow> string \<Rightarrow> (string \<times> string) list \<Rightarrow> bool \<Rightarrow> bool" where
  "check_rows isLogin pwd rows flag =
     foldl (\<lambda>flag (user, password). if isLogin then pwd = password else False) flag rows"

definition UserVerify :: "'d db_api \<Rightarrow> string \<Rightarrow> string \<Rightarrow> bool \<Rightarrow> 'd \<Rightarrow> bool \<times> 'd" where
  "UserVerify api name pwd isLogin d =
     (if name = [] \<or> pwd = [] then (False, d)
      else if \<not> db_conn api d then (False, d)
      else
        case Connection_Query api (select_sql name) d of
          (None, d1) \<Rightarrow> (False, d1)
        | (Some rows, d1) \<Rightarrow>
            let flag = check_rows isLogin pwd rows (\<not> isLogin) in
            if \<not> isLogin \<and> flag
            then (case Connection_Update api (insert_sql name pwd) d1 of (ok, d2) \<Rightarrow>
                    let flag1 = (if \<not> ok then False else flag); flag2 = True in (flag2, d2))
            else (flag, d1))"

text \<open>\<^verbatim>\<open>operator[]\<close> of the hash maps inserts an empty value for a key that is not there.\<close>

definition map_index :: "string \<Rightarrow> (string \<rightharpoonup> string) \<Rightarrow> string \<times> (string \<rightharpoonup> string)" where
  "map_index k m = (case m k of Some v \<Rightarrow> (v, m) | None \<Rightarrow> ([], m(k \<mapsto> [])))"

definition ParsePost :: "'d db_api \<Rightarrow> HttpRequest \<Rightarrow> 'd \<Rightarrow> (HttpRequest \<times> 'd) res" where
  "ParsePost api rq d =
     (if rq_method rq \<noteq> ''POST'' then Inr (rq, d)
      else
        let (ct, hdr) = map_index ''Content-Type'' (rq_header rq); rq1 = rq\<lparr>rq_header := hdr\<rparr> in
        if ct \<noteq> ''application/x-www-form-urlencoded'' then Inr (rq1, d)
        else res_bind (ParseFromUrlencoded rq1) (\<lambda>rq2.
          case DEFAULT_HTML_TAG (rq_path rq2) of
            None \<Rightarrow> Inr (rq2, d)
          | Some tag \<Rightarrow>
              if tag = 0 \<or> tag = 1 then
                let isLogin = (tag = 1);
                    (user, post1) = map_index ''username'' (rq_post rq2);
                    (pwd, post2) = map_index ''password'' post1;
                    (ok, d') = UserVerify api user pwd isLogin d;
                    rq3 = rq2\<lparr>rq_post := post2\<rparr>
                in Inr (rq3\<lparr>rq_path := (if ok then ''/welcome.html'' else ''/error.html'')\<rparr>, d')
              else Inr (rq2, d)))"

definition ParseBody :: "'d db_api \<Rightarrow> string \<Rightarrow> HttpRequest \<Rightarrow> 'd \<Rightarrow> (HttpRequest \<times> 'd) res" where
  "ParseBody api line rq d =
     res_bind (ParsePost api (rq\<lparr>rq_body := line\<rparr>) d) (\<lambda>(rq', d'). Inr (rq'\<lparr>rq_state := FINISH\<rparr>, d'))"

section \<open>The parser\<close>

text \<open>
  One turn of the loop on the line in front, the \<^verbatim>\<open>switch\<close> on the state; \<open>readable\<close> is
  what \<^verbatim>\<open>ReadableBytes\<close> returns at that point. \<open>False\<close> means \<^verbatim>\<open>return false\<close>.
\<close>

definition parse_line ::
  "'d db_api \<Rightarrow> nat \<Rightarrow> string \<Rightarrow> HttpRequest \<Rightarrow> 'd \<Rightarrow> (bool \<times> HttpRequest \<times> 'd) res" where
  "parse_line api readable line rq d =
     (case rq_state rq of
        REQUEST_LINE \<Rightarrow>
          (case ParseRequestLine line rq of
             (False, rq') \<Rightarrow> Inr (False, rq', d)
           | (True, rq') \<Rightarrow> Inr (True, ParsePath rq', d))
      | HEADERS \<Rightarrow>
          let rq' = ParseHeader line rq in
          Inr (True, (if readable \<le> 2 then rq'\<lparr>rq_state := FINISH\<rparr> else rq'), d)
      | BODY \<Rightarrow> res_bind (ParseBody api line rq d) (\<lambda>(rq', d'). Inr (True, rq', d'))
      | FINISH \<Rightarrow> Inr (True, rq, d))"

lemma Readable_Retrieve: "n \<le> ReadableBytes b \<Longrightarrow> ReadableBytes (Retrieve n b) = ReadableBytes b - n"
  by (simp add: ReadableBytes_def Retrieve_def size_sub_add)

lemma RetrieveUntil_Readable:
  "RetrieveUntil (Peek b + n) b = Inr b' \<Longrightarrow> n \<le> ReadableBytes b \<Longrightarrow>
   ReadableBytes b' = ReadableBytes b - n"
  by (auto simp: RetrieveUntil_def Readable_Retrieve)

function parse_loop ::
  "'d db_api \<Rightarrow> HttpRequest \<Rightarrow> buffer \<Rightarrow> 'd \<Rightarrow> (bool \<times> HttpRequest \<times> buffer \<times> 'd) res"
where
  "parse_loop api rq b d =
     (if ReadableBytes b \<noteq> 0 \<and> rq_state rq \<noteq> FINISH then
        res_bind (mem_read (Peek b) (ReadableBytes b) (buffer b)) (\<lambda>bytes.
          case find_crlf bytes of
            None \<Rightarrow>
              res_bind (parse_line api (ReadableBytes b) bytes rq d) (\<lambda>(ok, rq', d').
                Inr (ok, rq', (if ok then RetrieveAll b else b), d'))
          | Some k \<Rightarrow>
              res_bind (parse_line api (ReadableBytes b) (take k bytes) rq d) (\<lambda>(ok, rq', d').
                if ok
                then res_bind (RetrieveUntil (Peek b + (k + 2)) b) (\<lambda>b'. parse_loop api rq' b' d')
                else Inr (False, rq', b, d')))
      else Inr (True, rq, b, d))"
  by pat_completeness auto
termination
proof (relation "measure (\<lambda>(api, rq, b, d). ReadableBytes b)", goal_cases)
  case 1
  show ?case by simp
next
  case (2 api rq b d bytes k ret ok rq'd rq' d' b')
  from 2 have "length bytes = ReadableBytes b"
    by (auto simp: mem_read_def split: if_splits)
  with 2 find_crlf_bound[of bytes k] have "k + 2 \<le> ReadableBytes b" by simp
  with 2 have "ReadableBytes b' = ReadableBytes b - (k + 2)"
    by (intro RetrieveUntil_Readable) auto
  with \<open>k + 2 \<le> ReadableBytes b\<close> show ?case by simp
qed

declare parse_loop.simps [simp del]

definition parse ::
  "'d db_api \<Rightarrow> HttpRequest \<Rightarrow> buffer \<Rightarrow> 'd \<Rightarrow> (bool \<times> HttpRequest \<times> buffer \<times> 'd) res" where
  "parse api rq b d = (if ReadableBytes b = 0 then Inr (False, rq, b, d) else parse_loop api rq b d)"

definition GetPost :: "string \<Rightarrow> HttpRequest \<Rightarrow> string res" where
  "GetPost key rq =
     res_bind (cxx_assert (key \<noteq> [])) (\<lambda>_.
       Inr (case rq_post rq key of Some v \<Rightarrow> v | None \<Rightarrow> []))"

definition GetPost_cstr :: "string option \<Rightarrow> HttpRequest \<Rightarrow> string res" where
  "GetPost_cstr key rq =
     (case key of
        None \<Rightarrow> Inl AssertFailed
      | Some k \<Rightarrow> Inr (case rq_post rq (c_str k) of Some v \<Rightarrow> v | None \<Rightarrow> []))"

definition IsKeepAlive :: "HttpRequest \<Rightarrow> bool" where
  "IsKeepAlive rq =
     (case rq_header rq ''Connection'' of
        Some v \<Rightarrow> v = ''keep-alive'' \<and> rq_version rq = ''1.1''
      | None \<Rightarrow> False)"

section \<open>What the line patterns accept\<close>

lemma dropWhile_neq_split:
  "dropWhile (\<lambda>c. c \<noteq> x) s = y # r \<Longrightarrow> s = takeWhile (\<lambda>c. c \<noteq> x) s @ x # r \<and> y = x"
  using hd_dropWhile[of "\<lambda>c. c \<noteq> x" s] takeWhile_dropWhile_id[of "\<lambda>c. c \<noteq> x" s] by fastforce

lemma takeWhile_neq_append:
  assumes "x \<notin> set l"
  shows "takeWhile (\<lambda>c. c \<noteq> x) (l @ x # r) = l" "dropWhile (\<lambda>c. c \<noteq> x) (l @ x # r) = x # r"
proof -
  have "\<And>c. c \<in> set l \<Longrightarrow> c \<noteq> x" using assms by auto
  then show "takeWhile (\<lambda>c. c \<noteq> x) (l @ x # r) = l" "dropWhile (\<lambda>c. c \<noteq> x) (l @ x # r) = x # r"
    by (simp_all add: takeWhile_append2 dropWhile_append2)
qed

lemma notin_takeWhile_neq: "x \<notin> set (takeWhile (\<lambda>c. c \<noteq> x) s)"
  by (auto dest: set_takeWhileD)

lemma match_request_line_iff:
  "match_request_line line = Some (m, p, v) \<longleftrightarrow>
     line = m @ '' '' @ p @ '' HTTP/'' @ v \<and> CHR '' '' \<notin> set m \<and> CHR '' '' \<notin> set p \<and> CHR '' '' \<notin> set v"
  (is "?L \<longleftrightarrow> ?R")
proof
  let ?ns = "\<lambda>c. c \<noteq> CHR '' ''"
  assume ?L
  then obtain a r1 b r2 where
    r1: "dropWhile ?ns line = a # r1" and r2: "dropWhile ?ns r1 = b # r2"
    and h: "take 5 r2 = ''HTTP/''" "list_all ?ns (drop 5 r2)"
    and eq: "m = takeWhile ?ns line" "p = takeWhile ?ns r1" "v = drop 5 r2"
    by (auto simp: match_request_line_def Let_def split: list.splits if_splits)
  have r2v: "r2 = ''HTTP/'' @ v" using h(1) eq(3) append_take_drop_id[of 5 r2] by simp
  have l1: "line = m @ CHR '' '' # r1" unfolding eq(1) using dropWhile_neq_split[OF r1] by (rule conjunct1)
  have l2: "r1 = p @ CHR '' '' # r2" unfolding eq(2) using dropWhile_neq_split[OF r2] by (rule conjunct1)
  have "line = m @ '' '' @ p @ '' HTTP/'' @ v" unfolding l1 l2 r2v by simp
  moreover have "CHR '' '' \<notin> set v" using h(2) eq(3) by (auto simp: list_all_iff)
  moreover have "CHR '' '' \<notin> set m" "CHR '' '' \<notin> set p"
    unfolding eq(1,2) by (rule notin_takeWhile_neq)+
  ultimately show ?R by blast
next
  assume R: ?R
  then have "list_all (\<lambda>c. c \<noteq> CHR '' '') v" by (auto simp: list_all_iff)
  with R takeWhile_neq_append[of "CHR '' ''" m "p @ '' HTTP/'' @ v"]
    takeWhile_neq_append[of "CHR '' ''" p "''HTTP/'' @ v"]
  show ?L by (simp add: match_request_line_def)
qed

lemma match_header_line_colon:
  assumes "CHR '':'' \<notin> set k" "CHR 0x0A \<notin> set v" "CHR 0x0D \<notin> set v"
  shows "match_header_line (k @ '': '' @ v) = Some (k, v)"
proof -
  have "list_all (\<lambda>c. c \<noteq> CHR 0x0A \<and> c \<noteq> CHR 0x0D) (CHR '' '' # v)"
    using assms by (auto simp: list_all_iff)
  with takeWhile_neq_append[OF assms(1), of "'' '' @ v"] show ?thesis
    by (simp add: match_header_line_def)
qed

lemma match_header_line_no_colon: "CHR '':'' \<notin> set line \<Longrightarrow> match_header_line line = None"
proof -
  assume "CHR '':'' \<notin> set line"
  then have "dropWhile (\<lambda>c. c \<noteq> CHR '':'') line = []" by (auto simp: dropWhile_eq_Nil_conv)
  then show ?thesis by (simp only: match_header_line_def list.case)
qed

section \<open>The parser on byte strings\<close>

function parse_str ::
  "'d db_api \<Rightarrow> HttpRequest \<Rightarrow> string \<Rightarrow> 'd \<Rightarrow> (bool \<times> HttpRequest \<times> string \<times> 'd) res"
where
  "parse_str api rq s d =
     (if s \<noteq> [] \<and> rq_state rq \<noteq> FINISH then
        (case find_crlf s of
           None \<Rightarrow>
             res_bind (parse_line api (length s) s rq d) (\<lambda>(ok, rq', d').
               Inr (ok, rq', (if ok then [] else s), d'))
         | Some k \<Rightarrow>
             res_bind (parse_line api (length s) (take k s) rq d) (\<lambda>(ok, rq', d').
               if ok then parse_str api rq' (drop (k + 2) s) d' else Inr (False, rq', s, d')))
      else Inr (True, rq, s, d))"
  by pat_completeness auto
termination
  by (relation "measure (\<lambda>(api, rq, s, d). length s)") auto

declare parse_str.simps [simp del]

lemma parse_loop_stop:
  "\<not> (ReadableBytes b \<noteq> 0 \<and> rq_state rq \<noteq> FINISH) \<Longrightarrow> parse_loop api rq b d = Inr (True, rq, b, d)"
  by (subst parse_loop.simps) (rule if_not_P)

lemmas parse_loop_go = trans[OF parse_loop.simps if_P]

lemma parse_str_stop:
  "\<not> (s \<noteq> [] \<and> rq_state rq \<noteq> FINISH) \<Longrightarrow> parse_str api rq s d = Inr (True, rq, s, d)"
  by (subst parse_str.simps) (rule if_not_P)

lemmas parse_str_go = trans[OF parse_str.simps if_P]

text \<open>How a run over the buffer corresponds to a run over its content.\<close>

definition loop_refines ::
  "(bool \<times> HttpRequest \<times> buffer \<times> 'd) res \<Rightarrow> (bool \<times> HttpRequest \<times> string \<times> 'd) res \<Rightarrow> bool" where
  "loop_refines c a \<longleftrightarrow>
     (case a of
        Inl e \<Rightarrow> c = Inl e
      | Inr (ok, rq, rest, d) \<Rightarrow>
          \<exists>b. c = Inr (ok, rq, b, d) \<and> buf_inv b \<and> content b = rest)"

lemma mem_read_content:
  "buf_inv b \<Longrightarrow> mem_read (Peek b) (ReadableBytes b) (buffer b) = Inr (content b)"
  by (simp add: Peek_def buf_sizes buf_inv_def mem_simps content_def slice_def)

lemma parse_loop_refines:
  "buf_inv b \<Longrightarrow> loop_refines (parse_loop api rq b d) (parse_str api rq (content b) d)"
proof (induction "length (content b)" arbitrary: rq b d rule: less_induct)
  case less
  note inv = less.prems
  note len = length_content[OF inv, symmetric]
  show ?case
  proof (cases "content b \<noteq> [] \<and> rq_state rq \<noteq> FINISH")
    case False
    then have "\<not> (ReadableBytes b \<noteq> 0 \<and> rq_state rq \<noteq> FINISH)" by (simp add: len)
    with False inv show ?thesis
      by (simp add: loop_refines_def parse_loop_stop parse_str_stop del: de_Morgan_conj)
  next
    case True
    then have "ReadableBytes b \<noteq> 0 \<and> rq_state rq \<noteq> FINISH" by (simp add: len)
    note unf = parse_loop_go[OF this] parse_str_go[OF True] mem_read_content[OF inv, unfolded len] len
    show ?thesis
    proof (cases "find_crlf (content b)")
      case None
      then show ?thesis
        using inv RetrieveAll_ok[OF inv]
        by (cases "parse_line api (length (content b)) (content b) rq d")
          (auto simp: loop_refines_def unf)
    next
      case (Some k)
      have k: "k + 2 \<le> length (content b)" using Some by (rule find_crlf_bound)
      then have k': "k + 2 \<le> ReadableBytes b" by (simp add: len)
      let ?b' = "Retrieve (k + 2) b"
      have b': "buf_inv ?b'" "content ?b' = drop (k + 2) (content b)"
        using Retrieve_ok[OF inv k'] by auto
      have "length (content ?b') < length (content b)" using b'(2) k by simp
      note IH = less.hyps[OF this b'(1), unfolded b'(2)]
      have ru: "RetrieveUntil (Peek b + (k + 2)) b = Inr ?b'" by (rule RetrieveUntil_ok)
      show ?thesis
      proof (cases "parse_line api (length (content b)) (take k (content b)) rq d")
        case (Inl e)
        with Some show ?thesis by (simp add: loop_refines_def unf)
      next
        case (Inr r)
        obtain ok rq' d' where r: "r = (ok, rq', d')" by (cases r) auto
        show ?thesis
        proof (cases ok)
          case True
          have "parse_loop api rq b d = parse_loop api rq' ?b' d'"
            unfolding unf(1) using Some Inr r True ru by (simp add: unf(3-))
          moreover have "parse_str api rq (content b) d = parse_str api rq' (drop (k + 2) (content b)) d'"
            unfolding unf(2) using Some Inr r True by simp
          ultimately show ?thesis using IH by simp
        next
          case False
          with Some Inr r inv show ?thesis by (simp add: loop_refines_def unf)
        qed
      qed
    qed
  qed
qed

section \<open>Parsing a printed request\<close>

definition print_headers :: "(string \<times> string) list \<Rightarrow> string" where
  "print_headers hs = concat (map (\<lambda>(k, v). k @ '': '' @ v @ CRLF) hs)"

definition print_request :: "string \<Rightarrow> string \<Rightarrow> string \<Rightarrow> (string \<times> string) list \<Rightarrow> string \<Rightarrow> string" where
  "print_request m p v hs body =
     m @ '' '' @ p @ '' HTTP/'' @ v @ CRLF @ print_headers hs @ CRLF @ body"

text \<open>A request-line field has no space and no CR; a header has no CR or LF, its name no colon.\<close>

definition wf_field :: "string \<Rightarrow> bool" where
  "wf_field s \<longleftrightarrow> list_all (\<lambda>c. c \<noteq> CHR '' '' \<and> c \<noteq> CHR 0x0D) s"

definition wf_header :: "string \<times> string \<Rightarrow> bool" where
  "wf_header h \<longleftrightarrow> list_all (\<lambda>c. c \<noteq> CHR '':'' \<and> c \<noteq> CHR 0x0D) (fst h) \<and>
     list_all (\<lambda>c. c \<noteq> CHR 0x0A \<and> c \<noteq> CHR 0x0D) (snd h)"

lemma wf_headerD:
  assumes "wf_header (k, v)"
  shows "CHR '':'' \<notin> set k" "CHR 0x0D \<notin> set (k @ '': '' @ v)" "CHR 0x0A \<notin> set v" "CHR 0x0D \<notin> set v"
  using assms by (auto simp: wf_header_def list_all_iff)

lemma wf_fieldD: "wf_field s \<Longrightarrow> CHR '' '' \<notin> set s" "wf_field s \<Longrightarrow> CHR 0x0D \<notin> set s"
  by (auto simp: wf_field_def list_all_iff)

text \<open>One turn of the loop on a line that is complete.\<close>

lemma parse_str_line:
  assumes "CHR 0x0D \<notin> set line" "rq_state rq \<noteq> FINISH"
    and "parse_line api (length line + 2 + length rest) line rq d = Inr (True, rq', d')"
  shows "parse_str api rq (line @ CRLF @ rest) d = parse_str api rq' rest d'"
proof -
  have ne: "line @ CRLF @ rest \<noteq> [] \<and> rq_state rq \<noteq> FINISH" using assms(2) by simp
  show ?thesis
    unfolding parse_str_go[OF ne] find_crlf_append[OF assms(1)] using assms(3) by simp
qed

lemma parse_str_headers:
  assumes "rq_state rq = HEADERS" "list_all wf_header hs"
  shows "parse_str api rq (print_headers hs @ CRLF @ rest) d =
         parse_str api (rq\<lparr>rq_header := rq_header rq ++ map_of (rev hs)\<rparr>) (CRLF @ rest) d"
  using assms
proof (induction hs arbitrary: rq)
  case Nil
  then show ?case by (simp add: print_headers_def)
next
  case (Cons h hs)
  obtain k v where h: "h = (k, v)" by (cases h)
  with Cons.prems have wf: "wf_header (k, v)" by simp
  let ?rest = "print_headers hs @ CRLF @ rest"
  let ?rq = "rq\<lparr>rq_header := (rq_header rq)(k \<mapsto> v)\<rparr>"
  have "parse_line api (length (k @ '': '' @ v) + 2 + length ?rest) (k @ '': '' @ v) rq d = Inr (True, ?rq, d)"
    using Cons.prems(1) match_header_line_colon[OF wf_headerD(1,3,4)[OF wf]]
    by (simp add: parse_line_def ParseHeader_def)
  then have "parse_str api rq ((k @ '': '' @ v) @ CRLF @ ?rest) d = parse_str api ?rq ?rest d"
    using wf_headerD(2)[OF wf] Cons.prems(1) by (intro parse_str_line) simp_all
  also have "\<dots> = parse_str api (?rq\<lparr>rq_header := rq_header ?rq ++ map_of (rev hs)\<rparr>) (CRLF @ rest) d"
    using Cons.prems by (intro Cons.IH) auto
  also have "?rq\<lparr>rq_header := rq_header ?rq ++ map_of (rev hs)\<rparr> =
      rq\<lparr>rq_header := rq_header rq ++ map_of (rev (h # hs))\<rparr>"
    by (simp add: h)
  finally show ?case by (simp add: print_headers_def h)
qed

lemma parse_str_blank:
  assumes "rq_state rq = HEADERS"
  shows "parse_str api rq (CRLF @ rest) d =
    parse_str api (rq\<lparr>rq_state := (if rest = [] then FINISH else BODY)\<rparr>) rest d"
proof -
  have "parse_line api (length [] + 2 + length rest) [] rq d =
      Inr (True, rq\<lparr>rq_state := (if rest = [] then FINISH else BODY)\<rparr>, d)"
    using assms by (simp add: parse_line_def ParseHeader_def match_header_line_def)
  from parse_str_line[of "[]" rq api rest d, OF _ _ this] assms show ?thesis by simp
qed

text \<open>The request as it stands after the request line and the header lines.\<close>

definition request_head :: "string \<Rightarrow> string \<Rightarrow> string \<Rightarrow> (string \<times> string) list \<Rightarrow> HttpRequest" where
  "request_head m p v hs =
     ParsePath (Request_Init\<lparr>rq_state := HEADERS, rq_method := m, rq_path := p, rq_version := v,
       rq_header := map_of (rev hs)\<rparr>)"

lemma ParsePath_other:
  "rq_state (ParsePath rq) = rq_state rq" "rq_header (ParsePath rq) = rq_header rq"
  "ParsePath (rq\<lparr>rq_header := h\<rparr>) = (ParsePath rq)\<lparr>rq_header := h\<rparr>"
  "ParsePath (rq\<lparr>rq_state := s\<rparr>) = (ParsePath rq)\<lparr>rq_state := s\<rparr>"
  by (simp_all add: ParsePath_def)

lemma parse_str_head:
  assumes "wf_field m" "wf_field p" "wf_field v" "list_all wf_header hs"
  shows "parse_str api Request_Init (print_request m p v hs body) d =
    parse_str api ((request_head m p v hs)\<lparr>rq_state := (if body = [] then FINISH else BODY)\<rparr>) body d"
proof -
  let ?line = "m @ '' '' @ p @ '' HTTP/'' @ v"
  let ?rest = "print_headers hs @ CRLF @ body"
  let ?rq = "ParsePath (Request_Init\<lparr>rq_method := m, rq_path := p, rq_version := v, rq_state := HEADERS\<rparr>)"
  have "match_request_line ?line = Some (m, p, v)"
    using wf_fieldD[OF assms(1)] wf_fieldD[OF assms(2)] wf_fieldD[OF assms(3)]
    by (simp add: match_request_line_iff)
  then have "parse_line api (length ?line + 2 + length ?rest) ?line Request_Init d = Inr (True, ?rq, d)"
    by (simp add: parse_line_def ParseRequestLine_def Request_Init_def)
  then have "parse_str api Request_Init (?line @ CRLF @ ?rest) d = parse_str api ?rq ?rest d"
    using wf_fieldD[OF assms(1)] wf_fieldD[OF assms(2)] wf_fieldD[OF assms(3)]
    by (intro parse_str_line) (simp_all add: Request_Init_def)
  also have "\<dots> = parse_str api (?rq\<lparr>rq_header := rq_header ?rq ++ map_of (rev hs)\<rparr>) (CRLF @ body) d"
    using assms by (intro parse_str_headers) (simp_all add: ParsePath_other)
  also have "?rq\<lparr>rq_header := rq_header ?rq ++ map_of (rev hs)\<rparr> = request_head m p v hs"
    by (simp add: request_head_def ParsePath_def Request_Init_def)
  also have "parse_str api (request_head m p v hs) (CRLF @ body) d =
    parse_str api ((request_head m p v hs)\<lparr>rq_state := (if body = [] then FINISH else BODY)\<rparr>) body d"
    by (intro parse_str_blank) (simp add: request_head_def ParsePath_other)
  finally show ?thesis by (simp add: print_request_def)
qed

lemma parse_str_body:
  assumes "rq_state rq = BODY" "body \<noteq> []" "CHR 0x0D \<notin> set body"
    and "ParseBody api body rq d = Inr (rq', d')"
  shows "parse_str api rq body d = Inr (True, rq', [], d')"
proof -
  have go: "body \<noteq> [] \<and> rq_state rq \<noteq> FINISH" using assms by simp
  show ?thesis
    unfolding parse_str_go[OF go] find_crlf_None[OF assms(3)]
    using assms by (simp add: parse_line_def)
qed

text \<open>From the byte string back to the buffer.\<close>

lemma parse_content:
  assumes "buf_inv b" "content b \<noteq> []" "parse_str api rq (content b) d = Inr (ok, rq', rest, d')"
  shows "\<exists>b'. parse api rq b d = Inr (ok, rq', b', d') \<and> buf_inv b' \<and> content b' = rest"
proof -
  have "ReadableBytes b \<noteq> 0" using assms by (simp add: length_content[symmetric])
  then show ?thesis
    using parse_loop_refines[OF assms(1), of api rq d] assms(3)
    by (simp add: parse_def loop_refines_def)
qed

section \<open>Decoding a printed form\<close>

text \<open>
  A plain form: fields \<open>name=value\<close> joined by ampersands, with none of the four characters the
  decoder treats specially inside a name or a value.
\<close>

definition plain_char :: "char \<Rightarrow> bool" where
  "plain_char c \<longleftrightarrow> c \<noteq> CHR ''='' \<and> c \<noteq> CHR ''+'' \<and> c \<noteq> CHR ''%'' \<and> c \<noteq> CHR ''&''"

definition print_field :: "string \<times> string \<Rightarrow> string" where
  "print_field f = fst f @ ''='' @ snd f"

fun print_form :: "(string \<times> string) list \<Rightarrow> string" where
  "print_form [] = []"
| "print_form [f] = print_field f"
| "print_form (f # fs) = print_field f @ ''&'' @ print_form fs"

definition plain_field :: "string \<times> string \<Rightarrow> bool" where
  "plain_field f \<longleftrightarrow> list_all plain_char (fst f) \<and> list_all plain_char (snd f)"

lemma urlenc_skip:
  assumes "list_all plain_char xs" "body = pre @ xs @ post'" "int (length (pre @ xs)) \<le> n"
  shows "urlenc_loop n body (length pre) j key post = urlenc_loop n body (length (pre @ xs)) j key post"
  using assms
proof (induction xs arbitrary: pre)
  case Nil
  then show ?case by simp
next
  case (Cons x xs)
  have "urlenc_loop n body (length pre) j key post = urlenc_loop n body (length pre + 1) j key post"
    using Cons.prems
    by (subst urlenc_loop.simps) (simp add: plain_char_def nth_append)
  also have "\<dots> = urlenc_loop n body (length (pre @ [x])) j key post" by simp
  also have "\<dots> = urlenc_loop n body (length ((pre @ [x]) @ xs)) j key post"
    using Cons.prems by (intro Cons.IH) simp_all
  finally show ?case by simp
qed

lemma slice_middle: "slice (length pre) (length (pre @ xs)) (pre @ xs @ ys) = xs"
  by (simp add: slice_def)

text \<open>A whole field: afterwards the position is behind it and its name is the current key.\<close>

lemma urlenc_field:
  assumes "plain_field (k, v)" "body = pre @ (k @ ''='' @ v) @ rest" "int (length (pre @ k @ ''='' @ v)) \<le> n"
  shows "urlenc_loop n body (length pre) (length pre) key post =
    urlenc_loop n body (length (pre @ k @ ''='' @ v)) (length (pre @ k @ ''='')) k post"
proof -
  have kv: "list_all plain_char k" "list_all plain_char v" using assms(1) by (simp_all add: plain_field_def)
  have "urlenc_loop n body (length pre) (length pre) key post =
      urlenc_loop n body (length (pre @ k)) (length pre) key post"
    using assms kv by (intro urlenc_skip[where post' = "''='' @ v @ rest"]) simp_all
  also have "\<dots> = urlenc_loop n body (length (pre @ k @ ''='')) (length (pre @ k @ ''='')) k post"
    using assms slice_middle[of pre k "''='' @ v @ rest"]
    by (subst urlenc_loop.simps) (simp add: nth_append)
  also have "\<dots> = urlenc_loop n body (length ((pre @ k @ ''='') @ v)) (length (pre @ k @ ''='')) k post"
    using assms kv by (intro urlenc_skip[where post' = rest]) simp_all
  finally show ?thesis by simp
qed

lemma urlenc_amp:
  assumes "body = pre @ v @ ''&'' @ rest" "int (length (pre @ v @ ''&'')) \<le> n"
  shows "urlenc_loop n body (length (pre @ v)) (length pre) k post =
    urlenc_loop n body (length (pre @ v @ ''&'')) (length (pre @ v @ ''&'')) k (post(k \<mapsto> v))"
  using assms slice_middle[of pre v "''&'' @ rest"]
  by (subst urlenc_loop.simps) (simp add: nth_append)

lemma urlenc_form:
  assumes "fs \<noteq> []" "list_all plain_field fs" "body = pre @ print_form fs" "n = int (length body)"
  shows "\<exists>j. urlenc_loop n body (length pre) (length pre) key post =
           Inr (body, length body, j, fst (last fs), post ++ map_of (rev (butlast fs))) \<and>
         j + length (snd (last fs)) = length body \<and> slice j (length body) body = snd (last fs)"
  using assms
proof (induction fs arbitrary: pre key post rule: print_form.induct)
  case 1
  then show ?case by simp
next
  case (2 f)
  obtain k v where f: "f = (k, v)" by (cases f)
  let ?j = "length (pre @ k @ ''='')"
  have "urlenc_loop n body (length pre) (length pre) key post =
      urlenc_loop n body (length (pre @ k @ ''='' @ v)) ?j k post"
    using 2 f by (intro urlenc_field[where rest = "[]"]) (simp_all add: print_field_def)
  also have "\<dots> = Inr (body, length body, ?j, k, post)"
    using 2 f by (subst urlenc_loop.simps) (simp add: print_field_def)
  finally show ?case
    using 2 f slice_middle[of "pre @ k @ ''=''" v "[]"]
    by (intro exI[of _ ?j]) (simp add: print_field_def)
next
  case (3 f g gs)
  obtain k v where f: "f = (k, v)" by (cases f)
  let ?rest = "print_form (g # gs)"
  let ?pre = "pre @ (k @ ''='' @ v) @ ''&''"
  have body: "body = pre @ (k @ ''='' @ v) @ ''&'' @ ?rest" using 3 f by (simp add: print_field_def)
  have "urlenc_loop n body (length pre) (length pre) key post =
      urlenc_loop n body (length (pre @ k @ ''='' @ v)) (length (pre @ k @ ''='')) k post"
    using 3 f body by (intro urlenc_field[where rest = "''&'' @ ?rest"]) simp_all
  also have "\<dots> = urlenc_loop n body (length ((pre @ k @ ''='') @ v)) (length (pre @ k @ ''='')) k post"
    by simp
  also have "\<dots> = urlenc_loop n body (length ((pre @ k @ ''='') @ v @ ''&''))
      (length ((pre @ k @ ''='') @ v @ ''&'')) k (post(k \<mapsto> v))"
    using "3.prems"(4) by (intro urlenc_amp[where rest = ?rest]) (simp_all add: body)
  also have "\<dots> = urlenc_loop n body (length ?pre) (length ?pre) k (post(k \<mapsto> v))" by simp
  finally have step: "urlenc_loop n body (length pre) (length pre) key post =
      urlenc_loop n body (length ?pre) (length ?pre) k (post(k \<mapsto> v))" .
  have eqs: "post(k \<mapsto> v) ++ map_of (rev (butlast (g # gs))) = post ++ map_of (rev (butlast (f # g # gs)))"
    "last (f # g # gs) = last (g # gs)"
    by (simp_all add: f)
  show ?case
    unfolding step eqs(2) eqs(1)[symmetric]
    using "3.prems"(2,4) body by (intro "3.IH") simp_all
qed

lemma ParseFromUrlencoded_form:
  assumes fs: "fs \<noteq> []" "list_all plain_field fs" and small: "length (print_form fs) < 2 ^ 31"
    and rq: "rq_body rq = print_form fs" "rq_post rq = Map.empty"
    and d: "distinct (map fst fs)" "snd (last fs) \<noteq> []"
  shows "ParseFromUrlencoded rq = Inr (rq\<lparr>rq_post := map_of fs\<rparr>)"
proof -
  let ?b = "print_form fs" and ?l = "last fs"
  have ne: "?b \<noteq> []" using fs by (cases fs rule: print_form.cases) (auto simp: print_field_def)
  obtain j where j: "urlenc_loop (int (length ?b)) ?b 0 0 [] Map.empty =
      Inr (?b, length ?b, j, fst ?l, map_of (rev (butlast fs)))"
    "j + length (snd ?l) = length ?b" "slice j (length ?b) ?b = snd ?l"
    using urlenc_form[OF fs, of ?b "[]" "int (length ?b)" "[]" Map.empty] by auto
  have app: "butlast fs @ [?l] = fs" using fs(1) by simp
  have dl: "distinct (map fst (butlast fs @ [?l]))" using d(1) app by simp
  then have "map_of (rev (butlast fs)) (fst ?l) = None"
    by (auto simp: map_of_eq_None_iff)
  moreover have "(map_of (rev (butlast fs)))(fst ?l \<mapsto> snd ?l) = map_of fs"
  proof -
    have "(map_of (rev (butlast fs)))(fst ?l \<mapsto> snd ?l) = map_of (rev (butlast fs @ [?l]))"
      by (cases ?l) simp
    also have "\<dots> = map_of fs" using d(1) app
      by (metis distinct_rev map_of_inject_set rev_map set_rev)
    finally show ?thesis .
  qed
  moreover have "size_to_int (length ?b) = int (length ?b)" using small by (rule size_to_int_small)
  moreover have "j < length ?b" using j(2) d(2) by (cases "snd ?l") auto
  ultimately show ?thesis
    using rq ne j by (cases rq) (simp add: ParseFromUrlencoded_def)
qed

section \<open>The user check\<close>

lemma check_rows_last:
  "check_rows isLogin pwd rows flag =
     (if rows = [] then flag else isLogin \<and> pwd = snd (last rows))"
  by (induction rows arbitrary: flag rule: rev_induct) (auto simp: check_rows_def)

text \<open>A form of a login or register page, once decoded, is decided by the user check.\<close>

lemma ParseBody_form:
  assumes m: "rq_method rq = ''POST''"
    and ct: "rq_header rq ''Content-Type'' = Some ''application/x-www-form-urlencoded''"
    and post: "rq_post rq = Map.empty" and small: "length (print_form fs) < 2 ^ 31"
    and fs: "fs = [(''username'', u), (''password'', pw)]"
    and plain: "list_all plain_char u" "list_all plain_char pw" "pw \<noteq> []"
    and tag: "DEFAULT_HTML_TAG (rq_path rq) = Some tag" "tag = 0 \<or> tag = 1"
  shows "ParseBody api (print_form fs) rq d =
    (case UserVerify api u pw (tag = 1) d of (ok, d') \<Rightarrow>
       Inr (rq\<lparr>rq_state := FINISH, rq_body := print_form fs, rq_post := map_of fs,
             rq_path := (if ok then ''/welcome.html'' else ''/error.html'')\<rparr>, d'))"
proof -
  let ?rq = "rq\<lparr>rq_body := print_form fs\<rparr>"
  have hdr: "map_index ''Content-Type'' (rq_header ?rq) =
      (''application/x-www-form-urlencoded'', rq_header ?rq)"
    using ct by (simp add: map_index_def)
  have "ParseFromUrlencoded ?rq = Inr (?rq\<lparr>rq_post := map_of fs\<rparr>)"
    using fs small post plain
    by (intro ParseFromUrlencoded_form) (simp_all add: plain_field_def plain_char_def)
  moreover have "?rq\<lparr>rq_header := rq_header ?rq\<rparr> = ?rq" by simp
  moreover have "map_index ''username'' (map_of fs) = (u, map_of fs)"
    "map_index ''password'' (map_of fs) = (pw, map_of fs)"
    by (simp_all add: map_index_def fs)
  ultimately show ?thesis
    using m hdr tag by (auto simp: ParseBody_def ParsePost_def Let_def split: prod.splits)
qed

section \<open>Properties\<close>

lemma parse_printed:
  assumes "buf_inv b" "content b = print_request m p v hs []"
    and "wf_field m" "wf_field p" "wf_field v" "list_all wf_header hs"
  shows "\<exists>b'. parse api Request_Init b d =
      Inr (True, (request_head m p v hs)\<lparr>rq_state := FINISH\<rparr>, b', d) \<and> buf_inv b' \<and> content b' = []"
proof -
  let ?rq = "(request_head m p v hs)\<lparr>rq_state := FINISH\<rparr>"
  have "parse_str api Request_Init (content b) d = parse_str api ?rq [] d"
    using parse_str_head[OF assms(3-6), of api "[]" d] assms(2) by simp
  also have "\<dots> = Inr (True, ?rq, [], d)" by (rule parse_str_stop) simp
  finally show ?thesis
    using assms(1,2) by (intro parse_content) (simp_all add: print_request_def)
qed

text \<open>C5: Parsing is the inverse of printing: for every method, path and version without spaces
  and every list of header lines, the parser run on a buffer that holds the printed request (no
  body) returns true, has read the buffer empty, is in state FINISH, and the request object holds
  the method, the version, the completed path and exactly the printed headers (the last of equal
  names wins).\<close>

theorem parse_printed_request:
  assumes "buf_inv b" "content b = print_request m p v hs []"
    and "wf_field m" "wf_field p" "wf_field v" "list_all wf_header hs"
  shows "\<exists>b'. parse api Request_Init b d =
      Inr (True, (request_head m p v hs)\<lparr>rq_state := FINISH\<rparr>, b', d) \<and> buf_inv b' \<and> content b' = []"
  using assms by (rule parse_printed)

text \<open>A client library that accepts every statement and holds one user.\<close>

definition one_user :: "string \<times> string \<Rightarrow> unit db_api" where
  "one_user u = \<lparr>db_conn = (\<lambda>_. True), mysql_query = (\<lambda>_ _. (0, ())),
     mysql_use_result = (\<lambda>_. (Some [u], ()))\<rparr>"

definition buffer_of :: "string \<Rightarrow> buffer" where
  "buffer_of s = \<lparr>buffer = s, readPos = 0, writePos = length s\<rparr>"

lemma content_buffer_of [simp]: "content (buffer_of s) = s"
  by (simp add: buffer_of_def content_def slice_def)

lemma buf_inv_buffer_of: "length s \<le> vec_max \<Longrightarrow> buf_inv (buffer_of s)"
  by (simp add: buffer_of_def buf_inv_def)

theorem parse_printed_request_witness:
  "\<exists>b'. parse (one_user (''u'', ''p'')) Request_Init
        (buffer_of (print_request ''GET'' ''/login'' ''1.1'' [(''Connection'', ''keep-alive'')] [])) () =
      Inr (True, (request_head ''GET'' ''/login'' ''1.1'' [(''Connection'', ''keep-alive'')])\<lparr>rq_state := FINISH\<rparr>, b', ())
    \<and> buf_inv b' \<and> content b' = []"
  by (rule parse_printed_request)
    (simp_all add: buf_inv_buffer_of print_request_def print_headers_def vec_max_def wf_field_def wf_header_def)

text \<open>C24: A login or registration submitted as a form is decided by the user check alone: for a
  POST request to one of the two pages with a url-encoded body holding a user name and a password
  of plain characters, parsing ends in FINISH with the form's two fields decoded, and the path is
  the welcome page exactly when the check accepts that name and password, and the error page
  otherwise.\<close>

theorem parse_login_form:
  assumes "buf_inv b" "content b = print_request ''POST'' p v hs (print_form fs)"
    and "wf_field p" "wf_field v" "list_all wf_header hs"
    and "map_of (rev hs) ''Content-Type'' = Some ''application/x-www-form-urlencoded''"
    and "fs = [(''username'', u), (''password'', pw)]" "length (print_form fs) < 2 ^ 31"
    and "list_all plain_char u" "list_all plain_char pw" "pw \<noteq> []"
    and "CHR 0x0D \<notin> set u" "CHR 0x0D \<notin> set pw"
    and "DEFAULT_HTML_TAG (rq_path (request_head ''POST'' p v hs)) = Some tag"
    and "UserVerify api u pw (tag = 1) d = (ok, d')"
  shows "\<exists>b'. parse api Request_Init b d =
      Inr (True, (request_head ''POST'' p v hs)\<lparr>rq_state := FINISH, rq_body := print_form fs,
             rq_post := map_of fs, rq_path := (if ok then ''/welcome.html'' else ''/error.html'')\<rparr>, b', d') \<and>
      buf_inv b' \<and> content b' = []"
proof -
  let ?h = "request_head ''POST'' p v hs" and ?body = "print_form fs"
  let ?rq = "?h\<lparr>rq_state := BODY\<rparr>"
  let ?rq' = "?h\<lparr>rq_state := FINISH, rq_body := ?body, rq_post := map_of fs,
             rq_path := (if ok then ''/welcome.html'' else ''/error.html'')\<rparr>"
  have tag: "tag = 0 \<or> tag = 1"
    using assms(14) by (auto simp: DEFAULT_HTML_TAG_def split: if_splits)
  have head: "rq_method ?rq = ''POST''" "rq_header ?rq = map_of (rev hs)" "rq_post ?rq = Map.empty"
    by (simp_all add: request_head_def ParsePath_def Request_Init_def)
  have "wf_field ''POST''" by (simp add: wf_field_def)
  then have "parse_str api Request_Init (content b) d = parse_str api ?rq ?body d"
    using parse_str_head[OF _ assms(3-5), of "''POST''" api ?body d] assms(2,7)
    by (simp add: print_field_def)
  also have "ParseBody api ?body ?rq d = Inr (?rq', d')"
    using ParseBody_form[of ?rq fs u pw tag api d] head tag assms(6-11,14,15) by simp
  then have "parse_str api ?rq ?body d = Inr (True, ?rq', [], d')"
    using assms(7,12,13) by (intro parse_str_body) (auto simp: print_field_def)
  finally show ?thesis
    using assms(1,2) by (intro parse_content) (simp_all add: print_request_def)
qed

theorem parse_login_form_witness:
  "\<exists>b'. parse (one_user (''ann'', ''secret'')) Request_Init
        (buffer_of (print_request ''POST'' ''/login'' ''1.1''
           [(''Content-Type'', ''application/x-www-form-urlencoded'')]
           (print_form [(''username'', ''ann''), (''password'', ''secret'')]))) () =
      Inr (True, (request_head ''POST'' ''/login'' ''1.1''
             [(''Content-Type'', ''application/x-www-form-urlencoded'')])\<lparr>rq_state := FINISH,
             rq_body := print_form [(''username'', ''ann''), (''password'', ''secret'')],
             rq_post := map_of [(''username'', ''ann''), (''password'', ''secret'')],
             rq_path := (if True then ''/welcome.html'' else ''/error.html'')\<rparr>, b', ()) \<and>
      buf_inv b' \<and> content b' = []"
  by (rule parse_login_form[where u = "''ann''" and pw = "''secret''" and tag = 1 and
        hs = "[(''Content-Type'', ''application/x-www-form-urlencoded'')]"])
    (simp_all add: buf_inv_buffer_of print_request_def print_headers_def vec_max_def wf_field_def
      wf_header_def plain_char_def print_field_def request_head_def ParsePath_def DEFAULT_HTML_def
      DEFAULT_HTML_TAG_def UserVerify_def Connection_Query_def one_user_def check_rows_def)

text \<open>C37: Decoding a form is the inverse of printing it, for any list of fields with distinct names,
  plain characters and a last value that is not empty.\<close>

theorem urlencoded_roundtrip:
  assumes "fs \<noteq> []" "list_all plain_field fs" "length (print_form fs) < 2 ^ 31"
    and "rq_body rq = print_form fs" "rq_post rq = Map.empty"
    and "distinct (map fst fs)" "snd (last fs) \<noteq> []"
  shows "ParseFromUrlencoded rq = Inr (rq\<lparr>rq_post := map_of fs\<rparr>)"
  using assms by (rule ParseFromUrlencoded_form)

theorem urlencoded_roundtrip_witness:
  "ParseFromUrlencoded (Request_Init\<lparr>rq_body := print_form [(''a'', ''1''), (''b'', []), (''c'', ''xy'')]\<rparr>) =
   Inr ((Request_Init\<lparr>rq_body := print_form [(''a'', ''1''), (''b'', []), (''c'', ''xy'')]\<rparr>)
     \<lparr>rq_post := map_of [(''a'', ''1''), (''b'', []), (''c'', ''xy'')]\<rparr>)"
  by (rule urlencoded_roundtrip)
    (simp_all add: plain_field_def plain_char_def print_field_def Request_Init_def)

text \<open>A form body whose last or last but one character is a percent sign makes the decoder write
  outside the string: after any plain text, a percent sign followed by fewer than two characters
  is an out-of-bounds access.\<close>

theorem urlencoded_truncated_percent:
  assumes "list_all plain_char xs" "length ys < 2" "length xs < 2 ^ 30"
  shows "ParseFromUrlencoded (rq\<lparr>rq_body := xs @ ''%'' @ ys\<rparr>) = Inl OutOfBounds"
proof -
  let ?b = "xs @ ''%'' @ ys" and ?post = "rq_post rq"
  have n: "size_to_int (length ?b) = int (length ?b)"
    using assms(2,3) by (intro size_to_int_small) simp
  have "urlenc_loop (int (length ?b)) ?b (length ([]::string)) 0 [] ?post =
      urlenc_loop (int (length ?b)) ?b (length (([]::string) @ xs)) 0 [] ?post"
    using assms(1) by (intro urlenc_skip[where post' = "''%'' @ ys"]) simp_all
  also have "\<dots> = Inl OutOfBounds"
    using assms(2) by (subst urlenc_loop.simps) (simp add: nth_append)
  finally show ?thesis
    using n by (simp add: ParseFromUrlencoded_def)
qed

theorem urlencoded_truncated_percent_witness:
  "ParseFromUrlencoded (Request_Init\<lparr>rq_body := ''abc'' @ ''%'' @ ''4''\<rparr>) = Inl OutOfBounds"
  by (rule urlencoded_truncated_percent) (simp_all add: plain_char_def)

text \<open>\<^verbatim>\<open>ConverHex\<close> converts the letters of both cases to 10..15 but returns a decimal digit's
  character code, 48 more than its value, so that percent decoding of a two-digit code is wrong.\<close>

lemma ConverHex_values:
  "list_all (\<lambda>k. ConverHex (char_of (65 + k)) = int (10 + k) \<and> ConverHex (char_of (97 + k)) = int (10 + k)) [0..<6]
   \<and> list_all (\<lambda>k. ConverHex (digit_char k) = int k + 48) [0..<10]"
  by code_simp

text \<open>A login is accepted exactly when name and password are not empty, a connection was
  obtained, the query for the name succeeded, and the last row it returned carries that
  password.\<close>

theorem UserVerify_login:
  "fst (UserVerify api name pwd True d) \<longleftrightarrow>
     name \<noteq> [] \<and> pwd \<noteq> [] \<and> db_conn api d \<and>
     (\<exists>rows. fst (Connection_Query api (select_sql name) d) = Some rows \<and> rows \<noteq> [] \<and> snd (last rows) = pwd)"
  by (auto simp: UserVerify_def Let_def check_rows_last split: prod.splits option.splits)

text \<open>A registration is reported as successful whenever the name is free, even if the INSERT
  statement failed: the result of the update does not reach the returned flag.\<close>

theorem UserVerify_register_ignores_update:
  assumes "name \<noteq> []" "pwd \<noteq> []" "db_conn api d"
    and "Connection_Query api (select_sql name) d = (Some [], d1)"
    and "Connection_Update api (insert_sql name pwd) d1 = (False, d2)"
  shows "UserVerify api name pwd False d = (True, d2)"
  using assms by (simp add: UserVerify_def check_rows_def)

definition failing_insert :: "nat db_api" where
  "failing_insert = \<lparr>db_conn = (\<lambda>_. True), mysql_query = (\<lambda>n _. (int n, n + 1)),
     mysql_use_result = (\<lambda>n. (Some [], n))\<rparr>"

theorem UserVerify_register_ignores_update_witness:
  "UserVerify failing_insert ''ann'' ''pw'' False 0 = (True, 2)"
  by (rule UserVerify_register_ignores_update[where ?d1.0 = 1])
    (simp_all add: failing_insert_def Connection_Query_def Connection_Update_def)

end
