(* ===== verification/TW_HttpResponse.thy ===== *)
theory TW_HttpResponse
  imports TW_Buffer
begin

text \<open>
  The response builder of \<^verbatim>\<open>src/http/httpresponse.cpp\<close>. The file system is the parameter
  \<open>fs_api\<close> (what \<^verbatim>\<open>stat\<close>, \<^verbatim>\<open>open\<close> and \<^verbatim>\<open>mmap\<close> answer for a path); \<open>os\<close> counts the
  descriptors the process holds open and the bytes it has mapped, so that the open and close
  calls of the code are visible. The text written to the buffer is characterised piece by
  piece through the buffer's contract (\<open>bq.append_all\<close>).
\<close>

section \<open>Tables and data\<close>

definition SUFFIX_TYPE :: "string \<rightharpoonup> string" where
  "SUFFIX_TYPE = map_of [
     (''.html'', ''text/html''), (''.xml'', ''text/xml''), (''.xhtml'', ''application/xhtml+xml''),
     (''.txt'', ''text/plain''), (''.rtf'', ''application/rtf''), (''.pdf'', ''application/pdf''),
     (''.word'', ''application/nsword''), (''.png'', ''image/png''), (''.gif'', ''image/gif''),
     (''.jpg'', ''image/jpeg''), (''.jpeg'', ''image/jpeg''), (''.au'', ''audio/basic''),
     (''.mpeg'', ''video/mpeg''), (''.mpg'', ''video/mpeg''), (''.avi'', ''video/x-msvideo''),
     (''.gz'', ''application/x-gzip''), (''.tar'', ''application/x-tar''), (''.css'', ''text/css''),
     (''.js'', ''text/javascript'')]"

definition CODE_STATUS :: "int \<rightharpoonup> string" where
  "CODE_STATUS = map_of [(200, ''OK''), (400, ''Bad Request''), (403, ''Forbidden''), (404, ''Not Found'')]"

definition CODE_PATH :: "int \<rightharpoonup> string" where
  "CODE_PATH = map_of [(400, ''/400.html''), (403, ''/403.html''), (404, ''/404.html'')]"

text \<open>The fields of \<^verbatim>\<open>struct stat\<close> the code reads: directory bit, \<^verbatim>\<open>S_IROTH\<close>, size.\<close>

record file_stat =
  st_isdir :: bool
  st_roth :: bool
  st_size :: nat

definition stat_zero :: file_stat where
  "stat_zero = \<lparr>st_isdir = False, st_roth = False, st_size = 0\<rparr>"

record fs_api =
  fs_stat :: "string \<Rightarrow> file_stat option"
  fs_open :: "string \<Rightarrow> bool"
  fs_mmap :: "string \<Rightarrow> nat \<Rightarrow> char list option"

record os =
  os_fds :: nat
  os_mapped :: nat

record HttpResponse =
  rs_code :: int
  rs_keepAlive :: bool
  rs_path :: string
  rs_srcDir :: string
  rs_mmFile :: "char list option"
  rs_stat :: file_stat

definition Response_ctor :: HttpResponse where
  "Response_ctor = \<lparr>rs_code = -1, rs_keepAlive = False, rs_path = [], rs_srcDir = [],
     rs_mmFile = None, rs_stat = stat_zero\<rparr>"

section \<open>Operations\<close>

definition UnmapFile :: "HttpResponse \<Rightarrow> os \<Rightarrow> HttpResponse \<times> os" where
  "UnmapFile rs w =
     (case rs_mmFile rs of
        Some _ \<Rightarrow> (rs\<lparr>rs_mmFile := None\<rparr>, w\<lparr>os_mapped := os_mapped w - st_size (rs_stat rs)\<rparr>)
      | None \<Rightarrow> (rs, w))"

definition Response_Init ::
  "string \<Rightarrow> string \<Rightarrow> bool \<Rightarrow> int \<Rightarrow> HttpResponse \<Rightarrow> os \<Rightarrow> (HttpResponse \<times> os) res" where
  "Response_Init srcDir path isKeepAlive code rs w =
     res_bind (cxx_assert (srcDir \<noteq> [])) (\<lambda>_.
       let (rs1, w1) = (if rs_mmFile rs \<noteq> None then UnmapFile rs w else (rs, w)) in
       Inr (rs1\<lparr>rs_code := code, rs_keepAlive := isKeepAlive, rs_path := path, rs_srcDir := srcDir,
                rs_mmFile := None, rs_stat := stat_zero\<rparr>, w1))"

definition full_path :: "HttpResponse \<Rightarrow> string" where
  "full_path rs = c_str (rs_srcDir rs @ rs_path rs)"

definition File :: "HttpResponse \<Rightarrow> char list option" where
  "File rs = rs_mmFile rs"

definition FileLen :: "HttpResponse \<Rightarrow> nat" where
  "FileLen rs = st_size (rs_stat rs)"

definition ErrorHtml :: "fs_api \<Rightarrow> HttpResponse \<Rightarrow> HttpResponse" where
  "ErrorHtml fs rs =
     (case CODE_PATH (rs_code rs) of
        None \<Rightarrow> rs
      | Some p \<Rightarrow>
          let rs1 = rs\<lparr>rs_path := p\<rparr> in
          (case fs_stat fs (full_path rs1) of
             None \<Rightarrow> rs1
           | Some st \<Rightarrow> rs1\<lparr>rs_stat := st\<rparr>))"

definition AddStateLine :: "HttpResponse \<Rightarrow> buffer \<Rightarrow> (HttpResponse \<times> buffer) res" where
  "AddStateLine rs b =
     (let (rs1, status) =
            (case CODE_STATUS (rs_code rs) of
               Some st \<Rightarrow> (rs, st)
             | None \<Rightarrow> (rs\<lparr>rs_code := 400\<rparr>, the (CODE_STATUS 400)))
      in res_bind (Append_string (''HTTP/1.1 '' @ to_string (rs_code rs1) @ '' '' @ status @ CRLF) b)
           (\<lambda>b1. Inr (rs1, b1)))"

definition GetFileType :: "HttpResponse \<Rightarrow> string" where
  "GetFileType rs =
     (if CHR ''.'' \<notin> set (rs_path rs) then ''text/plain''
      else let suffix = CHR ''.'' # rev (takeWhile (\<lambda>c. c \<noteq> CHR ''.'') (rev (rs_path rs))) in
           case SUFFIX_TYPE suffix of Some t \<Rightarrow> t | None \<Rightarrow> ''text/plain'')"

definition AddHeader :: "HttpResponse \<Rightarrow> buffer \<Rightarrow> buffer res" where
  "AddHeader rs b =
     res_bind (Append_string ''Connection: '' b) (\<lambda>b1.
     res_bind (if rs_keepAlive rs
               then res_bind (Append_string (''keep-alive'' @ CRLF) b1) (\<lambda>b2.
                      Append_string (''keep-alive: max=6, timeout=120'' @ CRLF) b2)
               else Append_string (''close'' @ CRLF) b1) (\<lambda>b3.
     Append_string (''Content-type: '' @ GetFileType rs @ CRLF) b3))"

definition error_body :: "int \<Rightarrow> string \<Rightarrow> string" where
  "error_body code message =
     ''<html><title>Error</title>'' @ ''<body bgcolor=\"ffffff\">'' @
     to_string code @ '' : '' @ (case CODE_STATUS code of Some st \<Rightarrow> st | None \<Rightarrow> ''Bad Request'') @ [CHR 0x0A] @
     ''<p>'' @ message @ ''</p>'' @ ''<hr><em>TinyWebServer</em></body></html>''"

definition ErrorContent :: "HttpResponse \<Rightarrow> string \<Rightarrow> buffer \<Rightarrow> buffer res" where
  "ErrorContent rs message b =
     (let body = error_body (rs_code rs) message in
      res_bind (Append_string (''Content-length: '' @ to_string (int (length body)) @ CRLF @ CRLF) b)
        (Append_string body))"

definition AddContent :: "fs_api \<Rightarrow> HttpResponse \<Rightarrow> buffer \<Rightarrow> os \<Rightarrow> (HttpResponse \<times> buffer \<times> os) res" where
  "AddContent fs rs b w =
     (if \<not> fs_open fs (full_path rs)
      then res_bind (ErrorContent rs ''File NotFound!'' b) (\<lambda>b1. Inr (rs, b1, w))
      else
        let w1 = w\<lparr>os_fds := os_fds w + 1\<rparr>; size = st_size (rs_stat rs) in
        if size = 0
        then res_bind (Append_string (''Content-length: 0'' @ CRLF @ CRLF) b) (\<lambda>b1.
               Inr (rs\<lparr>rs_mmFile := None\<rparr>, b1, w1\<lparr>os_fds := os_fds w1 - 1\<rparr>))
        else
          case fs_mmap fs (full_path rs) size of
            None \<Rightarrow> res_bind (ErrorContent rs ''File NotFound!'' b) (\<lambda>b1. Inr (rs, b1, w1))
          | Some m \<Rightarrow>
              res_bind (Append_string (''Content-length: '' @ to_string (int size) @ CRLF @ CRLF) b) (\<lambda>b1.
                Inr (rs\<lparr>rs_mmFile := Some m\<rparr>, b1,
                     w1\<lparr>os_fds := os_fds w1 - 1, os_mapped := os_mapped w1 + size\<rparr>)))"

definition check_file :: "fs_api \<Rightarrow> HttpResponse \<Rightarrow> HttpResponse" where
  "check_file fs rs =
     (let (ret, st) = (case fs_stat fs (full_path rs) of
                         None \<Rightarrow> (-1 :: int, rs_stat rs) | Some st \<Rightarrow> (0, st));
          rs1 = rs\<lparr>rs_stat := st\<rparr>
      in if ret < 0 \<or> st_isdir st then rs1\<lparr>rs_code := 404\<rparr>
         else if \<not> st_roth st then rs1\<lparr>rs_code := 403\<rparr>
         else if rs_code rs1 = -1 then rs1\<lparr>rs_code := 200\<rparr>
         else rs1)"

definition MakeResponse :: "fs_api \<Rightarrow> HttpResponse \<Rightarrow> buffer \<Rightarrow> os \<Rightarrow> (HttpResponse \<times> buffer \<times> os) res" where
  "MakeResponse fs rs b w =
     res_bind (AddStateLine (ErrorHtml fs (check_file fs rs)) b) (\<lambda>(rs1, b1).
     res_bind (AddHeader rs1 b1) (\<lambda>b2.
     AddContent fs rs1 b2 w))"

section \<open>The text of a response\<close>

definition final_rs :: "fs_api \<Rightarrow> HttpResponse \<Rightarrow> HttpResponse" where
  "final_rs fs rs =
     (let rs1 = ErrorHtml fs (check_file fs rs) in
      if CODE_STATUS (rs_code rs1) = None then rs1\<lparr>rs_code := 400\<rparr> else rs1)"

definition status_line :: "int \<Rightarrow> string" where
  "status_line code = ''HTTP/1.1 '' @ to_string code @ '' '' @ the (CODE_STATUS code) @ CRLF"

definition header_pieces :: "HttpResponse \<Rightarrow> string list" where
  "header_pieces rs =
     [''Connection: ''] @
     (if rs_keepAlive rs then [''keep-alive'' @ CRLF, ''keep-alive: max=6, timeout=120'' @ CRLF]
      else [''close'' @ CRLF]) @
     [''Content-type: '' @ GetFileType rs @ CRLF]"

text \<open>What is served: an error page built in memory, an empty file, or a mapped file.\<close>

datatype served = Inline string | Empty | Mapped "char list"

definition served :: "fs_api \<Rightarrow> HttpResponse \<Rightarrow> served" where
  "served fs rs =
     (if \<not> fs_open fs (full_path rs) then Inline (error_body (rs_code rs) ''File NotFound!'')
      else if st_size (rs_stat rs) = 0 then Empty
      else case fs_mmap fs (full_path rs) (st_size (rs_stat rs)) of
             None \<Rightarrow> Inline (error_body (rs_code rs) ''File NotFound!'')
           | Some m \<Rightarrow> Mapped m)"

definition content_length :: "HttpResponse \<Rightarrow> served \<Rightarrow> nat" where
  "content_length rs sv =
     (case sv of Inline body \<Rightarrow> length body | Empty \<Rightarrow> 0 | Mapped _ \<Rightarrow> st_size (rs_stat rs))"

definition length_line :: "nat \<Rightarrow> string" where
  "length_line n = ''Content-length: '' @ to_string (int n) @ CRLF @ CRLF"

definition content_pieces :: "HttpResponse \<Rightarrow> served \<Rightarrow> string list" where
  "content_pieces rs sv =
     length_line (content_length rs sv) # (case sv of Inline body \<Rightarrow> [body] | _ \<Rightarrow> [])"

definition response_pieces :: "fs_api \<Rightarrow> HttpResponse \<Rightarrow> string list" where
  "response_pieces fs rs =
     (let rs' = final_rs fs rs in
      status_line (rs_code rs') # header_pieces rs' @ content_pieces rs' (served fs rs'))"

definition response_text :: "fs_api \<Rightarrow> HttpResponse \<Rightarrow> string" where
  "response_text fs rs = concat (response_pieces fs rs)"

lemma to_string_zero: "to_string 0 = ''0''"
  by code_simp

lemma AddStateLine_pieces:
  "AddStateLine rs b =
     (let rs1 = (if CODE_STATUS (rs_code rs) = None then rs\<lparr>rs_code := 400\<rparr> else rs) in
      res_bind (bq.append_all [status_line (rs_code rs1)] b) (\<lambda>b1. Inr (rs1, b1)))"
  by (auto simp: AddStateLine_def status_line_def Let_def res_bind_assoc bq.append_all_fun split: option.splits)

lemma AddHeader_pieces: "AddHeader rs b = bq.append_all (header_pieces rs) b"
  by (auto simp: AddHeader_def header_pieces_def res_bind_assoc bq.append_all_fun)

lemma ErrorContent_pieces:
  "ErrorContent rs msg b =
     bq.append_all [length_line (length (error_body (rs_code rs) msg)), error_body (rs_code rs) msg] b"
  by (auto simp: ErrorContent_def length_line_def Let_def res_bind_assoc bq.append_all_fun intro!: res_bind_cong)

text \<open>The state after the content: the mapping, and the descriptors and mapped bytes.\<close>

definition content_rs :: "served \<Rightarrow> HttpResponse \<Rightarrow> HttpResponse" where
  "content_rs sv rs =
     (case sv of Inline _ \<Rightarrow> rs | Empty \<Rightarrow> rs\<lparr>rs_mmFile := None\<rparr> | Mapped m \<Rightarrow> rs\<lparr>rs_mmFile := Some m\<rparr>)"

definition content_os :: "fs_api \<Rightarrow> HttpResponse \<Rightarrow> os \<Rightarrow> os" where
  "content_os fs rs w =
     (case served fs rs of
        Inline _ \<Rightarrow> (if fs_open fs (full_path rs) then w\<lparr>os_fds := os_fds w + 1\<rparr> else w)
      | Empty \<Rightarrow> w
      | Mapped _ \<Rightarrow> w\<lparr>os_mapped := os_mapped w + st_size (rs_stat rs)\<rparr>)"

lemma AddContent_pieces:
  "AddContent fs rs b w =
     res_bind (bq.append_all (content_pieces rs (served fs rs)) b)
       (\<lambda>b1. Inr (content_rs (served fs rs) rs, b1, content_os fs rs w))"
  by (auto simp: AddContent_def served_def content_pieces_def content_length_def content_rs_def
      content_os_def length_line_def to_string_zero ErrorContent_pieces Let_def res_bind_assoc bq.append_all_fun
      intro!: res_bind_cong split: option.splits)

lemma MakeResponse_pieces:
  "MakeResponse fs rs b w =
     (let rs' = final_rs fs rs in
      res_bind (bq.append_all (response_pieces fs rs) b)
        (\<lambda>b'. Inr (content_rs (served fs rs') rs', b', content_os fs rs' w)))"
  by (auto simp: MakeResponse_def AddStateLine_pieces AddHeader_pieces AddContent_pieces
      final_rs_def response_pieces_def bq.append_all_append Let_def res_bind_assoc bq.append_all_fun
      intro!: res_bind_cong)

section \<open>Consequences for a whole response\<close>

lemma rs_code_status: "rs_code (final_rs fs rs) \<in> {200, 400, 403, 404}"
  by (auto simp: final_rs_def Let_def CODE_STATUS_def)

lemma final_rs_keeps [simp]:
  "rs_keepAlive (final_rs fs rs) = rs_keepAlive rs" "rs_srcDir (final_rs fs rs) = rs_srcDir rs"
  "rs_mmFile (final_rs fs rs) = rs_mmFile rs"
  by (auto simp: final_rs_def ErrorHtml_def check_file_def Let_def split: option.splits prod.splits)

lemma MakeResponse_ok:
  assumes "buf_inv b" "length (response_text fs rs) < room b"
  shows "\<exists>b'. MakeResponse fs rs b w =
      Inr (content_rs (served fs (final_rs fs rs)) (final_rs fs rs), b', content_os fs (final_rs fs rs) w) \<and>
      buf_inv b' \<and> content b' = content b @ response_text fs rs"
proof -
  from bq.append_all_ok[of b "response_pieces fs rs"] assms obtain b' where
    "bq.append_all (response_pieces fs rs) b = Inr b'" "buf_inv b'" "content b' = content b @ response_text fs rs"
    by (auto simp: response_text_def)
  then show ?thesis by (simp add: MakeResponse_pieces Let_def)
qed

text \<open>What the file system promises about a mapping: it holds as many bytes as were asked for.\<close>

definition mmap_exact :: "fs_api \<Rightarrow> bool" where
  "mmap_exact fs \<longleftrightarrow> (\<forall>p n m. fs_mmap fs p n = Some m \<longrightarrow> length m = n)"

definition mapped_bytes :: "HttpResponse \<Rightarrow> char list" where
  "mapped_bytes rs = (case rs_mmFile rs of None \<Rightarrow> [] | Some m \<Rightarrow> m)"

lemma content_length_served:
  assumes "mmap_exact fs" "rs_mmFile rs = None"
  shows "content_length rs (served fs rs) =
    length (concat (tl (content_pieces rs (served fs rs)))) + length (mapped_bytes (content_rs (served fs rs) rs))"
  using assms by (auto simp: content_length_def served_def content_pieces_def content_rs_def
      mapped_bytes_def mmap_exact_def split: option.splits)

text \<open>The file requested: what \<^verbatim>\<open>stat\<close> says of the path before any error page replaces it.\<close>

definition readable_file :: "fs_api \<Rightarrow> string \<Rightarrow> bool" where
  "readable_file fs p \<longleftrightarrow> (case fs_stat fs p of None \<Rightarrow> False | Some st \<Rightarrow> \<not> st_isdir st \<and> st_roth st)"

lemma code_tables:
  "CODE_PATH 200 = None" "CODE_PATH 400 = Some ''/400.html''" "CODE_PATH 403 = Some ''/403.html''"
  "CODE_PATH 404 = Some ''/404.html''" "CODE_STATUS 200 \<noteq> None" "CODE_STATUS 400 \<noteq> None"
  "CODE_STATUS 403 \<noteq> None" "CODE_STATUS 404 \<noteq> None"
  by (simp_all add: CODE_PATH_def CODE_STATUS_def)

lemma check_file_cases:
  assumes "rs_code rs = 200 \<or> rs_code rs = 400"
  shows "rs_path (check_file fs rs) = rs_path rs"
    and "readable_file fs (full_path rs) \<Longrightarrow> rs_code (check_file fs rs) = rs_code rs"
    and "\<not> readable_file fs (full_path rs) \<Longrightarrow> rs_code (check_file fs rs) \<in> {403, 404}"
  using assms by (auto simp: check_file_def Let_def readable_file_def split: option.splits)

lemma ErrorHtml_cases:
  "rs_code (ErrorHtml fs rs) = rs_code rs"
  "rs_path (ErrorHtml fs rs) = (case CODE_PATH (rs_code rs) of None \<Rightarrow> rs_path rs | Some p \<Rightarrow> p)"
  by (auto simp: ErrorHtml_def Let_def split: option.splits)

lemma final_rs_path:
  assumes "rs_code rs = 200 \<or> rs_code rs = 400"
  shows "rs_path (final_rs fs rs) \<in> {''/400.html'', ''/403.html'', ''/404.html''} \<or>
    rs_path (final_rs fs rs) = rs_path rs \<and> rs_code (final_rs fs rs) = 200 \<and> readable_file fs (full_path rs)"
proof (cases "readable_file fs (full_path rs)")
  case True
  with check_file_cases[OF assms, of fs] assms show ?thesis
    by (auto simp: final_rs_def Let_def ErrorHtml_cases code_tables)
next
  case False
  with check_file_cases(3)[OF assms, of fs] show ?thesis
    by (auto simp: final_rs_def Let_def ErrorHtml_cases code_tables)
qed

text \<open>C19: The response written for a request is one well-framed HTTP message: a status line with a
  known code, the header lines, a Content-length line and the body, where the announced length is
  the number of body bytes in the buffer plus the number of bytes of the mapped file that follow
  them.\<close>

theorem MakeResponse_framed:
  assumes "buf_inv b" "length (response_text fs rs) < room b" "mmap_exact fs" "rs_mmFile rs = None"
  shows "\<exists>rs' b' w' n body. MakeResponse fs rs b w = Inr (rs', b', w') \<and> buf_inv b' \<and>
      rs_code rs' \<in> {200, 400, 403, 404} \<and>
      content b' = content b @ status_line (rs_code rs') @ concat (header_pieces rs') @ length_line n @ body \<and>
      n = length body + length (mapped_bytes rs')"
proof -
  let ?f = "final_rs fs rs" let ?sv = "served fs ?f"
  let ?body = "concat (tl (content_pieces ?f ?sv))"
  from MakeResponse_ok[OF assms(1,2)] obtain b' where
    b': "MakeResponse fs rs b w = Inr (content_rs ?sv ?f, b', content_os fs ?f w)" "buf_inv b'"
      "content b' = content b @ response_text fs rs" by blast
  have same: "rs_code (content_rs ?sv ?f) = rs_code ?f" "header_pieces (content_rs ?sv ?f) = header_pieces ?f"
    by (auto simp: content_rs_def header_pieces_def GetFileType_def split: served.splits)
  have "response_text fs rs = status_line (rs_code ?f) @ concat (header_pieces ?f) @
      length_line (content_length ?f ?sv) @ ?body"
    by (simp add: response_text_def response_pieces_def Let_def content_pieces_def)
  moreover have "content_length ?f ?sv = length ?body + length (mapped_bytes (content_rs ?sv ?f))"
    using assms(3,4) by (intro content_length_served) simp_all
  ultimately show ?thesis
    using b' same rs_code_status[of fs rs] by metis
qed

definition demo_fs :: fs_api where
  "demo_fs = \<lparr>
     fs_stat = (\<lambda>p. if p = ''/srv/index.html'' then Some \<lparr>st_isdir = False, st_roth = True, st_size = 3\<rparr>
                    else if p = ''/srv'' then Some \<lparr>st_isdir = True, st_roth = True, st_size = 4\<rparr> else None),
     fs_open = (\<lambda>p. p = ''/srv/index.html''),
     fs_mmap = (\<lambda>p n. Some (replicate n CHR ''x''))\<rparr>"

definition demo_rs :: HttpResponse where
  "demo_rs = Response_ctor\<lparr>rs_code := 200, rs_path := ''/index.html'', rs_srcDir := ''/srv''\<rparr>"

lemma demo_text_length: "length (response_text demo_fs demo_rs) = 82"
  by code_simp

theorem MakeResponse_framed_witness:
  "\<exists>rs' b' w' n body. MakeResponse demo_fs demo_rs small_buffer \<lparr>os_fds = 0, os_mapped = 0\<rparr> = Inr (rs', b', w') \<and>
      buf_inv b' \<and> rs_code rs' \<in> {200, 400, 403, 404} \<and>
      content b' = content small_buffer @ status_line (rs_code rs') @ concat (header_pieces rs') @ length_line n @ body \<and>
      n = length body + length (mapped_bytes rs')"
  by (rule MakeResponse_framed[OF small_buffer_inv])
    (simp_all add: demo_text_length, simp_all add: small_buffer_def room_def vec_max_def mmap_exact_def demo_fs_def demo_rs_def Response_ctor_def)

text \<open>C34: A file is only ever served when \<^verbatim>\<open>stat\<close> reports it as an existing, world-readable
  non-directory: if a mapping exists after building the response to an accepted request, it maps
  the requested path and that path was readable, or it maps one of the error pages.\<close>

theorem MakeResponse_serves_only_readable:
  assumes "rs_code rs = 200 \<or> rs_code rs = 400" "rs_mmFile rs = None"
    and "MakeResponse fs rs b w = Inr (rs', b', w')" "rs_mmFile rs' = Some m"
  shows "fs_mmap fs (full_path rs') (st_size (rs_stat rs')) = Some m \<and>
    (rs_path rs' \<in> {''/400.html'', ''/403.html'', ''/404.html''} \<or>
     rs_path rs' = rs_path rs \<and> rs_code rs' = 200 \<and> readable_file fs (full_path rs))"
proof -
  let ?f = "final_rs fs rs" let ?sv = "served fs ?f"
  have rs': "rs' = content_rs ?sv ?f"
    using assms(3) by (auto simp: MakeResponse_pieces Let_def res_bind_Inr_iff)
  with assms(2,4) have sv: "?sv = Mapped m"
    by (cases ?sv) (auto simp: content_rs_def)
  then have f: "full_path rs' = full_path ?f" "rs_path rs' = rs_path ?f" "rs_code rs' = rs_code ?f" "rs_stat rs' = rs_stat ?f"
    by (simp_all add: rs' content_rs_def full_path_def)
  have "fs_mmap fs (full_path ?f) (st_size (rs_stat ?f)) = Some m"
    using sv by (auto simp: served_def split: if_splits option.splits)
  with f final_rs_path[OF assms(1), of fs] show ?thesis by auto
qed

theorem MakeResponse_serves_only_readable_witness:
  "fs_mmap demo_fs (full_path (demo_rs\<lparr>rs_mmFile := Some ''xxx'', rs_stat := \<lparr>st_isdir = False, st_roth = True, st_size = 3\<rparr>\<rparr>)) 3 = Some ''xxx''"
proof -
  let ?f = "demo_rs\<lparr>rs_stat := \<lparr>st_isdir = False, st_roth = True, st_size = 3\<rparr>\<rparr>"
  have f: "final_rs demo_fs demo_rs = ?f" "served demo_fs ?f = Mapped ''xxx''" by code_simp+
  have "length (response_text demo_fs demo_rs) < room small_buffer"
    by (simp add: demo_text_length) (simp add: small_buffer_def room_def vec_max_def)
  from MakeResponse_ok[OF small_buffer_inv this, of "\<lparr>os_fds = 0, os_mapped = 0\<rparr>"] obtain b' w' where
    "MakeResponse demo_fs demo_rs small_buffer \<lparr>os_fds = 0, os_mapped = 0\<rparr> =
      Inr (?f\<lparr>rs_mmFile := Some ''xxx''\<rparr>, b', w')"
    by (auto simp: f content_rs_def)
  from MakeResponse_serves_only_readable[OF _ _ this, of "''xxx''"] show ?thesis
    by (simp add: demo_rs_def Response_ctor_def)
qed

text \<open>Descriptors and mappings are balanced across requests: after a response has been built and
  the object initialised again for the next request, the mapped bytes are back to what they were,
  and the number of open descriptors is unchanged unless mapping the opened file failed, in which
  case exactly one descriptor has been lost.\<close>

theorem MakeResponse_resources:
  assumes "MakeResponse fs rs b w = Inr (rs', b', w')" "rs_mmFile rs = None"
    and "Response_Init dir path ka code rs' w' = Inr (rs'', w'')"
  shows "os_mapped w'' = os_mapped w \<and> rs_mmFile rs'' = None \<and>
    os_fds w'' = os_fds w +
      (let f = final_rs fs rs in
       if fs_open fs (full_path f) \<and> st_size (rs_stat f) \<noteq> 0 \<and> fs_mmap fs (full_path f) (st_size (rs_stat f)) = None
       then 1 else 0)"
proof -
  let ?f = "final_rs fs rs" let ?sv = "served fs ?f"
  have m: "rs' = content_rs ?sv ?f" "w' = content_os fs ?f w"
    using assms(1) by (auto simp: MakeResponse_pieces Let_def res_bind_Inr_iff)
  have w'': "w'' = snd (UnmapFile rs' w')" and "rs_mmFile rs'' = None"
    using assms(3) by (auto simp: Response_Init_def UnmapFile_def cxx_assert_def Let_def split: if_splits option.splits)
  moreover have "os_mapped w'' = os_mapped w"
    using assms(2) unfolding w'' m
    by (auto simp: UnmapFile_def content_rs_def content_os_def split: served.splits option.splits)
  moreover have "os_fds w'' = os_fds (content_os fs ?f w)"
    unfolding w'' m by (auto simp: UnmapFile_def split: option.splits)
  ultimately show ?thesis
    by (auto simp: content_os_def served_def Let_def split: option.splits)
qed

theorem MakeResponse_resources_witness:
  "(let fs = demo_fs\<lparr>fs_mmap := (\<lambda>_ _. None)\<rparr>; f = final_rs fs demo_rs in
     fs_open fs (full_path f) \<and> st_size (rs_stat f) \<noteq> 0 \<and> fs_mmap fs (full_path f) (st_size (rs_stat f)) = None) \<and>
   (\<exists>rs' b' w' rs'' w''. MakeResponse (demo_fs\<lparr>fs_mmap := (\<lambda>_ _. None)\<rparr>) demo_rs small_buffer \<lparr>os_fds = 0, os_mapped = 0\<rparr> = Inr (rs', b', w') \<and>
      Response_Init ''/srv'' ''/'' False 200 rs' w' = Inr (rs'', w'') \<and> os_fds w'' = 1)"
proof -
  let ?fs = "demo_fs\<lparr>fs_mmap := (\<lambda>_ _. None)\<rparr>" and ?w = "\<lparr>os_fds = 0, os_mapped = 0\<rparr>"
  have c: "let f = final_rs ?fs demo_rs in
     fs_open ?fs (full_path f) \<and> st_size (rs_stat f) \<noteq> 0 \<and> fs_mmap ?fs (full_path f) (st_size (rs_stat f)) = None"
    by code_simp
  have "length (response_text ?fs demo_rs) = 203" by code_simp
  then have "length (response_text ?fs demo_rs) < room small_buffer"
    by simp (simp add: small_buffer_def room_def vec_max_def)
  from MakeResponse_ok[OF small_buffer_inv this, of ?w] obtain rs' b' w' where
    m: "MakeResponse ?fs demo_rs small_buffer ?w = Inr (rs', b', w')" by blast
  obtain rs'' w'' where i: "Response_Init ''/srv'' ''/'' False 200 rs' w' = Inr (rs'', w'')"
    by (simp add: Response_Init_def cxx_assert_def Let_def split_beta)
  have "rs_mmFile demo_rs = None" by (simp add: demo_rs_def Response_ctor_def)
  from MakeResponse_resources[OF m this i] c m i show ?thesis by (auto simp: Let_def)
qed


end
