(* ===== verification/TW_HttpConn.thy ===== *)
theory TW_HttpConn
  imports TW_HttpRequest TW_HttpResponse
begin

text \<open>
  The connection object of the web server (\<^verbatim>\<open>src/http/httpconn.cpp\<close>): reading a request from the
  socket, processing it into a response, and writing the response from the write buffer and the
  mapped file with \<^verbatim>\<open>writev\<close>. The two entries of \<^verbatim>\<open>iov_\<close> hold a pointer into the write buffer and one
  into the mapped file, both modelled as an area with an offset. \<^verbatim>\<open>iov_\<close> and \<^verbatim>\<open>iovCnt_\<close> are not
  initialised by the constructor, so their first values are arguments of it.

  The socket is a parameter: \<^verbatim>\<open>readv\<close> and \<^verbatim>\<open>writev\<close> are functions on a kernel state of any type. The
  loops carry fuel; \<open>read_loop_conserves\<close> and \<open>write_loop_conserves\<close> give an amount that is always enough.
\<close>

section \<open>Data\<close>

datatype area = InBuffer nat | InFile nat | Wild

record iovec =
  iov_base :: area
  iov_len :: nat

record sockaddr_in =
  sin_port :: "16 word"
  sin_addr :: "32 word"

record HttpConn =
  cn_fd :: int
  cn_addr :: sockaddr_in
  cn_isClose :: bool
  cn_keepAlive :: bool
  cn_iovCnt :: nat
  cn_iov0 :: iovec
  cn_iov1 :: iovec
  cn_readBuff :: buffer
  cn_writeBuff :: buffer
  cn_request :: HttpRequest
  cn_response :: HttpResponse

text \<open>The static members, and the descriptors the connections have closed.\<close>

record conn_static =
  isET :: bool
  srcDir :: string
  userCount :: "32 word"
  closed_fds :: "int list"

definition HttpConn_ctor :: "nat \<Rightarrow> iovec \<Rightarrow> iovec \<Rightarrow> HttpConn res" where
  "HttpConn_ctor cnt v0 v1 =
     res_bind (Buffer_ctor 1024) (\<lambda>rb. res_bind (Buffer_ctor 1024) (\<lambda>wb.
       Inr \<lparr>cn_fd = -1, cn_addr = \<lparr>sin_port = 0, sin_addr = 0\<rparr>, cn_isClose = True, cn_keepAlive = False,
            cn_iovCnt = cnt, cn_iov0 = v0, cn_iov1 = v1, cn_readBuff = rb, cn_writeBuff = wb,
            cn_request = Request_Init, cn_response = Response_ctor\<rparr>))"

section \<open>Operations\<close>

definition HttpConn_init ::
  "int \<Rightarrow> sockaddr_in \<Rightarrow> bool \<Rightarrow> HttpConn \<Rightarrow> conn_static \<Rightarrow> HttpConn \<times> conn_static" where
  "HttpConn_init fd addr isKeepAlive c g =
     (if fd \<le> 0 then (c, g)
      else (c\<lparr>cn_addr := addr, cn_fd := fd, cn_keepAlive := isKeepAlive,
             cn_writeBuff := RetrieveAll (cn_writeBuff c), cn_readBuff := RetrieveAll (cn_readBuff c),
             cn_isClose := False\<rparr>,
            g\<lparr>userCount := userCount g + 1\<rparr>))"

definition HttpConn_Close :: "HttpConn \<Rightarrow> conn_static \<Rightarrow> os \<Rightarrow> HttpConn \<times> conn_static \<times> os" where
  "HttpConn_Close c g w =
     (let (rs, w1) = UnmapFile (cn_response c) w; c1 = c\<lparr>cn_response := rs\<rparr> in
      if \<not> cn_isClose c1
      then (c1\<lparr>cn_isClose := True\<rparr>,
            g\<lparr>userCount := userCount g - 1, closed_fds := closed_fds g @ [cn_fd c1]\<rparr>, w1)
      else (c1, g, w1))"

definition HttpConn_dtor :: "HttpConn \<Rightarrow> conn_static \<Rightarrow> os \<Rightarrow> conn_static \<times> os" where
  "HttpConn_dtor c g w = snd (HttpConn_Close c g w)"

definition GetFd :: "HttpConn \<Rightarrow> int" where
  "GetFd c = cn_fd c"

definition GetAddr :: "HttpConn \<Rightarrow> sockaddr_in" where
  "GetAddr c = cn_addr c"

text \<open>\<^verbatim>\<open>inet_ntoa\<close> prints the four bytes of the address in memory order (little endian host).\<close>

definition GetIP :: "HttpConn \<Rightarrow> string" where
  "GetIP c =
     (let a = sin_addr (cn_addr c); byte = (\<lambda>i. show_nat (unat (drop_bit (8 * i) a) mod 256)) in
      byte 0 @ ''.'' @ byte 1 @ ''.'' @ byte 2 @ ''.'' @ byte 3)"

definition GetPort :: "HttpConn \<Rightarrow> int" where
  "GetPort c = uint (sin_port (cn_addr c))"

definition ToWriteBytes :: "HttpConn \<Rightarrow> int" where
  "ToWriteBytes c = size_to_int (size_add (iov_len (cn_iov0 c)) (iov_len (cn_iov1 c)))"

definition Conn_IsKeepAlive :: "HttpConn \<Rightarrow> bool" where
  "Conn_IsKeepAlive c \<longleftrightarrow> cn_keepAlive c \<and> IsKeepAlive (cn_request c)"

text \<open>The read loop. One call of \<^verbatim>\<open>readv\<close> gets the room of both areas of \<^verbatim>\<open>ReadFd\<close>. The error number
  keeps its last value when a later call succeeds.\<close>

type_synonym 's reader = "'s \<Rightarrow> nat \<Rightarrow> char list io_result \<times> 's"
type_synonym 's writer = "'s \<Rightarrow> char list \<Rightarrow> nat io_result \<times> 's"

fun read_loop ::
  "'s reader \<Rightarrow> bool \<Rightarrow> nat \<Rightarrow> buffer \<Rightarrow> int \<Rightarrow> 's \<Rightarrow> (int \<times> int \<times> buffer \<times> 's) res option" where
  "read_loop readv et 0 b err s = None"
| "read_loop readv et (Suc fuel) b err s =
     (let room = WritableBytes b + stack_buf_size; s1 = snd (readv s room) in
      case ReadFd (\<lambda>n. fst (readv s n)) b of
        Inl e \<Rightarrow> Some (Inl e)
      | Inr (len, errno, b1) \<Rightarrow>
          let err1 = (case errno of None \<Rightarrow> err | Some e \<Rightarrow> e) in
          if len \<le> 0 \<or> \<not> et then Some (Inr (len, err1, b1, s1))
          else read_loop readv et fuel b1 err1 s1)"

definition HttpConn_read ::
  "'s reader \<Rightarrow> conn_static \<Rightarrow> nat \<Rightarrow> HttpConn \<Rightarrow> int \<Rightarrow> 's \<Rightarrow> (int \<times> int \<times> HttpConn \<times> 's) res option" where
  "HttpConn_read readv g fuel c saveErrno s =
     (case read_loop readv (isET g) fuel (cn_readBuff c) saveErrno s of
        None \<Rightarrow> None
      | Some (Inl e) \<Rightarrow> Some (Inl e)
      | Some (Inr (len, err, b, s1)) \<Rightarrow> Some (Inr (len, err, c\<lparr>cn_readBuff := b\<rparr>, s1)))"

text \<open>What the kernel reads through one entry.\<close>

definition iov_bytes :: "HttpConn \<Rightarrow> iovec \<Rightarrow> char list res" where
  "iov_bytes c v =
     (if iov_len v = 0 then Inr []
      else case iov_base v of
             InBuffer p \<Rightarrow> mem_read p (iov_len v) (buffer (cn_writeBuff c))
           | InFile p \<Rightarrow> (case File (cn_response c) of
                            None \<Rightarrow> Inl OutOfBounds
                          | Some m \<Rightarrow> mem_read p (iov_len v) m)
           | Wild \<Rightarrow> Inl OutOfBounds)"

definition offered :: "HttpConn \<Rightarrow> char list res" where
  "offered c =
     res_bind (iov_bytes c (cn_iov0 c)) (\<lambda>x.
       if cn_iovCnt c = 1 then Inr x
       else res_bind (iov_bytes c (cn_iov1 c)) (\<lambda>y. Inr (x @ y)))"

fun area_add :: "area \<Rightarrow> nat \<Rightarrow> area" where
  "area_add (InBuffer p) n = InBuffer (size_add p n)"
| "area_add (InFile p) n = InFile (size_add p n)"
| "area_add Wild n = Wild"

text \<open>One round after \<^verbatim>\<open>writev\<close> took \<open>len > 0\<close> bytes: the entries are advanced.\<close>

definition advance :: "nat \<Rightarrow> HttpConn \<Rightarrow> HttpConn" where
  "advance len c =
     (let v0 = cn_iov0 c; v1 = cn_iov1 c in
      if iov_len v0 < len
      then let k = size_sub len (iov_len v0);
               c1 = c\<lparr>cn_iov1 := \<lparr>iov_base = area_add (iov_base v1) k, iov_len = size_sub (iov_len v1) k\<rparr>\<rparr> in
           if iov_len v0 \<noteq> 0
           then c1\<lparr>cn_writeBuff := RetrieveAll (cn_writeBuff c1), cn_iov0 := v0\<lparr>iov_len := 0\<rparr>\<rparr>
           else c1
      else c\<lparr>cn_iov0 := \<lparr>iov_base = area_add (iov_base v0) len, iov_len = size_sub (iov_len v0) len\<rparr>,
             cn_writeBuff := Retrieve len (cn_writeBuff c)\<rparr>)"

text \<open>The write loop. The error number it stores through its argument is not read by its caller and is left out.\<close>

fun write_loop ::
  "'s writer \<Rightarrow> nat \<Rightarrow> HttpConn \<Rightarrow> 's \<Rightarrow> (int \<times> HttpConn \<times> 's) res option" where
  "write_loop writev 0 c s = None"
| "write_loop writev (Suc fuel) c s =
     (case offered c of
        Inl e \<Rightarrow> Some (Inl e)
      | Inr bytes \<Rightarrow>
          (case writev s bytes of
             (IoErr errno, s1) \<Rightarrow> Some (Inr (-1, c, s1))
           | (IoOk len, s1) \<Rightarrow>
               if len = 0 then Some (Inr (0, c, s1))
               else if size_add (iov_len (cn_iov0 c)) (iov_len (cn_iov1 c)) = 0 then Some (Inr (int len, c, s1))
               else let c1 = advance len c in
                    if ToWriteBytes c1 > 0 then write_loop writev fuel c1 s1
                    else Some (Inr (int len, c1, s1))))"

definition HttpConn_write :: "'s writer \<Rightarrow> nat \<Rightarrow> HttpConn \<Rightarrow> 's \<Rightarrow> (int \<times> HttpConn \<times> 's) res option" where
  "HttpConn_write = write_loop"

definition process ::
  "'d db_api \<Rightarrow> fs_api \<Rightarrow> conn_static \<Rightarrow> HttpConn \<Rightarrow> 'd \<Rightarrow> os \<Rightarrow> (bool \<times> HttpConn \<times> 'd \<times> os) res" where
  "process api fs g c d w =
     (if ReadableBytes (cn_readBuff c) = 0
      then Inr (False, c\<lparr>cn_request := Request_Init\<rparr>, d, w)
      else
        res_bind (parse api Request_Init (cn_readBuff c) d) (\<lambda>(ok, rq, rb, d1).
        res_bind (if ok then Response_Init (srcDir g) (rq_path rq) (IsKeepAlive rq) 200 (cn_response c) w
                  else Response_Init (srcDir g) (rq_path rq) False 400 (cn_response c) w) (\<lambda>(rs, w1).
        res_bind (MakeResponse fs rs (cn_writeBuff c) w1) (\<lambda>(rs1, wb, w2).
          let c1 = c\<lparr>cn_readBuff := rb, cn_request := rq, cn_response := rs1, cn_writeBuff := wb,
                     cn_iov0 := \<lparr>iov_base = InBuffer (Peek wb), iov_len = ReadableBytes wb\<rparr>, cn_iovCnt := 1\<rparr>;
              c2 = (if FileLen rs1 > 0 \<and> File rs1 \<noteq> None
                    then c1\<lparr>cn_iov1 := \<lparr>iov_base = InFile 0, iov_len = FileLen rs1\<rparr>, cn_iovCnt := 2\<rparr>
                    else c1)
          in Inr (True, c2, d1, w2)))))"

section \<open>Reading conserves the byte stream\<close>

text \<open>What the code relies on of \<^verbatim>\<open>readv\<close>: it delivers the next bytes of the peer's stream, at most as
  many as there is room for, and an error consumes nothing. A socket that is \<open>prompt\<close> only reports
  an error or end of file when nothing is left to deliver.\<close>

definition reader_ok :: "'s reader \<Rightarrow> ('s \<Rightarrow> char list) \<Rightarrow> bool" where
  "reader_ok readv stream \<longleftrightarrow> (\<forall>s n. case readv s n of
      (IoOk bs, s') \<Rightarrow> stream s = bs @ stream s' \<and> length bs \<le> n
    | (IoErr _, s') \<Rightarrow> stream s' = stream s)"

definition prompt :: "'s reader \<Rightarrow> ('s \<Rightarrow> char list) \<Rightarrow> bool" where
  "prompt readv stream \<longleftrightarrow> (\<forall>s n. n > 0 \<longrightarrow> stream s \<noteq> [] \<longrightarrow> (\<exists>bs s'. readv s n = (IoOk bs, s') \<and> bs \<noteq> []))"

lemma reader_okD:
  assumes "reader_ok readv stream"
  shows "readv s n = (IoOk bs, s') \<Longrightarrow> stream s = bs @ stream s' \<and> length bs \<le> n"
    and "readv s n = (IoErr e, s') \<Longrightarrow> stream s' = stream s"
  using assms unfolding reader_ok_def by (auto dest!: spec[of _ s] spec[of _ n])

lemma ReadFd_err: "readv (WritableBytes b + stack_buf_size) = IoErr e \<Longrightarrow> ReadFd readv b = Inr (-1, Some e, b)"
  by (simp add: ReadFd_def)

lemma read_loop_conserves:
  assumes "reader_ok readv stream" "buf_inv b"
    and "length (buffer b) + 2 * length (stream s) + stack_buf_size + 1 < vec_max"
    and "length (stream s) < fuel"
  shows "\<exists>len err' b' s'. read_loop readv et fuel b err s = Some (Inr (len, err', b', s')) \<and>
     buf_inv b' \<and> content b' @ stream s' = content b @ stream s \<and>
     (et \<longrightarrow> prompt readv stream \<longrightarrow> stream s' = [])"
  using assms(2-4)
proof (induction fuel arbitrary: b err s)
  case 0
  then show ?case by simp
next
  case (Suc fuel)
  let ?n = "WritableBytes b + stack_buf_size"
  have pos: "?n > 0" by (simp add: stack_buf_size_def)
  obtain r s1 where r: "readv s ?n = (r, s1)" by fastforce
  show ?case
  proof (cases r)
    case (IoErr e)
    then have "stream s1 = stream s" using reader_okD(2)[OF assms(1)] r by blast
    moreover have "stream s = []" if "prompt readv stream"
      using that[unfolded prompt_def, rule_format, OF pos, of s] r IoErr by auto
    ultimately show ?thesis using Suc.prems r IoErr by (auto simp: ReadFd_err Let_def)
  next
    case (IoOk bs)
    with reader_okD(1)[OF assms(1), of s ?n bs s1] r have st: "stream s = bs @ stream s1" "length bs \<le> ?n" by auto
    define rd where "rd = (\<lambda>n. fst (readv s n))"
    have io: "rd ?n = IoOk bs" using r IoOk by (simp add: rd_def)
    from ReadFd_ok[of b rd bs, OF Suc.prems(1) io st(2)] Suc.prems(2) obtain b1 where
      b1: "ReadFd rd b = Inr (int (length bs), None, b1)" "buf_inv b1" "content b1 = content b @ bs"
      by auto
    show ?thesis
    proof (cases "bs = [] \<or> \<not> et")
      case True
      moreover have "stream s = []" if "prompt readv stream" "bs = []"
        using that(1)[unfolded prompt_def, rule_format, OF pos, of s] r IoOk that(2) by auto
      ultimately show ?thesis using b1 st r by (auto simp: Let_def rd_def)
    next
      case False
      have "length (buffer b1) + 2 * length (stream s1) + stack_buf_size + 1 < vec_max"
        using ReadFd_length[of rd b bs, OF b1(1) io] Suc.prems(2) st(1) by simp
      moreover have "length (stream s1) < fuel"
        using Suc.prems(3) st(1) False by (cases bs) auto
      ultimately show ?thesis
        using Suc.IH[OF b1(2), of s1 err] False b1 st r by (auto simp: Let_def rd_def)
    qed
  qed
qed

section \<open>Writing conserves the response\<close>

text \<open>What the code relies on of \<^verbatim>\<open>writev\<close>: it takes a prefix of what it is offered.\<close>

definition writer_ok :: "'s writer \<Rightarrow> ('s \<Rightarrow> char list) \<Rightarrow> bool" where
  "writer_ok writev sent \<longleftrightarrow> (\<forall>s bs. case writev s bs of
      (IoOk n, s') \<Rightarrow> n \<le> length bs \<and> sent s' = sent s @ take n bs
    | (IoErr _, s') \<Rightarrow> sent s' = sent s)"

lemma writer_okD:
  assumes "writer_ok writev sent"
  shows "writev s bs = (IoOk n, s') \<Longrightarrow> n \<le> length bs \<and> sent s' = sent s @ take n bs"
    and "writev s bs = (IoErr e, s') \<Longrightarrow> sent s' = sent s"
  using assms unfolding writer_ok_def by (auto dest!: spec[of _ s] spec[of _ bs])

text \<open>The invariant of the two entries, and the bytes still to be sent.\<close>

definition file_rest :: "HttpConn \<Rightarrow> char list" where
  "file_rest c =
     (case (iov_base (cn_iov1 c), File (cn_response c)) of
        (InFile p, Some m) \<Rightarrow> (if iov_len (cn_iov1 c) = 0 then [] else drop p m)
      | _ \<Rightarrow> [])"

definition out_inv :: "HttpConn \<Rightarrow> bool" where
  "out_inv c \<longleftrightarrow> buf_inv (cn_writeBuff c) \<and>
     iov_len (cn_iov0 c) = ReadableBytes (cn_writeBuff c) \<and>
     (iov_len (cn_iov0 c) = 0 \<or> iov_base (cn_iov0 c) = InBuffer (readPos (cn_writeBuff c))) \<and>
     iov_len (cn_iov1 c) = length (file_rest c) \<and>
     (case File (cn_response c) of None \<Rightarrow> True | Some m \<Rightarrow> length m \<le> vec_max) \<and>
     (cn_iovCnt c = 2 \<or> cn_iovCnt c = 1 \<and> iov_len (cn_iov1 c) = 0) \<and>
     iov_len (cn_iov0 c) + iov_len (cn_iov1 c) < 2 ^ 31"

definition pending :: "HttpConn \<Rightarrow> char list" where
  "pending c = content (cn_writeBuff c) @ file_rest c"

lemma iov0_bytes: "out_inv c \<Longrightarrow> iov_bytes c (cn_iov0 c) = Inr (content (cn_writeBuff c))"
proof -
  assume inv: "out_inv c"
  then have "buf_inv (cn_writeBuff c)" by (simp add: out_inv_def)
  with inv length_content[OF this] show ?thesis
    by (auto simp: out_inv_def iov_bytes_def buf_sizes buf_inv_def content_def slice_def mem_simps)
qed

lemma iov1_bytes: "out_inv c \<Longrightarrow> iov_bytes c (cn_iov1 c) = Inr (file_rest c)"
  by (auto simp: out_inv_def iov_bytes_def file_rest_def mem_read_def split: area.splits option.splits if_splits)

lemma offered_ok: "out_inv c \<Longrightarrow> offered c = Inr (pending c)"
  using iov0_bytes[of c] iov1_bytes[of c] by (auto simp: offered_def pending_def out_inv_def)

lemma length_pending: "out_inv c \<Longrightarrow> length (pending c) = iov_len (cn_iov0 c) + iov_len (cn_iov1 c)"
  by (simp add: pending_def out_inv_def length_content)

lemma ToWriteBytes_pending: "out_inv c \<Longrightarrow> ToWriteBytes c = int (length (pending c))"
  unfolding length_pending ToWriteBytes_def
  by (subst size_add_small, simp add: out_inv_def) (simp add: size_to_int_small out_inv_def)


lemma advance_file:
  assumes inv: "out_inv c" and n: "iov_len (cn_iov0 c) < n" "n \<le> length (pending c)"
  shows "out_inv (advance n c) \<and> pending (advance n c) = drop n (pending c)"
proof -
  let ?l0 = "iov_len (cn_iov0 c)" and ?l1 = "iov_len (cn_iov1 c)"
  let ?k = "n - ?l0"
  have k: "?k > 0" "?k \<le> ?l1" using n length_pending[OF inv] by auto
  then obtain p m where pm: "iov_base (cn_iov1 c) = InFile p" "File (cn_response c) = Some m"
      "file_rest c = drop p m" "?l1 = length m - p"
    using inv by (auto simp: out_inv_def file_rest_def split: area.splits option.splits if_splits)
  have m: "length m \<le> vec_max" using inv pm by (simp add: out_inv_def)
  have two: "cn_iovCnt c = 2" using inv k by (auto simp: out_inv_def)
  have small: "?l0 + ?l1 < 2 ^ 31" using inv by (simp add: out_inv_def)
  have "p + ?k < 2 ^ 64" using m k pm(4) by (simp add: vec_max_def)
  then have subs: "size_sub n ?l0 = ?k" "size_sub ?l1 ?k = ?l1 - ?k" "size_add p ?k = p + ?k"
    using n(1) k(2) small by (simp_all add: size_sub_le size_add_small)
  let ?v1 = "\<lparr>iov_base = InFile (p + ?k), iov_len = ?l1 - ?k\<rparr>"
  have rest: "file_rest (c'\<lparr>cn_iov1 := ?v1\<rparr>) = drop ?k (file_rest c)" if "cn_response c' = cn_response c" for c'
    using that pm k by (auto simp: file_rest_def add.commute)
  have cb: "buf_inv (cn_writeBuff c)" "length (content (cn_writeBuff c)) = ?l0"
    using inv by (auto simp: out_inv_def length_content)
  have all: "buf_inv (RetrieveAll (cn_writeBuff c))" "content (RetrieveAll (cn_writeBuff c)) = []"
    using RetrieveAll_ok[OF cb(1)] by auto
  show ?thesis
  proof (cases "?l0 = 0")
    case True
    then have "advance n c = c\<lparr>cn_iov1 := ?v1\<rparr>" using n subs pm by (simp add: advance_def Let_def)
    moreover have "out_inv (c\<lparr>cn_iov1 := ?v1\<rparr>)"
      using inv rest[of c] two m pm small by (auto simp: out_inv_def add.commute)
    ultimately show ?thesis using rest[of c] cb True by (simp add: pending_def)
  next
    case False
    let ?c = "c\<lparr>cn_iov1 := ?v1, cn_writeBuff := RetrieveAll (cn_writeBuff c), cn_iov0 := (cn_iov0 c)\<lparr>iov_len := 0\<rparr>\<rparr>"
    have r: "file_rest ?c = drop ?k (file_rest c)" using pm k by (auto simp: file_rest_def add.commute)
    have "advance n c = ?c" using n subs pm False by (simp add: advance_def Let_def)
    moreover have "out_inv ?c"
      using inv r two m pm small all length_content[OF all(1)] by (auto simp: out_inv_def add.commute)
    ultimately show ?thesis using r all cb n by (simp add: pending_def)
  qed
qed

lemma advance_buffer:
  assumes inv: "out_inv c" and n: "n \<le> iov_len (cn_iov0 c)"
  shows "out_inv (advance n c) \<and> pending (advance n c) = drop n (pending c)"
proof -
  let ?wb = "cn_writeBuff c"
  have b: "buf_inv ?wb" "iov_len (cn_iov0 c) = ReadableBytes ?wb" "length (content ?wb) = ReadableBytes ?wb"
    using inv by (auto simp: out_inv_def length_content)
  note ret = Retrieve_ok[OF b(1), of n]
  have len: "ReadableBytes (Retrieve n ?wb) = ReadableBytes ?wb - n"
    using ret b n length_content[OF ret(1)] by simp
  have rd: "ReadableBytes ?wb < 2 ^ 63" using b(1) by (auto simp: buf_sizes buf_inv_def vec_max_def)
  have sub: "size_sub (iov_len (cn_iov0 c)) n = ReadableBytes ?wb - n"
    using rd n b(2) by (simp add: size_sub_le)
  let ?c = "advance n c"
  have f: "cn_writeBuff ?c = Retrieve n ?wb" "cn_iov1 ?c = cn_iov1 c" "cn_response ?c = cn_response c"
    "cn_iovCnt ?c = cn_iovCnt c" "iov_len (cn_iov0 ?c) = ReadableBytes ?wb - n"
    "iov_base (cn_iov0 ?c) = area_add (iov_base (cn_iov0 c)) n"
    using n sub by (simp_all add: advance_def Let_def)
  then have r: "file_rest ?c = file_rest c" by (simp only: file_rest_def)
  have "out_inv ?c"
    using inv f r ret len n b by (auto simp: out_inv_def Retrieve_def)
  moreover have "pending ?c = drop n (pending c)"
    using r f ret n b by (simp add: pending_def)
  ultimately show ?thesis by blast
qed

lemma advance_ok:
  assumes "out_inv c" "n \<le> length (pending c)"
  shows "out_inv (advance n c)" "pending (advance n c) = drop n (pending c)"
  using advance_file[OF assms(1) _ assms(2)] advance_buffer[OF assms(1)] by (meson not_le)+

lemma write_loop_conserves:
  assumes "writer_ok writev sent" "out_inv c" "length (pending c) < fuel"
  shows "\<exists>len c' s' k. write_loop writev fuel c s = Some (Inr (len, c', s')) \<and> out_inv c' \<and>
     sent s' = sent s @ take k (pending c) \<and> pending c' = drop k (pending c) \<and> (len > 0 \<longrightarrow> pending c' = [])"
  using assms(2,3)
proof (induction fuel arbitrary: c s)
  case 0
  then show ?case by simp
next
  case (Suc fuel)
  note off = offered_ok[OF Suc.prems(1)]
  obtain r s1 where r: "writev s (pending c) = (r, s1)" by fastforce
  show ?case
  proof (cases r)
    case (IoErr e)
    with r writer_okD(2)[OF assms(1)] have "sent s1 = sent s" by blast
    then show ?thesis using off r IoErr Suc.prems(1) by (auto intro!: exI[of _ 0])
  next
    case (IoOk n)
    with r writer_okD(1)[OF assms(1)] have n: "n \<le> length (pending c)" "sent s1 = sent s @ take n (pending c)" by blast+
    show ?thesis
    proof (cases "n = 0")
      case True
      then show ?thesis using off r IoOk n Suc.prems(1) by (auto intro!: exI[of _ 0])
    next
      case False
      let ?c = "advance n c"
      note adv = advance_ok[OF Suc.prems(1) n(1)]
      have "iov_len (cn_iov0 c) + iov_len (cn_iov1 c) < 2 ^ 31" using Suc.prems(1) by (simp add: out_inv_def)
      then have ne: "size_add (iov_len (cn_iov0 c)) (iov_len (cn_iov1 c)) \<noteq> 0"
        using False n(1) length_pending[OF Suc.prems(1)] by (subst size_add_small) auto
      have step: "write_loop writev (Suc fuel) c s =
          (if pending ?c \<noteq> [] then write_loop writev fuel ?c s1 else Some (Inr (int n, ?c, s1)))"
        using off r IoOk False ne ToWriteBytes_pending[OF adv(1)] by (simp add: Let_def)
      show ?thesis
      proof (cases "pending ?c = []")
        case True
        then show ?thesis using step adv n by (auto intro!: exI[of _ n])
      next
        case more: False
        have "length (pending ?c) < fuel" using adv(2) Suc.prems(2) False n by simp
        from Suc.IH[OF adv(1) this, of s1] obtain len c' s' k where
          "write_loop writev fuel ?c s1 = Some (Inr (len, c', s'))" "out_inv c'"
          "sent s' = sent s1 @ take k (pending ?c)" "pending c' = drop k (pending ?c)" "len > 0 \<longrightarrow> pending c' = []"
          by blast
        then show ?thesis using step more n adv(2)
          by (auto intro!: exI[of _ "n + k"] simp: take_add add.commute[of k n])
      qed
    qed
  qed
qed

text \<open>A kernel that always takes some of what it is offered lets the loop end with everything sent.\<close>

definition eager :: "'s writer \<Rightarrow> bool" where
  "eager writev \<longleftrightarrow> (\<forall>s bs. bs \<noteq> [] \<longrightarrow> (\<exists>n s'. writev s bs = (IoOk n, s') \<and> n > 0))"

lemma write_loop_eager:
  assumes "writer_ok writev sent" "eager writev" "out_inv c" "pending c \<noteq> []" "write_loop writev fuel c s = Some (Inr (len, c', s'))"
  shows "len > 0"
  using assms(3-5)
proof (induction fuel arbitrary: c s)
  case (Suc fuel)
  obtain n s1 where w: "writev s (pending c) = (IoOk n, s1)" "n > 0" using assms(2) Suc.prems(2) unfolding eager_def by blast
  have n: "n \<le> length (pending c)" using writer_okD(1)[OF assms(1)] w(1) by blast
  note adv = advance_ok[OF Suc.prems(1) n]
  show ?case
  proof (cases "ToWriteBytes (advance n c) > 0 \<and> size_add (iov_len (cn_iov0 c)) (iov_len (cn_iov1 c)) \<noteq> 0")
    case True
    then have "pending (advance n c) \<noteq> []" using ToWriteBytes_pending[OF adv(1)] by auto
    moreover have "write_loop writev fuel (advance n c) s1 = Some (Inr (len, c', s'))"
      using True Suc.prems(3) offered_ok[OF Suc.prems(1)] w by (simp add: Let_def)
    ultimately show ?thesis using Suc.IH adv(1) by blast
  next
    case False
    then show ?thesis using Suc.prems(3) offered_ok[OF Suc.prems(1)] w by (auto simp: Let_def split: if_splits)
  qed
qed simp


section \<open>Processing a request\<close>

definition fresh_rs :: "conn_static \<Rightarrow> bool \<Rightarrow> HttpRequest \<Rightarrow> HttpResponse" where
  "fresh_rs g ok rq = \<lparr>rs_code = (if ok then 200 else 400), rs_keepAlive = (ok \<and> IsKeepAlive rq),
     rs_path = rq_path rq, rs_srcDir = srcDir g, rs_mmFile = None, rs_stat = stat_zero\<rparr>"

lemma Response_Init_fresh:
  assumes "srcDir g \<noteq> []"
  shows "\<exists>w1. (if ok then Response_Init (srcDir g) (rq_path rq) (IsKeepAlive rq) 200 rs w
               else Response_Init (srcDir g) (rq_path rq) False 400 rs w) = Inr (fresh_rs g ok rq, w1)"
  using assms by (auto simp: Response_Init_def cxx_assert_def Let_def fresh_rs_def split_beta)

text \<open>A connection with nothing left to send from an earlier response.\<close>

definition idle_out :: "HttpConn \<Rightarrow> bool" where
  "idle_out c \<longleftrightarrow> buf_inv (cn_writeBuff c) \<and> content (cn_writeBuff c) = [] \<and> iov_len (cn_iov1 c) = 0"

lemma content_rs_code: "rs_code (content_rs sv rs) = rs_code rs"
  by (simp add: content_rs_def split: served.splits)

lemma served_mapped:
  assumes "mmap_exact fs" "rs_mmFile rs = None"
  shows "(FileLen (content_rs (served fs rs) rs) > 0 \<and> File (content_rs (served fs rs) rs) \<noteq> None) \<longleftrightarrow>
           (\<exists>m. served fs rs = Mapped m)"
    and "served fs rs = Mapped m \<Longrightarrow> length m = st_size (rs_stat rs)"
  using assms by (auto simp: content_rs_def served_def File_def FileLen_def mmap_exact_def split: option.splits if_splits)

lemma process_ok:
  assumes parse: "parse api Request_Init (cn_readBuff c) d = Inr (ok, rq, rb, d1)"
    and readable: "ReadableBytes (cn_readBuff c) \<noteq> 0" and src: "srcDir g \<noteq> []" and fs: "mmap_exact fs"
    and idle: "idle_out c" and fits: "length (response_text fs (fresh_rs g ok rq)) < room (cn_writeBuff c)"
  defines "f \<equiv> final_rs fs (fresh_rs g ok rq)"
  defines "rs1 \<equiv> content_rs (served fs f) f"
  assumes small: "length (response_text fs (fresh_rs g ok rq)) + length (mapped_bytes rs1) < 2 ^ 31"
  shows "\<exists>c' w'. process api fs g c d w = Inr (True, c', d1, w') \<and> out_inv c' \<and> cn_response c' = rs1 \<and>
     cn_request c' = rq \<and> cn_readBuff c' = rb \<and>
     pending c' = response_text fs (fresh_rs g ok rq) @ mapped_bytes rs1"
proof -
  obtain w1 where i: "(if ok then Response_Init (srcDir g) (rq_path rq) (IsKeepAlive rq) 200 (cn_response c) w
     else Response_Init (srcDir g) (rq_path rq) False 400 (cn_response c) w) = Inr (fresh_rs g ok rq, w1)"
    using Response_Init_fresh[OF src] by blast
  have "buf_inv (cn_writeBuff c)" using idle by (simp add: idle_out_def)
  from MakeResponse_ok[OF this fits, of w1] idle obtain wb w2 where
    m: "MakeResponse fs (fresh_rs g ok rq) (cn_writeBuff c) w1 = Inr (rs1, wb, w2)" "buf_inv wb"
      "content wb = response_text fs (fresh_rs g ok rq)"
    unfolding f_def rs1_def idle_out_def by auto
  have none: "rs_mmFile f = None" by (simp add: f_def fresh_rs_def)
  let ?c1 = "c\<lparr>cn_readBuff := rb, cn_request := rq, cn_response := rs1, cn_writeBuff := wb,
     cn_iov0 := \<lparr>iov_base = InBuffer (Peek wb), iov_len = ReadableBytes wb\<rparr>, cn_iovCnt := 1\<rparr>"
  let ?c' = "if FileLen rs1 > 0 \<and> File rs1 \<noteq> None
     then ?c1\<lparr>cn_iov1 := \<lparr>iov_base = InFile 0, iov_len = FileLen rs1\<rparr>, cn_iovCnt := 2\<rparr> else ?c1"
  have p: "process api fs g c d w = Inr (True, ?c', d1, w2)"
    using readable parse i m(1) by (simp add: process_def Let_def)
  have "file_rest ?c' = mapped_bytes rs1 \<and> out_inv ?c'"
  proof (cases "\<exists>x. served fs f = Mapped x")
    case True
    then obtain x where x: "served fs f = Mapped x" by blast
    then have rs1: "rs1 = f\<lparr>rs_mmFile := Some x\<rparr>" "length x = FileLen rs1"
      using served_mapped(2)[OF fs none x] by (auto simp: rs1_def content_rs_def FileLen_def)
    have c: "?c' = ?c1\<lparr>cn_iov1 := \<lparr>iov_base = InFile 0, iov_len = FileLen rs1\<rparr>, cn_iovCnt := 2\<rparr>"
      and pos: "FileLen rs1 > 0"
      using served_mapped(1)[OF fs none] x unfolding rs1_def by auto
    have "length x \<le> vec_max" using small by (simp add: rs1(1) mapped_bytes_def vec_max_def)
    then show ?thesis unfolding c using m small rs1 pos
      by (simp add: out_inv_def file_rest_def mapped_bytes_def File_def Peek_def flip: length_content)
  next
    case False
    then have none1: "rs_mmFile rs1 = None" using none by (auto simp: rs1_def content_rs_def split: served.splits)
    have c: "?c' = ?c1" using served_mapped(1)[OF fs none] False unfolding rs1_def by auto
    show ?thesis unfolding c using m small idle none1
      by (simp add: out_inv_def file_rest_def mapped_bytes_def File_def Peek_def idle_out_def flip: length_content split: area.splits)
  qed
  moreover have "cn_writeBuff ?c' = wb" "cn_response ?c' = rs1" "cn_request ?c' = rq" "cn_readBuff ?c' = rb" by auto
  ultimately show ?thesis using p m(3) by (auto simp only: pending_def intro!: exI[of _ ?c'] exI[of _ w2])
qed


section \<open>Properties\<close>

text \<open>C32: Reading from the socket neither loses, duplicates nor reorders bytes: the read loop ends (each
  round but the last takes at least one byte of the stream), the buffer's content followed by what
  is left of the peer's stream is what it was before, and in edge-triggered mode, on a socket that
  only reports an error or end of file when nothing is left, the whole stream is in the buffer.\<close>

theorem HttpConn_read_conserves:
  assumes "reader_ok readv stream" "buf_inv (cn_readBuff c)"
    and "length (buffer (cn_readBuff c)) + 2 * length (stream s) + stack_buf_size + 1 < vec_max"
    and "length (stream s) < fuel"
  shows "\<exists>len err' c' s'. HttpConn_read readv g fuel c err s = Some (Inr (len, err', c', s')) \<and>
     buf_inv (cn_readBuff c') \<and> content (cn_readBuff c') @ stream s' = content (cn_readBuff c) @ stream s \<and>
     (isET g \<longrightarrow> prompt readv stream \<longrightarrow> stream s' = [])"
proof -
  from read_loop_conserves[OF assms, of "isET g" err] obtain len err' b' s' where
    "read_loop readv (isET g) fuel (cn_readBuff c) err s = Some (Inr (len, err', b', s'))" "buf_inv b'"
    "content b' @ stream s' = content (cn_readBuff c) @ stream s"
    "isET g \<longrightarrow> prompt readv stream \<longrightarrow> stream s' = []" by blast
  then show ?thesis by (auto simp: HttpConn_read_def)
qed

text \<open>A socket that delivers at most two bytes at a time and then reports \<^verbatim>\<open>EAGAIN\<close> (11), and one that
  takes at most three bytes at a time.\<close>

definition two_reader :: "string reader" where
  "two_reader s n = (if s = [] then (IoErr 11, s) else (IoOk (take (min 2 n) s), drop (min 2 n) s))"

definition three_writer :: "string writer" where
  "three_writer s bs = (IoOk (min 3 (length bs)), s @ take 3 bs)"

definition idle_conn :: HttpConn where
  "idle_conn = \<lparr>cn_fd = 7, cn_addr = \<lparr>sin_port = 0, sin_addr = 0\<rparr>, cn_isClose = False, cn_keepAlive = True,
     cn_iovCnt = 0, cn_iov0 = \<lparr>iov_base = Wild, iov_len = 0\<rparr>, cn_iov1 = \<lparr>iov_base = Wild, iov_len = 0\<rparr>,
     cn_readBuff = buffer_of ''GET /nofile HTTP/1.1'', cn_writeBuff = buffer_of [],
     cn_request = Request_Init, cn_response = Response_ctor\<rparr>"

lemma two_reader_ok: "reader_ok two_reader (\<lambda>s. s)" "prompt two_reader (\<lambda>s. s)"
  by (auto simp: reader_ok_def prompt_def two_reader_def)

lemma three_writer_ok: "writer_ok three_writer (\<lambda>s. s)"
  by (auto simp: writer_ok_def three_writer_def min_def)

theorem HttpConn_read_conserves_witness:
  "\<exists>len err' c' s'.
     HttpConn_read two_reader \<lparr>isET = True, srcDir = ''/srv'', userCount = 0, closed_fds = []\<rparr> 9 idle_conn 0 ''\<newline>abcd'' = Some (Inr (len, err', c', s')) \<and>
     buf_inv (cn_readBuff c') \<and> content (cn_readBuff c') @ s' = content (cn_readBuff idle_conn) @ ''\<newline>abcd'' \<and>
     (isET \<lparr>isET = True, srcDir = ''/srv'', userCount = 0, closed_fds = []\<rparr> \<longrightarrow> prompt two_reader (\<lambda>s. s) \<longrightarrow> s' = [])"
  by (rule HttpConn_read_conserves[OF two_reader_ok(1)])
    (simp_all add: idle_conn_def buf_inv_buffer_of vec_max_def stack_buf_size_def, simp_all add: buffer_of_def)

text \<open>C15: Partial writes never lose, duplicate or reorder bytes of a response: for any socket that takes
  a prefix of what it is offered, the write loop ends after at most one round per pending byte, the
  bytes sent are a prefix of the pending bytes, the connection still holds exactly the rest, and a
  positive result means everything was sent.\<close>

theorem HttpConn_write_conserves:
  assumes "writer_ok writev sent" "out_inv c" "length (pending c) < fuel"
  shows "\<exists>len c' s' k. HttpConn_write writev fuel c s = Some (Inr (len, c', s')) \<and> out_inv c' \<and>
     sent s' = sent s @ take k (pending c) \<and> pending c' = drop k (pending c) \<and> (len > 0 \<longrightarrow> pending c' = [])"
  unfolding HttpConn_write_def using assms by (rule write_loop_conserves)

definition busy_conn :: HttpConn where
  "busy_conn = idle_conn\<lparr>cn_iovCnt := 2, cn_writeBuff := buffer_of ''HTTP'',
     cn_iov0 := \<lparr>iov_base = InBuffer 0, iov_len = 4\<rparr>, cn_iov1 := \<lparr>iov_base = InFile 0, iov_len = 2\<rparr>,
     cn_response := Response_ctor\<lparr>rs_mmFile := Some ''xy''\<rparr>\<rparr>"

lemma busy_conn_ok: "out_inv busy_conn" "pending busy_conn = ''HTTPxy''"
  by (simp_all add: out_inv_def pending_def busy_conn_def idle_conn_def file_rest_def File_def vec_max_def
      buf_inv_buffer_of buf_sizes) (simp_all add: buffer_of_def ReadableBytes_def size_sub_def)

theorem HttpConn_write_conserves_witness:
  "\<exists>len c' s' k. HttpConn_write three_writer 7 busy_conn [] = Some (Inr (len, c', s')) \<and> out_inv c' \<and>
     s' = [] @ take k (pending busy_conn) \<and> pending c' = drop k (pending busy_conn) \<and> (len > 0 \<longrightarrow> pending c' = [])"
  by (rule HttpConn_write_conserves[OF three_writer_ok busy_conn_ok(1)]) (simp add: busy_conn_ok(2))

text \<open>C4: Processing a request and writing the result sends the response that was computed: on an idle
  connection with a parsed request, \<^verbatim>\<open>process\<close> followed by \<^verbatim>\<open>write\<close> sends a prefix of the response's
  head and inline body followed by the mapped file, the rest stays pending, and nothing is left when
  \<^verbatim>\<open>write\<close> returns a positive number.\<close>

theorem process_then_write:
  assumes "parse api Request_Init (cn_readBuff c) d = Inr (ok, rq, rb, d1)"
    and "ReadableBytes (cn_readBuff c) \<noteq> 0" "srcDir g \<noteq> []" "mmap_exact fs" "idle_out c"
    and "length (response_text fs (fresh_rs g ok rq)) < room (cn_writeBuff c)"
    and "rs1 = (let f = final_rs fs (fresh_rs g ok rq) in content_rs (served fs f) f)"
    and "length (response_text fs (fresh_rs g ok rq)) + length (mapped_bytes rs1) < 2 ^ 31"
    and "writer_ok writev sent" "fuel \<ge> 2 ^ 31"
  shows "\<exists>c1 w1 len c2 s' rest. process api fs g c d w = Inr (True, c1, d1, w1) \<and>
     HttpConn_write writev fuel c1 s = Some (Inr (len, c2, s')) \<and> pending c2 = rest \<and>
     sent s' @ rest = sent s @ response_text fs (fresh_rs g ok rq) @ mapped_bytes rs1 \<and>
     (len > 0 \<longrightarrow> rest = [])"
proof -
  have s: "length (response_text fs (fresh_rs g ok rq)) +
      length (mapped_bytes (content_rs (served fs (final_rs fs (fresh_rs g ok rq))) (final_rs fs (fresh_rs g ok rq)))) < 2 ^ 31"
    using assms(7,8) by (simp add: Let_def)
  from process_ok[OF assms(1-6) s, of w] obtain c1 w1 where
    p: "process api fs g c d w = Inr (True, c1, d1, w1)" "out_inv c1"
      "pending c1 = response_text fs (fresh_rs g ok rq) @ mapped_bytes rs1"
    using assms(7) by (auto simp: Let_def)
  have "length (pending c1) < fuel" using p(3) assms(8,10) by simp
  from write_loop_conserves[OF assms(9) p(2) this, of s] obtain len c2 s' k where
    "write_loop writev fuel c1 s = Some (Inr (len, c2, s'))" "sent s' = sent s @ take k (pending c1)"
    "pending c2 = drop k (pending c1)" "len > 0 \<longrightarrow> pending c2 = []" by blast
  moreover from this have "sent s' @ pending c2 = sent s @ pending c1" by simp
  ultimately show ?thesis using p unfolding HttpConn_write_def by metis
qed

definition demo_static :: conn_static where
  "demo_static = \<lparr>isET = False, srcDir = ''/srv'', userCount = 1, closed_fds = []\<rparr>"

definition demo_rq :: HttpRequest where
  "demo_rq = Request_Init\<lparr>rq_method := ''GET'', rq_path := ''/nofile'', rq_version := ''1.1'', rq_state := HEADERS\<rparr>"

lemma parse_idle_conn:
  "\<exists>rb. parse (one_user u) Request_Init (cn_readBuff idle_conn) () = Inr (True, demo_rq, rb, ())"
proof -
  have "parse_str (one_user u) Request_Init ''GET /nofile HTTP/1.1'' () = Inr (True, demo_rq, [], ())"
    by (subst parse_str_go)
      (simp_all add: Request_Init_def parse_line_def ParseRequestLine_def match_request_line_def ParsePath_def
        DEFAULT_HTML_def demo_rq_def Let_def)
  then show ?thesis
    using parse_content[of "buffer_of ''GET /nofile HTTP/1.1''" "one_user u" Request_Init "()" True demo_rq "[]" "()"]
    by (auto simp: idle_conn_def buf_inv_buffer_of vec_max_def)
qed

theorem process_then_write_witness:
  "\<exists>c1 w1 len c2 s' rest.
     process (one_user (''u'', ''p'')) demo_fs demo_static idle_conn () \<lparr>os_fds = 0, os_mapped = 0\<rparr> = Inr (True, c1, (), w1) \<and>
     HttpConn_write three_writer (2 ^ 31) c1 [] = Some (Inr (len, c2, s')) \<and> pending c2 = rest \<and>
     s' @ rest = [] @ response_text demo_fs (fresh_rs demo_static True demo_rq) @ [] \<and> (len > 0 \<longrightarrow> rest = [])"
proof -
  let ?f = "final_rs demo_fs (fresh_rs demo_static True demo_rq)"
  obtain rb where p: "parse (one_user (''u'', ''p'')) Request_Init (cn_readBuff idle_conn) () = Inr (True, demo_rq, rb, ())"
    using parse_idle_conn by blast
  have r: "ReadableBytes (cn_readBuff idle_conn) \<noteq> 0"
    by (simp add: idle_conn_def buffer_of_def ReadableBytes_def size_sub_def)
  have len: "length (response_text demo_fs (fresh_rs demo_static True demo_rq)) = 217" by code_simp
  have m: "mapped_bytes (content_rs (served demo_fs ?f) ?f) = []" by code_simp
  have idle: "idle_out idle_conn" and mm: "mmap_exact demo_fs" and src: "srcDir demo_static \<noteq> []"
    by (simp_all add: idle_out_def idle_conn_def buf_inv_buffer_of demo_static_def mmap_exact_def demo_fs_def)
  have fits: "length (response_text demo_fs (fresh_rs demo_static True demo_rq)) < room (cn_writeBuff idle_conn)"
    unfolding len by (simp add: idle_conn_def buffer_of_def room_def vec_max_def)
  have small: "length (response_text demo_fs (fresh_rs demo_static True demo_rq)) +
      length (mapped_bytes (let f = ?f in content_rs (served demo_fs f) f)) < 2 ^ 31"
    unfolding Let_def len m by simp
  from process_then_write[OF p r src mm idle fits refl small three_writer_ok order_refl,
      of "\<lparr>os_fds = 0, os_mapped = 0\<rparr>" "[]"]
  show ?thesis unfolding Let_def m .
qed

text \<open>A malformed request line is answered with status 404, never with the 400 the code asks for: the
  path is still empty, so the resource looked up is the document root, which is a directory.\<close>

theorem bad_request_answered_404:
  assumes "parse api Request_Init (cn_readBuff c) d = Inr (False, rq, rb, d1)" "rq_path rq = []"
    and "ReadableBytes (cn_readBuff c) \<noteq> 0" "fs_stat fs (c_str (srcDir g)) = Some st" "st_isdir st"
    and "process api fs g c d w = Inr (True, c', d', w')"
  shows "rs_code (cn_response c') = 404"
proof -
  let ?r = "fresh_rs g False rq"
  from assms(1,3,6) obtain rs w1 wb w2 where
    "Response_Init (srcDir g) (rq_path rq) False 400 (cn_response c) w = Inr (rs, w1)"
    and m: "MakeResponse fs rs (cn_writeBuff c) w1 = Inr (cn_response c', wb, w2)"
    by (auto simp: process_def res_bind_Inr_iff Let_def split: if_splits)
  then have "rs = ?r"
    by (auto simp: Response_Init_def fresh_rs_def cxx_assert_def Let_def split_beta split: if_splits)
  moreover have "rs_code (check_file fs ?r) = 404"
    using assms(2,4,5) by (simp add: check_file_def full_path_def fresh_rs_def)
  then have "rs_code (final_rs fs ?r) = 404"
    by (simp add: final_rs_def Let_def ErrorHtml_cases code_tables)
  moreover have "cn_response c' = content_rs (served fs (final_rs fs rs)) (final_rs fs rs)"
    using m by (auto simp: MakeResponse_pieces Let_def res_bind_Inr_iff)
  ultimately show ?thesis by (simp add: content_rs_code)
qed

definition bad_conn :: HttpConn where
  "bad_conn = idle_conn\<lparr>cn_readBuff := buffer_of ''GET''\<rparr>"

theorem bad_request_answered_404_witness:
  "\<exists>c' d' w'. process (one_user (''u'', ''p'')) demo_fs demo_static bad_conn () \<lparr>os_fds = 0, os_mapped = 0\<rparr> = Inr (True, c', d', w') \<and>
     rs_code (cn_response c') = 404"
proof -
  have "parse_str (one_user (''u'', ''p'')) Request_Init ''GET'' () = Inr (False, Request_Init, ''GET'', ())"
    by (subst parse_str_go)
      (simp_all add: Request_Init_def parse_line_def ParseRequestLine_def match_request_line_def Let_def)
  then obtain rb where p: "parse (one_user (''u'', ''p'')) Request_Init (cn_readBuff bad_conn) () = Inr (False, Request_Init, rb, ())"
    using parse_content[of "buffer_of ''GET''" "one_user (''u'', ''p'')" Request_Init "()" False Request_Init "''GET''" "()"]
    by (auto simp: bad_conn_def buf_inv_buffer_of vec_max_def)
  have r: "ReadableBytes (cn_readBuff bad_conn) \<noteq> 0"
    by (simp add: bad_conn_def idle_conn_def buffer_of_def ReadableBytes_def size_sub_def)
  let ?f = "final_rs demo_fs (fresh_rs demo_static False Request_Init)"
  have len: "length (response_text demo_fs (fresh_rs demo_static False Request_Init)) = 217" by code_simp
  have m: "mapped_bytes (content_rs (served demo_fs ?f) ?f) = []" by code_simp
  have idle: "idle_out bad_conn" and mm: "mmap_exact demo_fs" and src: "srcDir demo_static \<noteq> []"
    by (simp_all add: idle_out_def bad_conn_def idle_conn_def buf_inv_buffer_of demo_static_def mmap_exact_def demo_fs_def)
  have fits: "length (response_text demo_fs (fresh_rs demo_static False Request_Init)) < room (cn_writeBuff bad_conn)"
    unfolding len by (simp add: bad_conn_def idle_conn_def buffer_of_def room_def vec_max_def)
  have small: "length (response_text demo_fs (fresh_rs demo_static False Request_Init)) +
      length (mapped_bytes (content_rs (served demo_fs ?f) ?f)) < 2 ^ 31"
    unfolding len m by simp
  from process_ok[OF p r src mm idle fits small, of "\<lparr>os_fds = 0, os_mapped = 0\<rparr>"] obtain c' w' where
    pr: "process (one_user (''u'', ''p'')) demo_fs demo_static bad_conn () \<lparr>os_fds = 0, os_mapped = 0\<rparr> = Inr (True, c', (), w')"
    by blast
  have "rs_code (cn_response c') = 404"
    by (rule bad_request_answered_404[OF p _ r _ _ pr, where st = "\<lparr>st_isdir = True, st_roth = True, st_size = 4\<rparr>"])
      (simp_all add: Request_Init_def demo_fs_def demo_static_def c_str_def)
  with pr show ?thesis by blast
qed



section \<open>The second entry is not initialised\<close>

text \<open>
  Neither the constructor nor \<^verbatim>\<open>init\<close> sets \<^verbatim>\<open>iov_[1]\<close>, and \<^verbatim>\<open>process\<close> leaves it alone when no file is mapped, but \<^verbatim>\<open>write\<close> counts its length: with a
  length left there, the loop goes round once more after everything was sent, offers nothing, and reports 0 bytes like a failure.
\<close>

lemma leftover_length_reports_zero:
  assumes "cn_iovCnt c = 1" "iov_bytes c (cn_iov0 c) = Inr bs" "iov_len (cn_iov0 c) = length bs" "bs \<noteq> []"
    and "iov_len (cn_iov1 c) > 0" "length bs + iov_len (cn_iov1 c) < 2 ^ 31"
    and "writev s bs = (IoOk (length bs), s1)" "writev s1 [] = (IoOk 0, s2)"
  shows "\<exists>c'. HttpConn_write writev (Suc (Suc fuel)) c s = Some (Inr (0, c', s2))"
proof -
  let ?c = "advance (length bs) c"
  have o: "offered c = Inr bs" using assms(1,2) by (simp add: offered_def)
  have "size_sub (length bs) (length bs) = 0" using assms(6) size_sub_le[of "length bs" "length bs"] by simp
  then have c: "iov_len (cn_iov0 ?c) = 0" "cn_iov1 ?c = cn_iov1 c" "cn_iovCnt ?c = 1" using assms(1,3) by (simp_all add: advance_def Let_def)
  then have "offered ?c = Inr []" by (simp add: offered_def iov_bytes_def)
  moreover have "ToWriteBytes ?c > 0" using c assms(5,6) by (simp add: ToWriteBytes_def size_add_small size_to_int_small)
  moreover have "size_add (iov_len (cn_iov0 c)) (iov_len (cn_iov1 c)) \<noteq> 0" using assms(3-6) by (simp add: size_add_small)
  ultimately show ?thesis using o assms(4,7,8) by (simp add: HttpConn_write_def Let_def)
qed

end
