(* ===== verification/TW_Server.thy ===== *)
theory TW_Server
  imports TW_Socket TW_HttpConn
begin

text \<open>
  \<^verbatim>\<open>src/base/tcp_server.cpp\<close> and \<^verbatim>\<open>src/base/http_server.cpp\<close>: binding, accepting connections and handling a client,
  composed of the sockets of \<^verbatim>\<open>TW_Socket\<close> and the connections of \<^verbatim>\<open>TW_HttpConn\<close>. Sockets are shared objects; one
  is destroyed, and closed, when its last reference goes. The kernel is a function \<open>k\<close> of a step number and the
  descriptors that are open. Tasks given to the two IO managers are kept in the order of scheduling; running a
  task on the worker is \<open>client_task\<close>; the task of \<^verbatim>\<open>stop\<close> is in \<^verbatim>\<open>TW_ServerStop\<close>.
\<close>

section \<open>State\<close>

type_synonym sock_ptr = nat

text \<open>The tasks of the accept worker: accepting on a socket, and the task of \<^verbatim>\<open>stop\<close>.\<close>

datatype accept_task = StartAccept sock_ptr | StopSockets

record TcpServer =
  m_socks :: "sock_ptr list"
  sv_recvTimeout :: "64 word"
  m_isStop :: bool
  m_isKeepalive :: bool
  socks :: "sock_ptr \<rightharpoonup> Socket"
  next_sock :: sock_ptr
  sv_net :: net
  users :: "int \<rightharpoonup> HttpConn"
  statics :: conn_static
  sv_os :: os
  accept_tasks :: "accept_task list"
  io_tasks :: "sock_ptr list"

definition HttpServer_ctor :: "64 word \<Rightarrow> bool \<Rightarrow> string \<Rightarrow> net \<Rightarrow> os \<Rightarrow> TcpServer" where
  "HttpServer_ctor timeout keepalive resources w o' =
     \<lparr>m_socks = [], sv_recvTimeout = timeout, m_isStop = True, m_isKeepalive = keepalive, socks = Map.empty, next_sock = 0, sv_net = w,
      users = Map.empty, statics = \<lparr>isET = False, srcDir = resources, userCount = 0, closed_fds = []\<rparr>, sv_os = o',
      accept_tasks = [], io_tasks = []\<rparr>"

definition server_setRecvTimeout :: "64 word \<Rightarrow> TcpServer \<Rightarrow> TcpServer" where
  "server_setRecvTimeout v sv = sv\<lparr>sv_recvTimeout := v\<rparr>"

section \<open>Binding\<close>

abbreviation (input) SOMAXCONN :: int where "SOMAXCONN \<equiv> 4096"

text \<open>A socket object dies: its destructor closes it.\<close>

definition kill_socket :: "Socket \<Rightarrow> TcpServer \<Rightarrow> TcpServer" where
  "kill_socket s sv = sv\<lparr>sv_net := snd (snd (Socket_close s (sv_net sv)))\<rparr>"

definition referenced :: "sock_ptr \<Rightarrow> TcpServer \<Rightarrow> bool" where
  "referenced p sv \<longleftrightarrow> p \<in> set (m_socks sv) \<or> StartAccept p \<in> set (accept_tasks sv) \<or> p \<in> set (io_tasks sv)"

definition release :: "sock_ptr \<Rightarrow> TcpServer \<Rightarrow> TcpServer" where
  "release p sv =
     (if referenced p sv then sv
      else case socks sv p of None \<Rightarrow> sv | Some s \<Rightarrow> (kill_socket s sv)\<lparr>socks := (socks sv)(p := None)\<rparr>)"

definition clear_socks :: "TcpServer \<Rightarrow> TcpServer" where
  "clear_socks sv = fold release (m_socks sv) (sv\<lparr>m_socks := []\<rparr>)"

fun bind_loop :: "(nat \<Rightarrow> int set \<Rightarrow> sys) \<Rightarrow> nat \<Rightarrow> Address list \<Rightarrow> Address list \<Rightarrow> TcpServer \<Rightarrow> Address list \<times> TcpServer" where
  "bind_loop k i [] fails sv = (fails, sv)"
| "bind_loop k i (addr # addrs) fails sv =
     (let y = k i (net_open (sv_net sv)); (ok, s, w) = Socket_bind y addr (CreateTCP addr) (sv_net sv) in
      if \<not> ok \<or> \<not> Socket_listen y SOMAXCONN s
      then bind_loop k (i + 1) addrs (fails @ [addr]) (kill_socket s (sv\<lparr>sv_net := w\<rparr>))
      else let p = next_sock sv in
        bind_loop k (i + 1) addrs fails
          (sv\<lparr>sv_net := w, socks := (socks sv)(p \<mapsto> s), next_sock := p + 1, m_socks := m_socks sv @ [p]\<rparr>))"

definition TcpServer_bind :: "(nat \<Rightarrow> int set \<Rightarrow> sys) \<Rightarrow> Address list \<Rightarrow> Address list \<Rightarrow> TcpServer \<Rightarrow> bool \<times> Address list \<times> TcpServer" where
  "TcpServer_bind k addrs fails sv =
     (case bind_loop k 0 addrs fails sv of (fails', sv') \<Rightarrow>
        if fails' \<noteq> [] then (False, fails', clear_socks sv') else (True, fails', sv'))"

definition TcpServer_bind1 :: "(nat \<Rightarrow> int set \<Rightarrow> sys) \<Rightarrow> Address \<Rightarrow> TcpServer \<Rightarrow> bool \<times> TcpServer" where
  "TcpServer_bind1 k addr sv = (case TcpServer_bind k [addr] [] sv of (ok, fails, sv') \<Rightarrow> (ok, sv'))"

definition TcpServer_start :: "TcpServer \<Rightarrow> bool \<times> TcpServer" where
  "TcpServer_start sv =
     (if \<not> m_isStop sv then (True, sv)
      else (True, sv\<lparr>m_isStop := False, accept_tasks := accept_tasks sv @ map StartAccept (m_socks sv)\<rparr>))"

definition TcpServer_stop :: "TcpServer \<Rightarrow> TcpServer" where
  "TcpServer_stop sv = sv\<lparr>m_isStop := True, accept_tasks := accept_tasks sv @ [StopSockets]\<rparr>"

text \<open>Closing the socket behind a pointer.\<close>

definition close_at :: "sock_ptr \<Rightarrow> TcpServer \<Rightarrow> TcpServer" where
  "close_at p sv =
     (case socks sv p of
        None \<Rightarrow> sv
      | Some s \<Rightarrow> (case Socket_close s (sv_net sv) of (_, s', w') \<Rightarrow> sv\<lparr>socks := (socks sv)(p \<mapsto> s'), sv_net := w'\<rparr>))"

definition TcpServer_dtor :: "TcpServer \<Rightarrow> TcpServer" where
  "TcpServer_dtor sv = clear_socks (fold close_at (m_socks sv) sv)"

section \<open>Clients\<close>

text \<open>\<^verbatim>\<open>users_[fd]\<close>: a missing connection is constructed; the parts its constructor leaves open are given by \<open>junk\<close>.\<close>

definition user_at :: "nat \<times> iovec \<times> iovec \<Rightarrow> int \<Rightarrow> TcpServer \<Rightarrow> HttpConn res" where
  "user_at junk fd sv = (case users sv fd of Some c \<Rightarrow> Inr c | None \<Rightarrow> (case junk of (cnt, v0, v1) \<Rightarrow> HttpConn_ctor cnt v0 v1))"

text \<open>
  One round of the accept loop of \<^verbatim>\<open>HttpServer::startAccept\<close>; the flag says that the loop has ended. \<open>raw\<close> reads
  the bytes of an address as an IPv4 address, as the cast of the code does.
\<close>

definition accept_round ::
  "(Address \<Rightarrow> sockaddr_in) \<Rightarrow> nat \<times> iovec \<times> iovec \<Rightarrow> sys \<Rightarrow> sock_ptr \<Rightarrow> TcpServer \<Rightarrow> (bool \<times> TcpServer) res" where
  "accept_round raw junk y p sv =
     (if m_isStop sv then Inr (True, sv)
      else case socks sv p of
        None \<Rightarrow> Inl Undefined
      | Some s \<Rightarrow>
          res_bind (Socket_accept y s (sv_net sv)) (\<lambda>(client, w).
          case client of
            None \<Rightarrow> Inr (False, sv\<lparr>sv_net := w\<rparr>)
          | Some c \<Rightarrow>
              let w1 = setRecvTimeout y (sint (sv_recvTimeout sv)) c w; fd = m_sock c; (addr, c1) = getRemoteAddress y c in
              res_bind (user_at junk fd sv) (\<lambda>u.
              case HttpConn_init fd (raw addr) (m_isKeepalive sv) u (statics sv) of
                (u', g') \<Rightarrow>
                  let q = next_sock sv in
                  Inr (False, sv\<lparr>sv_net := w1, users := (users sv)(fd \<mapsto> u'), statics := g', socks := (socks sv)(q \<mapsto> c1),
                                 next_sock := q + 1, io_tasks := io_tasks sv @ [q]\<rparr>))))"

text \<open>The accept loop of the base class, which only schedules its handler.\<close>

definition tcp_accept_round :: "sys \<Rightarrow> sock_ptr \<Rightarrow> TcpServer \<Rightarrow> (bool \<times> TcpServer) res" where
  "tcp_accept_round y p sv =
     (if m_isStop sv then Inr (True, sv)
      else case socks sv p of
        None \<Rightarrow> Inl Undefined
      | Some s \<Rightarrow>
          res_bind (Socket_accept y s (sv_net sv)) (\<lambda>(client, w).
          case client of
            None \<Rightarrow> Inr (False, sv\<lparr>sv_net := w\<rparr>)
          | Some c \<Rightarrow>
              let q = next_sock sv in
              Inr (False, sv\<lparr>sv_net := setRecvTimeout y (sint (sv_recvTimeout sv)) c w, socks := (socks sv)(q \<mapsto> c),
                             next_sock := q + 1, io_tasks := io_tasks sv @ [q]\<rparr>)))"

text \<open>Closing a connection is also a call of \<^verbatim>\<open>close\<close> on its descriptor.\<close>

definition close_user :: "int \<Rightarrow> HttpConn \<Rightarrow> TcpServer \<Rightarrow> TcpServer" where
  "close_user fd u sv =
     (case HttpConn_Close u (statics sv) (sv_os sv) of (u', g', o') \<Rightarrow>
        sv\<lparr>users := (users sv)(fd \<mapsto> u'), statics := g', sv_os := o',
           sv_net := fold sys_close (drop (length (closed_fds (statics sv))) (closed_fds g')) (sv_net sv)\<rparr>)"

abbreviation (input) EAGAIN :: int where "EAGAIN \<equiv> 11"

text \<open>\<^verbatim>\<open>HttpServer::handleClient\<close>; the kernel state of the connection is threaded through \<^verbatim>\<open>readv\<close> and \<^verbatim>\<open>writev\<close>. As in
  \<^verbatim>\<open>TW_HttpConn\<close> the outer \<^term>\<open>None\<close> is running out of fuel.\<close>

definition handleClient ::
  "nat \<times> iovec \<times> iovec \<Rightarrow> 'd db_api \<Rightarrow> fs_api \<Rightarrow> 's reader \<Rightarrow> 's writer \<Rightarrow> nat \<Rightarrow> sock_ptr \<Rightarrow> TcpServer \<Rightarrow> 'd \<Rightarrow> 's \<Rightarrow>
    (TcpServer \<times> 'd \<times> 's) res option" where
  "handleClient junk api fs readv writev fuel p sv d s =
     (case socks sv p of
        None \<Rightarrow> Some (Inl Undefined)
      | Some client \<Rightarrow>
          let fd = m_sock client in
          if \<not> isValid client then Some (Inr (close_at p sv, d, s))
          else case user_at junk fd sv of
            Inl e \<Rightarrow> Some (Inl e)
          | Inr u \<Rightarrow>
              (case HttpConn_read readv (statics sv) fuel u 0 s of
                 None \<Rightarrow> None
               | Some (Inl e) \<Rightarrow> Some (Inl e)
               | Some (Inr (readLen, errnoNum, u1, s1)) \<Rightarrow>
                   if readLen \<le> 0 \<and> errnoNum \<noteq> EAGAIN then Some (Inr (close_user fd u1 sv, d, s1))
                   else (case process api fs (statics sv) u1 d (sv_os sv) of
                           Inl e \<Rightarrow> Some (Inl e)
                         | Inr (todo, u2, d2, o2) \<Rightarrow>
                             let sv2 = sv\<lparr>users := (users sv)(fd \<mapsto> u2), sv_os := o2\<rparr> in
                             if \<not> todo then Some (Inr (sv2, d2, s1))
                             else (case HttpConn_write writev fuel u2 s1 of
                                     None \<Rightarrow> None
                                   | Some (Inl e) \<Rightarrow> Some (Inl e)
                                   | Some (Inr (_, u3, s3)) \<Rightarrow> Some (Inr (sv2\<lparr>users := (users sv2)(fd \<mapsto> u3)\<rparr>, d2, s3))))))"

text \<open>The task the worker runs: the handler, after which the only reference to the client goes.\<close>

definition client_task ::
  "nat \<times> iovec \<times> iovec \<Rightarrow> 'd db_api \<Rightarrow> fs_api \<Rightarrow> 's reader \<Rightarrow> 's writer \<Rightarrow> nat \<Rightarrow> TcpServer \<Rightarrow> 'd \<Rightarrow> 's \<Rightarrow>
    (TcpServer \<times> 'd \<times> 's) res option" where
  "client_task junk api fs readv writev fuel sv d s =
     (case io_tasks sv of
        [] \<Rightarrow> Some (Inr (sv, d, s))
      | p # ps \<Rightarrow>
          (case handleClient junk api fs readv writev fuel p sv d s of
             None \<Rightarrow> None
           | Some (Inl e) \<Rightarrow> Some (Inl e)
           | Some (Inr (sv', d', s')) \<Rightarrow> Some (Inr (release p (sv'\<lparr>io_tasks := ps\<rparr>), d', s'))))"


section \<open>Binding is all or nothing\<close>

definition fd_of :: "TcpServer \<Rightarrow> sock_ptr \<Rightarrow> int" where
  "fd_of sv p = (case socks sv p of Some s \<Rightarrow> m_sock s | None \<Rightarrow> -1)"

text \<open>The kernel hands out descriptors that are not open.\<close>

definition fresh_fds :: "(nat \<Rightarrow> int set \<Rightarrow> sys) \<Rightarrow> bool" where
  "fresh_fds k \<longleftrightarrow> (\<forall>i opened. finite opened \<longrightarrow> sys_socket (k i opened) \<notin> opened)"

text \<open>The listening sockets hold different descriptors, and the process has these and \<open>base\<close> open.\<close>

definition bound :: "int set \<Rightarrow> TcpServer \<Rightarrow> bool" where
  "bound base sv \<longleftrightarrow> distinct (m_socks sv) \<and>
     (\<forall>p \<in> set (m_socks sv). p < next_sock sv \<and> (\<exists>s. socks sv p = Some s \<and> isValid s) \<and> fd_of sv p \<notin> base) \<and>
     inj_on (fd_of sv) (set (m_socks sv)) \<and> net_open (sv_net sv) = base \<union> fd_of sv ` set (m_socks sv)"

lemma bind_valid: "Socket_bind y a s w = (True, s', w') \<Longrightarrow> isValid s'"
  by (auto simp: Socket_bind_def isValid_def split: prod.splits if_splits)

lemma kill_open:
  assumes "sock_inv base s w"
  shows "net_open (sv_net (kill_socket s (sv\<lparr>sv_net := w\<rparr>))) = base"
  using assms by (auto simp: kill_socket_def Socket_close_def sys_close_def sock_inv_def isValid_def Let_def)

lemma bound_add:
  assumes "bound base sv" "sock_inv (net_open (sv_net sv)) s w" "isValid s"
  shows "bound base (sv\<lparr>sv_net := w, socks := (socks sv)(next_sock sv \<mapsto> s), next_sock := next_sock sv + 1, m_socks := m_socks sv @ [next_sock sv]\<rparr>)"
    (is "bound base ?sv")
proof -
  have new: "next_sock sv \<notin> set (m_socks sv)" using assms(1) by (auto simp: bound_def)
  have "fd_of ?sv p = (if p = next_sock sv then m_sock s else fd_of sv p)" for p by (simp add: fd_of_def)
  then have fd: "fd_of ?sv ` set (m_socks sv) = fd_of sv ` set (m_socks sv)" "fd_of ?sv (next_sock sv) = m_sock s"
      "inj_on (fd_of ?sv) (set (m_socks sv)) = inj_on (fd_of sv) (set (m_socks sv))" "\<forall>p \<in> set (m_socks sv). fd_of ?sv p = fd_of sv p"
    using new by (auto simp: inj_on_def)
  have w: "net_open w = net_open (sv_net sv) \<union> {m_sock s}" "m_sock s \<notin> net_open (sv_net sv)" using assms(2,3) by (auto simp: sock_inv_def)
  show ?thesis
    unfolding bound_def using assms(1,3) new fd w by (auto simp: bound_def)
qed

lemma bind_loop_bound:
  assumes "fresh_fds k" "finite base" "bound base sv" "bind_loop k i addrs fails sv = (fails', sv')"
  shows "bound base sv' \<and> length fails' + length (m_socks sv') = length fails + length (m_socks sv) + length addrs \<and>
     accept_tasks sv' = accept_tasks sv \<and> io_tasks sv' = io_tasks sv"
  using assms(3,4)
proof (induction addrs arbitrary: i fails sv)
  case (Cons a addrs)
  let ?y = "k i (net_open (sv_net sv))"
  obtain ok s w where b: "Socket_bind ?y a (CreateTCP a) (sv_net sv) = (ok, s, w)" by (metis prod_cases3)
  have "sock_inv (net_open (sv_net sv)) (CreateTCP a) (sv_net sv)" by (simp add: CreateTCP_def Socket_ctor_def sock_inv_def isValid_def)
  moreover have "finite (net_open (sv_net sv))" using assms(2) Cons.prems(1) by (simp add: bound_def)
  then have "sys_socket ?y \<notin> net_open (sv_net sv)" using assms(1) unfolding fresh_fds_def by blast
  ultimately have inv: "sock_inv (net_open (sv_net sv)) s w" using b by (rule bind_inv)
  show ?case
  proof (cases "\<not> ok \<or> \<not> Socket_listen ?y SOMAXCONN s")
    case True
    let ?sv = "kill_socket s (sv\<lparr>sv_net := w\<rparr>)"
    have "fd_of ?sv = fd_of sv" by (rule ext) (simp add: kill_socket_def fd_of_def)
    then have "bound base ?sv" using Cons.prems(1) kill_open[OF inv, of sv] by (simp add: bound_def kill_socket_def)
    moreover have "bind_loop k (i + 1) addrs (fails @ [a]) ?sv = (fails', sv')" using Cons.prems(2) b True by simp
    ultimately show ?thesis using Cons.IH[of ?sv "i + 1" "fails @ [a]"] by (simp add: kill_socket_def)
  next
    case False
    let ?sv = "sv\<lparr>sv_net := w, socks := (socks sv)(next_sock sv \<mapsto> s), next_sock := next_sock sv + 1, m_socks := m_socks sv @ [next_sock sv]\<rparr>"
    have "isValid s" using bind_valid b False by auto
    from bound_add[OF Cons.prems(1) inv this] have "bound base ?sv" .
    moreover have "bind_loop k (i + 1) addrs fails ?sv = (fails', sv')" using Cons.prems(2) b False by (simp add: Let_def)
    ultimately show ?thesis using Cons.IH[of ?sv "i + 1" fails] by simp
  qed
qed simp

lemma fold_release:
  assumes "distinct ps" "m_socks sv = []" "accept_tasks sv = []" "io_tasks sv = []" "\<forall>p \<in> set ps. \<exists>s. socks sv p = Some s \<and> isValid s"
  shows "net_open (sv_net (fold release ps sv)) = net_open (sv_net sv) - fd_of sv ` set ps \<and> m_socks (fold release ps sv) = []"
  using assms
proof (induction ps arbitrary: sv)
  case (Cons p ps)
  obtain s where s: "socks sv p = Some s" "isValid s" using Cons.prems(5) by auto
  have r: "release p sv = sv\<lparr>sv_net := sys_close (m_sock s) (sv_net sv), socks := (socks sv)(p := None)\<rparr>" (is "_ = ?sv")
    using s Cons.prems(2-4) by (simp add: release_def referenced_def kill_socket_def Socket_close_def isValid_def Let_def)
  have "fd_of ?sv q = fd_of sv q" if "q \<in> set ps" for q using that Cons.prems(1) by (auto simp: fd_of_def)
  then have fds: "fd_of ?sv ` set ps = fd_of sv ` set ps" by auto
  have "net_open (sv_net (fold release ps ?sv)) = net_open (sv_net ?sv) - fd_of ?sv ` set ps \<and> m_socks (fold release ps ?sv) = []"
    using Cons.prems by (intro Cons.IH) auto
  moreover have "net_open (sv_net ?sv) = net_open (sv_net sv) - {fd_of sv p}" using s by (simp add: sys_close_def fd_of_def)
  ultimately show ?case using fds r by (simp add: insert_Diff_if) blast
qed simp

lemma fold_release_frame:
  "accept_tasks (fold release ps sv) = accept_tasks sv" "io_tasks (fold release ps sv) = io_tasks sv" "m_isStop (fold release ps sv) = m_isStop sv"
  by (induction ps arbitrary: sv) (auto simp: release_def kill_socket_def split: option.split)

lemma bind_loop_frame: "bind_loop k i addrs fails sv = (fails', sv') \<Longrightarrow> accept_tasks sv' = accept_tasks sv \<and> io_tasks sv' = io_tasks sv \<and> m_isStop sv' = m_isStop sv"
proof (induction addrs arbitrary: i fails sv)
  case (Cons a addrs)
  then show ?case by (auto simp: Let_def kill_socket_def split: prod.splits if_splits dest!: Cons.IH)
qed simp

lemma bind_frame:
  assumes "TcpServer_bind k addrs fails sv = (ok, fails', sv')"
  shows "accept_tasks sv' = accept_tasks sv" "io_tasks sv' = io_tasks sv" "m_isStop sv' = m_isStop sv"
  using assms by (auto simp: TcpServer_bind_def clear_socks_def fold_release_frame dest!: bind_loop_frame split: prod.splits if_splits)

text \<open>The atomicity of binding, with what binding leaves alone.\<close>

lemma bind_atomic:
  assumes "fresh_fds k" "finite (net_open (sv_net sv))" "m_socks sv = []" "accept_tasks sv = []" "io_tasks sv = []"
    and "TcpServer_bind k addrs [] sv = (ok, fails, sv')"
  shows "(ok \<longleftrightarrow> fails = []) \<and>
     (if ok then length (m_socks sv') = length addrs \<and> bound (net_open (sv_net sv)) sv'
      else m_socks sv' = [] \<and> net_open (sv_net sv') = net_open (sv_net sv))"
proof -
  let ?base = "net_open (sv_net sv)"
  obtain fails' sv1 where l: "bind_loop k 0 addrs [] sv = (fails', sv1)" by force
  have "bound ?base sv" using assms(3) by (simp add: bound_def)
  with bind_loop_bound[OF assms(1,2) _ l] assms(3-5) have b: "bound ?base sv1" "length fails' + length (m_socks sv1) = length addrs"
      "accept_tasks sv1 = []" "io_tasks sv1 = []" by auto
  show ?thesis
  proof (cases "fails' = []")
    case True
    with assms(6) l b show ?thesis by (auto simp: TcpServer_bind_def)
  next
    case False
    with assms(6) l have r: "ok = False" "fails = fails'" "sv' = fold release (m_socks sv1) (sv1\<lparr>m_socks := []\<rparr>)"
      by (auto simp: TcpServer_bind_def clear_socks_def)
    have "fd_of (sv1\<lparr>m_socks := []\<rparr>) = fd_of sv1" by (rule ext) (simp add: fd_of_def)
    moreover have "net_open (sv_net (fold release (m_socks sv1) (sv1\<lparr>m_socks := []\<rparr>))) =
        net_open (sv_net sv1) - fd_of (sv1\<lparr>m_socks := []\<rparr>) ` set (m_socks sv1) \<and> m_socks (fold release (m_socks sv1) (sv1\<lparr>m_socks := []\<rparr>)) = []"
      using fold_release[of "m_socks sv1" "sv1\<lparr>m_socks := []\<rparr>"] b by (simp add: bound_def)
    moreover have "net_open (sv_net sv1) - fd_of sv1 ` set (m_socks sv1) = ?base" using b(1) by (auto simp: bound_def)
    ultimately show ?thesis using False r by simp
  qed
qed

text \<open>C10: a server binds all its addresses or none: with a kernel that gives out unused descriptors, binding a list of
  addresses succeeds exactly when no address failed; then there is one valid listening socket per address, on
  different descriptors, which are all that was opened; otherwise no socket is kept and every descriptor opened
  on the way is closed again.\<close>

theorem bind_all_or_nothing:
  assumes "fresh_fds k" "finite (net_open (sv_net sv))" "m_socks sv = []" "accept_tasks sv = []" "io_tasks sv = []"
    and "TcpServer_bind k addrs [] sv = (ok, fails, sv')"
  shows "(ok \<longleftrightarrow> fails = []) \<and>
     (if ok then length (m_socks sv') = length addrs \<and> bound (net_open (sv_net sv)) sv'
      else m_socks sv' = [] \<and> net_open (sv_net sv') = net_open (sv_net sv))"
  using bind_atomic[OF assms] .

text \<open>A kernel that gives out the descriptor after the largest open one.\<close>

definition demo_kernel :: "nat \<Rightarrow> int set \<Rightarrow> sys" where
  "demo_kernel i opened = demo_sys\<lparr>sys_socket := Max (insert 0 opened) + 1\<rparr>"

lemma demo_kernel_fresh: "fresh_fds demo_kernel"
proof -
  have "Max (insert 0 opened) + 1 \<notin> opened" if "finite opened" for opened :: "int set"
    using Max_ge[of "insert 0 opened" "Max (insert 0 opened) + 1"] that by auto
  then show ?thesis by (simp add: fresh_fds_def demo_kernel_def)
qed

definition demo_server :: TcpServer where
  "demo_server = HttpServer_ctor 120000 True ''/srv'' demo_net \<lparr>os_fds = 0, os_mapped = 0\<rparr>"

theorem bind_all_or_nothing_witness:
  "case TcpServer_bind demo_kernel [Unknown 2, Unknown 10] [] demo_server of (ok, fails, sv') \<Rightarrow> ok = (fails = [])"
proof -
  obtain ok fails sv' where h: "TcpServer_bind demo_kernel [Unknown 2, Unknown 10] [] demo_server = (ok, fails, sv')" by (metis prod_cases3)
  have "finite (net_open (sv_net demo_server))" "m_socks demo_server = []" "accept_tasks demo_server = []" "io_tasks demo_server = []"
    by (simp_all add: demo_server_def HttpServer_ctor_def demo_net_def)
  from bind_all_or_nothing[OF demo_kernel_fresh this h] h show ?thesis by simp
qed

section \<open>Serving a request\<close>

text \<open>What the worker needs to serve the next client: its socket is held by the task alone, its connection is open and
  has nothing buffered, and the server reads once per event.\<close>

definition ready_client :: "TcpServer \<Rightarrow> sock_ptr \<Rightarrow> sock_ptr list \<Rightarrow> Socket \<Rightarrow> HttpConn \<Rightarrow> bool" where
  "ready_client sv p ps cl u \<longleftrightarrow> io_tasks sv = p # ps \<and> socks sv p = Some cl \<and> isValid cl \<and> p \<notin> set ps \<and> p \<notin> set (m_socks sv) \<and>
     StartAccept p \<notin> set (accept_tasks sv) \<and> users sv (m_sock cl) = Some u \<and> cn_fd u = m_sock cl \<and> \<not> cn_isClose u \<and>
     buf_inv (cn_readBuff u) \<and> content (cn_readBuff u) = [] \<and> \<not> isET (statics sv)"

lemma release_client:
  assumes "ready_client sv p ps cl u" "socks sv' p = Some cl" "m_socks sv' = m_socks sv" "accept_tasks sv' = accept_tasks sv"
  shows "net_closes (sv_net (release p (sv'\<lparr>io_tasks := ps\<rparr>))) = net_closes (sv_net sv') @ [m_sock cl] \<and>
     users (release p (sv'\<lparr>io_tasks := ps\<rparr>)) = users sv' \<and> statics (release p (sv'\<lparr>io_tasks := ps\<rparr>)) = statics sv' \<and>
     io_tasks (release p (sv'\<lparr>io_tasks := ps\<rparr>)) = ps"
  using assms
  by (simp add: ready_client_def release_def referenced_def kill_socket_def Socket_close_def sys_close_def isValid_def Let_def)

text \<open>One read takes everything when the kernel delivers the whole stream.\<close>

lemma read_whole:
  assumes "buf_inv (cn_readBuff u)" "content (cn_readBuff u) = []" "\<not> isET g"
    and "\<And>n. length dat \<le> n \<Longrightarrow> fst (readv s n) = IoOk dat" "length dat \<le> stack_buf_size"
    and "length (buffer (cn_readBuff u)) + stack_buf_size + 1 < vec_max"
  shows "\<exists>b n. HttpConn_read readv g (Suc fuel) u err s = Some (Inr (int (length dat), err, u\<lparr>cn_readBuff := b\<rparr>, snd (readv s n))) \<and>
     buf_inv b \<and> content b = dat"
proof -
  let ?n = "WritableBytes (cn_readBuff u) + stack_buf_size"
  have "fst (readv s ?n) = IoOk dat" using assms(4,5) by simp
  from ReadFd_ok[of "cn_readBuff u" "\<lambda>n. fst (readv s n)" dat, OF assms(1) this] assms(5,6) obtain b where
    "ReadFd (\<lambda>n. fst (readv s n)) (cn_readBuff u) = Inr (int (length dat), None, b)" "buf_inv b" "content b = content (cn_readBuff u) @ dat" by auto
  then show ?thesis using assms(2,3) by (intro exI[of _ b] exI[of _ ?n]) (simp add: HttpConn_read_def Let_def)
qed

text \<open>C40: a peer that closes its side makes the server close the descriptor twice: when the read returns no bytes, the
  handler closes the connection, which closes the descriptor, and the socket of the task closes the same
  descriptor again when it dies.\<close>

theorem peer_close_closes_twice:
  assumes "ready_client sv p ps cl u" "\<And>n. fst (readv s n) = IoOk []"
    and "length (buffer (cn_readBuff u)) + stack_buf_size + 1 < vec_max" "closed_fds (statics sv) = []"
  shows "\<exists>sv' s'. client_task junk api fs readv writev (Suc fuel) sv d s = Some (Inr (sv', d, s')) \<and>
     net_closes (sv_net sv') = net_closes (sv_net sv) @ [m_sock cl, m_sock cl] \<and> userCount (statics sv') = userCount (statics sv) - 1"
proof -
  have r: "io_tasks sv = p # ps" "socks sv p = Some cl" "isValid cl" "users sv (m_sock cl) = Some u" "cn_fd u = m_sock cl" "\<not> cn_isClose u"
    "buf_inv (cn_readBuff u)" "content (cn_readBuff u) = []" "\<not> isET (statics sv)" using assms(1) by (auto simp: ready_client_def)
  obtain b n where rd: "HttpConn_read readv (statics sv) (Suc fuel) u 0 s = Some (Inr (int (length ([] :: string)), 0, u\<lparr>cn_readBuff := b\<rparr>, snd (readv s n)))"
    using read_whole[OF r(7-9), of "[]" readv s fuel 0] assms(2,3) by auto
  let ?u = "u\<lparr>cn_readBuff := b\<rparr>"
  have h: "handleClient junk api fs readv writev (Suc fuel) p sv d s = Some (Inr (close_user (m_sock cl) ?u sv, d, snd (readv s n)))"
    using r rd by (simp add: handleClient_def user_at_def)
  obtain rs o' where cl: "HttpConn_Close ?u (statics sv) (sv_os sv) = (?u\<lparr>cn_response := rs, cn_isClose := True\<rparr>,
      (statics sv)\<lparr>userCount := userCount (statics sv) - 1, closed_fds := [m_sock cl]\<rparr>, o')"
    using r(5,6) assms(4) by (cases "UnmapFile (cn_response u) (sv_os sv)") (simp add: HttpConn_Close_def Let_def)
  let ?sv = "close_user (m_sock cl) ?u sv"
  have c: "net_closes (sv_net ?sv) = net_closes (sv_net sv) @ [m_sock cl]" "userCount (statics ?sv) = userCount (statics sv) - 1"
    "socks ?sv = socks sv" "m_socks ?sv = m_socks sv" "accept_tasks ?sv = accept_tasks sv"
    using cl assms(4) by (simp_all add: close_user_def sys_close_def)
  then show ?thesis using h r(1) release_client[OF assms(1), of ?sv] r(2) by (simp add: client_task_def)
qed

text \<open>The connection of the first witness: the peer has closed its side.\<close>

definition demo_client :: Socket where
  "demo_client = (Socket_ctor 2 1 0)\<lparr>m_sock := 7, m_isConnected := True\<rparr>"

definition busy_server :: "HttpConn \<Rightarrow> TcpServer" where
  "busy_server u = demo_server\<lparr>socks := [0 \<mapsto> demo_client], next_sock := 1, users := [7 \<mapsto> u], io_tasks := [0]\<rparr>"

lemma busy_server_ready:
  assumes "cn_fd u = 7" "\<not> cn_isClose u" "buf_inv (cn_readBuff u)" "content (cn_readBuff u) = []"
  shows "ready_client (busy_server u) 0 [] demo_client u"
  using assms by (simp add: ready_client_def busy_server_def demo_server_def HttpServer_ctor_def demo_client_def Socket_ctor_def isValid_def)

definition quiet_conn :: HttpConn where
  "quiet_conn = idle_conn\<lparr>cn_readBuff := buffer_of []\<rparr>"

lemma quiet_conn_ok:
  "cn_fd quiet_conn = 7" "\<not> cn_isClose quiet_conn" "buf_inv (cn_readBuff quiet_conn)" "content (cn_readBuff quiet_conn) = []" "idle_out quiet_conn"
  "length (buffer (cn_readBuff quiet_conn)) = 0"
  by (simp_all add: quiet_conn_def idle_conn_def idle_out_def buf_inv_buffer_of) (simp add: buffer_of_def)

theorem peer_close_closes_twice_witness:
  "\<exists>sv' s'. client_task (0, \<lparr>iov_base = Wild, iov_len = 0\<rparr>, \<lparr>iov_base = Wild, iov_len = 0\<rparr>) (one_user (''u'', ''p'')) demo_fs
       (\<lambda>s n. (IoOk [], s)) three_writer 1 (busy_server quiet_conn) () [] = Some (Inr (sv', (), s')) \<and>
     net_closes (sv_net sv') = net_closes (sv_net (busy_server quiet_conn)) @ [m_sock demo_client, m_sock demo_client] \<and>
     userCount (statics sv') = userCount (statics (busy_server quiet_conn)) - 1"
  using peer_close_closes_twice[OF busy_server_ready[OF quiet_conn_ok(1-4)], of "\<lambda>s n. (IoOk [], s)" "[]"] quiet_conn_ok(6)
  by (simp add: stack_buf_size_def vec_max_def busy_server_def demo_server_def HttpServer_ctor_def)

section \<open>Accepting\<close>

text \<open>The descriptor an accept gives is recorded as open and nothing is closed; the lookup of its context does not fail.\<close>

lemma accept_opens:
  assumes "sys_accept y (m_sock s) \<ge> 0" "sys_accept y (m_sock s) < 2 ^ 30" "fm_reach (fd_mgr w)"
  shows "\<exists>c w'. Socket_accept y s w = Inr (Some c, w') \<and> m_sock c = sys_accept y (m_sock s) \<and> m_isConnected c \<and>
     net_open w' = insert (sys_accept y (m_sock s)) (net_open w) \<and> net_closes w' = net_closes w"
proof -
  let ?fd = "sys_accept y (m_sock s)"
  obtain q fm ctx where g: "FdManager_get (sys_fstat y) ?fd True (fd_mgr w) = Inr (Some q, fm)" "ctxs fm q = Some ctx" "\<not> m_isClosed ctx"
    using fd_context[OF assms(3,1,2), of "sys_fstat y"] by blast
  show ?thesis using assms(1) g by (simp add: Socket_accept_def Socket_init_def initSock_def setOption_def Let_def)
qed

lemma setRecvTimeout_closes [simp]: "net_closes (setRecvTimeout y v c w) = net_closes w"
  by (simp add: setRecvTimeout_def setOption_def Let_def)

text \<open>An accepted client is counted, its connection is open on the new descriptor with empty buffers, and a task for it
  is scheduled behind the others; when there are none, the client is ready to be served.\<close>

lemma accept_round_ready:
  assumes "\<not> m_isStop sv" "socks sv l = Some s" "0 < sys_accept y (m_sock s)" "sys_accept y (m_sock s) < 2 ^ 30" "fm_reach (fd_mgr (sv_net sv))"
    and "user_at junk (sys_accept y (m_sock s)) sv = Inr u0" "buf_inv (cn_readBuff u0)" "buf_inv (cn_writeBuff u0)" "iov_len (cn_iov1 u0) = 0"
    and "next_sock sv \<notin> set (m_socks sv)" "StartAccept (next_sock sv) \<notin> set (accept_tasks sv)" "io_tasks sv = []" "\<not> isET (statics sv)"
  shows "\<exists>sv' cl u. accept_round raw junk y l sv = Inr (False, sv') \<and> ready_client sv' (next_sock sv) [] cl u \<and> idle_out u \<and>
     m_sock cl = sys_accept y (m_sock s) \<and> cn_readBuff u = RetrieveAll (cn_readBuff u0) \<and> cn_writeBuff u = RetrieveAll (cn_writeBuff u0) \<and>
     statics sv' = (statics sv)\<lparr>userCount := userCount (statics sv) + 1\<rparr> \<and> net_closes (sv_net sv') = net_closes (sv_net sv)"
proof -
  obtain c w where c: "Socket_accept y s (sv_net sv) = Inr (Some c, w)" "m_sock c = sys_accept y (m_sock s)" "net_closes w = net_closes (sv_net sv)"
    using accept_opens[of y s "sv_net sv"] assms(3-5) by auto
  obtain a c1 where a: "getRemoteAddress y c = (a, c1)" by force
  then have "m_sock c1 = m_sock c" using address_keeps(3)[of y c] by simp
  with a c assms show ?thesis
    by (simp add: accept_round_def HttpConn_init_def ready_client_def idle_out_def isValid_def RetrieveAll_ok Let_def)
qed

text \<open>A connection that \<^verbatim>\<open>users_\<close> does not have yet is constructed; all but the entries of \<^verbatim>\<open>iov_\<close> is then determined.\<close>

lemma user_at_new:
  assumes "users sv fd = None"
  shows "\<exists>u. user_at (cnt, v0, v1) fd sv = Inr u \<and> buf_inv (cn_readBuff u) \<and> buf_inv (cn_writeBuff u) \<and> cn_iov1 u = v1 \<and>
     length (buffer (cn_readBuff u)) = 1024 \<and> length (buffer (cn_writeBuff u)) = 1024"
proof -
  obtain b where "Buffer_ctor 1024 = Inr b" "buf_inv b" "length (buffer b) = 1024" using Buffer_ctor_ok[of 1024] by (auto simp: vec_max_def)
  then show ?thesis using assms by (simp add: user_at_def HttpConn_ctor_def)
qed

end
