(* ===== verification/TW_Startup.thy ===== *)
theory TW_Startup
  imports TW_Server
begin

text \<open>
  \<^verbatim>\<open>run\<close> of \<^verbatim>\<open>src/main.cpp\<close>: the address of the configuration is made, the server bound, again and again until it succeeds,
  and started. The kernel of attempt \<open>n\<close> is \<open>k n\<close>. The retry loop need not end: it is a partial function whose
  value is \<^term>\<open>None\<close> when it runs for ever.
\<close>

partial_function (option) bind_retry :: "(nat \<Rightarrow> nat \<Rightarrow> int set \<Rightarrow> sys) \<Rightarrow> nat \<Rightarrow> Address \<Rightarrow> TcpServer \<Rightarrow> TcpServer option" where
  "bind_retry k n addr sv =
     (let r = TcpServer_bind1 (k n) addr sv in if fst r then Some (snd r) else bind_retry k (n + 1) addr (snd r))"

text \<open>The port of the configuration is an \<^verbatim>\<open>int\<close> and is cut to 16 bits. The inner \<^term>\<open>None\<close> is the return for a bad address.\<close>

definition main_run ::
  "(string \<Rightarrow> 32 word option) \<Rightarrow> (nat \<Rightarrow> nat \<Rightarrow> int set \<Rightarrow> sys) \<Rightarrow> string \<Rightarrow> int \<Rightarrow> 64 word \<Rightarrow> string \<Rightarrow> net \<Rightarrow> os \<Rightarrow> TcpServer option option" where
  "main_run inet_pton k ip port timeout resources w o' =
     (case IPv4Address_Create inet_pton ip (word_of_int port) of
        None \<Rightarrow> Some None
      | Some addr \<Rightarrow>
          (case bind_retry k 0 (IPv4 addr) (HttpServer_ctor timeout True resources w o') of
             None \<Rightarrow> None
           | Some sv \<Rightarrow> Some (Some (snd (TcpServer_start sv)))))"

section \<open>Coming up\<close>

text \<open>A kernel that accepts the address: there is a descriptor, and binding and listening succeed.\<close>

definition accepts :: "(nat \<Rightarrow> int set \<Rightarrow> sys) \<Rightarrow> Address \<Rightarrow> bool" where
  "accepts k addr \<longleftrightarrow> (\<forall>opened. finite opened \<longrightarrow> (let y = k 0 opened in sys_socket y \<noteq> -1 \<and> sys_bind y (sys_socket y) addr \<and> sys_listen y (sys_socket y) SOMAXCONN))"

text \<open>A server that has bound nothing yet.\<close>

definition unbound :: "int set \<Rightarrow> TcpServer \<Rightarrow> bool" where
  "unbound base sv \<longleftrightarrow> net_open (sv_net sv) = base \<and> m_socks sv = [] \<and> accept_tasks sv = [] \<and> io_tasks sv = [] \<and> m_isStop sv"

text \<open>What the server was configured with, and what it listens on.\<close>

definition same_settings :: "TcpServer \<Rightarrow> TcpServer \<Rightarrow> bool" where
  "same_settings sv sv' \<longleftrightarrow> sv_recvTimeout sv' = sv_recvTimeout sv \<and> m_isKeepalive sv' = m_isKeepalive sv \<and> statics sv' = statics sv \<and>
     users sv' = users sv \<and> io_tasks sv' = io_tasks sv \<and> fd_mgr (sv_net sv') = fd_mgr (sv_net sv)"

definition listens_on :: "TcpServer \<Rightarrow> Address \<Rightarrow> bool" where
  "listens_on sv addr \<longleftrightarrow> (\<exists>p s. m_socks sv = [p] \<and> socks sv p = Some s \<and> m_localAddress s = Some addr)"

lemma same_settings_trans: "same_settings a b \<Longrightarrow> same_settings b c \<Longrightarrow> same_settings a c"
  by (simp add: same_settings_def)

lemma socket_keeps_contexts:
  "fd_mgr (snd (snd (Socket_close s w))) = fd_mgr w" "fd_mgr (snd (snd (Socket_bind y addr s w))) = fd_mgr w"
  by (auto simp: Socket_close_def sys_close_def Socket_bind_def ensure_sock_def newSock_def initSock_def setOption_def Let_def split: prod.split)

lemma kill_socket_settings: "fd_mgr w = fd_mgr (sv_net sv) \<Longrightarrow> same_settings sv (kill_socket s (sv\<lparr>sv_net := w\<rparr>))"
  by (simp add: same_settings_def kill_socket_def socket_keeps_contexts)

lemma fold_release_settings: "same_settings sv (fold release ps sv)"
proof (induction ps arbitrary: sv)
  case (Cons p ps)
  have "same_settings sv (release p sv)" by (simp add: same_settings_def release_def kill_socket_def socket_keeps_contexts split: option.split)
  with Cons[of "release p sv"] show ?case by (auto intro: same_settings_trans)
qed (simp add: same_settings_def)

lemma clear_socks_settings: "same_settings sv (clear_socks sv)"
  using fold_release_settings[of "sv\<lparr>m_socks := []\<rparr>"] by (simp add: clear_socks_def same_settings_def)

lemma bind_loop_settings: "same_settings sv (snd (bind_loop k i addrs fails sv))"
proof (induction addrs arbitrary: i fails sv)
  case (Cons a addrs)
  let ?y = "k i (net_open (sv_net sv))"
  obtain ok s w where b: "Socket_bind ?y a (CreateTCP a) (sv_net sv) = (ok, s, w)" by (metis prod_cases3)
  then have w: "fd_mgr w = fd_mgr (sv_net sv)" using socket_keeps_contexts(2)[of ?y a "CreateTCP a" "sv_net sv"] by simp
  have "same_settings sv (sv\<lparr>sv_net := w, socks := x, next_sock := q, m_socks := ps\<rparr>)" for x q ps using w by (simp add: same_settings_def)
  then show ?case using b kill_socket_settings[OF w, of s] by (auto simp: Let_def intro: same_settings_trans[OF _ Cons.IH])
qed (simp add: same_settings_def)

lemma bind1_settings: "same_settings sv (snd (TcpServer_bind1 k addr sv))"
  using bind_loop_settings[of sv k 0 "[addr]" "[]"] unfolding TcpServer_bind1_def TcpServer_bind_def
  by (auto simp del: bind_loop.simps split: prod.split intro: same_settings_trans clear_socks_settings)

text \<open>A socket that was bound knows the address it was bound to.\<close>

lemma Socket_bind_local: "Socket_bind y addr s w = (True, s', w') \<Longrightarrow> m_localAddress s' = Some addr"
  by (auto simp: Socket_bind_def ensure_sock_def newSock_def getLocalAddress_def Let_def split: if_splits prod.splits)

lemma bind1_listens:
  assumes "fst (TcpServer_bind1 k addr sv)" "m_socks sv = []"
  shows "listens_on (snd (TcpServer_bind1 k addr sv)) addr"
  using assms by (auto simp: TcpServer_bind1_def TcpServer_bind_def listens_on_def Let_def Socket_bind_local split: prod.splits if_splits)

lemma bind1_step:
  assumes "fresh_fds k" "finite base" "unbound base sv"
  shows "if fst (TcpServer_bind1 k addr sv)
     then bound base (snd (TcpServer_bind1 k addr sv)) \<and> listens_on (snd (TcpServer_bind1 k addr sv)) addr \<and>
       accept_tasks (snd (TcpServer_bind1 k addr sv)) = [] \<and> m_isStop (snd (TcpServer_bind1 k addr sv))
     else unbound base (snd (TcpServer_bind1 k addr sv))"
proof -
  obtain ok fails sv' where b: "TcpServer_bind k [addr] [] sv = (ok, fails, sv')" by (metis prod_cases3)
  have m: "finite (net_open (sv_net sv))" "m_socks sv = []" "accept_tasks sv = []" "io_tasks sv = []" using assms(2,3) by (auto simp: unbound_def)
  from bind_atomic[OF assms(1) m b] bind_frame[OF b] bind1_listens[of k addr sv] m(2) b assms(3) show ?thesis by (auto simp: TcpServer_bind1_def unbound_def)
qed

lemma bind1_accepts:
  assumes "accepts k addr" "finite (net_open (sv_net sv))"
  shows "fst (TcpServer_bind1 k addr sv)"
proof -
  let ?y = "k 0 (net_open (sv_net sv))"
  have y: "sys_socket ?y \<noteq> -1" "sys_bind ?y (sys_socket ?y) addr" "sys_listen ?y (sys_socket ?y) SOMAXCONN"
    using assms by (simp_all add: accepts_def Let_def)
  have "fst (Socket_bind ?y addr (CreateTCP addr) (sv_net sv))"
    using y(1,2) by (simp add: Socket_bind_def ensure_sock_def newSock_def isValid_def CreateTCP_def Socket_ctor_def Let_def)
  moreover have "m_sock (fst (snd (Socket_bind ?y addr (CreateTCP addr) (sv_net sv)))) = sys_socket ?y"
    using y(1,2) by (simp add: Socket_bind_def ensure_sock_def newSock_def isValid_def CreateTCP_def Socket_ctor_def Let_def)
  ultimately show ?thesis using y(1,3)
    by (auto simp: TcpServer_bind1_def TcpServer_bind_def Socket_listen_def isValid_def Let_def split: prod.splits)
qed

lemma bind_retry_ends:
  assumes "\<And>n. fresh_fds (k n)" "finite base" "unbound base sv" "accepts (k (n + d)) addr"
  shows "\<exists>sv'. bind_retry k n addr sv = Some sv' \<and> bound base sv' \<and> listens_on sv' addr \<and> accept_tasks sv' = [] \<and> m_isStop sv' \<and> same_settings sv sv'"
  using assms(3,4)
proof (induction d arbitrary: n sv)
  case 0
  then have "fst (TcpServer_bind1 (k n) addr sv)" using bind1_accepts[of "k n" addr sv] assms(2) by (simp add: unbound_def)
  then show ?case using bind1_step[OF assms(1)[of n] assms(2) 0(1), of addr] bind1_settings[of sv "k n" addr] by (subst bind_retry.simps) (simp add: Let_def)
next
  case (Suc d)
  have step: "if fst (TcpServer_bind1 (k n) addr sv)
     then bound base (snd (TcpServer_bind1 (k n) addr sv)) \<and> listens_on (snd (TcpServer_bind1 (k n) addr sv)) addr \<and>
       accept_tasks (snd (TcpServer_bind1 (k n) addr sv)) = [] \<and> m_isStop (snd (TcpServer_bind1 (k n) addr sv))
     else unbound base (snd (TcpServer_bind1 (k n) addr sv))" by (rule bind1_step[OF assms(1)[of n] assms(2) Suc.prems(1)])
  show ?case
  proof (cases "fst (TcpServer_bind1 (k n) addr sv)")
    case True
    then show ?thesis using step bind1_settings[of sv "k n" addr] by (subst bind_retry.simps) (simp add: Let_def)
  next
    case False
    then have "unbound base (snd (TcpServer_bind1 (k n) addr sv))" using step by simp
    from Suc.IH[OF this, of "n + 1"] Suc.prems(2) False bind1_settings[of sv "k n" addr] show ?thesis
      by (subst bind_retry.simps) (auto simp: Let_def intro: same_settings_trans)
  qed
qed

text \<open>Starting a bound server schedules its accept task and keeps everything else.\<close>

lemma run_listens:
  assumes "\<And>n. fresh_fds (k n)" "finite (net_open w)"
    and "IPv4Address_Create inet_pton ip (word_of_int port) = Some addr" "accepts (k N) (IPv4 addr)"
  shows "\<exists>sv p s. main_run inet_pton k ip port timeout resources w o' = Some (Some sv) \<and> m_socks sv = [p] \<and> bound (net_open w) sv \<and>
     accept_tasks sv = [StartAccept p] \<and> \<not> m_isStop sv \<and> socks sv p = Some s \<and> m_localAddress s = Some (IPv4 addr) \<and>
     sv_recvTimeout sv = timeout \<and> statics sv = \<lparr>isET = False, srcDir = resources, userCount = 0, closed_fds = []\<rparr> \<and> users sv = Map.empty \<and> io_tasks sv = [] \<and>
     fd_mgr (sv_net sv) = fd_mgr w"
proof -
  let ?sv = "HttpServer_ctor timeout True resources w o'"
  have "unbound (net_open w) ?sv" by (simp add: unbound_def HttpServer_ctor_def)
  from bind_retry_ends[where k = k and n = 0 and d = N and addr = "IPv4 addr", OF assms(1,2) this] assms(4) obtain sv where
    sv: "bind_retry k 0 (IPv4 addr) ?sv = Some sv" "bound (net_open w) sv" "listens_on sv (IPv4 addr)" "accept_tasks sv = []" "m_isStop sv" "same_settings ?sv sv" by auto
  then obtain p s where p: "m_socks sv = [p]" "socks sv p = Some s" "m_localAddress s = Some (IPv4 addr)" by (auto simp: listens_on_def)
  let ?sv' = "sv\<lparr>m_isStop := False, accept_tasks := [StartAccept p]\<rparr>"
  have "fd_of ?sv' = fd_of sv" by (rule ext) (simp add: fd_of_def)
  then have "bound (net_open w) ?sv'" using sv(2) by (simp add: bound_def)
  then show ?thesis using sv(1,4-6) p assms(3)
    by (intro exI[of _ ?sv'] exI[of _ p] exI[of _ s]) (simp add: main_run_def TcpServer_start_def same_settings_def HttpServer_ctor_def)
qed

text \<open>C11: The server comes up: if the configured address is valid and the kernel accepts it at some attempt, whatever failed before,
  the retry loop of \<^verbatim>\<open>run\<close> ends; the server then has one listening socket, bound to that address, its descriptor is the only one the
  attempts left open, it is running with the timeout and the resource directory it was given, and exactly one accept task, for that socket,
  has been scheduled.\<close>

theorem server_comes_up:
  assumes "\<And>n. fresh_fds (k n)" "finite (net_open w)"
    and "IPv4Address_Create inet_pton ip (word_of_int port) = Some addr" "accepts (k N) (IPv4 addr)"
  shows "\<exists>sv p s. main_run inet_pton k ip port timeout resources w o' = Some (Some sv) \<and> m_socks sv = [p] \<and> bound (net_open w) sv \<and>
     accept_tasks sv = [StartAccept p] \<and> \<not> m_isStop sv \<and> socks sv p = Some s \<and> m_localAddress s = Some (IPv4 addr) \<and>
     sv_recvTimeout sv = timeout \<and> srcDir (statics sv) = resources"
  using run_listens[where k = k and N = N and addr = addr, OF assms, of timeout resources o'] by auto

text \<open>A kernel that refuses the address twice.\<close>

definition stubborn_kernel :: "nat \<Rightarrow> nat \<Rightarrow> int set \<Rightarrow> sys" where
  "stubborn_kernel n i opened = (demo_kernel i opened)\<lparr>sys_bind := (\<lambda>_ _. n \<ge> 2)\<rparr>"

lemma stubborn_kernel_ok: "fresh_fds (stubborn_kernel n)" "accepts (stubborn_kernel 2) addr"
proof -
  have "Max (insert 0 opened) + 1 \<noteq> - 1" if "finite opened" for opened :: "int set"
  proof -
    have "0 \<le> Max (insert 0 opened)" using that by (intro Max_ge) auto
    then show ?thesis by linarith
  qed
  then show "accepts (stubborn_kernel 2) addr" by (simp add: accepts_def stubborn_kernel_def demo_kernel_def demo_sys_def Let_def)
  show "fresh_fds (stubborn_kernel n)" using demo_kernel_fresh by (simp add: fresh_fds_def stubborn_kernel_def)
qed

theorem server_comes_up_witness:
  "\<exists>sv p. main_run (\<lambda>_. Some 0) stubborn_kernel ''0.0.0.0'' 8000 120000 ''/srv'' (demo_net\<lparr>net_open := {0, 1}\<rparr>) \<lparr>os_fds = 0, os_mapped = 0\<rparr> = Some (Some sv) \<and>
     m_socks sv = [p] \<and> bound {0, 1} sv \<and> accept_tasks sv = [StartAccept p] \<and> \<not> m_isStop sv \<and> sv_recvTimeout sv = 120000"
proof -
  obtain addr where a: "IPv4Address_Create (\<lambda>_. Some 0) ''0.0.0.0'' (word_of_int 8000) = Some addr" by (simp add: IPv4Address_Create_def Let_def)
  from server_comes_up[where inet_pton = "\<lambda>_. Some 0" and k = stubborn_kernel and w = "demo_net\<lparr>net_open := {0, 1}\<rparr>",
      OF stubborn_kernel_ok(1) _ a stubborn_kernel_ok(2), of 120000 "''/srv''" "\<lparr>os_fds = 0, os_mapped = 0\<rparr>"]
  show ?thesis by fastforce
qed

text \<open>With an address that does not parse nothing is bound or started.\<close>

lemma bad_address_returns: "inet_pton ip = None \<Longrightarrow> main_run inet_pton k ip port timeout resources w o' = Some None"
  by (simp add: main_run_def IPv4Address_Create_def Let_def)

end
