(* ===== verification/TW_Fiber.thy ===== *)
theory TW_Fiber
  imports TW_Prelude
begin

text \<open>
  \<^verbatim>\<open>src/coroutine/fiber.cpp\<close>: the fibers of one thread. Fibers are objects in a store; a saved
  \<^verbatim>\<open>ucontext_t\<close> is the entry function or the execution it was saved from, named by the fiber on whose
  stack that execution runs. The field \<open>running\<close> is the execution that has the processor: the calls
  of the source act in it, and \<^verbatim>\<open>swapcontext\<close> changes it. \<^verbatim>\<open>getcontext\<close> and \<^verbatim>\<open>malloc\<close> are taken to
  succeed. Failed assertions are errors.
\<close>

section \<open>Data\<close>

type_synonym fiber_ptr = nat

text \<open>\<^verbatim>\<open>TERM\<close> is reserved in Isabelle terms, hence the name \<open>TERMd\<close>.\<close>

datatype State = READY | RUNNING | TERMd

datatype ucontext = Unset | Entry | Saved fiber_ptr

record 'f Fiber =
  m_id :: "64 word"
  m_stacksize :: "32 word"
  m_state :: State
  m_ctx :: ucontext
  m_stack :: bool
  m_cb :: "'f option"
  m_runInScheduler :: bool

record 'f fiber_world =
  fibers :: "fiber_ptr \<rightharpoonup> 'f Fiber"
  s_fiber_id :: "64 word"
  s_fiber_count :: "64 word"
  t_fiber :: "fiber_ptr option"
  t_thread_fiber :: "fiber_ptr option"
  t_scheduler_fiber :: "fiber_ptr option"
  running :: fiber_ptr

definition fiber_stack_size :: "32 word" where
  "fiber_stack_size = 128 * 1024"

section \<open>Operations\<close>

text \<open>Access through a pointer: a null or dangling one is undefined.\<close>

definition deref :: "'f fiber_world \<Rightarrow> fiber_ptr option \<Rightarrow> (fiber_ptr \<times> 'f Fiber) res" where
  "deref w ptr = (case ptr of None \<Rightarrow> Inl Undefined | Some p \<Rightarrow>
     (case fibers w p of None \<Rightarrow> Inl Undefined | Some f \<Rightarrow> Inr (p, f)))"

definition set_fiber :: "fiber_ptr \<Rightarrow> 'f Fiber \<Rightarrow> 'f fiber_world \<Rightarrow> 'f fiber_world" where
  "set_fiber p f w = w\<lparr>fibers := (fibers w)(p \<mapsto> f)\<rparr>"

definition SetThis :: "fiber_ptr option \<Rightarrow> 'f fiber_world \<Rightarrow> 'f fiber_world" where
  "SetThis f w = w\<lparr>t_fiber := f\<rparr>"

definition swapcontext :: "fiber_ptr option \<Rightarrow> fiber_ptr option \<Rightarrow> 'f fiber_world \<Rightarrow> 'f fiber_world res" where
  "swapcontext from to w =
     res_bind (deref w from) (\<lambda>(p, f).
       let w1 = set_fiber p (f\<lparr>m_ctx := Saved (running w)\<rparr>) w in
       res_bind (deref w1 to) (\<lambda>(q, g).
         case m_ctx g of
           Unset \<Rightarrow> Inl Undefined
         | Entry \<Rightarrow> Inr (w1\<lparr>running := q\<rparr>)
         | Saved s \<Rightarrow> Inr (w1\<lparr>running := s\<rparr>)))"

text \<open>The constructor without arguments, for the fiber of the thread's own stack.\<close>

definition Fiber_main_ctor :: "fiber_ptr \<Rightarrow> 'f fiber_world \<Rightarrow> 'f fiber_world" where
  "Fiber_main_ctor this w =
     (let w1 = SetThis (Some this) w in
      (set_fiber this \<lparr>m_id = s_fiber_id w, m_stacksize = 0, m_state = RUNNING, m_ctx = Saved this, m_stack = False,
         m_cb = None, m_runInScheduler = False\<rparr> w1)
        \<lparr>s_fiber_count := s_fiber_count w + 1, s_fiber_id := s_fiber_id w + 1, running := this\<rparr>)"

definition Fiber_ctor :: "fiber_ptr \<Rightarrow> 'f option \<Rightarrow> 64 word \<Rightarrow> bool \<Rightarrow> 'f fiber_world \<Rightarrow> 'f fiber_world" where
  "Fiber_ctor this cb stacksize run_in_scheduler w =
     (set_fiber this \<lparr>m_id = s_fiber_id w, m_stacksize = (if stacksize \<noteq> 0 then ucast stacksize else fiber_stack_size),
         m_state = READY, m_ctx = Entry, m_stack = True, m_cb = cb, m_runInScheduler = run_in_scheduler\<rparr> w)
       \<lparr>s_fiber_id := s_fiber_id w + 1, s_fiber_count := s_fiber_count w + 1\<rparr>"

definition Fiber_dtor :: "fiber_ptr \<Rightarrow> 'f fiber_world \<Rightarrow> 'f fiber_world res" where
  "Fiber_dtor this w =
     res_bind (deref w (Some this)) (\<lambda>(_, f).
       let w1 = w\<lparr>s_fiber_count := s_fiber_count w - 1\<rparr>;
           gone = (\<lambda>v. v\<lparr>fibers := (fibers v)(this := None)\<rparr>)
       in if m_stack f then res_bind (cxx_assert (m_state f = TERMd)) (\<lambda>_. Inr (gone w1))
          else res_bind (cxx_assert (m_cb f = None)) (\<lambda>_.
                 res_bind (cxx_assert (m_state f = RUNNING)) (\<lambda>_.
                   Inr (gone (if t_fiber w1 = Some this then SetThis None w1 else w1)))))"

text \<open>\<open>fresh\<close> is the address \<^verbatim>\<open>new Fiber\<close> returns when the thread has no fiber yet.\<close>

definition Fiber_GetThis :: "fiber_ptr \<Rightarrow> 'f fiber_world \<Rightarrow> (fiber_ptr \<times> 'f fiber_world) res" where
  "Fiber_GetThis fresh w =
     (case t_fiber w of
        Some p \<Rightarrow> Inr (p, w)
      | None \<Rightarrow>
          let w1 = Fiber_main_ctor fresh w in
          res_bind (cxx_assert (t_fiber w1 = Some fresh)) (\<lambda>_. Inr (fresh, w1\<lparr>t_thread_fiber := Some fresh\<rparr>)))"

definition Fiber_reset :: "fiber_ptr \<Rightarrow> 'f option \<Rightarrow> 'f fiber_world \<Rightarrow> 'f fiber_world res" where
  "Fiber_reset this cb w =
     res_bind (deref w (Some this)) (\<lambda>(_, f).
       res_bind (cxx_assert (m_stack f)) (\<lambda>_.
         res_bind (cxx_assert (m_state f = TERMd)) (\<lambda>_.
           Inr (set_fiber this (f\<lparr>m_cb := cb, m_ctx := Entry, m_state := READY\<rparr>) w))))"

definition main_of :: "'f Fiber \<Rightarrow> 'f fiber_world \<Rightarrow> fiber_ptr option" where
  "main_of f w = (if m_runInScheduler f then t_scheduler_fiber w else t_thread_fiber w)"

definition resume :: "fiber_ptr \<Rightarrow> 'f fiber_world \<Rightarrow> 'f fiber_world res" where
  "resume this w =
     res_bind (deref w (Some this)) (\<lambda>(_, f).
       res_bind (cxx_assert (m_state f = READY)) (\<lambda>_.
         swapcontext (main_of f w) (Some this) (set_fiber this (f\<lparr>m_state := RUNNING\<rparr>) (SetThis (Some this) w))))"

definition yield :: "fiber_ptr \<Rightarrow> 'f fiber_world \<Rightarrow> 'f fiber_world res" where
  "yield this w =
     res_bind (deref w (Some this)) (\<lambda>(_, f).
       res_bind (cxx_assert (m_state f \<noteq> READY)) (\<lambda>_.
         swapcontext (Some this) (main_of f w)
           (set_fiber this (if m_state f \<noteq> TERMd then f\<lparr>m_state := READY\<rparr> else f) (SetThis (t_thread_fiber w) w))))"

text \<open>\<^verbatim>\<open>MainFunc\<close> in two parts: what it runs, and what it does after the callback has returned to it.\<close>

definition MainFunc_start :: "'f fiber_world \<Rightarrow> (fiber_ptr \<times> 'f) res" where
  "MainFunc_start w =
     res_bind (deref w (t_fiber w)) (\<lambda>(cur, f).
       case m_cb f of None \<Rightarrow> Inl BadFunctionCall | Some cb \<Rightarrow> Inr (cur, cb))"

definition MainFunc_end :: "fiber_ptr \<Rightarrow> 'f fiber_world \<Rightarrow> 'f fiber_world res" where
  "MainFunc_end cur w =
     res_bind (deref w (Some cur)) (\<lambda>(_, f). yield cur (set_fiber cur (f\<lparr>m_cb := None, m_state := TERMd\<rparr>) w))"

definition GetFiberId :: "'f fiber_world \<Rightarrow> 64 word res" where
  "GetFiberId w =
     (case t_fiber w of None \<Rightarrow> Inr 0 | Some _ \<Rightarrow> res_bind (deref w (t_fiber w)) (\<lambda>(_, f). Inr (m_id f)))"

section \<open>Runs of a scheduler thread\<close>

text \<open>
  A thread of the scheduler has a main fiber \<open>m\<close> and a scheduler fiber \<open>s\<close>. On a worker thread \<^verbatim>\<open>Scheduler::run\<close> makes the main fiber
  and declares it the scheduler fiber. On the thread that constructs a scheduler with \<^verbatim>\<open>use_caller\<close>, the constructor makes the
  main fiber and then \<^verbatim>\<open>m_rootFiber\<close>, a fiber with a stack that does not take part in scheduling, and declares that one the scheduler
  fiber; \<^verbatim>\<open>Scheduler::stop\<close> resumes it from the main fiber, and it gives the processor back when \<^verbatim>\<open>Scheduler::run\<close> returns. From
  then on only the scheduler fiber resumes task fibers, and a task fiber only yields or ends. Fibers may be created, reset
  and destroyed by any fiber; on a thread with a root fiber they take part in scheduling, as the fibers that \<^verbatim>\<open>Scheduler\<close> makes do.
\<close>

definition no_fibers :: "64 word \<Rightarrow> 64 word \<Rightarrow> 'f fiber_world" where
  "no_fibers next_id count = \<lparr>fibers = Map.empty, s_fiber_id = next_id, s_fiber_count = count, t_fiber = None,
     t_thread_fiber = None, t_scheduler_fiber = None, running = 0\<rparr>"

definition worker_start :: "fiber_ptr \<Rightarrow> 'f fiber_world \<Rightarrow> 'f fiber_world res" where
  "worker_start m w = res_bind (Fiber_GetThis m w) (\<lambda>(p, w1). Inr (w1\<lparr>t_scheduler_fiber := Some p\<rparr>))"

definition use_caller_start :: "fiber_ptr \<Rightarrow> fiber_ptr \<Rightarrow> 'f \<Rightarrow> 'f fiber_world \<Rightarrow> 'f fiber_world res" where
  "use_caller_start m s run w =
     res_bind (Fiber_GetThis m w) (\<lambda>(_, w1). Inr ((Fiber_ctor s (Some run) 0 False w1)\<lparr>t_scheduler_fiber := Some s\<rparr>))"

inductive fiber_run :: "fiber_ptr \<Rightarrow> fiber_ptr \<Rightarrow> 'f fiber_world \<Rightarrow> bool" for m s where
  worker: "s = m \<Longrightarrow> worker_start m (no_fibers i c) = Inr w \<Longrightarrow> fiber_run m s w"
| caller: "s \<noteq> m \<Longrightarrow> use_caller_start m s cb (no_fibers i c) = Inr w \<Longrightarrow> fiber_run m s w"
| create: "fiber_run m s w \<Longrightarrow> fibers w p = None \<Longrightarrow> rs \<or> s = m \<Longrightarrow> fiber_run m s (Fiber_ctor p cb sz rs w)"
| reset: "fiber_run m s w \<Longrightarrow> p \<noteq> s \<Longrightarrow> Fiber_reset p cb w = Inr w' \<Longrightarrow> fiber_run m s w'"
| root: "fiber_run m s w \<Longrightarrow> s \<noteq> m \<Longrightarrow> running w = m \<Longrightarrow> resume s w = Inr w' \<Longrightarrow> fiber_run m s w'"
| resume: "fiber_run m s w \<Longrightarrow> running w = s \<Longrightarrow> resume p w = Inr w' \<Longrightarrow> fiber_run m s w'"
| yields: "fiber_run m s w \<Longrightarrow> running w = p \<Longrightarrow> p \<noteq> m \<Longrightarrow> p \<noteq> s \<Longrightarrow> yield p w = Inr w' \<Longrightarrow> fiber_run m s w'"
| ends: "fiber_run m s w \<Longrightarrow> running w = p \<Longrightarrow> p \<noteq> m \<Longrightarrow> MainFunc_end p w = Inr w' \<Longrightarrow> fiber_run m s w'"
| destroy: "fiber_run m s w \<Longrightarrow> p \<noteq> m \<Longrightarrow> p \<noteq> s \<Longrightarrow> Fiber_dtor p w = Inr w' \<Longrightarrow> fiber_run m s w'"

text \<open>
  The invariant: the main fiber's context is its own; a root fiber runs or waits in a task exactly while the main fiber does not
  run; the running task is the only one in state RUNNING, and then the scheduler fiber's context is saved; a task that is
  READY starts at its entry or continues its own execution. The current fiber is the running one, but for the root fiber after a task gave
  the processor back to it: \<^verbatim>\<open>yield\<close> makes the main fiber the current one.
\<close>

definition task_ok :: "bool \<Rightarrow> fiber_ptr \<Rightarrow> fiber_ptr \<Rightarrow> 'f Fiber \<Rightarrow> bool" where
  "task_ok worker r p f \<longleftrightarrow> m_stack f \<and> (m_runInScheduler f \<or> worker) \<and> (m_state f = RUNNING \<longleftrightarrow> r = p) \<and>
     (m_state f = READY \<longrightarrow> m_ctx f \<in> {Entry, Saved p})"

definition main_ok :: "fiber_ptr \<Rightarrow> 'f Fiber \<Rightarrow> bool" where
  "main_ok m f \<longleftrightarrow> \<not> m_stack f \<and> m_state f = RUNNING \<and> m_ctx f = Saved m"

definition root_ok :: "fiber_ptr \<Rightarrow> fiber_ptr \<Rightarrow> fiber_ptr \<Rightarrow> 'f Fiber \<Rightarrow> bool" where
  "root_ok m s r g \<longleftrightarrow> m_stack g \<and> \<not> m_runInScheduler g \<and> (m_state g = RUNNING \<longleftrightarrow> r \<noteq> m) \<and> (m_state g = READY \<longrightarrow> m_ctx g = Entry) \<and>
     (r \<noteq> m \<and> r \<noteq> s \<longrightarrow> m_ctx g = Saved s)"

definition fiber_inv :: "fiber_ptr \<Rightarrow> fiber_ptr \<Rightarrow> 'f fiber_world \<Rightarrow> bool" where
  "fiber_inv m s w \<longleftrightarrow> t_thread_fiber w = Some m \<and> t_scheduler_fiber w = Some s \<and>
     (t_fiber w = Some (running w) \<or> s \<noteq> m \<and> running w = s \<and> t_fiber w = Some m) \<and>
     (\<exists>f. fibers w m = Some f \<and> main_ok m f) \<and>
     (s \<noteq> m \<longrightarrow> (\<exists>g. fibers w s = Some g \<and> root_ok m s (running w) g)) \<and>
     fibers w (running w) \<noteq> None \<and>
     (\<forall>p f. p \<noteq> m \<longrightarrow> p \<noteq> s \<longrightarrow> fibers w p = Some f \<longrightarrow> task_ok (s = m) (running w) p f)"

lemma fiber_invD:
  assumes "fiber_inv m s w"
  shows "t_thread_fiber w = Some m" "t_scheduler_fiber w = Some s"
    "t_fiber w = Some (running w) \<or> s \<noteq> m \<and> running w = s \<and> t_fiber w = Some m"
    "p \<noteq> m \<Longrightarrow> p \<noteq> s \<Longrightarrow> fibers w p = Some f \<Longrightarrow> task_ok (s = m) (running w) p f"
    "\<exists>f. fibers w m = Some f \<and> main_ok m f"
    "s \<noteq> m \<Longrightarrow> \<exists>g. fibers w s = Some g \<and> root_ok m s (running w) g" "\<exists>f. fibers w (running w) = Some f"
  using assms by (auto simp: fiber_inv_def)

lemma task_main: "fiber_inv m s w \<Longrightarrow> p \<noteq> m \<Longrightarrow> p \<noteq> s \<Longrightarrow> fibers w p = Some f \<Longrightarrow> main_of f w = Some s"
  using fiber_invD(1,2,4)[of m s w] by (auto simp: main_of_def task_ok_def)

lemma scheduler_fiber: "fiber_inv m s w \<Longrightarrow> \<exists>g. fibers w s = Some g"
  using fiber_invD(5,6)[of m s w] by (cases "s = m") auto

lemmas fiber_defs = deref_def set_fiber_def SetThis_def swapcontext_def
lemmas fiber_oks = task_ok_def main_ok_def root_ok_def

lemma GetThis_first:
  "Fiber_GetThis m (no_fibers i c) = Inr (p, w) \<Longrightarrow> p = m \<and> t_fiber w = Some m \<and> t_thread_fiber w = Some m \<and> running w = m \<and>
     (\<exists>f. fibers w = [m \<mapsto> f] \<and> main_ok m f)"
  by (auto simp: Fiber_GetThis_def no_fibers_def Fiber_main_ctor_def Let_def fiber_defs main_ok_def)

lemma worker_inv: "worker_start m (no_fibers i c) = Inr w \<Longrightarrow> fiber_inv m m w"
  by (auto simp: worker_start_def res_bind_Inr_iff fiber_inv_def dest!: GetThis_first split: if_splits)

lemma caller_inv: "s \<noteq> m \<Longrightarrow> use_caller_start m s cb (no_fibers i c) = Inr w \<Longrightarrow> fiber_inv m s w"
  by (auto simp: use_caller_start_def res_bind_Inr_iff fiber_inv_def Fiber_ctor_def set_fiber_def root_ok_def
      dest!: GetThis_first split: if_splits)

lemma fiber_create_inv: "fiber_inv m s w \<Longrightarrow> fibers w p = None \<Longrightarrow> rs \<or> s = m \<Longrightarrow> fiber_inv m s (Fiber_ctor p cb sz rs w)"
  by (auto simp: Fiber_ctor_def fiber_inv_def set_fiber_def task_ok_def)

lemma fiber_reset_inv:
  assumes "fiber_inv m s w" "p \<noteq> s" "Fiber_reset p cb w = Inr w'"
  shows "fiber_inv m s w'"
proof -
  from assms(3) obtain f where f: "fibers w p = Some f" "m_stack f" "m_state f = TERMd"
    "w' = set_fiber p (f\<lparr>m_cb := cb, m_ctx := Entry, m_state := READY\<rparr>) w"
    by (auto simp: Fiber_reset_def deref_def res_bind_Inr_iff cxx_assert_def split: option.splits if_splits)
  have pm: "p \<noteq> m" using fiber_invD(5)[OF assms(1)] f by (auto simp: main_ok_def)
  have "task_ok (s = m) (running w) p f" using fiber_invD(4)[OF assms(1) pm assms(2) f(1)] .
  with f pm assms(1,2) show ?thesis by (auto simp: fiber_inv_def set_fiber_def task_ok_def)
qed

text \<open>Resuming a READY task from the scheduler fiber switches to that task.\<close>

lemma resume_task:
  assumes "fiber_inv m s w" "running w = s" "p \<noteq> m" "p \<noteq> s" "fibers w p = Some f" "m_state f = READY"
  shows "\<exists>w'. resume p w = Inr w' \<and> running w' = p \<and> t_fiber w' = Some p \<and> fiber_inv m s w'"
proof -
  obtain g where g: "fibers w s = Some g" using scheduler_fiber[OF assms(1)] by blast
  have c: "task_ok (s = m) s p f" using fiber_invD(4)[OF assms(1,3-5)] assms(2) by simp
  let ?w = "w\<lparr>t_fiber := Some p, fibers := (fibers w)(p \<mapsto> f\<lparr>m_state := RUNNING\<rparr>, s \<mapsto> g\<lparr>m_ctx := Saved s\<rparr>), running := p\<rparr>"
  have "resume p w = Inr ?w"
    using assms(2,4-6) g c task_main[OF assms(1,3-5)] by (auto simp: resume_def fiber_defs Let_def task_ok_def)
  moreover have "fiber_inv m s ?w"
    using assms g c by (auto simp: fiber_inv_def fiber_oks)
  ultimately show ?thesis by (intro exI[of _ ?w]) simp
qed

lemma resume_root:
  assumes "fiber_inv m s w" "running w = m" "s \<noteq> m" "fibers w s = Some g" "m_state g = READY"
  shows "\<exists>w'. resume s w = Inr w' \<and> running w' = s \<and> t_fiber w' = Some s \<and> fiber_inv m s w'"
proof -
  obtain f where f: "fibers w m = Some f" "main_ok m f" using fiber_invD(5)[OF assms(1)] by blast
  have r: "root_ok m s m g" using fiber_invD(6)[OF assms(1,3)] assms(2,4) by simp
  have mn: "main_of g w = Some m" using r fiber_invD(1)[OF assms(1)] by (simp add: main_of_def root_ok_def)
  let ?w = "w\<lparr>t_fiber := Some s, fibers := (fibers w)(s \<mapsto> g\<lparr>m_state := RUNNING\<rparr>, m \<mapsto> f\<lparr>m_ctx := Saved m\<rparr>), running := s\<rparr>"
  have "resume s w = Inr ?w"
    using assms(2-5) f r mn by (auto simp: resume_def fiber_defs Let_def root_ok_def)
  moreover have "fiber_inv m s ?w"
    using assms f r by (auto simp: fiber_inv_def fiber_oks)
  ultimately show ?thesis by (intro exI[of _ ?w]) simp
qed

text \<open>A task that yields or ends gives the processor back to the scheduler fiber.\<close>

lemma yield_task:
  assumes "fiber_inv m s w" "running w = p" "p \<noteq> m" "p \<noteq> s" "fibers w p = Some f" "m_stack f'" "m_state f' \<in> {RUNNING, TERMd}"
    "m_runInScheduler f' = m_runInScheduler f"
  shows "\<exists>w' f''. yield p (set_fiber p f' w) = Inr w' \<and> running w' = s \<and> t_fiber w' = Some m \<and> fiber_inv m s w' \<and>
     fibers w' p = Some f'' \<and> m_state f'' = (if m_state f' = TERMd then TERMd else READY)"
proof -
  obtain g where g: "fibers w s = Some g" "m_ctx g = Saved s"
    using fiber_invD(5,6)[OF assms(1)] assms(2-4) by (cases "s = m") (auto simp: fiber_oks)
  have t: "task_ok (s = m) p p f" using fiber_invD(4)[OF assms(1,3-5)] assms(2) by simp
  define f2 where "f2 = (if m_state f' \<noteq> TERMd then f'\<lparr>m_state := READY\<rparr> else f')\<lparr>m_ctx := Saved p\<rparr>"
  let ?w = "w\<lparr>t_fiber := Some m, fibers := (fibers w)(p \<mapsto> f2), running := s\<rparr>"
  have m: "main_of f' (set_fiber p f' w) = Some s"
    using task_main[OF assms(1,3-5)] assms(8) by (auto simp: main_of_def set_fiber_def split: if_splits)
  have "yield p (set_fiber p f' w) = Inr ?w"
    using assms(2,4,7) g m fiber_invD(1)[OF assms(1)] by (auto simp: yield_def fiber_defs Let_def f2_def)
  moreover have "fiber_inv m s ?w"
    using assms g t by (auto simp: fiber_inv_def fiber_oks f2_def)
  ultimately show ?thesis by (intro exI[of _ ?w] exI[of _ f2]) (auto simp: f2_def)
qed

lemma yield_running:
  assumes "fiber_inv m s w" "running w = p" "p \<noteq> m" "p \<noteq> s"
  shows "\<exists>w' f. yield p w = Inr w' \<and> running w' = s \<and> t_fiber w' = Some m \<and> fiber_inv m s w' \<and> fibers w' p = Some f \<and> m_state f = READY"
    "\<exists>w' f. MainFunc_end p w = Inr w' \<and> running w' = s \<and> t_fiber w' = Some m \<and> fiber_inv m s w' \<and> fibers w' p = Some f \<and> m_state f = TERMd"
proof -
  obtain f where f: "fibers w p = Some f" using fiber_invD(7)[OF assms(1)] assms(2) by auto
  have ok: "m_stack f" "m_state f = RUNNING" using fiber_invD(4)[OF assms(1,3,4) f] assms(2) by (auto simp: task_ok_def)
  have "set_fiber p f w = w" using f by (simp add: set_fiber_def fun_upd_idem)
  then show "\<exists>w' f. yield p w = Inr w' \<and> running w' = s \<and> t_fiber w' = Some m \<and> fiber_inv m s w' \<and> fibers w' p = Some f \<and> m_state f = READY"
    using yield_task[OF assms f, of f] ok by auto
  show "\<exists>w' f. MainFunc_end p w = Inr w' \<and> running w' = s \<and> t_fiber w' = Some m \<and> fiber_inv m s w' \<and> fibers w' p = Some f \<and> m_state f = TERMd"
    using yield_task[OF assms f, of "f\<lparr>m_cb := None, m_state := TERMd\<rparr>"] ok f by (auto simp: MainFunc_end_def deref_def)
qed

text \<open>When \<^verbatim>\<open>Scheduler::run\<close> returns on the caller's thread, the root fiber ends and the main fiber goes on.\<close>

lemma root_ends:
  assumes "fiber_inv m s w" "running w = s" "s \<noteq> m"
  shows "\<exists>w' g. MainFunc_end s w = Inr w' \<and> running w' = m \<and> t_fiber w' = Some m \<and> fiber_inv m s w' \<and> fibers w' s = Some g \<and> m_state g = TERMd"
proof -
  obtain f where f: "fibers w m = Some f" "main_ok m f" using fiber_invD(5)[OF assms(1)] by blast
  obtain g where g: "fibers w s = Some g" "root_ok m s s g" using fiber_invD(6)[OF assms(1,3)] assms(2) by auto
  let ?g = "g\<lparr>m_cb := None, m_state := TERMd, m_ctx := Saved s\<rparr>"
  let ?w = "w\<lparr>t_fiber := Some m, fibers := (fibers w)(s \<mapsto> ?g), running := m\<rparr>"
  have "MainFunc_end s w = Inr ?w"
    using assms(2,3) f g fiber_invD(1)[OF assms(1)]
    by (auto simp: MainFunc_end_def yield_def fiber_defs Let_def main_of_def fiber_oks)
  moreover have "fiber_inv m s ?w"
    using assms f g by (auto simp: fiber_inv_def fiber_oks)
  ultimately show ?thesis by (intro exI[of _ ?w] exI[of _ ?g]) simp
qed

lemma dtor_inv:
  assumes "fiber_inv m s w" "p \<noteq> m" "p \<noteq> s" "Fiber_dtor p w = Inr w'"
  shows "fiber_inv m s w'"
proof -
  from assms(4) obtain f where f: "fibers w p = Some f"
    by (auto simp: Fiber_dtor_def deref_def res_bind_Inr_iff split: option.splits)
  then have t: "task_ok (s = m) (running w) p f" using fiber_invD(4)[OF assms(1-3)] by simp
  with assms(4) f have w': "w' = w\<lparr>s_fiber_count := s_fiber_count w - 1, fibers := (fibers w)(p := None)\<rparr>" "m_state f = TERMd"
    by (auto simp: Fiber_dtor_def deref_def res_bind_Inr_iff Let_def task_ok_def cxx_assert_def split: if_splits)
  then have "running w \<noteq> p" using t by (auto simp: task_ok_def)
  with w' show ?thesis using assms(1-3) by (auto simp: fiber_inv_def)
qed

lemma resume_ready: "resume p w = Inr w' \<Longrightarrow> \<exists>f. fibers w p = Some f \<and> m_state f = READY"
  by (auto simp: resume_def deref_def res_bind_Inr_iff cxx_assert_def split: option.splits if_splits)

lemma fiber_run_inv: "fiber_run m s w \<Longrightarrow> fiber_inv m s w"
proof (induction rule: fiber_run.induct)
  case (worker i c w)
  then show ?case using worker_inv by blast
next
  case (caller cb i c w)
  then show ?case by (rule caller_inv)
next
  case (create w p rs cb sz)
  then show ?case by (simp add: fiber_create_inv)
next
  case (reset w p cb w')
  then show ?case using fiber_reset_inv by blast
next
  case (root w w')
  then show ?case using resume_ready[OF root(4)] resume_root[OF root.IH root(3,2)] by fastforce
next
  case (resume w p w')
  obtain f where f: "fibers w p = Some f" "m_state f = READY" using resume_ready[OF resume(3)] by blast
  have "p \<noteq> m" using fiber_invD(5)[OF resume.IH] f by (auto simp: main_ok_def)
  moreover have "p \<noteq> s"
    using fiber_invD(6)[OF resume.IH] f resume(2) calculation by (auto simp: root_ok_def)
  ultimately show ?case using resume_task[OF resume.IH resume(2) _ _ f] resume(3) by fastforce
next
  case (yields w p w')
  then show ?case using yield_running(1)[OF yields.IH] by fastforce
next
  case (ends w p w')
  show ?case
  proof (cases "p = s")
    case True
    then show ?thesis using root_ends[OF ends.IH] ends by fastforce
  next
    case False
    then show ?thesis using yield_running(2)[OF ends.IH ends(2,3)] ends(4) by fastforce
  qed
next
  case (destroy w p w')
  then show ?case using dtor_inv by blast
qed

text \<open>
  A task that resumes another task instead of scheduling it overwrites the scheduler fiber's
  saved context with its own: from then on its own yields come back to itself.
\<close>

lemma nested_resume_loses_scheduler:
  assumes "fiber_run m s w" "running w = p" "p \<noteq> m" "p \<noteq> s" "q \<noteq> m" "q \<noteq> s" "fibers w q = Some f" "m_state f = READY"
  shows "\<exists>w1 w2 w3. resume q w = Inr w1 \<and> yield q w1 = Inr w2 \<and> running w2 = p \<and> yield p w2 = Inr w3 \<and> running w3 = p"
proof -
  note inv = fiber_run_inv[OF assms(1)]
  obtain g where g: "fibers w s = Some g" using scheduler_fiber[OF inv] by blast
  obtain h where h: "fibers w p = Some h" using fiber_invD(7)[OF inv] assms(2) by auto
  have t: "task_ok (s = m) p p h" "task_ok (s = m) p q f"
    using fiber_invD(4)[OF inv assms(3,4) h] fiber_invD(4)[OF inv assms(5-7)] assms(2) by auto
  have pq: "p \<noteq> q" using t h assms(7,8) by (auto simp: task_ok_def)
  have mn: "main_of f w = Some s" "main_of h w = Some s" using task_main[OF inv] assms(3-7) h by auto
  define w1 where "w1 = w\<lparr>t_fiber := Some q, fibers := (fibers w)(q \<mapsto> f\<lparr>m_state := RUNNING\<rparr>, s \<mapsto> g\<lparr>m_ctx := Saved p\<rparr>), running := q\<rparr>"
  define w2 where "w2 = w1\<lparr>t_fiber := Some m, fibers := (fibers w1)(q \<mapsto> f\<lparr>m_state := READY, m_ctx := Saved q\<rparr>), running := p\<rparr>"
  have "resume q w = Inr w1"
    using assms(2,6-8) g t mn by (auto simp: resume_def fiber_defs Let_def w1_def task_ok_def)
  moreover have "yield q w1 = Inr w2"
    using assms(6) mn fiber_invD(1)[OF inv] by (auto simp: yield_def fiber_defs Let_def w1_def w2_def main_of_def fun_upd_twist split: if_splits)
  moreover have "\<exists>w3. yield p w2 = Inr w3 \<and> running w3 = p"
    using assms(4,6) pq h t g mn fiber_invD(1)[OF inv]
    by (auto simp: yield_def fiber_defs Let_def w1_def w2_def main_of_def task_ok_def split: if_splits)
  moreover have "running w2 = p" by (simp add: w2_def)
  ultimately show ?thesis by blast
qed

section \<open>Properties\<close>

text \<open>A caller's thread whose root fiber was resumed and has one task.\<close>

definition caller_thread :: "string fiber_world res" where
  "caller_thread = res_bind (use_caller_start 1 2 ''run'' (no_fibers 0 0)) (\<lambda>w.
     res_bind (resume 2 w) (\<lambda>w1. Inr (Fiber_ctor 5 (Some ''job'') 0 True w1)))"

lemmas fiber_eval = use_caller_start_def Fiber_GetThis_def no_fibers_def Fiber_main_ctor_def Fiber_ctor_def resume_def Let_def main_of_def fiber_defs

lemma caller_thread_run: "\<exists>w. caller_thread = Inr w \<and> fiber_run 1 2 w \<and> running w = 2 \<and> (\<exists>f. fibers w 5 = Some f \<and> m_state f = READY)"
proof -
  obtain w where w: "use_caller_start 1 2 ''run'' (no_fibers 0 0) = Inr w" by (simp add: fiber_eval)
  have r0: "fiber_run 1 2 w" by (rule fiber_run.caller[OF _ w]) simp
  obtain w1 where w1: "resume 2 w = Inr w1" "running w = 1" "running w1 = 2" "fibers w1 5 = None"
    using w by (auto simp: fiber_eval)
  have "fiber_run 1 2 w1" by (rule fiber_run.root[OF r0 _ w1(2,1)]) simp
  then have "fiber_run 1 2 (Fiber_ctor 5 (Some ''job'') 0 True w1)" by (rule fiber_run.create) (simp_all add: w1)
  with w w1 show ?thesis by (simp add: caller_thread_def) (simp add: Fiber_ctor_def set_fiber_def)
qed

text \<open>C21: Switching between the scheduler fiber of a thread and its tasks is sound, on a worker thread, whose scheduler fiber \<open>s\<close> is its
  main fiber \<open>m\<close>, and on the \<^verbatim>\<open>use_caller\<close> thread, whose scheduler fiber is the root fiber. In every state of a thread whose scheduler
  fiber alone resumes tasks: the current fiber (\<^verbatim>\<open>t_fiber\<close>) is the one whose stack is executing, or it is the main fiber while the root fiber
  executes; the executing task is the only one in state RUNNING; from the scheduler fiber every READY task can be resumed and
  then has the processor and is the current fiber; a running task that yields or ends gives the processor back to the scheduler fiber, READY or terminated, and makes the
  main fiber the current one. A root fiber is in state RUNNING exactly while the main fiber does not execute, can be resumed from the main fiber
  when it is READY, and when it ends the main fiber executes and is the current one. No assertion fails on these paths.\<close>

theorem fiber_switching:
  assumes "fiber_run m s w" "fibers w p = Some f" "p \<noteq> m" "p \<noteq> s"
  shows "(t_fiber w = Some (running w) \<or> s \<noteq> m \<and> running w = s \<and> t_fiber w = Some m) \<and>
     (m_state f = RUNNING \<longleftrightarrow> running w = p) \<and>
     (running w = s \<longrightarrow> m_state f = READY \<longrightarrow> (\<exists>w'. resume p w = Inr w' \<and> running w' = p \<and> t_fiber w' = Some p)) \<and>
     (running w = p \<longrightarrow>
        (\<exists>w' g. yield p w = Inr w' \<and> running w' = s \<and> t_fiber w' = Some m \<and> fibers w' p = Some g \<and> m_state g = READY) \<and>
        (\<exists>w' g. MainFunc_end p w = Inr w' \<and> running w' = s \<and> t_fiber w' = Some m \<and> fibers w' p = Some g \<and> m_state g = TERMd)) \<and>
     (s \<noteq> m \<longrightarrow> (\<exists>r. fibers w s = Some r \<and> (m_state r = RUNNING \<longleftrightarrow> running w \<noteq> m) \<and>
        (running w = m \<longrightarrow> m_state r = READY \<longrightarrow> (\<exists>w'. resume s w = Inr w' \<and> running w' = s \<and> t_fiber w' = Some s)) \<and>
        (running w = s \<longrightarrow> (\<exists>w' g. MainFunc_end s w = Inr w' \<and> running w' = m \<and> t_fiber w' = Some m \<and>
           fibers w' s = Some g \<and> m_state g = TERMd))))"
proof -
  note inv = fiber_run_inv[OF assms(1)]
  have run: "m_state f = RUNNING \<longleftrightarrow> running w = p" using fiber_invD(4)[OF inv assms(3,4,2)] by (auto simp: task_ok_def)
  have res: "\<exists>w'. resume p w = Inr w' \<and> running w' = p \<and> t_fiber w' = Some p" if "running w = s" "m_state f = READY"
    using resume_task[OF inv that(1) assms(3,4,2) that(2)] by blast
  have yld: "(\<exists>w' g. yield p w = Inr w' \<and> running w' = s \<and> t_fiber w' = Some m \<and> fibers w' p = Some g \<and> m_state g = READY) \<and>
      (\<exists>w' g. MainFunc_end p w = Inr w' \<and> running w' = s \<and> t_fiber w' = Some m \<and> fibers w' p = Some g \<and> m_state g = TERMd)"
    if "running w = p" using yield_running[OF inv that assms(3,4)] by blast
  have root: "\<exists>r. fibers w s = Some r \<and> (m_state r = RUNNING \<longleftrightarrow> running w \<noteq> m) \<and>
      (running w = m \<longrightarrow> m_state r = READY \<longrightarrow> (\<exists>w'. resume s w = Inr w' \<and> running w' = s \<and> t_fiber w' = Some s)) \<and>
      (running w = s \<longrightarrow> (\<exists>w' g. MainFunc_end s w = Inr w' \<and> running w' = m \<and> t_fiber w' = Some m \<and> fibers w' s = Some g \<and> m_state g = TERMd))"
    if sm: "s \<noteq> m"
  proof -
    obtain r where r: "fibers w s = Some r" "root_ok m s (running w) r" using fiber_invD(6)[OF inv sm] by blast
    have a: "\<exists>w'. resume s w = Inr w' \<and> running w' = s \<and> t_fiber w' = Some s" if "running w = m" "m_state r = READY"
      using resume_root[OF inv that(1) sm r(1) that(2)] by blast
    have b: "\<exists>w' g. MainFunc_end s w = Inr w' \<and> running w' = m \<and> t_fiber w' = Some m \<and> fibers w' s = Some g \<and> m_state g = TERMd"
      if "running w = s" using root_ends[OF inv that sm] by blast
    show ?thesis using r(1) a b r(2)[unfolded root_ok_def] by blast
  qed
  show ?thesis using fiber_invD(3)[OF inv] run res yld root by blast
qed

theorem fiber_switching_witness:
  "\<exists>w w'. caller_thread = Inr w \<and> running w = 2 \<and> resume 5 w = Inr w' \<and> running w' = 5 \<and> t_fiber w' = Some 5"
proof -
  obtain w f where w: "caller_thread = Inr w" "fiber_run 1 2 w" "running w = 2" "fibers w 5 = Some f" "m_state f = READY"
    using caller_thread_run by blast
  from fiber_switching[OF w(2,4)] w(3,5) have "\<exists>w'. resume 5 w = Inr w' \<and> running w' = 5 \<and> t_fiber w' = Some 5" by simp
  with w(1,3) show ?thesis by blast
qed

end
