(* ===== verification/TW_Scheduler.thy ===== *)
theory TW_Scheduler
  imports TW_Fiber "HOL-Library.Multiset"
begin

text \<open>
  \<^verbatim>\<open>src/coroutine/scheduler.cpp\<close> and \<^verbatim>\<open>include/coroutine/scheduler.h\<close>: the task queue, its operations, and
  the loop \<^verbatim>\<open>run\<close> that every worker thread executes, as the steps of a system of threads. What the
  queue's mutex protects is one step; resuming a fiber, returning from it and the idle fiber are
  steps of their own. A fiber is known by its pointer and state here (\<^verbatim>\<open>getState\<close>); a callback
  runs in a fiber made for it.
\<close>

section \<open>Data\<close>

record 'f ScheduleTask =
  fiber :: "fiber_ptr option"
  cb :: "'f option"
  thread :: int

record 'f Scheduler =
  m_name :: string
  m_threads :: "int list"
  m_tasks :: "'f ScheduleTask list"
  m_threadIds :: "int list"
  m_threadCount :: nat
  m_activeThreadCount :: nat
  m_idleThreadCount :: nat
  m_useCaller :: bool
  m_rootFiber :: bool
  m_rootThread :: int
  m_stopping :: bool

definition task_reset :: "'f ScheduleTask" where
  "task_reset = \<lparr>fiber = None, cb = None, thread = - 1\<rparr>"

definition fiber_task :: "fiber_ptr option \<Rightarrow> int \<Rightarrow> 'f ScheduleTask" where
  "fiber_task f thr = \<lparr>fiber = f, cb = None, thread = thr\<rparr>"

definition cb_task :: "'f option \<Rightarrow> int \<Rightarrow> 'f ScheduleTask" where
  "cb_task f thr = \<lparr>fiber = None, cb = f, thread = thr\<rparr>"

definition no_task :: "'f ScheduleTask \<Rightarrow> bool" where
  "no_task k \<longleftrightarrow> fiber k = None \<and> cb k = None"

section \<open>Operations on the scheduler\<close>

text \<open>\<open>current\<close> is whether \<^verbatim>\<open>t_scheduler\<close> of the calling thread \<open>tid\<close> is already set.\<close>

definition Scheduler_ctor :: "nat \<Rightarrow> bool \<Rightarrow> string \<Rightarrow> int \<Rightarrow> bool \<Rightarrow> 'f Scheduler res" where
  "Scheduler_ctor threads use_caller name tid current =
     res_bind (cxx_assert (threads > 0)) (\<lambda>_.
       let s = \<lparr>m_name = name, m_threads = [], m_tasks = [], m_threadIds = [], m_threadCount = threads,
                m_activeThreadCount = 0, m_idleThreadCount = 0, m_useCaller = use_caller, m_rootFiber = False,
                m_rootThread = - 1, m_stopping = False\<rparr> in
       if use_caller then
         res_bind (cxx_assert (\<not> current)) (\<lambda>_.
           Inr (s\<lparr>m_rootFiber := True, m_rootThread := tid, m_threadIds := [tid], m_threadCount := threads - 1\<rparr>))
       else Inr s)"

text \<open>\<open>ids\<close> are the identifiers of the threads the constructor of \<^verbatim>\<open>Thread\<close> starts, in order.\<close>

definition start :: "int list \<Rightarrow> 'f Scheduler \<Rightarrow> 'f Scheduler res" where
  "start ids s =
     (if m_stopping s then Inr s
      else res_bind (cxx_assert (m_threads s = [])) (\<lambda>_.
        let new = take (m_threadCount s) ids in
        Inr (s\<lparr>m_threads := new, m_threadIds := m_threadIds s @ new\<rparr>)))"

definition stopping :: "'f Scheduler \<Rightarrow> bool" where
  "stopping s \<longleftrightarrow> m_stopping s \<and> m_tasks s = [] \<and> m_activeThreadCount s = 0"

definition hasIdleThreads :: "'f Scheduler \<Rightarrow> bool" where
  "hasIdleThreads s \<longleftrightarrow> m_idleThreadCount s > 0"

definition scheduleNoLock :: "'f ScheduleTask \<Rightarrow> 'f Scheduler \<Rightarrow> bool \<times> 'f Scheduler" where
  "scheduleNoLock task s = (m_tasks s = [], if no_task task then s else s\<lparr>m_tasks := m_tasks s @ [task]\<rparr>)"

text \<open>\<open>schedule\<close> returns whether \<^verbatim>\<open>tickle\<close> is called after the queue's lock is released.\<close>

definition schedule :: "'f ScheduleTask \<Rightarrow> 'f Scheduler \<Rightarrow> bool \<times> 'f Scheduler" where
  "schedule task s = scheduleNoLock task s"

text \<open>
  The part of \<^verbatim>\<open>stop\<close> up to waiting: the number of calls of \<^verbatim>\<open>tickle\<close>, and whether the caller's
  scheduler fiber is resumed before the threads are joined. \<open>current\<close> is whether the calling thread belongs
  to this scheduler.
\<close>

definition stop :: "bool \<Rightarrow> 'f Scheduler \<Rightarrow> (nat \<times> bool \<times> 'f Scheduler) res" where
  "stop current s =
     (if stopping s then Inr (0, False, s)
      else let s1 = s\<lparr>m_stopping := True\<rparr> in
        res_bind (cxx_assert (if m_useCaller s1 then current else \<not> current)) (\<lambda>_.
          Inr (m_threadCount s1 + (if m_rootFiber s1 then 1 else 0), m_rootFiber s1, s1\<lparr>m_threads := []\<rparr>)))"

definition Scheduler_dtor :: "'f Scheduler \<Rightarrow> unit res" where
  "Scheduler_dtor s = cxx_assert (m_stopping s)"

section \<open>The worker loop\<close>

text \<open>
  The search of \<^verbatim>\<open>run\<close> under the lock: the task found, the queue without it, and \<^verbatim>\<open>tickle_me\<close>.
\<close>

fun pick_task :: "int \<Rightarrow> (fiber_ptr \<Rightarrow> State) \<Rightarrow> 'f ScheduleTask list \<Rightarrow> bool \<Rightarrow>
    'f ScheduleTask option \<times> 'f ScheduleTask list \<times> bool" where
  "pick_task tid st [] tickle_me = (None, [], tickle_me)"
| "pick_task tid st (k # ks) tickle_me =
     (if thread k \<noteq> - 1 \<and> thread k \<noteq> tid then
        (case pick_task tid st ks True of (r, rest, tm) \<Rightarrow> (r, k # rest, tm))
      else if (case fiber k of Some f \<Rightarrow> st f = RUNNING | None \<Rightarrow> False) then
        (case pick_task tid st ks tickle_me of (r, rest, tm) \<Rightarrow> (r, k # rest, tm))
      else (Some k, ks, tickle_me \<or> ks \<noteq> []))"

datatype 'f pc = AtLoop | Taken "'f ScheduleTask" | Executing "'f ScheduleTask" | Idling | Exited

text \<open>
  The whole system. \<open>idle_term\<close> is whether a thread's idle fiber has ended; \<open>accepted\<close> and \<open>finished\<close> record
  the tasks that entered the queue and that were run, for the properties only.
\<close>

record 'f sched_sys =
  sched :: "'f Scheduler"
  pcs :: "int \<Rightarrow> 'f pc"
  idle_term :: "int \<Rightarrow> bool"
  fstate :: "fiber_ptr \<Rightarrow> State"
  accepted :: "'f ScheduleTask list"
  started :: "'f ScheduleTask list"
  finished :: "'f ScheduleTask list"

definition set_pc :: "int \<Rightarrow> 'f pc \<Rightarrow> 'f sched_sys \<Rightarrow> 'f sched_sys" where
  "set_pc t p s = s\<lparr>pcs := (pcs s)(t := p)\<rparr>"

text \<open>The top of the loop: take a task, or go idle, or leave when the idle fiber has ended.\<close>

definition run_take :: "int \<Rightarrow> 'f sched_sys \<Rightarrow> 'f sched_sys" where
  "run_take t s =
     (case pick_task t (fstate s) (m_tasks (sched s)) False of
        (Some k, rest, _) \<Rightarrow>
          (set_pc t (Taken k) s)\<lparr>sched := (sched s)\<lparr>m_tasks := rest, m_activeThreadCount := m_activeThreadCount (sched s) + 1\<rparr>,
             started := started s @ [k]\<rparr>
      | (None, _, _) \<Rightarrow>
          if idle_term s t then set_pc t Exited s
          else (set_pc t Idling s)\<lparr>sched := (sched s)\<lparr>m_idleThreadCount := m_idleThreadCount (sched s) + 1\<rparr>\<rparr>)"

text \<open>Resuming the task: \<^verbatim>\<open>Fiber::resume\<close> asserts that the fiber is READY.\<close>

definition run_resume :: "int \<Rightarrow> 'f ScheduleTask \<Rightarrow> 'f sched_sys \<Rightarrow> 'f sched_sys res" where
  "run_resume t k s =
     (case fiber k of
        None \<Rightarrow> Inr (set_pc t (Executing k) s)
      | Some f \<Rightarrow> res_bind (cxx_assert (fstate s f = READY)) (\<lambda>_.
          Inr ((set_pc t (Executing k) s)\<lparr>fstate := (fstate s)(f := RUNNING)\<rparr>)))"

text \<open>
  The return from \<^verbatim>\<open>resume\<close>: the fiber yielded (READY) or ended. A callback's fiber is destroyed by
  \<^verbatim>\<open>cb_fiber.reset()\<close> unless somebody else keeps it (\<open>kept\<close>), which asserts that it has ended.
\<close>

definition run_return :: "int \<Rightarrow> 'f ScheduleTask \<Rightarrow> State \<Rightarrow> bool \<Rightarrow> 'f sched_sys \<Rightarrow> 'f sched_sys res" where
  "run_return t k st kept s =
     res_bind (case fiber k of None \<Rightarrow> cxx_assert (kept \<or> st = TERMd) | Some f \<Rightarrow> Inr ()) (\<lambda>_.
       Inr ((set_pc t AtLoop s)
         \<lparr>sched := (sched s)\<lparr>m_activeThreadCount := m_activeThreadCount (sched s) - 1\<rparr>,
          fstate := (case fiber k of None \<Rightarrow> fstate s | Some f \<Rightarrow> (fstate s)(f := st)),
          finished := finished s @ [k]\<rparr>))"

text \<open>\<^verbatim>\<open>Scheduler::idle\<close>: one turn of its loop; it ends once \<^verbatim>\<open>stopping()\<close> holds and yields otherwise.\<close>

definition idle_turn :: "int \<Rightarrow> 'f sched_sys \<Rightarrow> 'f sched_sys" where
  "idle_turn t s =
     (set_pc t AtLoop s)
       \<lparr>sched := (sched s)\<lparr>m_idleThreadCount := m_idleThreadCount (sched s) - 1\<rparr>,
        idle_term := (idle_term s)(t := idle_term s t \<or> stopping (sched s))\<rparr>"

definition add_task :: "'f ScheduleTask \<Rightarrow> 'f sched_sys \<Rightarrow> 'f sched_sys" where
  "add_task k s =
     s\<lparr>sched := snd (schedule k (sched s)), accepted := (if no_task k then accepted s else accepted s @ [k])\<rparr>"

definition boot :: "'f Scheduler \<Rightarrow> 'f sched_sys" where
  "boot s = \<lparr>sched = s, pcs = (\<lambda>_. AtLoop), idle_term = (\<lambda>_. False), fstate = (\<lambda>_. READY), accepted = [], started = [], finished = []\<rparr>"

text \<open>The steps of the threads \<open>ws\<close> and of the code that uses the scheduler.\<close>

inductive sched_step :: "int set \<Rightarrow> 'f sched_sys \<Rightarrow> 'f sched_sys \<Rightarrow> bool" for ws where
  take: "t \<in> ws \<Longrightarrow> pcs s t = AtLoop \<Longrightarrow> sched_step ws s (run_take t s)"
| resume: "t \<in> ws \<Longrightarrow> pcs s t = Taken k \<Longrightarrow> run_resume t k s = Inr s' \<Longrightarrow> sched_step ws s s'"
| return: "t \<in> ws \<Longrightarrow> pcs s t = Executing k \<Longrightarrow> st \<noteq> RUNNING \<Longrightarrow> run_return t k st kept s = Inr s' \<Longrightarrow> sched_step ws s s'"
| idle: "t \<in> ws \<Longrightarrow> pcs s t = Idling \<Longrightarrow> sched_step ws s (idle_turn t s)"
| schedule: "sched_step ws s (add_task k s)"
| stop: "stop current (sched s) = Inr (n, root, sc) \<Longrightarrow> sched_step ws s (s\<lparr>sched := sc\<rparr>)"

inductive sched_reach :: "int set \<Rightarrow> 'f sched_sys \<Rightarrow> bool" for ws where
  ready: "Scheduler_ctor n uc name tid cur = Inr s0 \<Longrightarrow> start ids s0 = Inr s1 \<Longrightarrow> sched_reach ws (boot s1)"
| step: "sched_reach ws s \<Longrightarrow> sched_step ws s s' \<Longrightarrow> sched_reach ws s'"


section \<open>The search\<close>

definition eligible :: "int \<Rightarrow> (fiber_ptr \<Rightarrow> State) \<Rightarrow> 'f ScheduleTask \<Rightarrow> bool" where
  "eligible tid st k \<longleftrightarrow> (thread k = - 1 \<or> thread k = tid) \<and> (\<forall>f. fiber k = Some f \<longrightarrow> st f \<noteq> RUNNING)"

lemma pick_skip: "\<not> eligible tid st k \<Longrightarrow> \<exists>tm. pick_task tid st (k # ks) b = (case pick_task tid st ks tm of (r, rest, tm') \<Rightarrow> (r, k # rest, tm'))"
  by (auto simp: eligible_def split: option.splits)

lemma pick_hit: "eligible tid st k \<Longrightarrow> pick_task tid st (k # ks) b = (Some k, ks, b \<or> ks \<noteq> [])"
  by (auto simp: eligible_def split: option.splits)

declare pick_task.simps(2) [simp del]

lemma pick_Some:
  "pick_task tid st ks b = (Some k, rest, tm) \<Longrightarrow>
     \<exists>xs ys. ks = xs @ k # ys \<and> rest = xs @ ys \<and> eligible tid st k \<and> (\<forall>x \<in> set xs. \<not> eligible tid st x)"
proof (induction ks arbitrary: b rest tm)
  case (Cons a ks)
  show ?case
  proof (cases "eligible tid st a")
    case True
    with Cons.prems have "a = k" "ks = rest" by (auto simp: pick_hit)
    with True show ?thesis by (intro exI[of _ "[]"] exI[of _ rest]) simp
  next
    case False
    then obtain c where "pick_task tid st (a # ks) b = (case pick_task tid st ks c of (r, rest, tm') \<Rightarrow> (r, a # rest, tm'))"
      using pick_skip by blast
    with Cons.prems obtain rest' where "pick_task tid st ks c = (Some k, rest', tm)" "rest = a # rest'"
      by (auto split: prod.splits)
    from Cons.IH[OF this(1)] this(2) False show ?thesis by (metis append_Cons set_ConsD)
  qed
qed simp

lemma pick_None: "pick_task tid st ks b = (None, rest, tm) \<Longrightarrow> \<forall>k \<in> set ks. \<not> eligible tid st k"
proof (induction ks arbitrary: b rest tm)
  case (Cons a ks)
  show ?case
  proof (cases "eligible tid st a")
    case False
    then obtain c where "pick_task tid st (a # ks) b = (case pick_task tid st ks c of (r, rest, tm') \<Rightarrow> (r, a # rest, tm'))"
      using pick_skip by blast
    with Cons.prems obtain rest' where "pick_task tid st ks c = (None, rest', tm)" by (auto split: prod.splits)
    with Cons.IH False show ?thesis by auto
  qed (use Cons.prems in \<open>simp add: pick_hit\<close>)
qed simp

section \<open>The invariant of the system\<close>

fun flight :: "'f pc \<Rightarrow> 'f ScheduleTask multiset" where
  "flight (Taken k) = {#k#}"
| "flight (Executing k) = {#k#}"
| "flight _ = {#}"

definition in_flight :: "int set \<Rightarrow> 'f sched_sys \<Rightarrow> 'f ScheduleTask multiset" where
  "in_flight ws s = (\<Sum>t \<in> ws. flight (pcs s t))"

lemma in_flight_upd:
  assumes "finite ws" "t \<in> ws" "pcs s' = (pcs s)(t := p)"
  shows "in_flight ws s' + flight (pcs s t) = in_flight ws s + flight p"
proof -
  have "(\<Sum>u \<in> ws - {t}. flight (pcs s' u)) = (\<Sum>u \<in> ws - {t}. flight (pcs s u))"
    using assms(3) by (intro sum.cong) auto
  then show ?thesis using assms unfolding in_flight_def by (simp add: sum.remove[OF assms(1,2)] ac_simps)
qed

definition sched_inv :: "int set \<Rightarrow> 'f sched_sys \<Rightarrow> bool" where
  "sched_inv ws s \<longleftrightarrow>
     mset (accepted s) = mset (m_tasks (sched s)) + mset (started s) \<and>
     mset (started s) = in_flight ws s + mset (finished s) \<and>
     m_activeThreadCount (sched s) = size (in_flight ws s) \<and>
     (\<forall>t \<in> ws. \<forall>k. k \<in># flight (pcs s t) \<longrightarrow> thread k = - 1 \<or> thread k = t) \<and>
     (\<forall>t. idle_term s t \<longrightarrow> m_stopping (sched s)) \<and> (\<forall>t \<in> ws. pcs s t = Exited \<longrightarrow> idle_term s t) \<and>
     ((\<forall>k \<in> set (accepted s). thread k = - 1 \<and> fiber k = None) \<longrightarrow> accepted s = started s @ m_tasks (sched s))"

lemma take_inv:
  assumes fin: "finite ws" and t: "t \<in> ws" "pcs s t = AtLoop" and inv: "sched_inv ws s"
  shows "sched_inv ws (run_take t s)"
proof (cases "pick_task t (fstate s) (m_tasks (sched s)) False")
  case (fields r rest tm)
  show ?thesis
  proof (cases r)
    case None
    have pc: "pcs (run_take t s) = (pcs s)(t := (if idle_term s t then Exited else Idling))"
      using fields None by (simp add: run_take_def set_pc_def)
    have "in_flight ws (run_take t s) = in_flight ws s" using in_flight_upd[OF fin t(1) pc] t(2) by auto
    with inv fields None t show ?thesis by (auto simp: sched_inv_def run_take_def set_pc_def)
  next
    case (Some k)
    from pick_Some[OF fields[unfolded Some]] obtain xs ys where
      q: "m_tasks (sched s) = xs @ k # ys" "rest = xs @ ys" "eligible t (fstate s) k" "\<forall>x \<in> set xs. \<not> eligible t (fstate s) x" by blast
    have run: "run_take t s = (set_pc t (Taken k) s)\<lparr>sched := (sched s)\<lparr>m_tasks := rest,
        m_activeThreadCount := m_activeThreadCount (sched s) + 1\<rparr>, started := started s @ [k]\<rparr>"
      using fields Some by (simp add: run_take_def)
    then have pc: "pcs (run_take t s) = (pcs s)(t := Taken k)" by (simp add: set_pc_def)
    have fl: "in_flight ws (run_take t s) = in_flight ws s + {#k#}" using in_flight_upd[OF fin t(1) pc] t(2) by simp
    have "accepted s = (started s @ [k]) @ xs @ ys" if all: "\<forall>k \<in> set (accepted s). thread k = - 1 \<and> fiber k = None"
    proof -
      have eq: "accepted s = started s @ xs @ k # ys" using inv all q(1) by (simp add: sched_inv_def)
      then have "xs = []" using all q(4) by (cases xs) (auto simp: eligible_def)
      with eq show ?thesis by simp
    qed
    with inv fl run q show ?thesis unfolding sched_inv_def by (auto simp: set_pc_def eligible_def)
  qed
qed

lemma move_inv:
  assumes "finite ws" "t \<in> ws" "sched_inv ws s" "pcs s' = (pcs s)(t := p)" "flight p = flight (pcs s t)" "p \<noteq> Exited"
    "m_stopping (sched s') = m_stopping (sched s)" "m_tasks (sched s') = m_tasks (sched s)"
    "m_activeThreadCount (sched s') = m_activeThreadCount (sched s)"
    "\<forall>u. idle_term s' u \<longrightarrow> idle_term s u \<or> m_stopping (sched s)" "\<forall>u. idle_term s u \<longrightarrow> idle_term s' u"
    "accepted s' = accepted s" "started s' = started s" "finished s' = finished s"
  shows "sched_inv ws s'"
proof -
  have "in_flight ws s' = in_flight ws s" using in_flight_upd[OF assms(1,2,4)] assms(5) by simp
  with assms show ?thesis by (auto simp: sched_inv_def)
qed

lemma return_inv:
  assumes "finite ws" "t \<in> ws" "pcs s t = Executing k" "run_return t k st kept s = Inr s'" "sched_inv ws s"
  shows "sched_inv ws s'"
proof -
  have s': "pcs s' = (pcs s)(t := AtLoop)" "sched s' = (sched s)\<lparr>m_activeThreadCount := m_activeThreadCount (sched s) - 1\<rparr>"
    "finished s' = finished s @ [k]" "accepted s' = accepted s" "started s' = started s" "idle_term s' = idle_term s"
    using assms(4) by (auto simp: run_return_def res_bind_Inr_iff set_pc_def)
  have "in_flight ws s = in_flight ws s' + {#k#}" using in_flight_upd[OF assms(1,2) s'(1)] assms(3) by simp
  with assms(5) s' show ?thesis by (auto simp: sched_inv_def)
qed

lemma sched_step_inv: "sched_step ws s s' \<Longrightarrow> finite ws \<Longrightarrow> sched_inv ws s \<Longrightarrow> sched_inv ws s'"
proof (induction rule: sched_step.induct)
  case (take t s)
  then show ?case by (simp add: take_inv)
next
  case (resume t s k s')
  then show ?case
    by (intro move_inv[of ws t s s' "Executing k"])
      (auto simp: run_resume_def set_pc_def res_bind_Inr_iff split: option.splits)
next
  case (return t s k st kept s')
  then show ?case using return_inv by blast
next
  case (idle t s)
  then show ?case
    by (intro move_inv[of ws t s "idle_turn t s" AtLoop]) (auto simp: idle_turn_def set_pc_def stopping_def)
next
  case (schedule s k)
  have "in_flight ws (add_task k s) = in_flight ws s" by (simp add: in_flight_def add_task_def)
  with schedule show ?case by (auto simp: sched_inv_def add_task_def schedule_def scheduleNoLock_def)
next
  case (stop current s n root sc)
  then have "m_tasks sc = m_tasks (sched s)" "m_activeThreadCount sc = m_activeThreadCount (sched s)" "m_stopping sc"
    by (auto simp: stop_def Let_def stopping_def res_bind_Inr_iff split: if_splits)
  moreover have "in_flight ws (s\<lparr>sched := sc\<rparr>) = in_flight ws s" by (simp add: in_flight_def)
  ultimately show ?case using stop by (auto simp: sched_inv_def)
qed

lemma sched_reach_inv: "sched_reach ws s \<Longrightarrow> finite ws \<Longrightarrow> sched_inv ws s"
proof (induction rule: sched_reach.induct)
  case (ready n uc name tid cur s0 ids s1)
  then have "m_tasks s1 = []" "m_activeThreadCount s1 = 0"
    by (auto simp: Scheduler_ctor_def start_def res_bind_Inr_iff Let_def split: if_splits)
  then show ?case by (simp add: sched_inv_def boot_def in_flight_def)
qed (use sched_step_inv in blast)

section \<open>Properties\<close>

definition small_sched :: "int list \<Rightarrow> string Scheduler" where
  "small_sched ids = \<lparr>m_name = ''s'', m_threads = ids, m_tasks = [], m_threadIds = ids,
     m_threadCount = 1, m_activeThreadCount = 0, m_idleThreadCount = 0, m_useCaller = False, m_rootFiber = False,
     m_rootThread = - 1, m_stopping = False\<rparr>"

definition one_job :: "string sched_sys" where
  "one_job = add_task (cb_task (Some ''job'') (- 1)) (boot (small_sched [7]))"

lemma one_job_reach: "sched_reach ws one_job"
proof -
  have "Scheduler_ctor 1 False ''s'' 1 False = Inr (small_sched [])" by (simp add: Scheduler_ctor_def small_sched_def Let_def)
  moreover have "start [7] (small_sched []) = Inr (small_sched [7])" by (simp add: start_def small_sched_def Let_def)
  ultimately show ?thesis unfolding one_job_def
    by (intro sched_reach.step[OF sched_reach.ready sched_step.schedule])
qed

definition stopped_job :: "string sched_sys" where
  "stopped_job = one_job\<lparr>sched := (sched one_job)\<lparr>m_stopping := True, m_threads := []\<rparr>\<rparr>"

lemma stopped_job_reach: "sched_reach ws stopped_job"
  unfolding stopped_job_def
  by (rule sched_reach.step[OF one_job_reach sched_step.stop[of False _ 1 False]])
    (simp add: stop_def stopping_def small_sched_def one_job_def boot_def add_task_def schedule_def scheduleNoLock_def cb_task_def no_task_def)

lemmas job_simps = stopped_job_def small_sched_def one_job_def boot_def add_task_def schedule_def scheduleNoLock_def cb_task_def no_task_def

text \<open>C6: The scheduler neither loses nor duplicates a task and respects the thread a task is bound to: in
  every reachable state of the worker threads the tasks accepted so far are those still queued, those
  a worker is executing and those finished; a worker executes only tasks for any thread or for
  itself; the counter of active threads is the number of tasks being executed. So when
  \<^verbatim>\<open>stopping()\<close> is true, every accepted task has finished.\<close>

theorem scheduler_conserves_tasks:
  assumes "sched_reach ws s" "finite ws"
  shows "mset (accepted s) = mset (m_tasks (sched s)) + in_flight ws s + mset (finished s) \<and>
     m_activeThreadCount (sched s) = size (in_flight ws s) \<and>
     (\<forall>t k. t \<in> ws \<and> k \<in># flight (pcs s t) \<longrightarrow> thread k = - 1 \<or> thread k = t) \<and>
     (stopping (sched s) \<longrightarrow> mset (accepted s) = mset (finished s))"
  using sched_reach_inv[OF assms] by (auto simp: sched_inv_def stopping_def)

theorem scheduler_conserves_tasks_witness:
  "mset (accepted one_job) = mset (m_tasks (sched one_job)) + in_flight {7} one_job + mset (finished one_job)"
  using scheduler_conserves_tasks[OF one_job_reach, of "{7}"] by simp

text \<open>C27: For callbacks that any thread may run the queue is first-in first-out, whatever the interleaving of
  the workers: the tasks started so far followed by the queue are the tasks accepted, in order, and a
  worker at the top of its loop takes the head of the queue.\<close>

theorem scheduler_fifo:
  assumes "sched_reach ws s" "finite ws" "\<And>k. k \<in> set (accepted s) \<Longrightarrow> thread k = - 1 \<and> fiber k = None"
  shows "accepted s = started s @ m_tasks (sched s) \<and>
     (m_tasks (sched s) = k # ks \<longrightarrow> pcs (run_take t s) t = Taken k \<and> m_tasks (sched (run_take t s)) = ks)"
proof -
  have eq: "accepted s = started s @ m_tasks (sched s)" using sched_reach_inv[OF assms(1,2)] assms(3) by (auto simp: sched_inv_def)
  moreover have "pcs (run_take t s) t = Taken k \<and> m_tasks (sched (run_take t s)) = ks" if "m_tasks (sched s) = k # ks"
  proof -
    have "eligible t (fstate s) k" using assms(3)[of k] eq that by (simp add: eligible_def)
    then show ?thesis using that by (simp add: run_take_def pick_hit set_pc_def)
  qed
  ultimately show ?thesis by blast
qed

theorem scheduler_fifo_witness:
  "pcs (run_take 7 one_job) 7 = Taken (cb_task (Some ''job'') (- 1)) \<and> m_tasks (sched (run_take 7 one_job)) = []"
  using scheduler_fifo[OF one_job_reach, of "{7}" "cb_task (Some ''job'') (- 1)" "[]" 7] by (simp add: job_simps)

text \<open>Running one task takes a worker three steps.\<close>

lemma run_one:
  assumes "t \<in> ws" "pcs s t = AtLoop" "m_tasks (sched s) = k # ks" "thread k = - 1" "fiber k = None"
  shows "\<exists>s'. (sched_step ws)\<^sup>*\<^sup>* s s' \<and> pcs s' t = AtLoop \<and> m_tasks (sched s') = ks \<and> finished s' = finished s @ [k] \<and>
     accepted s' = accepted s \<and> idle_term s' = idle_term s \<and> m_stopping (sched s') = m_stopping (sched s)"
proof -
  define s1 where "s1 = run_take t s"
  have "eligible t (fstate s) k" using assms(4,5) by (simp add: eligible_def)
  then have s1: "s1 = (set_pc t (Taken k) s)\<lparr>sched := (sched s)\<lparr>m_tasks := ks, m_activeThreadCount := m_activeThreadCount (sched s) + 1\<rparr>,
      started := started s @ [k]\<rparr>" using assms(3) by (simp add: s1_def run_take_def pick_hit)
  define s2 where "s2 = set_pc t (Executing k) s1"
  obtain s3 where s3: "run_return t k TERMd False s2 = Inr s3" using assms(5) by (simp add: run_return_def)
  have "sched_step ws s s1" unfolding s1_def using assms(1,2) by (rule sched_step.take)
  moreover have "sched_step ws s1 s2"
    using assms(1,5) s1 by (intro sched_step.resume[of t ws s1 k]) (simp_all add: s2_def set_pc_def run_resume_def)
  moreover have "sched_step ws s2 s3"
    using assms(1) s3 by (intro sched_step.return[of t ws s2 k TERMd False]) (simp_all add: s2_def set_pc_def)
  ultimately have "(sched_step ws)\<^sup>*\<^sup>* s s3" by (meson converse_rtranclp_into_rtranclp rtranclp.rtrancl_refl)
  then show ?thesis using s1 s3 assms(5) by (intro exI[of _ s3]) (auto simp: s2_def set_pc_def run_return_def)
qed

lemma run_all:
  assumes "t \<in> ws" "pcs s t = AtLoop" "\<forall>k \<in> set (m_tasks (sched s)). thread k = - 1 \<and> fiber k = None"
  shows "\<exists>s'. (sched_step ws)\<^sup>*\<^sup>* s s' \<and> pcs s' t = AtLoop \<and> m_tasks (sched s') = [] \<and>
     accepted s' = accepted s \<and> idle_term s' = idle_term s \<and> m_stopping (sched s') = m_stopping (sched s)"
  using assms
proof (induction "m_tasks (sched s)" arbitrary: s)
  case Nil
  then show ?case by auto
next
  case (Cons k ks)
  then have "thread k = - 1" "fiber k = None" by (metis list.set_intros(1))+
  from run_one[OF Cons.prems(1,2) Cons.hyps(2)[symmetric] this] obtain s1 where s1: "(sched_step ws)\<^sup>*\<^sup>* s s1"
    "pcs s1 t = AtLoop" "m_tasks (sched s1) = ks" "accepted s1 = accepted s" "idle_term s1 = idle_term s"
    "m_stopping (sched s1) = m_stopping (sched s)" by auto
  moreover have "\<forall>k \<in> set ks. thread k = - 1 \<and> fiber k = None" using Cons.prems(3) Cons.hyps(2) by (metis list.set_intros(2))
  ultimately show ?case using Cons.hyps(1)[of s1] Cons.prems(1) by (metis rtranclp_trans)
qed

text \<open>C26: A scheduler that was told to stop does stop: the only worker, at the top of its loop with callbacks
  in the queue, can run on until it leaves the loop, and then the queue is empty and every accepted
  task has finished.\<close>

theorem worker_drains_and_exits:
  assumes "sched_reach {t} s" "pcs s t = AtLoop" "m_stopping (sched s)"
    and "\<And>k. k \<in> set (m_tasks (sched s)) \<Longrightarrow> thread k = - 1 \<and> fiber k = None"
  shows "\<exists>s'. (sched_step {t})\<^sup>*\<^sup>* s s' \<and> pcs s' t = Exited \<and> m_tasks (sched s') = [] \<and>
     accepted s' = accepted s \<and> mset (finished s') = mset (accepted s)"
proof -
  from run_all[of t "{t}" s] assms(2,4) obtain s1 where s1: "(sched_step {t})\<^sup>*\<^sup>* s s1" "pcs s1 t = AtLoop"
    "m_tasks (sched s1) = []" "accepted s1 = accepted s" "m_stopping (sched s1)" using assms(3) by auto
  define s2 where "s2 = (if idle_term s1 t then s1 else idle_turn t (run_take t s1))"
  have r1: "sched_reach {t} s1" using s1(1) assms(1) by (induction) (auto intro: sched_reach.step)
  then have inv: "sched_inv {t} s1" by (rule sched_reach_inv) simp
  then have fl: "in_flight {t} s1 = {#}" "m_activeThreadCount (sched s1) = 0" using s1(2) by (auto simp: sched_inv_def in_flight_def)
  have two: "(sched_step {t})\<^sup>*\<^sup>* s1 s2 \<and> pcs s2 t = AtLoop \<and> m_tasks (sched s2) = [] \<and> idle_term s2 t \<and> accepted s2 = accepted s1 \<and> finished s2 = finished s1"
  proof (cases "idle_term s1 t")
    case False
    have a: "sched_step {t} s1 (run_take t s1)" using s1(2) by (intro sched_step.take) auto
    have "pcs (run_take t s1) t = Idling" using s1(3) False by (simp add: run_take_def set_pc_def)
    then have "sched_step {t} (run_take t s1) s2" using False by (auto simp: s2_def intro: sched_step.idle)
    with a have "(sched_step {t})\<^sup>*\<^sup>* s1 s2" by auto
    moreover have "stopping (sched (run_take t s1))" using s1(3,5) fl(2) False by (simp add: run_take_def stopping_def set_pc_def)
    ultimately show ?thesis using s1(3) False by (simp add: s2_def idle_turn_def run_take_def set_pc_def)
  qed (use s1 in \<open>simp add: s2_def\<close>)
  let ?s = "run_take t s2"
  have "sched_step {t} s2 ?s" using two by (intro sched_step.take) auto
  moreover have "pcs ?s t = Exited" "m_tasks (sched ?s) = []" "accepted ?s = accepted s" "finished ?s = finished s1"
    using two s1(4) by (auto simp: run_take_def set_pc_def)
  moreover have "mset (finished s1) = mset (accepted s)" using inv fl(1) s1(3,4) by (auto simp: sched_inv_def)
  ultimately show ?thesis using s1(1) two by (intro exI[of _ ?s]) (auto intro: rtranclp.rtrancl_into_rtrancl rtranclp_trans)
qed

theorem worker_drains_and_exits_witness:
  "\<exists>s'. (sched_step {7})\<^sup>*\<^sup>* stopped_job s' \<and> pcs s' 7 = Exited \<and> finished s' = [cb_task (Some ''job'') (- 1)]"
proof -
  have "\<exists>s'. (sched_step {7})\<^sup>*\<^sup>* stopped_job s' \<and> pcs s' 7 = Exited \<and> m_tasks (sched s') = [] \<and>
     accepted s' = accepted stopped_job \<and> mset (finished s') = mset (accepted stopped_job)"
    by (rule worker_drains_and_exits[OF stopped_job_reach]) (auto simp: job_simps)
  then show ?thesis by (auto simp: job_simps)
qed

end
