(* ===== verification/TW_Timer.thy ===== *)
theory TW_Timer
  imports TW_Std
begin

text \<open>
  \<^verbatim>\<open>src/base/timer.cpp\<close> and \<^verbatim>\<open>include/base/timer.h\<close>: the timers of the IO manager. Timers are objects in
  a store, the manager's set holds their addresses ordered by expiry time and address. Times are
  64-bit words that wrap; the value of \<^verbatim>\<open>GetElapsedMS()\<close> is an argument \<open>now\<close> of the operations that
  call it, and the address of a new object is an argument too. Every operation holds the
  manager's lock for its whole effect, so operations are atomic steps; the hook
  \<^verbatim>\<open>onTimerInsertedAtFront\<close> is a flag in the result. There is one manager, so \<^verbatim>\<open>m_manager\<close> is left out.
\<close>

section \<open>Data\<close>

type_synonym uint64 = "64 word"
type_synonym addr = nat

text \<open>A callback is a user's function or \<^verbatim>\<open>std::bind(&OnTimer, weak_cond, cb)\<close>; the empty \<^verbatim>\<open>std::function\<close> is \<^term>\<open>None\<close>.\<close>

datatype 'f std_function = Fn 'f | Bind_OnTimer nat "'f std_function option"

record 'f Timer =
  m_recurring :: bool
  m_ms :: uint64
  m_next :: uint64
  m_cb :: "'f std_function option"

record 'f TimerManager =
  m_timers :: "addr list"
  m_tickled :: bool
  m_previouseTime :: uint64
  store :: "addr \<rightharpoonup> 'f Timer"

text \<open>What a call of a callback runs, given which conditions are still alive.\<close>

fun call_cb :: "(nat \<Rightarrow> bool) \<Rightarrow> 'f std_function option \<Rightarrow> 'f list res" where
  "call_cb alive None = Inl BadFunctionCall"
| "call_cb alive (Some (Fn f)) = Inr [f]"
| "call_cb alive (Some (Bind_OnTimer weak_cond cb)) = (if alive weak_cond then call_cb alive cb else Inr [])"

definition next_at :: "(addr \<rightharpoonup> 'f Timer) \<Rightarrow> addr \<Rightarrow> uint64" where
  "next_at h p = (case h p of Some t \<Rightarrow> m_next t | None \<Rightarrow> 0)"

definition Comparator :: "(addr \<rightharpoonup> 'f Timer) \<Rightarrow> addr option \<Rightarrow> addr option \<Rightarrow> bool" where
  "Comparator h lhs rhs =
     (case (lhs, rhs) of
        (None, None) \<Rightarrow> False
      | (None, Some _) \<Rightarrow> True
      | (Some _, None) \<Rightarrow> False
      | (Some l, Some r) \<Rightarrow>
          if next_at h l < next_at h r then True
          else if next_at h r < next_at h l then False
          else l < r)"

abbreviation before :: "(addr \<rightharpoonup> 'f Timer) \<Rightarrow> addr \<Rightarrow> addr \<Rightarrow> bool" where
  "before h p q \<equiv> Comparator h (Some p) (Some q)"

section \<open>Operations\<close>

definition Timer_ctor :: "uint64 \<Rightarrow> uint64 \<Rightarrow> 'f std_function option \<Rightarrow> bool \<Rightarrow> 'f Timer" where
  "Timer_ctor now ms cb recurring = \<lparr>m_recurring = recurring, m_ms = ms, m_next = now + ms, m_cb = cb\<rparr>"

definition Timer_at :: "uint64 \<Rightarrow> 'f Timer" where
  "Timer_at nxt = \<lparr>m_recurring = False, m_ms = 0, m_next = nxt, m_cb = None\<rparr>"

definition TimerManager_ctor :: "uint64 \<Rightarrow> 'f TimerManager" where
  "TimerManager_ctor now = \<lparr>m_timers = [], m_tickled = False, m_previouseTime = now, store = Map.empty\<rparr>"

definition addTimer_locked :: "addr \<Rightarrow> 'f TimerManager \<Rightarrow> bool \<times> 'f TimerManager" where
  "addTimer_locked val m =
     (let (it, ts) = set_insert (before (store m)) val (m_timers m);
          at_front = (it = 0 \<and> \<not> m_tickled m)
      in (at_front, m\<lparr>m_timers := ts, m_tickled := (if at_front then True else m_tickled m)\<rparr>))"

definition addTimer ::
  "uint64 \<Rightarrow> addr \<Rightarrow> uint64 \<Rightarrow> 'f std_function option \<Rightarrow> bool \<Rightarrow> 'f TimerManager \<Rightarrow> bool \<times> 'f TimerManager" where
  "addTimer now p ms cb recurring m =
     addTimer_locked p (m\<lparr>store := (store m)(p \<mapsto> Timer_ctor now ms cb recurring)\<rparr>)"

definition addConditionTimer ::
  "uint64 \<Rightarrow> addr \<Rightarrow> uint64 \<Rightarrow> 'f std_function option \<Rightarrow> nat \<Rightarrow> bool \<Rightarrow> 'f TimerManager \<Rightarrow> bool \<times> 'f TimerManager" where
  "addConditionTimer now p ms cb weak_cond recurring m =
     addTimer now p ms (Some (Bind_OnTimer weak_cond cb)) recurring m"

definition cancel :: "addr \<Rightarrow> 'f TimerManager \<Rightarrow> (bool \<times> 'f TimerManager) res" where
  "cancel p m =
     (case store m p of
        None \<Rightarrow> Inl Undefined
      | Some t \<Rightarrow>
          if m_cb t \<noteq> None then
            (let h = (store m)(p \<mapsto> t\<lparr>m_cb := None\<rparr>) in
             res_bind (set_erase (set_find (before h) p (m_timers m)) (m_timers m))
               (\<lambda>ts. Inr (True, m\<lparr>m_timers := ts, store := h\<rparr>)))
          else Inr (False, m))"

definition refresh :: "uint64 \<Rightarrow> addr \<Rightarrow> 'f TimerManager \<Rightarrow> (bool \<times> 'f TimerManager) res" where
  "refresh now p m =
     (case store m p of
        None \<Rightarrow> Inl Undefined
      | Some t \<Rightarrow>
          if m_cb t = None then Inr (False, m)
          else let it = set_find (before (store m)) p (m_timers m) in
            if it = length (m_timers m) then Inr (False, m)
            else res_bind (set_erase it (m_timers m))
              (\<lambda>ts. let h = (store m)(p \<mapsto> t\<lparr>m_next := now + m_ms t\<rparr>) in
                 Inr (True, m\<lparr>m_timers := snd (set_insert (before h) p ts), store := h\<rparr>)))"

text \<open>The second component of the result is whether the hook for the front of the set is called.\<close>

definition reset ::
  "uint64 \<Rightarrow> uint64 \<Rightarrow> bool \<Rightarrow> addr \<Rightarrow> 'f TimerManager \<Rightarrow> (bool \<times> bool \<times> 'f TimerManager) res" where
  "reset now ms from_now p m =
     (case store m p of
        None \<Rightarrow> Inl Undefined
      | Some t \<Rightarrow>
          if ms = m_ms t \<and> \<not> from_now then Inr (True, False, m)
          else if m_cb t = None then Inr (False, False, m)
          else let it = set_find (before (store m)) p (m_timers m) in
            if it = length (m_timers m) then Inr (False, False, m)
            else res_bind (set_erase it (m_timers m))
              (\<lambda>ts. let start = (if from_now then now else m_next t - m_ms t);
                        h = (store m)(p \<mapsto> t\<lparr>m_ms := ms, m_next := start + ms\<rparr>)
                    in Inr (True, addTimer_locked p (m\<lparr>m_timers := ts, store := h\<rparr>))))"

definition getNextTimer :: "uint64 \<Rightarrow> 'f TimerManager \<Rightarrow> uint64 \<times> 'f TimerManager" where
  "getNextTimer now m =
     (case m_timers m of
        [] \<Rightarrow> - 1
      | p # _ \<Rightarrow> if now \<ge> next_at (store m) p then 0 else next_at (store m) p - now,
      m\<lparr>m_tickled := False\<rparr>)"

definition hasTimer :: "'f TimerManager \<Rightarrow> bool" where
  "hasTimer m \<longleftrightarrow> m_timers m \<noteq> []"

definition detectClockRollover :: "uint64 \<Rightarrow> 'f TimerManager \<Rightarrow> bool \<times> 'f TimerManager" where
  "detectClockRollover now m =
     (now < m_previouseTime m \<and> now < m_previouseTime m - 60 * 60 * 1000, m\<lparr>m_previouseTime := now\<rparr>)"

text \<open>The loop over the expired timers collects their callbacks and re-inserts the recurring ones.\<close>

primrec fire :: "uint64 \<Rightarrow> addr list \<Rightarrow> 'f TimerManager \<Rightarrow> ('f std_function option list \<times> 'f TimerManager) res" where
  "fire now [] m = Inr ([], m)"
| "fire now (p # ps) m =
     (case store m p of
        None \<Rightarrow> Inl Undefined
      | Some t \<Rightarrow>
          let m1 = (if m_recurring t then
                      (let h = (store m)(p \<mapsto> t\<lparr>m_next := now + m_ms t\<rparr>) in
                       m\<lparr>m_timers := snd (set_insert (before h) p (m_timers m)), store := h\<rparr>)
                    else m\<lparr>store := (store m)(p \<mapsto> t\<lparr>m_cb := None\<rparr>)\<rparr>)
          in res_bind (fire now ps m1) (\<lambda>(cbs, m2). Inr (m_cb t # cbs, m2)))"

text \<open>\<open>q\<close> is the address of the local timer that \<^verbatim>\<open>lower_bound\<close> compares with.\<close>

definition first_unexpired :: "uint64 \<Rightarrow> addr \<Rightarrow> 'f TimerManager \<Rightarrow> nat" where
  "first_unexpired now q m =
     (let it = set_lower_bound (before ((store m)(q \<mapsto> Timer_at now))) q (m_timers m)
      in it + length (takeWhile (\<lambda>p. next_at (store m) p = now) (drop it (m_timers m))))"

definition listExpiredCb ::
  "uint64 \<Rightarrow> addr \<Rightarrow> 'f std_function option list \<Rightarrow> 'f TimerManager \<Rightarrow> ('f std_function option list \<times> 'f TimerManager) res" where
  "listExpiredCb now q cbs m =
     (if m_timers m = [] then Inr (cbs, m)
      else let (rollover, m1) = detectClockRollover now m in
        if \<not> rollover \<and> next_at (store m1) (hd (m_timers m1)) > now then Inr (cbs, m1)
        else let it = (if rollover then length (m_timers m1) else first_unexpired now q m1) in
          res_bind (fire now (take it (m_timers m1)) (m1\<lparr>m_timers := drop it (m_timers m1)\<rparr>))
            (\<lambda>(fired, m2). Inr (cbs @ fired, m2)))"

section \<open>The invariant\<close>

text \<open>
  The set is strictly ordered, holds existing timers only, and every timer that still has a
  callback is in it: cancelling such a timer finds it.
\<close>

definition tm_inv :: "'f TimerManager \<Rightarrow> bool" where
  "tm_inv m \<longleftrightarrow> sorted_wrt (before (store m)) (m_timers m) \<and>
     (\<forall>p \<in> set (m_timers m). store m p \<noteq> None) \<and>
     (\<forall>p t. store m p = Some t \<longrightarrow> m_cb t \<noteq> None \<longrightarrow> p \<in> set (m_timers m))"

interpretation timer_set: std_set "before h" for h :: "addr \<rightharpoonup> 'f Timer"
proof
  show "\<not> before h x x" for x by (simp add: Comparator_def)
  show "before h x y \<Longrightarrow> before h y z \<Longrightarrow> before h x z" for x y z
    by (auto simp: Comparator_def split: if_splits)
  show "before h x y \<or> x = y \<or> before h y x" for x y
    by (auto simp: Comparator_def not_less)
qed

lemma before_cong: "next_at h p = next_at h' p \<Longrightarrow> next_at h q = next_at h' q \<Longrightarrow> before h p q = before h' p q"
  by (simp add: Comparator_def)

lemma sorted_before_cong:
  "(\<And>p. p \<in> set ps \<Longrightarrow> next_at h p = next_at h' p) \<Longrightarrow> sorted_wrt (before h) ps = sorted_wrt (before h') ps"
  by (induction ps) (auto simp: Comparator_def)

lemma next_at_upd: "next_at (h(p \<mapsto> t)) q = (if q = p then m_next t else next_at h q)"
  by (simp add: next_at_def)

lemma sorted_upd:
  "sorted_wrt (before h) ps \<Longrightarrow> p \<notin> set ps \<Longrightarrow> sorted_wrt (before (h(p \<mapsto> t))) ps"
  by (subst sorted_before_cong[of ps "h(p \<mapsto> t)" h]) (auto simp: next_at_upd)

lemma insert_upd:
  assumes "sorted_wrt (before h) ps" "p \<notin> set ps" "set_insert (before (h(p \<mapsto> t))) p ps = (i, ps')"
  shows "sorted_wrt (before (h(p \<mapsto> t))) ps'" "set ps' = insert p (set ps)"
    "i = 0 \<longleftrightarrow> (\<forall>q \<in> set ps. before (h(p \<mapsto> t)) p q)"
proof -
  from timer_set.insert_new[OF sorted_upd[OF assms(1,2)] assms(2,3)]
  show "sorted_wrt (before (h(p \<mapsto> t))) ps'" "set ps' = insert p (set ps)"
    "i = 0 \<longleftrightarrow> (\<forall>q \<in> set ps. before (h(p \<mapsto> t)) p q)" by simp_all
qed

lemma sorted_next: "sorted_wrt (before h) (p # ps) \<Longrightarrow> q \<in> set ps \<Longrightarrow> next_at h p \<le> next_at h q"
  by (auto simp: Comparator_def split: if_splits)

lemma sorted_split:
  "sorted_wrt (before h) ps \<Longrightarrow> (\<And>p. p \<in> set ps \<Longrightarrow> now \<le> next_at h p) \<Longrightarrow>
     p \<in> set (dropWhile (\<lambda>p. next_at h p = now) ps) \<Longrightarrow> now < next_at h p"
proof (induction ps)
  case (Cons a ps)
  show ?case
  proof (cases "next_at h a = now")
    case False
    with Cons.prems(2)[of a] have "now < next_at h a" by simp
    moreover from Cons.prems(1,3) False have "next_at h a \<le> next_at h p" using sorted_next[of h a ps p] by auto
    ultimately show ?thesis by simp
  qed (use Cons in auto)
qed simp

lemma first_unexpired_split:
  assumes "sorted_wrt (before (store m)) (m_timers m)" "q \<notin> set (m_timers m)"
  shows "take (first_unexpired now q m) (m_timers m) = filter (\<lambda>p. next_at (store m) p \<le> now) (m_timers m)"
    "drop (first_unexpired now q m) (m_timers m) = filter (\<lambda>p. now < next_at (store m) p) (m_timers m)"
proof -
  let ?h = "store m" and ?h' = "(store m)(q \<mapsto> Timer_at now)" and ?ts = "m_timers m"
  have q: "next_at ?h' q = now" and o: "p \<noteq> q \<Longrightarrow> next_at ?h' p = next_at ?h p" for p
    by (simp_all add: next_at_upd Timer_at_def)
  have s': "sorted_wrt (before ?h') ?ts"
    using assms by (rule sorted_upd)
  from timer_set.lower_bound_parts[OF s', of q] obtain ys zs where s: "?ts = ys @ zs"
    "set_lower_bound (before ?h') q ?ts = length ys" "\<forall>y \<in> set ys. before ?h' y q" "\<forall>z \<in> set zs. \<not> before ?h' z q" by blast
  have ys: "next_at ?h y \<le> now" if "y \<in> set ys" for y
    using s(1,3) that assms(2) q o[of y] by (fastforce simp: Comparator_def split: if_splits)
  have zs: "now \<le> next_at ?h z" if "z \<in> set zs" for z
    using s(1,4) that assms(2) q o[of z] by (fastforce simp: Comparator_def split: if_splits)
  let ?eq = "\<lambda>p. next_at ?h p = now"
  have gt: "now < next_at ?h z" if "z \<in> set (dropWhile ?eq zs)" for z
    using sorted_split[of ?h zs now z] assms(1) s(1) zs that by (auto simp: sorted_wrt_append)
  have eq: "next_at ?h z = now" if "z \<in> set (takeWhile ?eq zs)" for z using set_takeWhileD[OF that] by simp
  have ts: "?ts = (ys @ takeWhile ?eq zs) @ dropWhile ?eq zs" using s(1) by simp
  have it: "first_unexpired now q m = length (ys @ takeWhile ?eq zs)"
    using s(1,2) by (simp add: first_unexpired_def Let_def)
  have "filter (\<lambda>p. next_at ?h p \<le> now) ?ts = ys @ takeWhile ?eq zs"
    unfolding ts filter_append using ys eq gt
    by (simp add: filter_empty_conv filter_id_conv not_le)
  moreover have "filter (\<lambda>p. now < next_at ?h p) ?ts = dropWhile ?eq zs"
    unfolding ts filter_append using ys eq gt
    by (simp add: filter_empty_conv filter_id_conv not_less)
  ultimately show "take (first_unexpired now q m) ?ts = filter (\<lambda>p. next_at ?h p \<le> now) ?ts"
    "drop (first_unexpired now q m) ?ts = filter (\<lambda>p. now < next_at ?h p) ?ts"
    unfolding it by (metis append_eq_conv_conj ts)+
qed

text \<open>What the loop over the expired timers leaves of one timer.\<close>

definition fired :: "uint64 \<Rightarrow> 'f Timer \<Rightarrow> 'f Timer" where
  "fired now t = (if m_recurring t then t\<lparr>m_next := now + m_ms t\<rparr> else t\<lparr>m_cb := None\<rparr>)"

lemma fire_ok:
  assumes "sorted_wrt (before (store m)) (m_timers m)" "distinct ps" "set ps \<inter> set (m_timers m) = {}"
    "\<forall>p \<in> set ps. store m p \<noteq> None"
  shows "\<exists>m'. fire now ps m = Inr (map (\<lambda>p. m_cb (the (store m p))) ps, m') \<and>
     sorted_wrt (before (store m')) (m_timers m') \<and>
     set (m_timers m') = set (m_timers m) \<union> {p \<in> set ps. m_recurring (the (store m p))} \<and>
     store m' = (\<lambda>p. if p \<in> set ps then Some (fired now (the (store m p))) else store m p) \<and>
     m_tickled m' = m_tickled m \<and> m_previouseTime m' = m_previouseTime m"
  using assms
proof (induction ps arbitrary: m)
  case Nil
  then show ?case by simp
next
  case (Cons p ps)
  from Cons.prems obtain t where t: "store m p = Some t" by auto
  let ?h = "(store m)(p \<mapsto> fired now t)"
  obtain ts where ts: "sorted_wrt (before ?h) ts" "set ts = set (m_timers m) \<union> (if m_recurring t then {p} else {})"
    and step: "fire now (p # ps) m = res_bind (fire now ps (m\<lparr>m_timers := ts, store := ?h\<rparr>))
                 (\<lambda>(cbs, m2). Inr (m_cb t # cbs, m2))"
  proof (cases "m_recurring t")
    case True
    obtain i ts where i: "set_insert (before ?h) p (m_timers m) = (i, ts)" by fastforce
    from insert_upd[OF Cons.prems(1) _ i] Cons.prems(3) True t i show thesis
      by (intro that[of ts]) (auto simp: Let_def fired_def)
  next
    case False
    have "sorted_wrt (before ?h) (m_timers m)"
      using Cons.prems(1,3) sorted_upd by auto
    with False t show thesis by (intro that[of "m_timers m"]) (auto simp: Let_def fired_def)
  qed
  define m1 where "m1 = m\<lparr>m_timers := ts, store := ?h\<rparr>"
  then have m1: "m_timers m1 = ts" "store m1 = ?h" "m_tickled m1 = m_tickled m" "m_previouseTime m1 = m_previouseTime m"
    by simp_all
  have old: "store m1 q = store m q" if "q \<in> set ps" for q using Cons.prems(2) that m1(2) by auto
  have "sorted_wrt (before (store m1)) (m_timers m1)" "distinct ps" "set ps \<inter> set (m_timers m1) = {}"
    using Cons.prems(2,3) ts m1 by auto
  moreover have "\<forall>q \<in> set ps. store m1 q \<noteq> None" using Cons.prems(4) old by auto
  ultimately obtain m' where m': "fire now ps m1 = Inr (map (\<lambda>p. m_cb (the (store m1 p))) ps, m')"
    "sorted_wrt (before (store m')) (m_timers m')"
    "set (m_timers m') = set (m_timers m1) \<union> {p \<in> set ps. m_recurring (the (store m1 p))}"
    "store m' = (\<lambda>p. if p \<in> set ps then Some (fired now (the (store m1 p))) else store m1 p)"
    "m_tickled m' = m_tickled m1" "m_previouseTime m' = m_previouseTime m1"
    using Cons.IH[of m1] by blast
  have "map (\<lambda>p. m_cb (the (store m1 p))) ps = map (\<lambda>p. m_cb (the (store m p))) ps" using old by simp
  then have "fire now (p # ps) m = Inr (map (\<lambda>p. m_cb (the (store m p))) (p # ps), m')"
    using step m'(1) t by (simp add: m1_def)
  moreover have "set (m_timers m') = set (m_timers m) \<union> {q \<in> set (p # ps). m_recurring (the (store m q))}"
    using m'(3) ts(2) t old m1(1) by auto
  moreover have "store m' = (\<lambda>q. if q \<in> set (p # ps) then Some (fired now (the (store m q))) else store m q)"
    using m'(4) t old m1(2) Cons.prems(2) by (auto simp: fun_eq_iff)
  ultimately show ?case using m'(2,5,6) m1(3,4) by auto
qed

section \<open>Every operation keeps the invariant\<close>

lemma tm_invD:
  assumes "tm_inv m"
  shows "sorted_wrt (before (store m)) (m_timers m)" "p \<in> set (m_timers m) \<Longrightarrow> \<exists>t. store m p = Some t"
    "store m p = Some t \<Longrightarrow> m_cb t \<noteq> None \<Longrightarrow> p \<in> set (m_timers m)"
  using assms by (auto simp: tm_inv_def)

lemma ctor_inv: "tm_inv (TimerManager_ctor now)"
  by (simp add: tm_inv_def TimerManager_ctor_def)

text \<open>Putting a timer with a new time into a set it is not in; the hook is called for a new first timer.\<close>

lemma addTimer_locked_ok:
  assumes "sorted_wrt (before h) (m_timers m)" "p \<notin> set (m_timers m)" "store m = h(p \<mapsto> t)"
  shows "\<exists>ts front. addTimer_locked p m = (front, m\<lparr>m_timers := ts, m_tickled := front \<or> m_tickled m\<rparr>) \<and>
     (front \<longleftrightarrow> \<not> m_tickled m \<and> (\<forall>q \<in> set (m_timers m). before (store m) p q)) \<and>
     sorted_wrt (before (store m)) ts \<and> set ts = insert p (set (m_timers m))"
proof -
  obtain i ts where i: "set_insert (before (store m)) p (m_timers m) = (i, ts)" by fastforce
  note r = insert_upd[OF assms(1,2) i[unfolded assms(3)], folded assms(3)]
  let ?f = "i = 0 \<and> \<not> m_tickled m"
  have "addTimer_locked p m = (?f, m\<lparr>m_timers := ts, m_tickled := ?f \<or> m_tickled m\<rparr>)"
    using i by (simp add: addTimer_locked_def Let_def)
  with r show ?thesis by blast
qed

lemma addTimer_ok:
  assumes "tm_inv m" "store m p = None"
  shows "\<exists>front m'. addTimer now p ms cb rc m = (front, m') \<and> tm_inv m' \<and>
     store m' = (store m)(p \<mapsto> Timer_ctor now ms cb rc) \<and> set (m_timers m') = insert p (set (m_timers m))"
proof -
  have p: "p \<notin> set (m_timers m)" using tm_invD(2)[OF assms(1), of p] assms(2) by auto
  let ?h = "(store m)(p \<mapsto> Timer_ctor now ms cb rc)"
  let ?m0 = "m\<lparr>store := ?h\<rparr>"
  from addTimer_locked_ok[of "store m" ?m0 p "Timer_ctor now ms cb rc"] tm_invD(1)[OF assms(1)] p obtain ts front where
    r: "addTimer_locked p ?m0 = (front, ?m0\<lparr>m_timers := ts, m_tickled := front \<or> m_tickled ?m0\<rparr>)"
    "sorted_wrt (before (store ?m0)) ts" "set ts = insert p (set (m_timers m))" by auto
  let ?m = "?m0\<lparr>m_timers := ts, m_tickled := front \<or> m_tickled ?m0\<rparr>"
  have "tm_inv ?m" using r(2,3) assms(1) by (auto simp: tm_inv_def)
  with r show ?thesis by (intro exI[of _ front] exI[of _ ?m]) (simp add: addTimer_def)
qed

lemma cancel_ok:
  assumes "tm_inv m" "store m p = Some t"
  shows "if m_cb t = None then cancel p m = Inr (False, m)
     else cancel p m = Inr (True, m\<lparr>m_timers := remove1 p (m_timers m), store := (store m)(p \<mapsto> t\<lparr>m_cb := None\<rparr>)\<rparr>) \<and>
       tm_inv (m\<lparr>m_timers := remove1 p (m_timers m), store := (store m)(p \<mapsto> t\<lparr>m_cb := None\<rparr>)\<rparr>)"
proof (cases "m_cb t")
  case None
  then show ?thesis using assms(2) by (simp add: cancel_def)
next
  case (Some f)
  let ?h = "(store m)(p \<mapsto> t\<lparr>m_cb := None\<rparr>)"
  have s: "sorted_wrt (before ?h) (m_timers m)"
    using tm_invD(1)[OF assms(1)] assms(2)
    by (subst sorted_before_cong[of _ _ "store m"]) (auto simp: next_at_def)
  have p: "p \<in> set (m_timers m)" using tm_invD(3)[OF assms] Some by simp
  have "tm_inv (m\<lparr>m_timers := remove1 p (m_timers m), store := ?h\<rparr>)"
    using timer_set.sorted_remove1[OF s] timer_set.sorted_distinct[OF s] assms(1)
    by (auto simp: tm_inv_def)
  then show ?thesis using timer_set.find_erase[OF s p] assms(2) Some by (simp add: cancel_def Let_def)
qed

lemma refresh_ok:
  assumes "tm_inv m" "store m p = Some t"
  shows "\<exists>m'. refresh now p m = Inr (m_cb t \<noteq> None, m') \<and> tm_inv m' \<and>
     store m' = (if m_cb t = None then store m else (store m)(p \<mapsto> t\<lparr>m_next := now + m_ms t\<rparr>)) \<and>
     set (m_timers m') = set (m_timers m)"
proof (cases "m_cb t")
  case None
  then show ?thesis using assms by (simp add: refresh_def)
next
  case (Some f)
  let ?h = "(store m)(p \<mapsto> t\<lparr>m_next := now + m_ms t\<rparr>)" and ?ps = "remove1 p (m_timers m)"
  note s = tm_invD(1)[OF assms(1)]
  have p: "p \<in> set (m_timers m)" using tm_invD(3)[OF assms] Some by simp
  have d: "distinct (m_timers m)" using timer_set.sorted_distinct[OF s] .
  obtain i ts where i: "set_insert (before ?h) p ?ps = (i, ts)" by fastforce
  have ts: "sorted_wrt (before ?h) ts" "set ts = insert p (set ?ps)"
    using insert_upd[OF timer_set.sorted_remove1[OF s] _ i] d by auto
  let ?m = "m\<lparr>m_timers := ts, store := ?h\<rparr>"
  have "set ts = set (m_timers m)" using ts(2) p d by auto
  moreover have "tm_inv ?m" using ts(1) calculation assms(1) p by (auto simp: tm_inv_def)
  moreover have "refresh now p m = Inr (True, ?m)"
    using timer_set.find_erase[OF s p] assms(2) Some i by (simp add: refresh_def Let_def)
  ultimately show ?thesis using Some by auto
qed

lemma reset_ok:
  assumes "tm_inv m" "store m p = Some t"
  shows "\<exists>r front m'. reset now ms from_now p m = Inr (r, front, m') \<and> tm_inv m' \<and>
     set (m_timers m') = set (m_timers m) \<and>
     store m' = (if ms = m_ms t \<and> \<not> from_now \<or> m_cb t = None then store m
       else (store m)(p \<mapsto> t\<lparr>m_ms := ms, m_next := (if from_now then now else m_next t - m_ms t) + ms\<rparr>))"
proof (cases "ms = m_ms t \<and> \<not> from_now \<or> m_cb t = None")
  case True
  then show ?thesis using assms by (auto simp: reset_def)
next
  case False
  let ?t = "t\<lparr>m_ms := ms, m_next := (if from_now then now else m_next t - m_ms t) + ms\<rparr>"
  let ?ps = "remove1 p (m_timers m)"
  note s = tm_invD(1)[OF assms(1)]
  have p: "p \<in> set (m_timers m)" using tm_invD(3)[OF assms] False by simp
  have d: "distinct (m_timers m)" using timer_set.sorted_distinct[OF s] .
  let ?m0 = "m\<lparr>m_timers := ?ps, store := (store m)(p \<mapsto> ?t)\<rparr>"
  from addTimer_locked_ok[of "store m" ?m0 p ?t] timer_set.sorted_remove1[OF s, of p] d obtain ts front where
    r: "addTimer_locked p ?m0 = (front, ?m0\<lparr>m_timers := ts, m_tickled := front \<or> m_tickled ?m0\<rparr>)"
    "sorted_wrt (before (store ?m0)) ts" "set ts = insert p (set ?ps)" by auto
  let ?m = "?m0\<lparr>m_timers := ts, m_tickled := front \<or> m_tickled ?m0\<rparr>"
  have "set ts = set (m_timers m)" using r(3) p d by auto
  moreover have "tm_inv ?m" using r(2) calculation assms(1) p by (auto simp: tm_inv_def)
  moreover have "reset now ms from_now p m = Inr (True, front, ?m)"
    using timer_set.find_erase[OF s p] assms(2) False r(1) by (auto simp: reset_def Let_def)
  ultimately show ?thesis using False by auto
qed

section \<open>Expiry against the abstract timer table\<close>

text \<open>
  Abstractly a manager is a table of the pending timers. One call of \<^verbatim>\<open>listExpiredCb\<close> removes
  the due one-shot timers from it and gives the due recurring ones a new time.
\<close>

definition pending_timers :: "'f TimerManager \<Rightarrow> addr \<rightharpoonup> 'f Timer" where
  "pending_timers m p = (if p \<in> set (m_timers m) then store m p else None)"

definition expire_table :: "bool \<Rightarrow> uint64 \<Rightarrow> (addr \<rightharpoonup> 'f Timer) \<Rightarrow> addr \<rightharpoonup> 'f Timer" where
  "expire_table all now tab p =
     (case tab p of
        None \<Rightarrow> None
      | Some t \<Rightarrow> if all \<or> m_next t \<le> now then (if m_recurring t then Some (t\<lparr>m_next := now + m_ms t\<rparr>) else None) else Some t)"

lemma fire_due:
  assumes inv: "tm_inv m" and parts: "set (m_timers m) = set ps \<union> set rest" "set ps \<inter> set rest = {}" "distinct ps"
    and rest: "sorted_wrt (before (store m)) rest"
    and due: "\<And>p. p \<in> set (m_timers m) \<Longrightarrow> p \<in> set ps \<longleftrightarrow> all \<or> next_at (store m) p \<le> now"
  shows "\<exists>m'. fire now ps (m\<lparr>m_previouseTime := now, m_timers := rest\<rparr>) = Inr (map (\<lambda>p. m_cb (the (store m p))) ps, m') \<and>
     tm_inv m' \<and> pending_timers m' = expire_table all now (pending_timers m)"
proof -
  let ?m0 = "m\<lparr>m_previouseTime := now, m_timers := rest\<rparr>"
  have ex: "\<exists>t. store m p = Some t" if "p \<in> set ps \<union> set rest" for p
    using tm_invD(2)[OF inv, of p] that parts(1) by auto
  from fire_ok[of ?m0 ps now] rest parts(2,3) ex obtain m' where m':
    "fire now ps ?m0 = Inr (map (\<lambda>p. m_cb (the (store m p))) ps, m')"
    "sorted_wrt (before (store m')) (m_timers m')"
    "set (m_timers m') = set rest \<union> {p \<in> set ps. m_recurring (the (store m p))}"
    "store m' = (\<lambda>p. if p \<in> set ps then Some (fired now (the (store m p))) else store m p)"
    by fastforce
  have "tm_inv m'"
    unfolding tm_inv_def
  proof (intro conjI ballI allI impI)
    fix p assume "p \<in> set (m_timers m')"
    then show "store m' p \<noteq> None" using m'(3,4) ex[of p] by auto
  next
    fix p t assume "store m' p = Some t" "m_cb t \<noteq> None"
    then show "p \<in> set (m_timers m')"
      using m'(3,4) tm_invD(3)[OF inv, of p t] parts(1) by (auto simp: fired_def split: if_splits)
  qed (rule m'(2))
  moreover have "pending_timers m' p = expire_table all now (pending_timers m) p" for p
  proof (cases "p \<in> set (m_timers m)")
    case True
    then obtain t where t: "store m p = Some t" using tm_invD(2)[OF inv] by blast
    then have "p \<in> set ps \<longleftrightarrow> all \<or> m_next t \<le> now" using due[OF True] by (simp add: next_at_def)
    then show ?thesis using True t m'(3,4) parts(1,2)
      by (auto simp: pending_timers_def expire_table_def fired_def)
  next
    case False
    then show ?thesis using m'(3) parts(1) by (auto simp: pending_timers_def expire_table_def)
  qed
  ultimately show ?thesis using m'(1) by (auto simp: fun_eq_iff)
qed

definition due_timers :: "uint64 \<Rightarrow> 'f TimerManager \<Rightarrow> addr list" where
  "due_timers now m =
     filter (\<lambda>p. fst (detectClockRollover now m) \<or> next_at (store m) p \<le> now) (m_timers m)"

lemma listExpiredCb_ok:
  assumes inv: "tm_inv m" and q: "store m q = None"
  shows "\<exists>m'. listExpiredCb now q cbs m = Inr (cbs @ map (\<lambda>p. m_cb (the (store m p))) (due_timers now m), m') \<and>
     tm_inv m' \<and> pending_timers m' = expire_table (fst (detectClockRollover now m)) now (pending_timers m)"
proof (cases "m_timers m = []")
  case True
  then have "pending_timers m = expire_table b now (pending_timers m)" for b
    by (auto simp: pending_timers_def expire_table_def fun_eq_iff)
  with True inv show ?thesis by (auto simp: listExpiredCb_def due_timers_def)
next
  case ne: False
  obtain roll where m1: "detectClockRollover now m = (roll, m\<lparr>m_previouseTime := now\<rparr>)"
    by (simp add: detectClockRollover_def)
  note s = tm_invD(1)[OF inv]
  have d: "distinct (m_timers m)" using timer_set.sorted_distinct[OF s] .
  show ?thesis
  proof (cases "\<not> roll \<and> next_at (store m) (hd (m_timers m)) > now")
    case True
    have late: "now < next_at (store m) p" if "p \<in> set (m_timers m)" for p
      using s True that sorted_next[of "store m" "hd (m_timers m)" "tl (m_timers m)" p]
      by (cases "m_timers m") (auto intro: less_le_trans)
    then have "due_timers now m = []" using True m1 by (auto simp: due_timers_def filter_empty_conv not_le)
    moreover have "pending_timers m = expire_table roll now (pending_timers m)"
      using late True tm_invD(2)[OF inv]
      by (fastforce simp: pending_timers_def expire_table_def fun_eq_iff next_at_def split: option.split)
    moreover have "tm_inv (m\<lparr>m_previouseTime := now\<rparr>)" using inv by (simp add: tm_inv_def)
    moreover have "pending_timers (m\<lparr>m_previouseTime := now\<rparr>) = pending_timers m"
      by (simp add: pending_timers_def fun_eq_iff)
    ultimately show ?thesis using True m1 ne by (auto simp: listExpiredCb_def Let_def)
  next
    case False
    define it where "it = (if roll then length (m_timers m) else first_unexpired now q m)"
    have qn: "q \<notin> set (m_timers m)" using tm_invD(2)[OF inv, of q] q by auto
    note fu = first_unexpired_split[OF s qn, of now]
    have ps: "take it (m_timers m) = due_timers now m"
      using fu(1) m1 by (simp add: it_def due_timers_def)
    have "sorted_wrt (before (store m)) (take it (m_timers m) @ drop it (m_timers m))" using s by simp
    then have rest: "sorted_wrt (before (store m)) (drop it (m_timers m))" by (simp only: sorted_wrt_append)
    have "\<exists>m'. fire now (take it (m_timers m)) (m\<lparr>m_previouseTime := now, m_timers := drop it (m_timers m)\<rparr>) =
         Inr (map (\<lambda>p. m_cb (the (store m p))) (take it (m_timers m)), m') \<and>
       tm_inv m' \<and> pending_timers m' = expire_table roll now (pending_timers m)"
    proof (rule fire_due[OF inv _ _ _ rest])
      show "set (m_timers m) = set (take it (m_timers m)) \<union> set (drop it (m_timers m))"
        by (metis append_take_drop_id set_append)
      show "set (take it (m_timers m)) \<inter> set (drop it (m_timers m)) = {}" using d by (rule set_take_disj_set_drop_if_distinct) simp
      show "distinct (take it (m_timers m))" using d by simp
      show "p \<in> set (take it (m_timers m)) \<longleftrightarrow> roll \<or> next_at (store m) p \<le> now" if "p \<in> set (m_timers m)" for p
        using that ps m1 by (simp add: due_timers_def)
    qed
    moreover have "first_unexpired now q (m\<lparr>m_previouseTime := now\<rparr>) = first_unexpired now q m"
      by (simp add: first_unexpired_def)
    ultimately show ?thesis using False m1 ne ps by (auto simp: listExpiredCb_def Let_def it_def)
  qed
qed

section \<open>Reachable managers\<close>

inductive tm_reach :: "'f TimerManager \<Rightarrow> bool" where
  create: "tm_reach (TimerManager_ctor now)"
| add: "tm_reach m \<Longrightarrow> store m p = None \<Longrightarrow> addTimer now p ms cb rc m = (front, m') \<Longrightarrow> tm_reach m'"
| add_condition: "tm_reach m \<Longrightarrow> store m p = None \<Longrightarrow> addConditionTimer now p ms cb w rc m = (front, m') \<Longrightarrow> tm_reach m'"
| cancel: "tm_reach m \<Longrightarrow> cancel p m = Inr (b, m') \<Longrightarrow> tm_reach m'"
| refresh: "tm_reach m \<Longrightarrow> refresh now p m = Inr (b, m') \<Longrightarrow> tm_reach m'"
| reset: "tm_reach m \<Longrightarrow> reset now ms from_now p m = Inr (b, front, m') \<Longrightarrow> tm_reach m'"
| get_next: "tm_reach m \<Longrightarrow> getNextTimer now m = (r, m') \<Longrightarrow> tm_reach m'"
| expire: "tm_reach m \<Longrightarrow> store m q = None \<Longrightarrow> listExpiredCb now q cbs m = Inr (cbs', m') \<Longrightarrow> tm_reach m'"

lemma tm_reach_inv: "tm_reach m \<Longrightarrow> tm_inv m"
proof (induction rule: tm_reach.induct)
  case (create now)
  show ?case by (rule ctor_inv)
next
  case (add m p now ms cb rc front m')
  then show ?case using addTimer_ok[of m p now ms cb rc] by auto
next
  case (add_condition m p now ms cb w rc front m')
  then show ?case using addTimer_ok[of m p now ms "Some (Bind_OnTimer w cb)" rc] by (auto simp: addConditionTimer_def)
next
  case (cancel m p b m')
  then obtain t where "store m p = Some t" by (auto simp: cancel_def split: option.splits)
  then show ?case using cancel_ok[OF cancel.IH, of p t] cancel by (auto split: if_splits)
next
  case (refresh m now p b m')
  then obtain t where "store m p = Some t" by (auto simp: refresh_def split: option.splits)
  then show ?case using refresh_ok[OF refresh.IH, of p t now] refresh by auto
next
  case (reset m now ms from_now p b front m')
  then obtain t where "store m p = Some t" by (auto simp: reset_def split: option.splits)
  then show ?case using reset_ok[OF reset.IH, of p t now ms from_now] reset by auto
next
  case (get_next m now r m')
  then show ?case by (auto simp: getNextTimer_def tm_inv_def)
next
  case (expire m q now cbs cbs' m')
  then show ?case using listExpiredCb_ok[of m q now cbs] by auto
qed

section \<open>Properties\<close>

definition two_timers :: "string TimerManager" where
  "two_timers = snd (addTimer 100 7 50 (Some (Fn ''once'')) False (snd (addTimer 100 3 20 (Some (Fn ''tick'')) True (TimerManager_ctor 100))))"

lemma two_timers_simp:
  "two_timers = \<lparr>m_timers = [3, 7], m_tickled = True, m_previouseTime = 100,
     store = [3 \<mapsto> Timer_ctor 100 20 (Some (Fn ''tick'')) True, 7 \<mapsto> Timer_ctor 100 50 (Some (Fn ''once'')) False]\<rparr>"
  by (simp add: two_timers_def addTimer_def addTimer_locked_def set_insert_def set_lower_bound_def set_hit_def
      TimerManager_ctor_def Timer_ctor_def Comparator_def next_at_def Let_def)

lemma reach_addTimer: "tm_reach m \<Longrightarrow> store m p = None \<Longrightarrow> tm_reach (snd (addTimer now p ms cb rc m))"
  by (metis tm_reach.add prod.collapse)

lemma two_timers_reach: "tm_reach two_timers"
  unfolding two_timers_def
  by (intro reach_addTimer tm_reach.create)
    (simp_all add: addTimer_def addTimer_locked_def TimerManager_ctor_def Let_def split: prod.split)

text \<open>C20: No use of the timers is undefined: along every sequence of operations, in any order and at any
  times, cancelling, refreshing or resetting any timer ever created and collecting the expired
  callbacks succeed; in particular the erase of \<^verbatim>\<open>cancel\<close> never gets the end iterator. Cancelling
  succeeds exactly for a timer that still has its callback, and then the timer is no longer pending.\<close>

theorem timers_never_undefined:
  assumes "tm_reach m" "store m p = Some t" "store m q = None"
  shows "(\<exists>m'. cancel p m = Inr (m_cb t \<noteq> None, m') \<and> (m_cb t \<noteq> None \<longrightarrow> pending_timers m' = (pending_timers m)(p := None))) \<and>
     (\<exists>m'. refresh now p m = Inr (m_cb t \<noteq> None, m')) \<and>
     (\<exists>b front m'. reset now ms from_now p m = Inr (b, front, m')) \<and>
     (\<exists>cbs' m'. listExpiredCb now q cbs m = Inr (cbs', m'))"
proof -
  note inv = tm_reach_inv[OF assms(1)]
  have "pending_timers (m\<lparr>m_timers := remove1 p (m_timers m), store := (store m)(p \<mapsto> t\<lparr>m_cb := None\<rparr>)\<rparr>) = (pending_timers m)(p := None)"
    using timer_set.sorted_distinct[OF tm_invD(1)[OF inv]] by (auto simp: pending_timers_def fun_eq_iff)
  then have "\<exists>m'. cancel p m = Inr (m_cb t \<noteq> None, m') \<and> (m_cb t \<noteq> None \<longrightarrow> pending_timers m' = (pending_timers m)(p := None))"
    using cancel_ok[OF inv assms(2)] by (auto split: if_splits)
  then show ?thesis
    using refresh_ok[OF inv assms(2), of now] reset_ok[OF inv assms(2), of now ms from_now] listExpiredCb_ok[OF inv assms(3), of now cbs]
    by blast
qed

theorem timers_never_undefined_witness:
  "\<exists>m'. cancel 3 two_timers = Inr (True, m') \<and> pending_timers m' = (pending_timers two_timers)(3 := None)"
  using timers_never_undefined[OF two_timers_reach, of 3 "Timer_ctor 100 20 (Some (Fn ''tick'')) True" 8]
  by (simp add: two_timers_simp Timer_ctor_def)

text \<open>C7: Collecting the expired callbacks implements the abstract timer table: the callbacks returned are
  those of exactly the due timers, in the order of their times; the due one-shot timers leave the
  table, the due recurring ones get the time now plus their period, all others stay. The address
  at which the local comparison timer is allocated has no influence.\<close>

theorem listExpiredCb_refines:
  assumes "tm_reach m" "store m q = None" "fst (detectClockRollover now m) = roll"
  shows "\<exists>m'. listExpiredCb now q cbs m =
       Inr (cbs @ map (\<lambda>p. m_cb (the (store m p))) (filter (\<lambda>p. roll \<or> next_at (store m) p \<le> now) (m_timers m)), m') \<and>
     sorted (map (next_at (store m)) (m_timers m)) \<and> distinct (m_timers m) \<and>
     pending_timers m' = expire_table roll now (pending_timers m)"
proof -
  note inv = tm_reach_inv[OF assms(1)]
  have "sorted (map (next_at (store m)) (m_timers m))"
    unfolding sorted_map using tm_invD(1)[OF inv]
    by (rule sorted_wrt_mono_rel[rotated]) (auto simp: Comparator_def split: if_splits)
  then show ?thesis
    using listExpiredCb_ok[OF inv assms(2), of now cbs] assms(3) timer_set.sorted_distinct[OF tm_invD(1)[OF inv]]
    by (auto simp: due_timers_def)
qed

theorem listExpiredCb_refines_witness:
  "\<exists>m'. listExpiredCb 130 5 [] two_timers = Inr ([Some (Fn ''tick'')], m') \<and>
     pending_timers m' = expire_table False 130 (pending_timers two_timers)"
  using listExpiredCb_refines[OF two_timers_reach, of 5 130 False "[]"]
  by (simp add: two_timers_simp Timer_ctor_def detectClockRollover_def next_at_def)

text \<open>C36: Waiting as long as \<^verbatim>\<open>getNextTimer\<close> says is neither too short nor too long: with a clock that has
  not gone back, no callback is collected at any time before, and at least one is collected once the
  time has passed.\<close>

theorem wait_then_fire:
  assumes "tm_reach m" "m_timers m \<noteq> []" "store m q = None" "m_previouseTime m \<le> now" "getNextTimer now m = (r, m1)"
  shows "(\<forall>t. now \<le> t \<longrightarrow> t < now + r \<longrightarrow> (\<exists>m2. listExpiredCb t q [] m1 = Inr ([], m2))) \<and>
     (\<exists>cbs m2. listExpiredCb (now + r) q [] m1 = Inr (cbs, m2) \<and> cbs \<noteq> [])"
proof -
  note inv = tm_reach_inv[OF assms(1)]
  obtain p ps where p: "m_timers m = p # ps" using assms(2) by (cases "m_timers m") auto
  let ?n = "next_at (store m) p"
  have m1: "m1 = m\<lparr>m_tickled := False\<rparr>" and r: "r = (if now \<ge> ?n then 0 else ?n - now)"
    using assms(5) p by (auto simp: getNextTimer_def)
  have inv1: "tm_inv m1" and q1: "store m1 q = None" using inv assms(3) m1 by (auto simp: tm_inv_def)
  have end_time: "now + r = (if now \<ge> ?n then now else ?n)" using r by simp
  have no_roll: "\<not> fst (detectClockRollover t m1)" if "now \<le> t" for t
    using that assms(4) m1 by (auto simp: detectClockRollover_def)
  have "\<exists>m2. listExpiredCb t q [] m1 = Inr ([], m2)" if "now \<le> t" "t < now + r" for t
  proof -
    have "t < ?n" using that end_time by (auto split: if_splits)
    then have "t < next_at (store m) a" if "a \<in> set (m_timers m)" for a
      using sorted_next[of "store m" p ps a] tm_invD(1)[OF inv] p that by (auto intro: less_le_trans)
    then have "due_timers t m1 = []" using no_roll[OF that(1)] m1 by (auto simp: due_timers_def filter_empty_conv not_le)
    then show ?thesis using listExpiredCb_ok[OF inv1 q1, of t "[]"] by auto
  qed
  moreover have "due_timers (now + r) m1 \<noteq> []" using p m1 end_time by (auto simp: due_timers_def)
  then have "\<exists>cbs m2. listExpiredCb (now + r) q [] m1 = Inr (cbs, m2) \<and> cbs \<noteq> []"
    using listExpiredCb_ok[OF inv1 q1, of "now + r" "[]"] by auto
  ultimately show ?thesis by blast
qed

theorem wait_then_fire_witness:
  "(\<exists>m2. listExpiredCb 119 5 [] (two_timers\<lparr>m_tickled := False\<rparr>) = Inr ([], m2)) \<and>
   (\<exists>cbs m2. listExpiredCb 120 5 [] (two_timers\<lparr>m_tickled := False\<rparr>) = Inr (cbs, m2) \<and> cbs \<noteq> [])"
proof -
  have "getNextTimer 105 two_timers = (15, two_timers\<lparr>m_tickled := False\<rparr>)"
    by (simp add: two_timers_simp getNextTimer_def next_at_def Timer_ctor_def)
  from wait_then_fire[OF two_timers_reach _ _ _ this, of 5] show ?thesis by (simp add: two_timers_simp)
qed

text \<open>The test for a clock set back by more than an hour underflows: while the last time recorded is
  less than one hour, any step back, however small, counts as a roll-over, and then every pending
  timer is reported as expired.\<close>

theorem rollover_underflow:
  assumes "tm_reach m" "store m q = None" "m_previouseTime m < 3600000" "now < m_previouseTime m"
  shows "\<exists>m'. listExpiredCb now q [] m = Inr (map (\<lambda>p. m_cb (the (store m p))) (m_timers m), m')"
proof -
  have "unat (m_previouseTime m - 3600000) = unat (m_previouseTime m) + 2 ^ 64 - 3600000"
    using assms(3) by (simp add: word_less_nat_alt unat_sub_if')
  then have "now < m_previouseTime m - 3600000" using assms(3,4) by (simp add: word_less_nat_alt)
  then have "fst (detectClockRollover now m)" using assms(4) by (simp add: detectClockRollover_def)
  then show ?thesis using listExpiredCb_ok[OF tm_reach_inv[OF assms(1)] assms(2), of now "[]"] by (auto simp: due_timers_def)
qed

theorem rollover_underflow_witness:
  "\<exists>m'. listExpiredCb 99 5 [] two_timers = Inr ([Some (Fn ''tick''), Some (Fn ''once'')], m')"
  using rollover_underflow[OF two_timers_reach, of 5 99] by (simp add: two_timers_simp Timer_ctor_def)

end
