(* ===== verification/TW_Mutex.thy ===== *)
theory TW_Mutex
  imports TW_Prelude
begin

text \<open>
  \<^verbatim>\<open>include/base/mutex.h\<close> and \<^verbatim>\<open>src/base/mutex.cpp\<close>: semaphore, mutexes, read-write mutex, spin lock,
  atomic-flag lock, and the scoped guards. A lock operation by thread \<open>t\<close> that cannot proceed is
  \<^term>\<open>None\<close> (the thread waits or spins); releasing a POSIX lock that the thread does not hold is
  undefined. The locale \<open>lockable\<close> is the contract of the template parameter \<^verbatim>\<open>T\<close> of the guards,
  \<open>exclusive_lock\<close> adds mutual exclusion.
\<close>

type_synonym thread_id = nat

section \<open>The locks\<close>

type_synonym Mutex = "thread_id option"

definition Mutex_ctor :: Mutex where
  "Mutex_ctor = None"

definition Mutex_lock :: "thread_id \<Rightarrow> Mutex \<Rightarrow> Mutex option" where
  "Mutex_lock t m = (if m = None then Some (Some t) else None)"

definition Mutex_unlock :: "thread_id \<Rightarrow> Mutex \<Rightarrow> Mutex res" where
  "Mutex_unlock t m = (if m = Some t then Inr None else Inl Undefined)"

datatype Spinlock = Spinlock "thread_id option"

definition Spinlock_ctor :: Spinlock where
  "Spinlock_ctor = Spinlock None"

fun Spinlock_lock :: "thread_id \<Rightarrow> Spinlock \<Rightarrow> Spinlock option" where
  "Spinlock_lock t (Spinlock m) = (if m = None then Some (Spinlock (Some t)) else None)"

fun Spinlock_unlock :: "thread_id \<Rightarrow> Spinlock \<Rightarrow> Spinlock res" where
  "Spinlock_unlock t (Spinlock m) = (if m = Some t then Inr (Spinlock None) else Inl Undefined)"

text \<open>The flag lock has no owner: the field \<open>taker\<close> only records who set the flag, no operation reads it.\<close>

record CASLock =
  flag_set :: bool
  taker :: thread_id

definition CASLock_ctor :: CASLock where
  "CASLock_ctor = \<lparr>flag_set = False, taker = 0\<rparr>"

definition test_and_set :: "thread_id \<Rightarrow> CASLock \<Rightarrow> bool \<times> CASLock" where
  "test_and_set t m = (if flag_set m then (True, m) else (False, \<lparr>flag_set = True, taker = t\<rparr>))"

definition CASLock_lock :: "thread_id \<Rightarrow> CASLock \<Rightarrow> CASLock option" where
  "CASLock_lock t m = (case test_and_set t m of (old, m') \<Rightarrow> if old then None else Some m')"

definition CASLock_unlock :: "thread_id \<Rightarrow> CASLock \<Rightarrow> CASLock res" where
  "CASLock_unlock t m = Inr (m\<lparr>flag_set := False\<rparr>)"

record RWMutex =
  writer :: "thread_id option"
  readers :: "thread_id list"

definition RWMutex_ctor :: RWMutex where
  "RWMutex_ctor = \<lparr>writer = None, readers = []\<rparr>"

definition rdlock :: "thread_id \<Rightarrow> RWMutex \<Rightarrow> RWMutex option" where
  "rdlock t m = (if writer m = None then Some (m\<lparr>readers := t # readers m\<rparr>) else None)"

definition wrlock :: "thread_id \<Rightarrow> RWMutex \<Rightarrow> RWMutex option" where
  "wrlock t m = (if writer m = None \<and> readers m = [] then Some (m\<lparr>writer := Some t\<rparr>) else None)"

definition RWMutex_unlock :: "thread_id \<Rightarrow> RWMutex \<Rightarrow> RWMutex res" where
  "RWMutex_unlock t m =
     (if writer m = Some t then Inr (m\<lparr>writer := None\<rparr>)
      else if t \<in> set (readers m) then Inr (m\<lparr>readers := remove1 t (readers m)\<rparr>)
      else Inl Undefined)"

text \<open>\<^verbatim>\<open>NullMutex\<close> and \<^verbatim>\<open>NullRWMutex\<close>, for debugging, lock nothing.\<close>

definition NullMutex_lock :: "thread_id \<Rightarrow> unit \<Rightarrow> unit option" where
  "NullMutex_lock t m = Some m"

definition NullMutex_unlock :: "thread_id \<Rightarrow> unit \<Rightarrow> unit res" where
  "NullMutex_unlock t m = Inr m"

text \<open>The semaphore is its value; a value above \<^verbatim>\<open>SEM_VALUE_MAX\<close> makes \<^verbatim>\<open>sem_init\<close> and \<^verbatim>\<open>sem_post\<close> fail.\<close>

definition SEM_VALUE_MAX :: nat where
  "SEM_VALUE_MAX = 2 ^ 31 - 1"

definition Semaphore_ctor :: "nat \<Rightarrow> nat res" where
  "Semaphore_ctor count = (if count \<le> SEM_VALUE_MAX then Inr count else Inl LogicError)"

definition Semaphore_wait :: "nat \<Rightarrow> nat option" where
  "Semaphore_wait s = (if s > 0 then Some (s - 1) else None)"

definition Semaphore_notify :: "nat \<Rightarrow> nat res" where
  "Semaphore_notify s = (if s < SEM_VALUE_MAX then Inr (s + 1) else Inl LogicError)"

section \<open>Scoped guards\<close>

text \<open>
  \<^verbatim>\<open>ScopedLockImpl\<close>, \<^verbatim>\<open>ReadScopedLockImpl\<close> and \<^verbatim>\<open>WriteScopedLockImpl\<close> differ in the lock operation they
  call only, so it is a parameter. The guard's own state is the flag \<^verbatim>\<open>m_locked\<close>.
\<close>

definition guard_ctor :: "(thread_id \<Rightarrow> 's \<Rightarrow> 's option) \<Rightarrow> thread_id \<Rightarrow> 's \<Rightarrow> ('s \<times> bool) option" where
  "guard_ctor acquire t s = map_option (\<lambda>s'. (s', True)) (acquire t s)"

fun guard_lock :: "(thread_id \<Rightarrow> 's \<Rightarrow> 's option) \<Rightarrow> thread_id \<Rightarrow> 's \<times> bool \<Rightarrow> ('s \<times> bool) option" where
  "guard_lock acquire t (s, m_locked) =
     (if \<not> m_locked then map_option (\<lambda>s'. (s', True)) (acquire t s) else Some (s, m_locked))"

fun guard_unlock :: "(thread_id \<Rightarrow> 's \<Rightarrow> 's res) \<Rightarrow> thread_id \<Rightarrow> 's \<times> bool \<Rightarrow> ('s \<times> bool) res" where
  "guard_unlock release t (s, m_locked) =
     (if m_locked then res_bind (release t s) (\<lambda>s'. Inr (s', False)) else Inr (s, m_locked))"

definition guard_dtor :: "(thread_id \<Rightarrow> 's \<Rightarrow> 's res) \<Rightarrow> thread_id \<Rightarrow> 's \<times> bool \<Rightarrow> 's res" where
  "guard_dtor release t g = res_bind (guard_unlock release t g) (\<lambda>(s, _). Inr s)"

text \<open>The guards of the read-write mutex.\<close>

definition ReadScopedLock_ctor :: "thread_id \<Rightarrow> RWMutex \<Rightarrow> (RWMutex \<times> bool) option" where
  "ReadScopedLock_ctor = guard_ctor rdlock"

definition ReadScopedLock_lock :: "thread_id \<Rightarrow> RWMutex \<times> bool \<Rightarrow> (RWMutex \<times> bool) option" where
  "ReadScopedLock_lock = guard_lock rdlock"

definition ReadScopedLock_unlock :: "thread_id \<Rightarrow> RWMutex \<times> bool \<Rightarrow> (RWMutex \<times> bool) res" where
  "ReadScopedLock_unlock = guard_unlock RWMutex_unlock"

definition ReadScopedLock_dtor :: "thread_id \<Rightarrow> RWMutex \<times> bool \<Rightarrow> RWMutex res" where
  "ReadScopedLock_dtor = guard_dtor RWMutex_unlock"

definition WriteScopedLock_ctor :: "thread_id \<Rightarrow> RWMutex \<Rightarrow> (RWMutex \<times> bool) option" where
  "WriteScopedLock_ctor = guard_ctor wrlock"

definition WriteScopedLock_lock :: "thread_id \<Rightarrow> RWMutex \<times> bool \<Rightarrow> (RWMutex \<times> bool) option" where
  "WriteScopedLock_lock = guard_lock wrlock"

definition WriteScopedLock_unlock :: "thread_id \<Rightarrow> RWMutex \<times> bool \<Rightarrow> (RWMutex \<times> bool) res" where
  "WriteScopedLock_unlock = guard_unlock RWMutex_unlock"

definition WriteScopedLock_dtor :: "thread_id \<Rightarrow> RWMutex \<times> bool \<Rightarrow> RWMutex res" where
  "WriteScopedLock_dtor = guard_dtor RWMutex_unlock"

text \<open>
  The life of a guard of thread \<open>t\<close> among other threads: they take the lock directly, by any of the operations \<open>acquires\<close> it has,
  and release it at any time; \<open>t\<close> acts through the guard.
\<close>

inductive guard_run ::
  "(thread_id \<Rightarrow> 's \<Rightarrow> 's option) \<Rightarrow> (thread_id \<Rightarrow> 's \<Rightarrow> 's option) set \<Rightarrow> (thread_id \<Rightarrow> 's \<Rightarrow> 's res) \<Rightarrow> (thread_id \<Rightarrow> 's \<Rightarrow> nat) \<Rightarrow>
    thread_id \<Rightarrow> 's \<Rightarrow> 's \<times> bool \<Rightarrow> bool"
  for acquire acquires release holds t s0 where
  created: "guard_ctor acquire t s0 = Some g \<Longrightarrow> guard_run acquire acquires release holds t s0 g"
| locks: "guard_run acquire acquires release holds t s0 g \<Longrightarrow> guard_lock acquire t g = Some g' \<Longrightarrow>
     guard_run acquire acquires release holds t s0 g'"
| unlocks: "guard_run acquire acquires release holds t s0 g \<Longrightarrow> guard_unlock release t g = Inr g' \<Longrightarrow>
     guard_run acquire acquires release holds t s0 g'"
| other_acquires: "guard_run acquire acquires release holds t s0 (s, l) \<Longrightarrow> u \<noteq> t \<Longrightarrow> acq \<in> acquires \<Longrightarrow> acq u s = Some s' \<Longrightarrow>
     guard_run acquire acquires release holds t s0 (s', l)"
| other_releases: "guard_run acquire acquires release holds t s0 (s, l) \<Longrightarrow> u \<noteq> t \<Longrightarrow> holds u s > 0 \<Longrightarrow> release u s = Inr s' \<Longrightarrow>
     guard_run acquire acquires release holds t s0 (s', l)"

section \<open>The contract of a lock\<close>

text \<open>\<open>holds t s\<close> is how often thread \<open>t\<close> holds the lock in state \<open>s\<close>.\<close>

locale lockable =
  fixes acquire :: "thread_id \<Rightarrow> 's \<Rightarrow> 's option"
    and acquires :: "(thread_id \<Rightarrow> 's \<Rightarrow> 's option) set"
    and release :: "thread_id \<Rightarrow> 's \<Rightarrow> 's res"
    and holds :: "thread_id \<Rightarrow> 's \<Rightarrow> nat"
  assumes acquire_mem: "acquire \<in> acquires"
    and acquires_holds: "acq \<in> acquires \<Longrightarrow> acq t s = Some s' \<Longrightarrow> holds u s' = (if u = t then holds u s + 1 else holds u s)"
    and release_holds: "holds t s > 0 \<Longrightarrow>
      \<exists>s'. release t s = Inr s' \<and> (\<forall>u. holds u s' = (if u = t then holds u s - 1 else holds u s))"
begin

lemmas acquire_holds = acquires_holds[OF acquire_mem]

lemma guard_counts:
  "guard_run acquire acquires release holds t s0 g \<Longrightarrow> holds t (fst g) = holds t s0 + (if snd g then 1 else 0)"
proof (induction rule: guard_run.induct)
  case (created g)
  then show ?case using acquire_holds by (auto simp: guard_ctor_def)
next
  case (locks g g')
  obtain s l where "g = (s, l)" by (cases g)
  with locks show ?case using acquire_holds by (auto split: if_splits)
next
  case (unlocks g g')
  obtain s l where g: "g = (s, l)" by (cases g)
  show ?case
  proof (cases l)
    case True
    with unlocks(3) g have "holds t s > 0" by simp
    from release_holds[OF this] True unlocks g show ?thesis by auto
  qed (use unlocks g in auto)
next
  case (other_acquires s l u acq s')
  then show ?case using acquires_holds[of acq u s s' t] by simp
next
  case (other_releases s l u s')
  then show ?case using release_holds[of u s] by auto
qed

lemma guard_balanced:
  assumes "guard_run acquire acquires release holds t s0 (s, l)"
  shows "\<exists>s'. guard_dtor release t (s, l) = Inr s' \<and> holds t s' = holds t s0 \<and> (\<forall>u. u \<noteq> t \<longrightarrow> holds u s' = holds u s)"
proof -
  note c = guard_counts[OF assms]
  show ?thesis
  proof (cases l)
    case True
    with c have "holds t s > 0" by simp
    from release_holds[OF this] True c show ?thesis by (auto simp: guard_dtor_def)
  qed (use c in \<open>auto simp: guard_dtor_def\<close>)
qed

end

text \<open>Threads that take and release a lock, and mutual exclusion for a lock nobody shares.\<close>

inductive lock_run ::
  "(thread_id \<Rightarrow> 's \<Rightarrow> 's option) \<Rightarrow> (thread_id \<Rightarrow> 's \<Rightarrow> 's res) \<Rightarrow> (thread_id \<Rightarrow> 's \<Rightarrow> nat) \<Rightarrow> 's \<Rightarrow> 's \<Rightarrow> bool"
  for acquire release holds s0 where
  start: "lock_run acquire release holds s0 s0"
| taken: "lock_run acquire release holds s0 s \<Longrightarrow> acquire t s = Some s' \<Longrightarrow> lock_run acquire release holds s0 s'"
| released: "lock_run acquire release holds s0 s \<Longrightarrow> holds t s > 0 \<Longrightarrow> release t s = Inr s' \<Longrightarrow> lock_run acquire release holds s0 s'"

locale exclusive_lock = lockable +
  assumes acquire_alone: "acquire t s = Some s' \<Longrightarrow> holds u s = 0"
begin

lemma at_most_one_holder:
  "lock_run acquire release holds s0 s \<Longrightarrow> (\<And>u. holds u s0 = 0) \<Longrightarrow> holds t s > 0 \<Longrightarrow> holds u s > 0 \<Longrightarrow> t = u \<and> holds t s = 1"
proof (induction arbitrary: t u rule: lock_run.induct)
  case (taken s v s')
  then show ?case using acquire_holds[of v s s'] acquire_alone[of v s s'] by (auto split: if_splits)
next
  case (released s v s')
  from release_holds[OF released(2)] released(3) have h: "holds w s' = (if w = v then holds w s - 1 else holds w s)" for w by auto
  have "holds t s > 0" "holds u s > 0" using released(6,7) h by (auto split: if_splits)
  then have "t = u \<and> holds t s = 1" using released(4)[OF released(5)] by blast
  moreover have "t = v" if "holds t s > 0" for t using released(4)[OF released(5) that released(2)] by blast
  ultimately show ?case using h[of t] h[of u] released(6,7) by (auto split: if_splits)
qed simp

end

definition Mutex_holds :: "thread_id \<Rightarrow> Mutex \<Rightarrow> nat" where
  "Mutex_holds t m = (if m = Some t then 1 else 0)"

fun Spinlock_holds :: "thread_id \<Rightarrow> Spinlock \<Rightarrow> nat" where
  "Spinlock_holds t (Spinlock m) = (if m = Some t then 1 else 0)"

definition CASLock_holds :: "thread_id \<Rightarrow> CASLock \<Rightarrow> nat" where
  "CASLock_holds t m = (if flag_set m \<and> taker m = t then 1 else 0)"

definition RWMutex_holds :: "thread_id \<Rightarrow> RWMutex \<Rightarrow> nat" where
  "RWMutex_holds t m = (if writer m = Some t then 1 else 0) + count_list (readers m) t"

lemma count_list_remove1: "count_list (remove1 x xs) y = (if x = y then count_list xs y - 1 else count_list xs y)"
  by (induction xs) (auto simp: count_list_0_iff)

lemma RWMutex_release:
  "RWMutex_holds t s > 0 \<Longrightarrow> \<exists>s'. RWMutex_unlock t s = Inr s' \<and>
     (\<forall>u. RWMutex_holds u s' = (if u = t then RWMutex_holds u s - 1 else RWMutex_holds u s))"
  using count_list_0_iff[of "readers s" t] by (auto simp: RWMutex_holds_def RWMutex_unlock_def count_list_remove1 split: if_splits)

interpretation mutex: exclusive_lock Mutex_lock "{Mutex_lock}" Mutex_unlock Mutex_holds
  by unfold_locales (auto simp: Mutex_lock_def Mutex_unlock_def Mutex_holds_def split: if_splits)

interpretation spinlock: exclusive_lock Spinlock_lock "{Spinlock_lock}" Spinlock_unlock Spinlock_holds
proof
  show "acq \<in> {Spinlock_lock} \<Longrightarrow> acq t s = Some s' \<Longrightarrow> Spinlock_holds u s' = (if u = t then Spinlock_holds u s + 1 else Spinlock_holds u s)" for acq t s s' u
    by (cases s) (auto split: if_splits)
  show "0 < Spinlock_holds t s \<Longrightarrow> \<exists>s'. Spinlock_unlock t s = Inr s' \<and>
      (\<forall>u. Spinlock_holds u s' = (if u = t then Spinlock_holds u s - 1 else Spinlock_holds u s))" for t s
    by (cases s) (auto split: if_splits)
  show "Spinlock_lock t s = Some s' \<Longrightarrow> Spinlock_holds u s = 0" for t s s' u
    by (cases s) (auto split: if_splits)
qed simp

interpretation caslock: exclusive_lock CASLock_lock "{CASLock_lock}" CASLock_unlock CASLock_holds
  by unfold_locales (auto simp: CASLock_lock_def CASLock_unlock_def CASLock_holds_def test_and_set_def split: if_splits)

text \<open>Both ways to take the read-write mutex are open to the other threads.\<close>

definition rw_acquires :: "(thread_id \<Rightarrow> RWMutex \<Rightarrow> RWMutex option) set" where
  "rw_acquires = {rdlock, wrlock}"

lemma rw_acquires_holds:
  "acq \<in> rw_acquires \<Longrightarrow> acq t s = Some s' \<Longrightarrow> RWMutex_holds u s' = (if u = t then RWMutex_holds u s + 1 else RWMutex_holds u s)"
  by (auto simp: rw_acquires_def rdlock_def wrlock_def RWMutex_holds_def split: if_splits)

interpretation read_lock: lockable rdlock rw_acquires RWMutex_unlock RWMutex_holds
  by unfold_locales (simp add: rw_acquires_def, rule rw_acquires_holds, assumption+, rule RWMutex_release)

interpretation write_lock: exclusive_lock wrlock rw_acquires RWMutex_unlock RWMutex_holds
proof
  show "wrlock t s = Some s' \<Longrightarrow> RWMutex_holds u s = 0" for t s s' u
    by (auto simp: wrlock_def RWMutex_holds_def split: if_splits)
qed (simp add: rw_acquires_def, rule rw_acquires_holds, assumption+, rule RWMutex_release)

section \<open>Readers and writers\<close>

text \<open>The three operations together, as threads use one read-write mutex.\<close>

inductive rw_run :: "RWMutex \<Rightarrow> bool" where
  fresh: "rw_run RWMutex_ctor"
| reads: "rw_run m \<Longrightarrow> rdlock t m = Some m' \<Longrightarrow> rw_run m'"
| writes: "rw_run m \<Longrightarrow> wrlock t m = Some m' \<Longrightarrow> rw_run m'"
| unlocks: "rw_run m \<Longrightarrow> RWMutex_unlock t m = Inr m' \<Longrightarrow> rw_run m'"

lemma writer_excludes_readers: "rw_run m \<Longrightarrow> writer m \<noteq> None \<Longrightarrow> readers m = []"
  by (induction rule: rw_run.induct)
    (auto simp: RWMutex_ctor_def rdlock_def wrlock_def RWMutex_unlock_def split: if_splits)

lemma one_guard:
  assumes "acquire t s0 = Some s"
  shows "guard_run acquire acquires release holds t s0 (s, True)"
  by (rule guard_run.created) (simp add: guard_ctor_def assms)

text \<open>A run of a guard continues a run of the mutex.\<close>

lemma guard_rw_run:
  assumes "guard_run acquire rw_acquires RWMutex_unlock RWMutex_holds t s0 g" "acquire \<in> rw_acquires" "rw_run s0"
  shows "rw_run (fst g)"
proof -
  have acq: "rw_run s'" if "rw_run s" "acq \<in> rw_acquires" "acq u s = Some s'" for acq u s s'
    using that rw_run.reads[of s u s'] rw_run.writes[of s u s'] by (auto simp: rw_acquires_def)
  show ?thesis using assms(1)
  proof (induction rule: guard_run.induct)
    case (created g)
    then show ?case using acq[OF assms(3,2)] by (auto simp: guard_ctor_def)
  next
    case (locks g g')
    then show ?case using acq[OF _ assms(2)] by (cases g) (auto split: if_splits)
  next
    case (unlocks g g')
    obtain s l where g: "g = (s, l)" by (cases g)
    show ?case
    proof (cases l)
      case True
      with unlocks(2) g obtain s' where "RWMutex_unlock t s = Inr s'" "g' = (s', False)" by (auto simp: res_bind_Inr_iff)
      with rw_run.unlocks[of s t s'] unlocks(3) g show ?thesis by simp
    qed (use unlocks g in auto)
  next
    case (other_acquires s l u acq s')
    then show ?case using acq by auto
  next
    case (other_releases s l u s')
    then show ?case using rw_run.unlocks[of s u s'] by simp
  qed
qed

text \<open>While the guard is locked its thread is the writer, or among the readers, whatever the other threads do.\<close>

lemma write_guard_writer:
  "guard_run wrlock rw_acquires RWMutex_unlock RWMutex_holds t s0 g \<Longrightarrow> snd g \<Longrightarrow> writer (fst g) = Some t"
proof (induction rule: guard_run.induct)
  case (created g)
  then show ?case by (auto simp: guard_ctor_def wrlock_def split: if_splits)
next
  case (locks g g')
  then show ?case by (cases g) (auto simp: wrlock_def split: if_splits)
next
  case (unlocks g g')
  then show ?case by (cases g) (auto simp: res_bind_Inr_iff split: if_splits)
next
  case (other_acquires s l u acq s')
  then show ?case by (auto simp: rw_acquires_def rdlock_def wrlock_def)
next
  case (other_releases s l u s')
  then show ?case by (auto simp: RWMutex_unlock_def split: if_splits)
qed

lemma read_guard_reader:
  "guard_run rdlock rw_acquires RWMutex_unlock RWMutex_holds t s0 g \<Longrightarrow> snd g \<Longrightarrow> t \<in> set (readers (fst g))"
proof (induction rule: guard_run.induct)
  case (created g)
  then show ?case by (auto simp: guard_ctor_def rdlock_def split: if_splits)
next
  case (locks g g')
  then show ?case by (cases g) (auto simp: rdlock_def split: if_splits)
next
  case (unlocks g g')
  then show ?case by (cases g) (auto simp: res_bind_Inr_iff split: if_splits)
next
  case (other_acquires s l u acq s')
  then show ?case by (auto simp: rw_acquires_def rdlock_def wrlock_def split: if_splits)
next
  case (other_releases s l u s')
  then show ?case by (auto simp: RWMutex_unlock_def split: if_splits)
qed

text \<open>A block under a read guard, or under a write guard that is unlocked early as in \<^verbatim>\<open>FdManager::get\<close>, leaves the mutex as it was held before.\<close>

lemma read_block:
  assumes "ReadScopedLock_ctor t m = Some g"
  shows "\<exists>m'. ReadScopedLock_dtor t g = Inr m' \<and> (\<forall>u. RWMutex_holds u m' = RWMutex_holds u m)"
proof -
  obtain s where g: "g = (s, True)" "rdlock t m = Some s" using assms by (auto simp: ReadScopedLock_ctor_def guard_ctor_def)
  from read_lock.guard_balanced[OF one_guard[of rdlock t m s, OF g(2)]] g read_lock.acquire_holds[OF g(2)] show ?thesis
    by (auto simp: ReadScopedLock_dtor_def) metis
qed

lemma write_block:
  assumes "WriteScopedLock_ctor t m = Some g" "WriteScopedLock_unlock t g = Inr g'"
  shows "WriteScopedLock_dtor t g' = Inr (fst g') \<and> RWMutex_holds t (fst g') = RWMutex_holds t m"
proof -
  obtain s where g: "g = (s, True)" "wrlock t m = Some s" using assms(1) by (auto simp: WriteScopedLock_ctor_def guard_ctor_def)
  have u: "guard_unlock RWMutex_unlock t g = Inr g'" using assms(2) by (simp add: WriteScopedLock_unlock_def)
  have "guard_run wrlock rw_acquires RWMutex_unlock RWMutex_holds t m g'" using guard_run.unlocks[OF one_guard[of wrlock t m s, OF g(2)]] u g(1) by blast
  moreover have "snd g' = False" using u g(1) by (auto simp: res_bind_Inr_iff)
  ultimately show ?thesis using write_lock.guard_counts[of t m g'] by (cases g') (simp add: WriteScopedLock_dtor_def guard_dtor_def)
qed

text \<open>C22: A scoped guard gives back exactly what it took, for the mutex and for both guards of the
  read-write mutex: however the guard is locked and unlocked in between, and whatever other threads
  do, which may take the read-write mutex for reading and for writing, its destructor never performs an undefined unlock, and
  leaves its thread holding the lock as often as before the guard was created. While a guard holds the mutex, its thread owns it;
  while a write guard is locked its thread is the writer and there is no reader; while a read guard is locked there is no writer.\<close>

theorem scoped_guards_balanced:
  assumes "guard_run Mutex_lock {Mutex_lock} Mutex_unlock Mutex_holds t Mutex_ctor (m, l)"
    and "rw_run r0" "guard_run rdlock rw_acquires RWMutex_unlock RWMutex_holds t r0 (r, lr)"
    and "rw_run w0" "guard_run wrlock rw_acquires RWMutex_unlock RWMutex_holds t w0 (w, lw)"
  shows "(\<exists>m'. guard_dtor Mutex_unlock t (m, l) = Inr m' \<and> Mutex_holds t m' = 0) \<and>
     (\<exists>r'. guard_dtor RWMutex_unlock t (r, lr) = Inr r' \<and> RWMutex_holds t r' = RWMutex_holds t r0) \<and>
     (\<exists>w'. guard_dtor RWMutex_unlock t (w, lw) = Inr w' \<and> RWMutex_holds t w' = RWMutex_holds t w0) \<and>
     (l \<longrightarrow> m = Some t) \<and> (lw \<longrightarrow> writer w = Some t \<and> readers w = []) \<and> (lr \<longrightarrow> t \<in> set (readers r) \<and> writer r = None)"
proof -
  have "l \<longrightarrow> m = Some t" using mutex.guard_counts[OF assms(1)] by (auto simp: Mutex_holds_def split: if_splits)
  moreover have "lw \<longrightarrow> writer w = Some t \<and> readers w = []"
    using write_guard_writer[OF assms(5)] guard_rw_run[OF assms(5) _ assms(4)] writer_excludes_readers[of w] by (auto simp: rw_acquires_def)
  moreover have "lr \<longrightarrow> t \<in> set (readers r) \<and> writer r = None"
    using read_guard_reader[OF assms(3)] guard_rw_run[OF assms(3) _ assms(2)] writer_excludes_readers[of r]
    by (cases "writer r") (auto simp: rw_acquires_def)
  moreover have "Mutex_holds t Mutex_ctor = 0" by (simp add: Mutex_holds_def Mutex_ctor_def)
  ultimately show ?thesis
    using mutex.guard_balanced[OF assms(1)] read_lock.guard_balanced[OF assms(3)] write_lock.guard_balanced[OF assms(5)]
    by metis
qed

text \<open>Thread 2 reads too while the guard of thread 1 reads; the write guard of thread 1 was unlocked in between for a reader and locked again.\<close>

theorem scoped_guards_balanced_witness:
  "(\<exists>m'. guard_dtor Mutex_unlock 1 (Some 1, True) = Inr m' \<and> Mutex_holds 1 m' = 0) \<and>
   (\<exists>r'. guard_dtor RWMutex_unlock 1 (\<lparr>writer = None, readers = [2, 1]\<rparr>, True) = Inr r' \<and> RWMutex_holds 1 r' = 0) \<and>
   (\<exists>w'. guard_dtor RWMutex_unlock 1 (\<lparr>writer = Some 1, readers = []\<rparr>, True) = Inr w' \<and> RWMutex_holds 1 w' = 0)"
proof -
  let ?run = "\<lambda>acq. guard_run acq rw_acquires RWMutex_unlock RWMutex_holds 1 RWMutex_ctor"
  have rw: "rdlock \<in> rw_acquires" by (simp add: rw_acquires_def)
  have m: "guard_run Mutex_lock {Mutex_lock} Mutex_unlock Mutex_holds 1 Mutex_ctor (Some 1, True)"
    by (rule one_guard) (simp add: Mutex_lock_def Mutex_ctor_def)
  have "?run rdlock (\<lparr>writer = None, readers = [1]\<rparr>, True)" by (rule one_guard) (simp add: rdlock_def RWMutex_ctor_def)
  then have r: "?run rdlock (\<lparr>writer = None, readers = [2, 1]\<rparr>, True)"
    by (rule guard_run.other_acquires[OF _ _ rw, of _ _ _ _ _ _ _ 2]) (simp_all add: rdlock_def)
  have "?run wrlock (\<lparr>writer = Some 1, readers = []\<rparr>, True)" by (rule one_guard) (simp add: wrlock_def RWMutex_ctor_def)
  then have "?run wrlock (\<lparr>writer = None, readers = []\<rparr>, False)" by (rule guard_run.unlocks) (simp add: RWMutex_unlock_def)
  then have "?run wrlock (\<lparr>writer = None, readers = [2]\<rparr>, False)"
    by (rule guard_run.other_acquires[OF _ _ rw, of _ _ _ _ _ _ _ 2]) (simp_all add: rdlock_def)
  then have "?run wrlock (\<lparr>writer = None, readers = []\<rparr>, False)"
    by (rule guard_run.other_releases[of _ _ _ _ _ _ _ _ 2]) (simp_all add: RWMutex_unlock_def RWMutex_holds_def)
  then have "?run wrlock (\<lparr>writer = Some 1, readers = []\<rparr>, True)" by (rule guard_run.locks) (simp add: wrlock_def)
  from scoped_guards_balanced[OF m rw_run.fresh r rw_run.fresh this] show ?thesis by (simp add: RWMutex_holds_def RWMutex_ctor_def)
qed

end
