(* ===== verification/TW_IOManager.thy ===== *)
theory TW_IOManager
  imports TW_Scheduler TW_Timer TW_Mutex
begin

text \<open>
  \<^verbatim>\<open>src/coroutine/iomanager.cpp\<close>: the scheduler with IO events and timers. The manager is composed of the
  models of its two base classes, a table of descriptor contexts and the count of pending events.
  The kernel's interest list is part of the state; \<^verbatim>\<open>epoll_ctl\<close> is a parameter with its documented
  behaviour as a hypothesis (\<open>epoll_ok\<close>). The part of an operation after the lookup runs with the context's mutex held: it starts
  when the mutex is free and the guard's unlocking is part of it. \<^verbatim>\<open>m_tickleFds\<close> is the number of bytes in the pipe.
\<close>

unbundle bit_operations_syntax

section \<open>Data\<close>

type_synonym event_set = "32 word"

abbreviation NONE :: event_set where "NONE \<equiv> 0"
abbreviation READ :: event_set where "READ \<equiv> 1"
abbreviation WRITE :: event_set where "WRITE \<equiv> 4"
abbreviation EPOLLIN :: event_set where "EPOLLIN \<equiv> 1"
abbreviation EPOLLOUT :: event_set where "EPOLLOUT \<equiv> 4"
abbreviation EPOLLERR :: event_set where "EPOLLERR \<equiv> 8"
abbreviation EPOLLHUP :: event_set where "EPOLLHUP \<equiv> 16"
abbreviation EPOLLET :: event_set where "EPOLLET \<equiv> 0x80000000"

datatype epoll_op = EPOLL_CTL_ADD | EPOLL_CTL_MOD | EPOLL_CTL_DEL

type_synonym interest = "int \<rightharpoonup> event_set"
type_synonym epoll_ctl = "epoll_op \<Rightarrow> int \<Rightarrow> event_set \<Rightarrow> interest \<Rightarrow> int \<times> interest"

text \<open>\<^verbatim>\<open>ec_scheduler\<close> is whether the pointer is set; the only scheduler here is the manager itself.\<close>

record 'f EventContext =
  ec_scheduler :: bool
  ec_fiber :: "fiber_ptr option"
  ec_cb :: "'f std_function option"

record 'f FdContext =
  read_ctx :: "'f EventContext"
  write_ctx :: "'f EventContext"
  fd :: int
  events :: event_set

record 'f IOManager =
  iom_sched :: "'f std_function Scheduler"
  iom_timers :: "'f TimerManager"
  m_epfd :: interest
  m_tickleFds :: nat
  m_pendingEventCount :: nat
  m_fdContexts :: "'f FdContext list"

definition empty_ctx :: "'f EventContext" where
  "empty_ctx = \<lparr>ec_scheduler = False, ec_fiber = None, ec_cb = None\<rparr>"

section \<open>Descriptor contexts\<close>

definition getEventContext :: "event_set \<Rightarrow> 'f FdContext \<Rightarrow> 'f EventContext res" where
  "getEventContext event c =
     (if event = READ then Inr (read_ctx c) else if event = WRITE then Inr (write_ctx c) else Inl AssertFailed)"

definition putEventContext :: "event_set \<Rightarrow> 'f EventContext \<Rightarrow> 'f FdContext \<Rightarrow> 'f FdContext" where
  "putEventContext event ctx c = (if event = READ then c\<lparr>read_ctx := ctx\<rparr> else c\<lparr>write_ctx := ctx\<rparr>)"

definition resetEventContext :: "event_set \<Rightarrow> 'f FdContext \<Rightarrow> 'f FdContext" where
  "resetEventContext event c = putEventContext event empty_ctx c"

section \<open>The manager\<close>

definition tickle :: "'f IOManager \<Rightarrow> 'f IOManager" where
  "tickle m = (if \<not> hasIdleThreads (iom_sched m) then m else m\<lparr>m_tickleFds := m_tickleFds m + 1\<rparr>)"

text \<open>\<^verbatim>\<open>schedule\<close> of the base class with the overridden \<^verbatim>\<open>tickle\<close>.\<close>

definition iom_schedule :: "'f std_function ScheduleTask \<Rightarrow> 'f IOManager \<Rightarrow> 'f IOManager" where
  "iom_schedule k m =
     (case schedule k (iom_sched m) of (need_tickle, s) \<Rightarrow>
        let m1 = m\<lparr>iom_sched := s\<rparr> in if need_tickle then tickle m1 else m1)"

definition event_task :: "'f EventContext \<Rightarrow> 'f std_function ScheduleTask" where
  "event_task ctx = (if ec_cb ctx \<noteq> None then cb_task (ec_cb ctx) (- 1) else fiber_task (ec_fiber ctx) (- 1))"

definition triggerEvent :: "event_set \<Rightarrow> 'f FdContext \<Rightarrow> 'f IOManager \<Rightarrow> ('f FdContext \<times> 'f IOManager) res" where
  "triggerEvent event c m =
     res_bind (cxx_assert (events c AND event \<noteq> 0)) (\<lambda>_.
       let c1 = c\<lparr>events := events c AND NOT event\<rparr> in
       res_bind (getEventContext event c1) (\<lambda>ctx.
         if \<not> ec_scheduler ctx then Inl Undefined
         else Inr (resetEventContext event c1, iom_schedule (event_task ctx) m)))"

definition new_context :: "nat \<Rightarrow> 'f FdContext" where
  "new_context i = \<lparr>read_ctx = empty_ctx, write_ctx = empty_ctx, fd = int i, events = NONE\<rparr>"

definition contextResize :: "nat \<Rightarrow> 'f IOManager \<Rightarrow> 'f IOManager" where
  "contextResize n m =
     m\<lparr>m_fdContexts := take n (m_fdContexts m) @ map new_context [length (m_fdContexts m)..<n]\<rparr>"

definition set_context :: "nat \<Rightarrow> 'f FdContext \<Rightarrow> 'f IOManager \<Rightarrow> 'f IOManager" where
  "set_context i c m = m\<lparr>m_fdContexts := (m_fdContexts m)[i := c]\<rparr>"

text \<open>
  Leaving an operation whose guard \<^verbatim>\<open>lock2\<close> holds the context's mutex for thread \<open>tid\<close>: normally, and after
  the mutex itself was unlocked behind the guard's back.
\<close>

definition leave :: "thread_id \<Rightarrow> 'a \<Rightarrow> 'a res" where
  "leave tid r = res_bind (guard_dtor Mutex_unlock tid (Some tid, True)) (\<lambda>_. Inr r)"

definition unlock_and_leave :: "thread_id \<Rightarrow> 'a \<Rightarrow> 'a res" where
  "unlock_and_leave tid r =
     res_bind (Mutex_unlock tid (Some tid)) (\<lambda>m.
       res_bind (guard_dtor Mutex_unlock tid (m, True)) (\<lambda>_. Inr r))"

text \<open>The descriptor table grows by half; \<^verbatim>\<open>fd * 1.5\<close> is computed as a double and cut off.\<close>

definition grow_for :: "int \<Rightarrow> 'f IOManager \<Rightarrow> 'f IOManager" where
  "grow_for d m = (if int (length (m_fdContexts m)) > d then m else contextResize (nat (d * 3 div 2)) m)"

text \<open>
  \<open>here\<close> is whether the calling thread has a scheduler, \<open>cur\<close> the calling fiber and its state (used when no
  callback is given).
\<close>

definition arm_context ::
  "bool \<Rightarrow> fiber_ptr \<times> State \<Rightarrow> 'f std_function option \<Rightarrow> 'f EventContext res" where
  "arm_context here cur fn =
     (if fn \<noteq> None then Inr \<lparr>ec_scheduler = here, ec_fiber = None, ec_cb = fn\<rparr>
      else res_bind (cxx_assert (snd cur = RUNNING)) (\<lambda>_.
        Inr \<lparr>ec_scheduler = here, ec_fiber = Some (fst cur), ec_cb = None\<rparr>))"

text \<open>
  The part of \<^verbatim>\<open>addEvent\<close> under the context's mutex, and the whole: the table is read under the read lock,
  which is released before the write lock for growing it is taken.
\<close>

definition register_event ::
  "epoll_ctl \<Rightarrow> thread_id \<Rightarrow> bool \<Rightarrow> fiber_ptr \<times> State \<Rightarrow> int \<Rightarrow> event_set \<Rightarrow> 'f std_function option \<Rightarrow>
    'f IOManager \<Rightarrow> (int \<times> 'f IOManager) res" where
  "register_event ctl tid here cur d event fn m =
     (if d < 0 \<or> int (length (m_fdContexts m)) \<le> d then Inl OutOfBounds
      else let c = m_fdContexts m ! nat d in
        res_bind (cxx_assert (events c AND event = 0)) (\<lambda>_.
          let op = (if events c \<noteq> 0 then EPOLL_CTL_MOD else EPOLL_CTL_ADD) in
          case ctl op d (EPOLLET OR events c OR event) (m_epfd m) of (rt, tab) \<Rightarrow>
            if rt \<noteq> 0 then leave tid (- 1, m)
            else res_bind (getEventContext event c) (\<lambda>ctx.
              res_bind (cxx_assert (\<not> ec_scheduler ctx \<and> ec_fiber ctx = None \<and> ec_cb ctx = None)) (\<lambda>_.
                res_bind (arm_context here cur fn) (\<lambda>ctx'.
                  leave tid (0, set_context (nat d) (putEventContext event ctx' (c\<lparr>events := events c OR event\<rparr>))
                    (m\<lparr>m_epfd := tab, m_pendingEventCount := m_pendingEventCount m + 1\<rparr>)))))))"

definition addEvent ::
  "epoll_ctl \<Rightarrow> thread_id \<Rightarrow> bool \<Rightarrow> fiber_ptr \<times> State \<Rightarrow> int \<Rightarrow> event_set \<Rightarrow> 'f std_function option \<Rightarrow>
    'f IOManager \<Rightarrow> (int \<times> 'f IOManager) res" where
  "addEvent ctl tid here cur d event fn m = register_event ctl tid here cur d event fn (grow_for d m)"

text \<open>The common part of \<^verbatim>\<open>delEvent\<close> and \<^verbatim>\<open>cancelEvent\<close>: take the event out of the interest list.\<close>

definition unregister :: "epoll_ctl \<Rightarrow> event_set \<Rightarrow> 'f FdContext \<Rightarrow> int \<Rightarrow> interest \<Rightarrow> int \<times> interest" where
  "unregister ctl event c d tab =
     (let new_events = events c AND NOT event in
      ctl (if new_events \<noteq> 0 then EPOLL_CTL_MOD else EPOLL_CTL_DEL) d (EPOLLET OR new_events) tab)"

definition delEvent :: "epoll_ctl \<Rightarrow> thread_id \<Rightarrow> int \<Rightarrow> event_set \<Rightarrow> 'f IOManager \<Rightarrow> (bool \<times> 'f IOManager) res" where
  "delEvent ctl tid d event m =
     (if int (length (m_fdContexts m)) \<le> d then Inr (False, m)
      else if d < 0 then Inl OutOfBounds
      else let c = m_fdContexts m ! nat d in
        if events c AND event = 0 then unlock_and_leave tid (False, m)
        else case unregister ctl event c d (m_epfd m) of (rt, tab) \<Rightarrow>
          if rt \<noteq> 0 then leave tid (False, m)
          else res_bind (getEventContext event c) (\<lambda>_.
            leave tid (True, set_context (nat d) (resetEventContext event (c\<lparr>events := events c AND NOT event\<rparr>))
              (m\<lparr>m_epfd := tab, m_pendingEventCount := m_pendingEventCount m - 1\<rparr>))))"

definition cancelEvent :: "epoll_ctl \<Rightarrow> thread_id \<Rightarrow> int \<Rightarrow> event_set \<Rightarrow> 'f IOManager \<Rightarrow> (bool \<times> 'f IOManager) res" where
  "cancelEvent ctl tid d event m =
     (if int (length (m_fdContexts m)) \<le> d then Inr (False, m)
      else if d < 0 then Inl OutOfBounds
      else let c = m_fdContexts m ! nat d in
        if events c AND event = 0 then unlock_and_leave tid (False, m)
        else case unregister ctl event c d (m_epfd m) of (rt, tab) \<Rightarrow>
          if rt \<noteq> 0 then leave tid (False, m)
          else res_bind (triggerEvent event c (m\<lparr>m_epfd := tab\<rparr>)) (\<lambda>(c1, m1).
            leave tid (True, set_context (nat d) c1 (m1\<lparr>m_pendingEventCount := m_pendingEventCount m1 - 1\<rparr>))))"

text \<open>Trigger one event if it is in the set \<open>wanted\<close>, counting down the pending events.\<close>

definition trigger_if :: "event_set \<Rightarrow> event_set \<Rightarrow> 'f FdContext \<times> 'f IOManager \<Rightarrow> ('f FdContext \<times> 'f IOManager) res" where
  "trigger_if wanted event = (\<lambda>(c, m).
     if wanted AND event \<noteq> 0 then
       res_bind (triggerEvent event c m) (\<lambda>(c1, m1). Inr (c1, m1\<lparr>m_pendingEventCount := m_pendingEventCount m1 - 1\<rparr>))
     else Inr (c, m))"

definition cancelAll :: "epoll_ctl \<Rightarrow> thread_id \<Rightarrow> int \<Rightarrow> 'f IOManager \<Rightarrow> (bool \<times> 'f IOManager) res" where
  "cancelAll ctl tid d m =
     (if int (length (m_fdContexts m)) \<le> d then Inr (False, m)
      else if d < 0 then Inl OutOfBounds
      else let c = m_fdContexts m ! nat d in
        if events c = 0 then leave tid (False, m)
        else case ctl EPOLL_CTL_DEL d 0 (m_epfd m) of (rt, tab) \<Rightarrow>
          if rt \<noteq> 0 then unlock_and_leave tid (False, m)
          else res_bind (trigger_if (events c) READ (c, m\<lparr>m_epfd := tab\<rparr>)) (\<lambda>(c1, m1).
            res_bind (trigger_if (events c1) WRITE (c1, m1)) (\<lambda>(c2, m2).
              res_bind (cxx_assert (events c2 = 0)) (\<lambda>_. leave tid (True, set_context (nat d) c2 m2)))))"

section \<open>Stopping, timers, and the idle fiber\<close>

definition iom_stopping :: "'f IOManager \<Rightarrow> bool" where
  "iom_stopping m \<longleftrightarrow> m_pendingEventCount m = 0 \<and> stopping (iom_sched m)"

definition stopping_timeout :: "uint64 \<Rightarrow> 'f IOManager \<Rightarrow> bool \<times> uint64 \<times> 'f IOManager" where
  "stopping_timeout now m =
     (case getNextTimer now (iom_timers m) of (timeout, tm) \<Rightarrow>
        (timeout = - 1 \<and> m_pendingEventCount m = 0 \<and> stopping (iom_sched m), timeout, m\<lparr>iom_timers := tm\<rparr>))"

definition onTimerInsertedAtFront :: "'f IOManager \<Rightarrow> 'f IOManager" where
  "onTimerInsertedAtFront m = tickle m"

definition iom_addTimer ::
  "uint64 \<Rightarrow> addr \<Rightarrow> uint64 \<Rightarrow> 'f std_function option \<Rightarrow> bool \<Rightarrow> 'f IOManager \<Rightarrow> 'f IOManager" where
  "iom_addTimer now p ms fn recurring m =
     (case addTimer now p ms fn recurring (iom_timers m) of (front, tm) \<Rightarrow>
        let m1 = m\<lparr>iom_timers := tm\<rparr> in if front then onTimerInsertedAtFront m1 else m1)"

text \<open>\<^verbatim>\<open>O_NONBLOCK\<close> is 04000; the result is the old flags and the flags set.\<close>

definition setnonblocking :: "32 word \<Rightarrow> 32 word \<times> 32 word" where
  "setnonblocking old_option = (old_option, old_option OR 0x800)"

text \<open>
  One ready descriptor in \<^verbatim>\<open>idle\<close>: the reported events, either for the tickle pipe (\<^term>\<open>None\<close>) or for the
  context of a descriptor. Dangling contexts are out of bounds here.
\<close>

definition real_events_of :: "event_set \<Rightarrow> 'f FdContext \<Rightarrow> event_set" where
  "real_events_of ev c =
     (let ev1 = (if ev AND (EPOLLERR OR EPOLLHUP) \<noteq> 0 then ev OR ((EPOLLIN OR EPOLLOUT) AND events c) else ev)
      in (if ev1 AND EPOLLIN \<noteq> 0 then READ else 0) OR (if ev1 AND EPOLLOUT \<noteq> 0 then WRITE else 0))"

definition dispatch_event :: "epoll_ctl \<Rightarrow> nat option \<times> event_set \<Rightarrow> 'f IOManager \<Rightarrow> 'f IOManager res" where
  "dispatch_event ctl ev m =
     (case ev of
        (None, _) \<Rightarrow> Inr (m\<lparr>m_tickleFds := 0\<rparr>)
      | (Some i, reported) \<Rightarrow>
          if length (m_fdContexts m) \<le> i then Inl OutOfBounds
          else let c = m_fdContexts m ! i; real = real_events_of reported c in
            if events c AND real = 0 then Inr m
            else let left = events c AND NOT real in
              case ctl (if left \<noteq> 0 then EPOLL_CTL_MOD else EPOLL_CTL_DEL) (fd c) (EPOLLET OR left) (m_epfd m) of (rt2, tab) \<Rightarrow>
                if rt2 \<noteq> 0 then Inr m
                else res_bind (trigger_if real READ (c, m\<lparr>m_epfd := tab\<rparr>)) (\<lambda>(c1, m1).
                  res_bind (trigger_if real WRITE (c1, m1)) (\<lambda>(c2, m2). Inr (set_context i c2 m2))))"

primrec dispatch_events :: "epoll_ctl \<Rightarrow> (nat option \<times> event_set) list \<Rightarrow> 'f IOManager \<Rightarrow> 'f IOManager res" where
  "dispatch_events ctl [] m = Inr m"
| "dispatch_events ctl (e # es) m = res_bind (dispatch_event ctl e m) (dispatch_events ctl es)"

primrec schedule_all :: "'f std_function option list \<Rightarrow> 'f IOManager \<Rightarrow> 'f IOManager" where
  "schedule_all [] m = m"
| "schedule_all (fn # fns) m = schedule_all fns (iom_schedule (cb_task fn (- 1)) m)"

text \<open>
  The \<^verbatim>\<open>do\<close> loop around \<^verbatim>\<open>epoll_wait\<close> repeats interrupted calls (\<open>attempts\<close>: return value and whether
  \<^verbatim>\<open>errno\<close> is \<^verbatim>\<open>EINTR\<close>). It assigns to a variable \<^verbatim>\<open>rt\<close> of its own; the \<^verbatim>\<open>rt\<close> of the function, which is the
  result, keeps its initial value.
\<close>

fun epoll_loop :: "int \<Rightarrow> (int \<times> bool) list \<Rightarrow> int option" where
  "epoll_loop rt [] = None"
| "epoll_loop rt ((inner, eintr) # attempts) = (if inner < 0 \<and> eintr then epoll_loop rt attempts else Some rt)"

text \<open>
  One turn of \<^verbatim>\<open>idle\<close>: \<^term>\<open>None\<close> when it waits for ever, otherwise whether the loop ends. \<open>ready\<close> is what
  \<^verbatim>\<open>epoll_wait\<close> put into the array \<^verbatim>\<open>events\<close>.
\<close>

definition idle ::
  "epoll_ctl \<Rightarrow> (int \<times> bool) list \<Rightarrow> (nat option \<times> event_set) list \<Rightarrow> uint64 \<Rightarrow> addr \<Rightarrow> 'f IOManager \<Rightarrow> (bool \<times> 'f IOManager) res option" where
  "idle ctl attempts ready now q m =
     (if iom_stopping m then Some (Inr (True, m))
      else case epoll_loop 0 attempts of
        None \<Rightarrow> None
      | Some rt \<Rightarrow> Some (
          res_bind (listExpiredCb now q [] (iom_timers m)) (\<lambda>(cbs, tm).
            res_bind (dispatch_events ctl (take (nat rt) ready) (schedule_all cbs (m\<lparr>iom_timers := tm\<rparr>))) (\<lambda>m2.
              Inr (False, m2)))))"

text \<open>The constructor, given the results of \<^verbatim>\<open>epoll_create\<close>, \<^verbatim>\<open>pipe\<close>, \<^verbatim>\<open>fcntl\<close> and the read end of the pipe.\<close>

definition IOManager_ctor ::
  "epoll_ctl \<Rightarrow> int \<Rightarrow> int \<Rightarrow> int \<Rightarrow> int \<Rightarrow> int list \<Rightarrow> uint64 \<Rightarrow> 'f std_function Scheduler \<Rightarrow> 'f IOManager res" where
  "IOManager_ctor ctl epfd pipe_rt fcntl_rt read_end ids now base =
     res_bind (cxx_assert (epfd > 0)) (\<lambda>_.
       res_bind (cxx_assert (pipe_rt = 0)) (\<lambda>_.
         res_bind (cxx_assert (fcntl_rt = 0)) (\<lambda>_.
           case ctl EPOLL_CTL_ADD read_end (EPOLLIN OR EPOLLET) Map.empty of (rt, tab) \<Rightarrow>
             res_bind (cxx_assert (rt = 0)) (\<lambda>_.
               let m = contextResize 32 \<lparr>iom_sched = base, iom_timers = TimerManager_ctor now, m_epfd = tab,
                         m_tickleFds = 0, m_pendingEventCount = 0, m_fdContexts = []\<rparr> in
               res_bind (start ids base) (\<lambda>s. Inr (m\<lparr>iom_sched := s\<rparr>))))))"

text \<open>The destructor: \<^verbatim>\<open>stop\<close>, then the epoll instance, the pipe and the contexts go; the number is that of the wake-ups \<^verbatim>\<open>stop\<close> sends.\<close>

definition IOManager_dtor :: "bool \<Rightarrow> 'f IOManager \<Rightarrow> (nat \<times> 'f IOManager) res" where
  "IOManager_dtor current m =
     res_bind (stop current (iom_sched m)) (\<lambda>(tickles, _, s).
       Inr (tickles, m\<lparr>iom_sched := s, m_epfd := Map.empty, m_tickleFds := 0, m_fdContexts := []\<rparr>))"

section \<open>The invariant of the event table\<close>

definition ctx_ok :: "bool \<Rightarrow> 'f EventContext \<Rightarrow> bool" where
  "ctx_ok armed ctx \<longleftrightarrow>
     (if armed then ec_scheduler ctx \<and> (ec_fiber ctx = None \<longleftrightarrow> ec_cb ctx \<noteq> None) else ctx = empty_ctx)"

definition fd_ok :: "nat \<Rightarrow> 'f FdContext \<Rightarrow> bool" where
  "fd_ok i c \<longleftrightarrow> fd c = int i \<and> events c \<in> {0, 1, 4, 5} \<and>
     ctx_ok (events c AND READ \<noteq> 0) (read_ctx c) \<and> ctx_ok (events c AND WRITE \<noteq> 0) (write_ctx c)"

definition event_count :: "'f FdContext \<Rightarrow> nat" where
  "event_count c = (if events c AND READ \<noteq> 0 then 1 else 0) + (if events c AND WRITE \<noteq> 0 then 1 else 0)"

text \<open>What the kernel must watch for descriptor \<open>d\<close>.\<close>

definition wanted :: "'f FdContext list \<Rightarrow> interest" where
  "wanted cs d = (if 0 \<le> d \<and> d < int (length cs) \<and> events (cs ! nat d) \<noteq> 0 then Some (EPOLLET OR events (cs ! nat d)) else None)"

text \<open>
  \<open>r\<close> is the read end of the tickle pipe, which the manager watches itself, and \<open>L\<close> the descriptors that
  were closed while events were registered for them: the kernel then no longer watches them.
\<close>

definition iom_inv :: "int \<Rightarrow> int set \<Rightarrow> 'f IOManager \<Rightarrow> bool" where
  "iom_inv r L m \<longleftrightarrow> 32 \<le> length (m_fdContexts m) \<and> (\<forall>i < length (m_fdContexts m). fd_ok i (m_fdContexts m ! i)) \<and>
     m_pendingEventCount m = (\<Sum>c\<leftarrow>m_fdContexts m. event_count c) \<and>
     (\<forall>d. d \<noteq> r \<longrightarrow> m_epfd m d = wanted (m_fdContexts m) d \<or> d \<in> L \<and> m_epfd m d = None)"

text \<open>The documented behaviour of \<^verbatim>\<open>epoll_ctl\<close>: on success it changes one entry, on failure none.\<close>

definition epoll_effect :: "epoll_op \<Rightarrow> int \<Rightarrow> event_set \<Rightarrow> interest \<Rightarrow> interest" where
  "epoll_effect op d ev tab = (if op = EPOLL_CTL_DEL then tab(d := None) else tab(d \<mapsto> ev))"

definition epoll_ok :: "epoll_ctl \<Rightarrow> bool" where
  "epoll_ok ctl \<longleftrightarrow> (\<forall>op d ev tab rt tab'. ctl op d ev tab = (rt, tab') \<longrightarrow>
     tab' = (if rt = 0 then epoll_effect op d ev tab else tab))"

lemma epoll_okD: "epoll_ok ctl \<Longrightarrow> ctl op d ev tab = (0, tab') \<Longrightarrow> tab' = epoll_effect op d ev tab"
  unfolding epoll_ok_def by metis

lemma leave_simps [simp]: "leave tid r = Inr r" "unlock_and_leave tid r = Inl Undefined"
  by (simp_all add: leave_def unlock_and_leave_def guard_dtor_def Mutex_unlock_def)

lemma event_bits:
  assumes "ev \<in> {0, 1, 4, 5 :: event_set}" "event \<in> {READ, WRITE}"
  shows "ev OR event \<in> {0, 1, 4, 5}" "ev AND NOT event \<in> {0, 1, 4, 5}" "(ev OR event) AND event \<noteq> 0" "(ev AND NOT event) AND event = 0"
    "(ev OR event) \<noteq> 0" "other \<in> {READ, WRITE} \<Longrightarrow> other \<noteq> event \<Longrightarrow> (ev OR event) AND other = ev AND other"
    "other \<in> {READ, WRITE} \<Longrightarrow> other \<noteq> event \<Longrightarrow> (ev AND NOT event) AND other = ev AND other"
  using assms by auto

lemma event_zero: "ev \<in> {0, 1, 4, 5 :: event_set} \<Longrightarrow> ev = 0 \<longleftrightarrow> ev AND READ = 0 \<and> ev AND WRITE = 0"
  by auto

lemma arm_ok:
  assumes "fd_ok i c" "event \<in> {READ, WRITE}" "events c AND event = 0" "ctx_ok True ctx"
  shows "fd_ok i (putEventContext event ctx (c\<lparr>events := events c OR event\<rparr>))"
    "event_count (putEventContext event ctx (c\<lparr>events := events c OR event\<rparr>)) = event_count c + 1"
  using assms by (auto simp: fd_ok_def putEventContext_def event_count_def)

lemma disarm_ok:
  assumes "fd_ok i c" "event \<in> {READ, WRITE}" "events c AND event \<noteq> 0"
  shows "fd_ok i (resetEventContext event (c\<lparr>events := events c AND NOT event\<rparr>))"
    "event_count c = event_count (resetEventContext event (c\<lparr>events := events c AND NOT event\<rparr>)) + 1"
  using assms by (auto simp: fd_ok_def resetEventContext_def putEventContext_def event_count_def ctx_ok_def)

lemma sum_update: "i < length cs \<Longrightarrow> (\<Sum>c\<leftarrow>cs[i := c']. f c) + f (cs ! i) = (\<Sum>c\<leftarrow>cs. f c) + (f c' :: nat)"
proof (induction cs arbitrary: i)
  case (Cons a cs)
  then show ?case by (cases i) auto
qed simp

text \<open>Replacing one context keeps the invariant if the kernel's entry and the count follow it.\<close>

lemma set_context_inv:
  assumes inv: "iom_inv r L m" and i: "i < length (m_fdContexts m)" "int i \<noteq> r" and c: "fd_ok i c"
    and m': "m_fdContexts m' = (m_fdContexts m)[i := c]"
    and n: "m_pendingEventCount m' + event_count (m_fdContexts m ! i) = m_pendingEventCount m + event_count c"
    and tab: "m_epfd m' = (m_epfd m)(int i := (if events c \<noteq> 0 then Some (EPOLLET OR events c) else None))"
  shows "iom_inv r L m'"
proof -
  have "m_epfd m' d = wanted (m_fdContexts m') d \<or> d \<in> L \<and> m_epfd m' d = None" if "d \<noteq> r" for d
  proof (cases "d = int i")
    case True
    then show ?thesis using i tab m' by (simp add: wanted_def)
  next
    case False
    then have "0 \<le> d \<Longrightarrow> nat d \<noteq> i" by auto
    with False that inv tab m' show ?thesis by (auto simp: wanted_def iom_inv_def)
  qed
  moreover have "\<forall>j < length (m_fdContexts m'). fd_ok j (m_fdContexts m' ! j)"
    using inv m' c i(1) by (auto simp: iom_inv_def nth_list_update)
  moreover have "m_pendingEventCount m' = (\<Sum>c\<leftarrow>m_fdContexts m'. event_count c)"
    using sum_update[OF i(1), of event_count c] n inv m' by (simp add: iom_inv_def)
  ultimately show ?thesis using inv m' by (simp add: iom_inv_def)
qed

lemma fd_okD: "iom_inv r L m \<Longrightarrow> 0 \<le> d \<Longrightarrow> d < int (length (m_fdContexts m)) \<Longrightarrow> fd_ok (nat d) (m_fdContexts m ! nat d)"
  by (simp add: iom_inv_def)

lemma count_le_pending:
  assumes "iom_inv r L m" "0 \<le> d" "d < int (length (m_fdContexts m))"
  shows "event_count (m_fdContexts m ! nat d) \<le> m_pendingEventCount m"
proof -
  have "nat d < length (m_fdContexts m)" using assms by simp
  then have "event_count (m_fdContexts m ! nat d) \<le> (\<Sum>c\<leftarrow>m_fdContexts m. event_count c)"
    by (intro member_le_sum_list) auto
  then show ?thesis using assms(1) by (simp add: iom_inv_def)
qed

lemma iom_inv_same:
  assumes "iom_inv r L m" "m_fdContexts m' = m_fdContexts m" "m_pendingEventCount m' = m_pendingEventCount m" "m_epfd m' = m_epfd m"
  shows "iom_inv r L m'"
  using assms by (simp add: iom_inv_def)

lemma schedule_frame:
  "m_fdContexts (iom_schedule k m) = m_fdContexts m" "m_pendingEventCount (iom_schedule k m) = m_pendingEventCount m"
  "m_epfd (iom_schedule k m) = m_epfd m" "iom_timers (iom_schedule k m) = iom_timers m"
  "m_tasks (iom_sched (iom_schedule k m)) = m_tasks (iom_sched m) @ (if no_task k then [] else [k])"
  by (auto simp: iom_schedule_def tickle_def schedule_def scheduleNoLock_def Let_def)

lemma schedule_all_frame:
  "m_fdContexts (schedule_all ks m) = m_fdContexts m" "m_pendingEventCount (schedule_all ks m) = m_pendingEventCount m"
  "m_epfd (schedule_all ks m) = m_epfd m"
  "m_tasks (iom_sched (schedule_all ks m)) = m_tasks (iom_sched m) @ map (\<lambda>f. cb_task f (- 1)) (filter (\<lambda>f. f \<noteq> None) ks)"
  by (induction ks arbitrary: m) (auto simp: schedule_frame cb_task_def no_task_def)

lemma contextResize_inv:
  assumes "iom_inv r L m" "length (m_fdContexts m) \<le> n"
  shows "iom_inv r L (contextResize n m)"
proof -
  let ?cs = "m_fdContexts m"
  have cs: "m_fdContexts (contextResize n m) = ?cs @ map new_context [length ?cs..<n]"
    using assms(2) by (simp add: contextResize_def)
  have rest: "m_pendingEventCount (contextResize n m) = m_pendingEventCount m" "m_epfd (contextResize n m) = m_epfd m"
    by (simp_all add: contextResize_def)
  have ok: "\<forall>i < length (m_fdContexts (contextResize n m)). fd_ok i (m_fdContexts (contextResize n m) ! i)"
    using assms unfolding cs by (auto simp: iom_inv_def nth_append fd_ok_def new_context_def ctx_ok_def)
  have "(\<Sum>c\<leftarrow>map new_context [length ?cs..<n]. event_count c) = 0"
    by (simp add: event_count_def new_context_def comp_def)
  moreover have "wanted (m_fdContexts (contextResize n m)) e = wanted ?cs e" for e
    unfolding cs wanted_def by (auto simp: nth_append new_context_def)
  ultimately show ?thesis using assms(1) ok rest cs by (simp add: iom_inv_def)
qed

lemma grow_inv: "iom_inv r L m \<Longrightarrow> iom_inv r L (grow_for d m)"
  using contextResize_inv[of r L m "nat (d * 3 div 2)"] by (auto simp: grow_for_def)

lemma grow_length: "iom_inv r L m \<Longrightarrow> 0 \<le> d \<Longrightarrow> d < int (length (m_fdContexts (grow_for d m)))"
  by (auto simp: grow_for_def contextResize_def iom_inv_def)

section \<open>The operations\<close>

lemma arm_context_ok: "arm_context True cur fn = Inr ctx \<Longrightarrow> ctx_ok True ctx"
  by (auto simp: arm_context_def ctx_ok_def res_bind_Inr_iff split: if_splits)

lemma register_event_inv:
  assumes "iom_inv r L m" "epoll_ok ctl" "event \<in> {READ, WRITE}" "d \<noteq> r" "register_event ctl tid True cur d event fn m = Inr (rt, m')"
  shows "iom_inv r L m'"
proof -
  note inv = assms(1)
  let ?c = "m_fdContexts m ! nat d"
  have d: "0 \<le> d" "d < int (length (m_fdContexts m))" and free: "events ?c AND event = 0"
    using assms(5) by (auto simp: register_event_def Let_def res_bind_Inr_iff split: if_splits)
  note ok = fd_okD[OF inv d]
  obtain z tab where ctl: "ctl (if events ?c \<noteq> 0 then EPOLL_CTL_MOD else EPOLL_CTL_ADD) d (EPOLLET OR events ?c OR event) (m_epfd m) = (z, tab)"
    by fastforce
  show ?thesis
  proof (cases "z = 0")
    case False
    then show ?thesis using assms(5) inv d free ctl by (simp add: register_event_def Let_def)
  next
    case True
    with assms(5) d free ctl obtain ctx where ctx: "arm_context True cur fn = Inr ctx"
      "m' = set_context (nat d) (putEventContext event ctx (?c\<lparr>events := events ?c OR event\<rparr>))
         (m\<lparr>m_epfd := tab, m_pendingEventCount := m_pendingEventCount m + 1\<rparr>)"
      by (auto simp: register_event_def Let_def res_bind_Inr_iff)
    let ?c' = "putEventContext event ctx (?c\<lparr>events := events ?c OR event\<rparr>)"
    note armed = arm_ok[OF ok assms(3) free arm_context_ok[OF ctx(1)]]
    have ev: "events ?c' = events ?c OR event" by (simp add: putEventContext_def)
    have "tab = (m_epfd m)(d \<mapsto> EPOLLET OR events ?c OR event)"
      using epoll_okD[OF assms(2) ctl[unfolded True]] by (simp add: epoll_effect_def split: if_splits)
    moreover have "events ?c OR event \<noteq> 0" using ok assms(3) event_bits(5) by (auto simp: fd_ok_def)
    ultimately show ?thesis
      using set_context_inv[OF inv, of "nat d" ?c' m'] d assms(4) armed ctx(2) ev by (simp add: set_context_def or.assoc)
  qed
qed

lemma addEvent_inv:
  assumes "iom_inv r L m" "epoll_ok ctl" "event \<in> {READ, WRITE}" "d \<noteq> r" "addEvent ctl tid True cur d event fn m = Inr (rt, m')"
  shows "iom_inv r L m'"
  using register_event_inv[OF grow_inv[OF assms(1)] assms(2-4)] assms(5) by (simp add: addEvent_def)

text \<open>Taking an event out of a context, with the kernel's answer.\<close>

lemma unregister_inv:
  assumes inv: "iom_inv r L m" and ctl: "epoll_ok ctl" "unregister ctl event c d (m_epfd m) = (0, tab)"
    and d: "0 \<le> d" "d < int (length (m_fdContexts m))" "d \<noteq> r" and c: "c = m_fdContexts m ! nat d"
    and e: "event \<in> {READ, WRITE}" "events c AND event \<noteq> 0"
    and m': "m_fdContexts m' = (m_fdContexts m)[nat d := resetEventContext event (c\<lparr>events := events c AND NOT event\<rparr>)]"
      "m_epfd m' = tab" "m_pendingEventCount m' = m_pendingEventCount m - 1"
  shows "iom_inv r L m'"
proof -
  let ?c = "resetEventContext event (c\<lparr>events := events c AND NOT event\<rparr>)"
  note dis = disarm_ok[OF fd_okD[OF inv d(1,2), folded c] e]
  have ev: "events ?c = events c AND NOT event" by (simp add: resetEventContext_def putEventContext_def)
  have "tab = (m_epfd m)(d := (if events ?c \<noteq> 0 then Some (EPOLLET OR events ?c) else None))"
    using epoll_okD[OF ctl(1)] ctl(2) ev by (fastforce simp: unregister_def Let_def epoll_effect_def split: if_splits)
  moreover have "0 < m_pendingEventCount m" using count_le_pending[OF inv d(1,2)] dis(2) c by simp
  ultimately show ?thesis using set_context_inv[OF inv, of "nat d" ?c m'] d dis m' c by simp
qed

lemma trigger_ok:
  assumes "fd_ok i c" "event \<in> {READ, WRITE}" "events c AND event \<noteq> 0"
  shows "triggerEvent event c m = Inr (resetEventContext event (c\<lparr>events := events c AND NOT event\<rparr>),
     iom_schedule (event_task (if event = READ then read_ctx c else write_ctx c)) m)"
  using assms by (auto simp: triggerEvent_def getEventContext_def fd_ok_def ctx_ok_def Let_def)

lemma delEvent_inv:
  assumes "iom_inv r L m" "epoll_ok ctl" "event \<in> {READ, WRITE}" "d \<noteq> r" "delEvent ctl tid d event m = Inr (b, m')"
  shows "iom_inv r L m'"
proof (cases "m' = m")
  case False
  let ?c = "m_fdContexts m ! nat d"
  obtain z tab where u: "unregister ctl event ?c d (m_epfd m) = (z, tab)" by fastforce
  with False assms(5) have "0 \<le> d" "d < int (length (m_fdContexts m))" "events ?c AND event \<noteq> 0" "z = 0"
    "m' = set_context (nat d) (resetEventContext event (?c\<lparr>events := events ?c AND NOT event\<rparr>))
       (m\<lparr>m_epfd := tab, m_pendingEventCount := m_pendingEventCount m - 1\<rparr>)"
    by (auto simp: delEvent_def Let_def res_bind_Inr_iff split: if_splits)
  then show ?thesis using unregister_inv[OF assms(1,2) _ _ _ assms(4) refl assms(3)] u by (simp add: set_context_def)
qed (use assms(1) in simp)

lemma cancelEvent_ok:
  assumes inv: "iom_inv r L m" and ctl: "epoll_ok ctl" and e: "event \<in> {READ, WRITE}" and r: "d \<noteq> r"
    and d: "0 \<le> d" "d < int (length (m_fdContexts m))" and reg: "events (m_fdContexts m ! nat d) AND event \<noteq> 0"
    and u: "unregister ctl event (m_fdContexts m ! nat d) d (m_epfd m) = (0, tab)"
  shows "\<exists>m'. cancelEvent ctl tid d event m = Inr (True, m') \<and> iom_inv r L m' \<and>
     events (m_fdContexts m' ! nat d) = events (m_fdContexts m ! nat d) AND NOT event \<and>
     m_tasks (iom_sched m') = m_tasks (iom_sched m) @
       [event_task (if event = READ then read_ctx (m_fdContexts m ! nat d) else write_ctx (m_fdContexts m ! nat d))]"
proof -
  let ?c = "m_fdContexts m ! nat d"
  let ?t = "event_task (if event = READ then read_ctx ?c else write_ctx ?c)"
  let ?m1 = "iom_schedule ?t (m\<lparr>m_epfd := tab\<rparr>)"
  let ?m' = "set_context (nat d) (resetEventContext event (?c\<lparr>events := events ?c AND NOT event\<rparr>))
     (?m1\<lparr>m_pendingEventCount := m_pendingEventCount ?m1 - 1\<rparr>)"
  note ok = fd_okD[OF inv d]
  have "cancelEvent ctl tid d event m = Inr (True, ?m')"
    using d reg u trigger_ok[OF ok e reg] by (simp add: cancelEvent_def Let_def)
  moreover have "iom_inv r L ?m'"
    using unregister_inv[OF inv ctl u d r refl e reg, of ?m'] by (simp add: set_context_def schedule_frame)
  moreover have "events (m_fdContexts ?m' ! nat d) = events ?c AND NOT event"
    using d by (simp add: set_context_def schedule_frame resetEventContext_def putEventContext_def)
  moreover have "\<not> no_task ?t" using ok e reg
    by (auto simp: fd_ok_def ctx_ok_def event_task_def no_task_def cb_task_def fiber_task_def)
  then have "m_tasks (iom_sched ?m') = m_tasks (iom_sched m) @ [?t]" by (simp add: set_context_def schedule_frame)
  ultimately show ?thesis by blast
qed

definition event_tasks :: "event_set \<Rightarrow> 'f FdContext \<Rightarrow> 'f std_function ScheduleTask list" where
  "event_tasks event c =
     (if events c AND event \<noteq> 0 then [event_task (if event = READ then read_ctx c else write_ctx c)] else [])"

lemma trigger_if_ok:
  assumes "fd_ok i c" "event \<in> {READ, WRITE}" "w AND event = events c AND event"
  shows "\<exists>c' m'. trigger_if w event (c, m) = Inr (c', m') \<and> fd_ok i c' \<and> events c' = events c AND NOT event \<and>
     (event = WRITE \<longrightarrow> read_ctx c' = read_ctx c) \<and> (event = READ \<longrightarrow> write_ctx c' = write_ctx c) \<and>
     m_fdContexts m' = m_fdContexts m \<and> m_epfd m' = m_epfd m \<and>
     m_pendingEventCount m' = m_pendingEventCount m - length (event_tasks event c) \<and>
     m_tasks (iom_sched m') = m_tasks (iom_sched m) @ event_tasks event c"
proof (cases "events c AND event = 0")
  case True
  then have "events c AND NOT event = events c" using assms(1,2) by (auto simp: fd_ok_def)
  then show ?thesis using True assms by (simp add: trigger_if_def event_tasks_def)
next
  case False
  let ?c = "resetEventContext event (c\<lparr>events := events c AND NOT event\<rparr>)"
  let ?t = "event_task (if event = READ then read_ctx c else write_ctx c)"
  have "\<not> no_task ?t" using assms(1,2) False
    by (auto simp: fd_ok_def ctx_ok_def event_task_def no_task_def cb_task_def fiber_task_def)
  moreover have "trigger_if w event (c, m) =
      Inr (?c, (iom_schedule ?t m)\<lparr>m_pendingEventCount := m_pendingEventCount (iom_schedule ?t m) - 1\<rparr>)"
    using trigger_ok[OF assms(1,2) False] False assms(3) by (simp add: trigger_if_def)
  ultimately show ?thesis using disarm_ok(1)[OF assms(1,2) False] False assms(2)
    by (auto simp: event_tasks_def schedule_frame resetEventContext_def putEventContext_def)
qed

lemma cancelAll_ok:
  assumes inv: "iom_inv r L m" and ctl: "epoll_ok ctl" and r: "d \<noteq> r"
    and d: "0 \<le> d" "d < int (length (m_fdContexts m))" and reg: "events (m_fdContexts m ! nat d) \<noteq> 0"
    and u: "ctl EPOLL_CTL_DEL d 0 (m_epfd m) = (0, tab)"
  shows "\<exists>m'. cancelAll ctl tid d m = Inr (True, m') \<and> iom_inv r L m' \<and> events (m_fdContexts m' ! nat d) = 0 \<and>
     m_tasks (iom_sched m') = m_tasks (iom_sched m) @ event_tasks READ (m_fdContexts m ! nat d) @ event_tasks WRITE (m_fdContexts m ! nat d) \<and>
     (\<exists>c. m_fdContexts m' = (m_fdContexts m)[nat d := c])"
proof -
  let ?c = "m_fdContexts m ! nat d"
  note ok = fd_okD[OF inv d]
  have ev: "events ?c \<in> {0, 1, 4, 5}" using ok by (simp add: fd_ok_def)
  from trigger_if_ok[OF ok, of READ "events ?c" "m\<lparr>m_epfd := tab\<rparr>"] obtain c1 m1 where
    1: "trigger_if (events ?c) READ (?c, m\<lparr>m_epfd := tab\<rparr>) = Inr (c1, m1)" "fd_ok (nat d) c1" "events c1 = events ?c AND NOT READ"
    "write_ctx c1 = write_ctx ?c" "m_fdContexts m1 = m_fdContexts m" "m_epfd m1 = tab"
    "m_pendingEventCount m1 = m_pendingEventCount m - length (event_tasks READ ?c)"
    "m_tasks (iom_sched m1) = m_tasks (iom_sched m) @ event_tasks READ ?c" by auto
  from trigger_if_ok[OF 1(2), of WRITE "events c1" m1] obtain c2 m2 where
    2: "trigger_if (events c1) WRITE (c1, m1) = Inr (c2, m2)" "fd_ok (nat d) c2" "events c2 = events c1 AND NOT WRITE"
    "m_fdContexts m2 = m_fdContexts m1" "m_epfd m2 = m_epfd m1"
    "m_pendingEventCount m2 = m_pendingEventCount m1 - length (event_tasks WRITE c1)"
    "m_tasks (iom_sched m2) = m_tasks (iom_sched m1) @ event_tasks WRITE c1" by auto
  have w: "event_tasks WRITE c1 = event_tasks WRITE ?c"
    using event_bits(7)[OF ev, of READ WRITE] 1(3,4) by (simp add: event_tasks_def)
  have z: "events c2 = 0" using ev 1(3) 2(3) by auto
  have cnt: "event_count ?c = length (event_tasks READ ?c) + length (event_tasks WRITE ?c)" "event_count c2 = 0"
    using z by (auto simp: event_count_def event_tasks_def)
  let ?m' = "set_context (nat d) c2 m2"
  have "cancelAll ctl tid d m = Inr (True, ?m')" using d reg u 1(1) 2(1) z by (simp add: cancelAll_def Let_def)
  moreover have "iom_inv r L ?m'"
  proof (rule set_context_inv[OF inv _ _ 2(2)])
    show "m_pendingEventCount ?m' + event_count ?c = m_pendingEventCount m + event_count c2"
      using 1(7) 2(6) w cnt count_le_pending[OF inv d] by (simp add: set_context_def)
    have "tab = (m_epfd m)(d := None)" using epoll_okD[OF ctl u] by (simp add: epoll_effect_def)
    then show "m_epfd ?m' = (m_epfd m)(int (nat d) := (if events c2 \<noteq> 0 then Some (EPOLLET OR events c2) else None))"
      using 1(6) 2(5) z d by (simp add: set_context_def)
  qed (use d r 1(5) 2(4) in \<open>auto simp: set_context_def\<close>)
  moreover have "events (m_fdContexts ?m' ! nat d) = 0" using 1(5) 2(4) z d by (simp add: set_context_def)
  moreover have "m_fdContexts ?m' = (m_fdContexts m)[nat d := c2]" using 1(5) 2(4) by (simp add: set_context_def)
  moreover have "m_tasks (iom_sched ?m') = m_tasks (iom_sched m) @ event_tasks READ ?c @ event_tasks WRITE ?c"
    using 1(8) 2(7) w by (simp add: set_context_def)
  ultimately show ?thesis by blast
qed

lemma cancel_inv:
  assumes "iom_inv r L m" "epoll_ok ctl" "d \<noteq> r"
  shows "event \<in> {READ, WRITE} \<Longrightarrow> cancelEvent ctl tid d event m = Inr (b, m') \<Longrightarrow> iom_inv r L m'"
    "cancelAll ctl tid d m = Inr (b, m') \<Longrightarrow> iom_inv r L m'"
proof -
  let ?c = "m_fdContexts m ! nat d"
  show "iom_inv r L m'" if e: "event \<in> {READ, WRITE}" and c: "cancelEvent ctl tid d event m = Inr (b, m')"
  proof (cases "0 \<le> d \<and> d < int (length (m_fdContexts m)) \<and> events ?c AND event \<noteq> 0")
    case True
    obtain z tab where u: "unregister ctl event ?c d (m_epfd m) = (z, tab)" by fastforce
    with c True assms(1) cancelEvent_ok[OF assms(1,2) e assms(3), of tab tid] show ?thesis
      by (cases "z = 0") (auto simp: cancelEvent_def Let_def)
  qed (use c assms(1) in \<open>auto simp: cancelEvent_def Let_def split: if_splits\<close>)
  show "iom_inv r L m'" if c: "cancelAll ctl tid d m = Inr (b, m')"
  proof (cases "0 \<le> d \<and> d < int (length (m_fdContexts m)) \<and> events ?c \<noteq> 0")
    case True
    obtain z tab where u: "ctl EPOLL_CTL_DEL d 0 (m_epfd m) = (z, tab)" by fastforce
    with c True assms(1) cancelAll_ok[OF assms, of tab tid] show ?thesis
      by (cases "z = 0") (auto simp: cancelAll_def Let_def)
  qed (use c assms(1) in \<open>auto simp: cancelAll_def Let_def split: if_splits\<close>)
qed

section \<open>Reachable managers\<close>

text \<open>
  The steps of the threads, each under one lock. Events are registered and removed by scheduler threads for
  descriptors other than the tickle pipe. Growing the table is a step of its own, taken for any descriptor at
  any time, since the size that called for it may be out of date when the write lock is held; the runs are
  those in which it does not make the table smaller (what happens otherwise is \<open>contextResize_race\<close>). As the
  table does not shrink, a context that was looked up is still in it when its mutex is taken. Tasks and timers are
  added, and the idle fiber takes its turns. The program may close any descriptor but the pipe at any time; the kernel
  forgets a closed descriptor (which is not duplicated), and \<open>L\<close> collects those for which events were registered.
\<close>

definition registered :: "'f IOManager \<Rightarrow> int \<Rightarrow> bool" where
  "registered m d \<longleftrightarrow> 0 \<le> d \<and> d < int (length (m_fdContexts m)) \<and> events (m_fdContexts m ! nat d) \<noteq> 0"

inductive iom_reach :: "epoll_ctl \<Rightarrow> int \<Rightarrow> int set \<Rightarrow> 'f IOManager \<Rightarrow> bool" for ctl r where
  create: "IOManager_ctor ctl epfd prt frt r ids now base = Inr m \<Longrightarrow> iom_reach ctl r {} m"
| resize: "iom_reach ctl r L m \<Longrightarrow> length (m_fdContexts m) \<le> nat (d * 3 div 2) \<Longrightarrow>
     iom_reach ctl r L (contextResize (nat (d * 3 div 2)) m)"
| register: "iom_reach ctl r L m \<Longrightarrow> event \<in> {READ, WRITE} \<Longrightarrow> d \<noteq> r \<Longrightarrow>
     register_event ctl tid True cur d event fn m = Inr (rt, m') \<Longrightarrow> iom_reach ctl r L m'"
| del: "iom_reach ctl r L m \<Longrightarrow> event \<in> {READ, WRITE} \<Longrightarrow> d \<noteq> r \<Longrightarrow> delEvent ctl tid d event m = Inr (b, m') \<Longrightarrow> iom_reach ctl r L m'"
| cancel: "iom_reach ctl r L m \<Longrightarrow> event \<in> {READ, WRITE} \<Longrightarrow> d \<noteq> r \<Longrightarrow> cancelEvent ctl tid d event m = Inr (b, m') \<Longrightarrow> iom_reach ctl r L m'"
| cancel_all: "iom_reach ctl r L m \<Longrightarrow> d \<noteq> r \<Longrightarrow> cancelAll ctl tid d m = Inr (b, m') \<Longrightarrow> iom_reach ctl r L m'"
| close: "iom_reach ctl r L m \<Longrightarrow> d \<noteq> r \<Longrightarrow>
     iom_reach ctl r (if registered m d then insert d L else L) (m\<lparr>m_epfd := (m_epfd m)(d := None)\<rparr>)"
| schedule: "iom_reach ctl r L m \<Longrightarrow> iom_reach ctl r L (iom_schedule k m)"
| workers: "iom_reach ctl r L m \<Longrightarrow> iom_reach ctl r L (m\<lparr>iom_sched := s\<rparr>)"
| timer: "iom_reach ctl r L m \<Longrightarrow> iom_reach ctl r L (iom_addTimer now p ms fn rc m)"
| idle: "iom_reach ctl r L m \<Longrightarrow> idle ctl attempts ready now q m = Some (Inr (b, m')) \<Longrightarrow> iom_reach ctl r L m'"

text \<open>A call of \<^verbatim>\<open>addEvent\<close> that no other thread interrupts is one of the runs.\<close>

lemma addEvent_reach:
  assumes "iom_reach ctl r L m" "event \<in> {READ, WRITE}" "d \<noteq> r" "addEvent ctl tid True cur d event fn m = Inr (rt, m')"
  shows "iom_reach ctl r L m'"
proof -
  have "iom_reach ctl r L (grow_for d m)"
    using assms(1) iom_reach.resize[OF assms(1), of d] by (auto simp: grow_for_def)
  then show ?thesis using iom_reach.register assms(2-4) unfolding addEvent_def by blast
qed

lemma epoll_loop_rt: "epoll_loop rt attempts = Some x \<Longrightarrow> x = rt"
  by (induction rt attempts rule: epoll_loop.induct) (auto split: if_splits)

lemma idle_frame:
  assumes "idle ctl attempts ready now q m = Some (Inr (b, m'))"
  shows "m_fdContexts m' = m_fdContexts m" "m_pendingEventCount m' = m_pendingEventCount m" "m_epfd m' = m_epfd m"
  using assms
  by (auto simp: idle_def res_bind_Inr_iff schedule_all_frame dest!: epoll_loop_rt split: if_splits option.splits)

lemma iom_reach_inv: "iom_reach ctl r L m \<Longrightarrow> epoll_ok ctl \<Longrightarrow> iom_inv r L m"
proof (induction rule: iom_reach.induct)
  case (create epfd prt frt ids now base m)
  obtain rt tab where c: "ctl EPOLL_CTL_ADD r (EPOLLIN OR EPOLLET) Map.empty = (rt, tab)" by fastforce
  with create have "m_fdContexts m = map new_context [0..<32]" "m_pendingEventCount m = 0" "m_epfd m = tab" "rt = 0"
    by (auto simp: IOManager_ctor_def contextResize_def res_bind_Inr_iff Let_def simp del: upt_rec_numeral)
  moreover have "tab = [r \<mapsto> EPOLLIN OR EPOLLET]"
    using epoll_okD[OF create(2), of EPOLL_CTL_ADD r] c calculation(4) by (simp add: epoll_effect_def)
  ultimately show ?case
    by (auto simp: iom_inv_def fd_ok_def new_context_def ctx_ok_def event_count_def wanted_def comp_def simp del: upt_rec_numeral)
next
  case (resize L m d)
  then show ?case using contextResize_inv by blast
next
  case (register L m event d tid cur fn rt m')
  then show ?case using register_event_inv by blast
next
  case (del L m event d tid b m')
  then show ?case using delEvent_inv by blast
next
  case (cancel L m event d tid b m')
  then show ?case using cancel_inv(1) by blast
next
  case (cancel_all L m d tid b m')
  then show ?case using cancel_inv(2) by blast
next
  case (close L m d)
  then show ?case by (auto simp: iom_inv_def registered_def wanted_def)
next
  case (schedule L m k)
  then show ?case using iom_inv_same[of r L m "iom_schedule k m"] by (simp add: schedule_frame)
next
  case (workers L m s)
  then show ?case using iom_inv_same[of r L m "m\<lparr>iom_sched := s\<rparr>"] by simp
next
  case (timer L m now p ms fn rc)
  then show ?case
    using iom_inv_same[of r L m "iom_addTimer now p ms fn rc m"]
    by (simp add: iom_addTimer_def onTimerInsertedAtFront_def tickle_def Let_def split: prod.split)
next
  case (idle L m attempts ready now q b m')
  then show ?case using iom_inv_same[OF idle(3)[OF idle(4)] idle_frame[OF idle(2)]] by simp
qed

section \<open>Properties\<close>

text \<open>A kernel that accepts exactly the consistent requests, and a manager with one read event on descriptor 7.\<close>

definition kernel_ctl :: epoll_ctl where
  "kernel_ctl op d ev tab = (if (op = EPOLL_CTL_ADD) = (tab d = None) then (0, epoll_effect op d ev tab) else (- 1, tab))"

lemma kernel_ctl_ok: "epoll_ok kernel_ctl"
  by (auto simp: epoll_ok_def kernel_ctl_def)

definition new_iom :: "string IOManager" where
  "new_iom = \<lparr>iom_sched = \<lparr>m_name = ''io'', m_threads = [9], m_tasks = [], m_threadIds = [9], m_threadCount = 1,
       m_activeThreadCount = 0, m_idleThreadCount = 0, m_useCaller = False, m_rootFiber = False, m_rootThread = - 1, m_stopping = False\<rparr>,
     iom_timers = TimerManager_ctor 100, m_epfd = [3 \<mapsto> EPOLLIN OR EPOLLET], m_tickleFds = 0, m_pendingEventCount = 0,
     m_fdContexts = map new_context [0..<32]\<rparr>"

definition read7 :: "string FdContext" where
  "read7 = \<lparr>read_ctx = \<lparr>ec_scheduler = True, ec_fiber = None, ec_cb = Some (Fn ''on_read'')\<rparr>, write_ctx = empty_ctx, fd = 7, events = READ\<rparr>"

definition busy_iom :: "string IOManager" where
  "busy_iom = new_iom\<lparr>m_epfd := [3 \<mapsto> EPOLLIN OR EPOLLET, 7 \<mapsto> EPOLLET OR READ], m_pendingEventCount := 1,
     m_fdContexts := (map new_context [0..<32])[7 := read7]\<rparr>"

declare upt_rec_numeral [simp del]

lemma new_iom_reach: "iom_reach kernel_ctl 3 {} new_iom"
proof -
  have "IOManager_ctor kernel_ctl 5 0 0 3 [9] 100 (iom_sched (new_iom\<lparr>iom_sched := (iom_sched new_iom)\<lparr>m_threads := [], m_threadIds := []\<rparr>\<rparr>)) = Inr new_iom"
    by (simp add: IOManager_ctor_def kernel_ctl_def new_iom_def contextResize_def start_def Let_def epoll_effect_def)
  then show ?thesis by (rule iom_reach.create)
qed

lemma busy_iom_reach: "iom_reach kernel_ctl 3 {} busy_iom"
proof -
  have "addEvent kernel_ctl 1 True (0, RUNNING) 7 READ (Some (Fn ''on_read'')) new_iom = Inr (0, busy_iom)"
    by (simp add: addEvent_def register_event_def grow_for_def new_iom_def busy_iom_def read7_def kernel_ctl_def epoll_effect_def new_context_def
        getEventContext_def putEventContext_def arm_context_def empty_ctx_def set_context_def Let_def)
  from addEvent_reach[OF new_iom_reach _ _ this] show ?thesis by simp
qed

lemma busy_iom_simps:
  "m_fdContexts busy_iom ! 7 = read7" "length (m_fdContexts busy_iom) = 32" "events read7 = READ" "m_pendingEventCount busy_iom = 1"
  by (simp_all add: busy_iom_def read7_def)

text \<open>C8: The event table, the counter and the kernel agree: however the critical sections of the threads
  interleave, as long as no resize makes the table smaller, the number of pending events is the number of
  events registered over all descriptors, and a registered event has a scheduler and either a fiber or a
  callback to run, while an unregistered one has nothing. The kernel watches exactly the registered events of every
  descriptor (edge triggered), except that it watches nothing of a descriptor that was closed (collected in \<open>L\<close>)
  with events registered.\<close>

theorem io_events_registered:
  assumes "iom_reach ctl r L m" "epoll_ok ctl"
  shows "m_pendingEventCount m = (\<Sum>c\<leftarrow>m_fdContexts m. event_count c) \<and>
     (\<forall>d. d = r \<or> m_epfd m d = wanted (m_fdContexts m) d \<or> d \<in> L \<and> m_epfd m d = None) \<and>
     (\<forall>i. i < length (m_fdContexts m) \<longrightarrow> fd (m_fdContexts m ! i) = int i \<and>
        ctx_ok (events (m_fdContexts m ! i) AND READ \<noteq> 0) (read_ctx (m_fdContexts m ! i)) \<and>
        ctx_ok (events (m_fdContexts m ! i) AND WRITE \<noteq> 0) (write_ctx (m_fdContexts m ! i)))"
  using iom_reach_inv[OF assms] by (auto simp: iom_inv_def fd_ok_def)

text \<open>The manager with an event on descriptor 7, after the table was grown for 40 by a thread and descriptor 9 closed.\<close>

definition grown_iom :: "string IOManager" where
  "grown_iom = (contextResize 60 busy_iom)\<lparr>m_epfd := (m_epfd (contextResize 60 busy_iom))(9 := None)\<rparr>"

lemma grown_iom_reach: "iom_reach kernel_ctl 3 {} grown_iom"
proof -
  have "iom_reach kernel_ctl 3 {} (contextResize 60 busy_iom)"
    using iom_reach.resize[OF busy_iom_reach, of 40] by (simp add: busy_iom_simps)
  moreover have "\<not> registered (contextResize 60 busy_iom) 9"
    by (simp add: registered_def contextResize_def busy_iom_def nth_append new_context_def)
  ultimately show ?thesis using iom_reach.close[of kernel_ctl 3 "{}" "contextResize 60 busy_iom" 9] by (simp add: grown_iom_def)
qed

theorem io_events_registered_witness:
  "length (m_fdContexts grown_iom) = 60 \<and> m_pendingEventCount grown_iom = (\<Sum>c\<leftarrow>m_fdContexts grown_iom. event_count c) \<and>
     m_epfd grown_iom 7 = wanted (m_fdContexts grown_iom) 7 \<and> m_epfd grown_iom 9 = wanted (m_fdContexts grown_iom) 9"
proof -
  have "length (m_fdContexts grown_iom) = 60" by (simp add: grown_iom_def contextResize_def busy_iom_def)
  moreover have "d = 3 \<or> m_epfd grown_iom d = wanted (m_fdContexts grown_iom) d" for d
    using io_events_registered[OF grown_iom_reach kernel_ctl_ok] by blast
  from this[of 7] this[of 9] have "m_epfd grown_iom 7 = wanted (m_fdContexts grown_iom) 7 \<and> m_epfd grown_iom 9 = wanted (m_fdContexts grown_iom) 9"
    by simp
  ultimately show ?thesis using io_events_registered[OF grown_iom_reach kernel_ctl_ok] by blast
qed

text \<open>Cancelling the events of a descriptor runs each of them exactly once: if the kernel removes the
  descriptor, \<^verbatim>\<open>cancelAll\<close> succeeds, appends the tasks of the registered read and write events (in this order)
  to the scheduler's queue, leaves the descriptor without events and unwatched, and none of its
  assertions fails.\<close>

theorem cancelAll_fires_all:
  assumes "iom_reach ctl r L m" "epoll_ok ctl" "d \<noteq> r" "0 \<le> d" "d < int (length (m_fdContexts m))"
    and "events (m_fdContexts m ! nat d) \<noteq> 0" "ctl EPOLL_CTL_DEL d 0 (m_epfd m) = (0, tab)"
  shows "\<exists>m'. cancelAll ctl tid d m = Inr (True, m') \<and> events (m_fdContexts m' ! nat d) = 0 \<and> m_epfd m' d = None \<and>
     m_tasks (iom_sched m') = m_tasks (iom_sched m) @ event_tasks READ (m_fdContexts m ! nat d) @ event_tasks WRITE (m_fdContexts m ! nat d)"
proof -
  from cancelAll_ok[OF iom_reach_inv[OF assms(1,2)] assms(2-7)] obtain m' where
    m': "cancelAll ctl tid d m = Inr (True, m')" "iom_inv r L m'" "events (m_fdContexts m' ! nat d) = 0"
    "m_tasks (iom_sched m') = m_tasks (iom_sched m) @ event_tasks READ (m_fdContexts m ! nat d) @ event_tasks WRITE (m_fdContexts m ! nat d)"
    by blast
  then have "m_epfd m' d = None" using assms(3) by (auto simp: iom_inv_def wanted_def)
  with m' show ?thesis by blast
qed

theorem cancelAll_fires_all_witness:
  "\<exists>m'. cancelAll kernel_ctl 1 7 busy_iom = Inr (True, m') \<and> m_tasks (iom_sched m') = [cb_task (Some (Fn ''on_read'')) (- 1)]"
proof -
  have "kernel_ctl EPOLL_CTL_DEL 7 0 (m_epfd busy_iom) = (0, (m_epfd busy_iom)(7 := None))"
    by (simp add: kernel_ctl_def busy_iom_def epoll_effect_def)
  from cancelAll_fires_all[OF busy_iom_reach kernel_ctl_ok _ _ _ _ this, of 1] show ?thesis
    by (auto simp: busy_iom_simps event_tasks_def event_task_def read7_def) (simp_all add: busy_iom_def new_iom_def)
qed

text \<open>C39: The idle loop never dispatches an IO event: whatever \<^verbatim>\<open>epoll_wait\<close> reports, a turn of \<^verbatim>\<open>idle\<close> leaves the
  event table, the interest list and the counter as they are and schedules only the expired timers,
  because the number of ready events is stored in a variable of the inner block. While an event is
  pending the loop therefore goes on for ever.\<close>

theorem idle_never_dispatches:
  assumes "idle ctl attempts ready now q m = Some (Inr (b, m'))" "m_pendingEventCount m > 0"
  shows "\<not> b \<and> m_fdContexts m' = m_fdContexts m \<and> m_pendingEventCount m' = m_pendingEventCount m \<and> m_epfd m' = m_epfd m \<and>
     (\<exists>cbs tm. listExpiredCb now q [] (iom_timers m) = Inr (cbs, tm) \<and>
        m_tasks (iom_sched m') = m_tasks (iom_sched m) @ map (\<lambda>f. cb_task f (- 1)) (filter (\<lambda>f. f \<noteq> None) cbs))"
  using assms idle_frame[OF assms(1)]
  by (auto simp: idle_def res_bind_Inr_iff schedule_all_frame iom_stopping_def dest!: epoll_loop_rt split: if_splits option.splits)

theorem idle_never_dispatches_witness:
  "\<exists>m'. idle kernel_ctl [(- 1, True), (1, False)] [(Some 7, EPOLLIN)] 200 1 busy_iom = Some (Inr (False, m')) \<and>
     m_fdContexts m' = m_fdContexts busy_iom \<and> m_tasks (iom_sched m') = []"
proof -
  have "idle kernel_ctl [(- 1, True), (1, False)] [(Some 7, EPOLLIN)] 200 1 busy_iom = Some (Inr (False, busy_iom))"
    by (simp add: idle_def iom_stopping_def busy_iom_def new_iom_def listExpiredCb_def TimerManager_ctor_def)
  from idle_never_dispatches[OF this] this show ?thesis
    by (auto simp: busy_iom_simps listExpiredCb_def busy_iom_def new_iom_def TimerManager_ctor_def)
qed

text \<open>Removing or cancelling an event that is not registered is undefined behaviour: the operation
  unlocks the context's mutex directly and the scoped guard then unlocks it again, without holding it.\<close>

theorem unregistered_event_undefined:
  assumes "0 \<le> d" "d < int (length (m_fdContexts m))" "events (m_fdContexts m ! nat d) AND event = 0"
  shows "delEvent ctl tid d event m = Inl Undefined \<and> cancelEvent ctl tid d event m = Inl Undefined"
  using assms by (simp add: delEvent_def cancelEvent_def Let_def)

theorem unregistered_event_undefined_witness:
  "delEvent kernel_ctl 1 7 WRITE busy_iom = Inl Undefined \<and> cancelEvent kernel_ctl 1 7 WRITE busy_iom = Inl Undefined"
  by (rule unregistered_event_undefined) (simp_all add: busy_iom_simps)

text \<open>Two threads that grow the descriptor table at the same time can lose registered events: thread A
  registers an event on descriptor \<open>a\<close>, having grown the table for it, while thread B has already
  decided to grow the same table for a smaller descriptor \<open>b\<close>. When B resizes after A, the table
  shrinks below \<open>a\<close>: the event still counts as pending and is still watched, but its context is gone
  and it can no longer be removed.\<close>

theorem contextResize_race:
  assumes "iom_reach ctl r {} m" "epoll_ok ctl" "a \<noteq> r" "event \<in> {READ, WRITE}"
    and "int (length (m_fdContexts m)) \<le> b" "b * 3 div 2 \<le> a"
    and "addEvent ctl tid True cur a event fn m = Inr (0, m1)" "m2 = contextResize (nat (b * 3 div 2)) m1"
  shows "m_epfd m2 a \<noteq> None \<and> m_pendingEventCount m2 > 0 \<and> int (length (m_fdContexts m2)) \<le> a \<and>
     delEvent ctl tid a event m2 = Inr (False, m2)"
proof -
  have inv: "iom_inv r {} m" "iom_inv r {} m1"
    using iom_reach_inv[OF assms(1,2)] addEvent_inv[OF _ assms(2,4,3,7)] by blast+
  have a: "0 \<le> a" "a < int (length (m_fdContexts m1))" and ev: "events (m_fdContexts m1 ! nat a) AND event \<noteq> 0"
  proof -
    let ?g = "grow_for a m"
    have g: "0 \<le> a" "a < int (length (m_fdContexts ?g))"
      using assms(7) by (auto simp: addEvent_def register_event_def Let_def split: if_splits)
    obtain z tab where "ctl (if events (m_fdContexts ?g ! nat a) \<noteq> 0 then EPOLL_CTL_MOD else EPOLL_CTL_ADD) a
        (EPOLLET OR events (m_fdContexts ?g ! nat a) OR event) (m_epfd ?g) = (z, tab)" by fastforce
    with assms(7) g obtain ctx where "m_fdContexts m1 = (m_fdContexts ?g)[nat a := putEventContext event ctx
        ((m_fdContexts ?g ! nat a)\<lparr>events := events (m_fdContexts ?g ! nat a) OR event\<rparr>)]"
      by (auto simp: addEvent_def register_event_def Let_def res_bind_Inr_iff set_context_def split: if_splits)
    moreover have "events (m_fdContexts ?g ! nat a) \<in> {0, 1, 4, 5}"
      using fd_okD[OF grow_inv[OF inv(1)] g] by (simp add: fd_ok_def)
    ultimately show "0 \<le> a" "a < int (length (m_fdContexts m1))" "events (m_fdContexts m1 ! nat a) AND event \<noteq> 0"
      using g event_bits(3)[OF _ assms(4)] by (auto simp: putEventContext_def)
  qed
  have "m_epfd m1 a = wanted (m_fdContexts m1) a" using inv(2) assms(3) by (simp add: iom_inv_def)
  moreover have "events (m_fdContexts m1 ! nat a) \<noteq> 0" using ev by auto
  ultimately have "m_epfd m1 a \<noteq> None" using a by (simp add: wanted_def)
  moreover have "m_pendingEventCount m1 > 0"
    using count_le_pending[OF inv(2) a] ev assms(4) by (auto simp: event_count_def)
  moreover have "length (m_fdContexts m2) = nat (b * 3 div 2)"
    using a assms(5,6,8) inv(1) by (auto simp: contextResize_def iom_inv_def)
  ultimately show ?thesis using assms(5,6,8) inv(1) by (auto simp: contextResize_def delEvent_def iom_inv_def)
qed

theorem contextResize_race_witness:
  "\<exists>m1. addEvent kernel_ctl 1 True (0, RUNNING) 100 READ (Some (Fn ''a'')) busy_iom = Inr (0, m1) \<and>
     delEvent kernel_ctl 1 100 READ (contextResize 60 m1) = Inr (False, contextResize 60 m1)"
proof -
  obtain m1 where m1: "addEvent kernel_ctl 1 True (0, RUNNING) 100 READ (Some (Fn ''a'')) busy_iom = Inr (0, m1)"
    by (simp add: addEvent_def register_event_def grow_for_def busy_iom_def new_iom_def contextResize_def kernel_ctl_def nth_append new_context_def
        getEventContext_def arm_context_def empty_ctx_def Let_def)
  from contextResize_race[OF busy_iom_reach kernel_ctl_ok _ _ _ _ m1 refl, of 40] m1 show ?thesis
    by (auto simp: busy_iom_simps)
qed

end
