(* ===== verification/TW_Config.thy ===== *)
theory TW_Config
  imports TW_Prelude
begin

text \<open>
  \<^verbatim>\<open>include/base/config.h\<close> and \<^verbatim>\<open>src/base/config.cpp\<close>: typed configuration variables with change listeners,
  the table of variables and loading from YAML. The YAML library is a parameter: parsed documents
  are trees, \<open>emit\<close> prints a node, and \<open>from_str\<close> is the conversion of a text to a value of a type,
  which may throw. Listeners are identified by their callbacks; a change yields the
  calls made, and they return.
\<close>

section \<open>Data\<close>

datatype yaml = YNull | YScalar string | YSeq "yaml list" | YMap "(string \<times> yaml) list"

record ('t, 'v, 'c) ConfigVar =
  var_name :: string
  m_description :: string
  var_type :: 't
  m_val :: 'v
  m_cbs :: "(nat \<times> 'c) list"

type_synonym ('t, 'v, 'c) ConfigVarMap = "string \<rightharpoonup> ('t, 'v, 'c) ConfigVar"

text \<open>A listener called with the old and the new value.\<close>

type_synonym ('v, 'c) notification = "'c \<times> 'v \<times> 'v"

definition name_chars :: string where
  "name_chars = ''abcdefghikjlmnopqrstuvwxyz._012345678''"

definition valid_name :: "string \<Rightarrow> bool" where
  "valid_name s \<longleftrightarrow> list_all (\<lambda>c. c \<in> set name_chars) s"

definition tolower :: "char \<Rightarrow> char" where
  "tolower c = (let v = of_char c :: nat in if 65 \<le> v \<and> v \<le> 90 then char_of (v + 32) else c)"

section \<open>Configuration variables\<close>

definition ConfigVar_ctor :: "string \<Rightarrow> 't \<Rightarrow> 'v \<Rightarrow> string \<Rightarrow> ('t, 'v, 'c) ConfigVar" where
  "ConfigVar_ctor name ty default_value description =
     \<lparr>var_name = map tolower name, m_description = description, var_type = ty, m_val = default_value, m_cbs = []\<rparr>"

definition GetValue :: "('t, 'v, 'c) ConfigVar \<Rightarrow> 'v" where
  "GetValue var = m_val var"

text \<open>\<open>eq\<close> is the \<^verbatim>\<open>operator==\<close> of the variable's type.\<close>

definition SetValue :: "('v \<Rightarrow> 'v \<Rightarrow> bool) \<Rightarrow> 'v \<Rightarrow> ('t, 'v, 'c) ConfigVar \<Rightarrow> ('v, 'c) notification list \<times> ('t, 'v, 'c) ConfigVar" where
  "SetValue eq v var =
     (if eq v (m_val var) then ([], var) else (map (\<lambda>(_, c). (c, m_val var, v)) (m_cbs var), var\<lparr>m_val := v\<rparr>))"

definition FromString ::
  "('v \<Rightarrow> 'v \<Rightarrow> bool) \<Rightarrow> ('t \<Rightarrow> string \<Rightarrow> 'v res) \<Rightarrow> string \<Rightarrow> ('t, 'v, 'c) ConfigVar \<Rightarrow> bool \<times> ('v, 'c) notification list \<times> ('t, 'v, 'c) ConfigVar" where
  "FromString eq from_str s var =
     (case from_str (var_type var) s of
        Inl _ \<Rightarrow> (False, [], var)
      | Inr v \<Rightarrow> (case SetValue eq v var of (calls, var') \<Rightarrow> (False, calls, var')))"

definition ToString :: "('t \<Rightarrow> 'v \<Rightarrow> string res) \<Rightarrow> ('t, 'v, 'c) ConfigVar \<Rightarrow> string" where
  "ToString to_str var = (case to_str (var_type var) (m_val var) of Inl _ \<Rightarrow> [] | Inr s \<Rightarrow> s)"

text \<open>\<^verbatim>\<open>m_cbs\<close> is ordered by key; \<open>s_fun_id\<close> is the static counter of the function.\<close>

definition AddListener :: "'c \<Rightarrow> nat \<Rightarrow> ('t, 'v, 'c) ConfigVar \<Rightarrow> nat \<times> nat \<times> ('t, 'v, 'c) ConfigVar" where
  "AddListener c s_fun_id var =
     (let k = s_fun_id + 1 in
      (k, k, var\<lparr>m_cbs := takeWhile (\<lambda>(i, _). i < k) (m_cbs var) @ (k, c) # dropWhile (\<lambda>(i, _). i \<le> k) (m_cbs var)\<rparr>))"

definition DelListener :: "nat \<Rightarrow> ('t, 'v, 'c) ConfigVar \<Rightarrow> ('t, 'v, 'c) ConfigVar" where
  "DelListener key var = var\<lparr>m_cbs := filter (\<lambda>(i, _). i \<noteq> key) (m_cbs var)\<rparr>"

definition GetListener :: "nat \<Rightarrow> ('t, 'v, 'c) ConfigVar \<Rightarrow> 'c option" where
  "GetListener key var = map_of (m_cbs var) key"

definition ClearListener :: "('t, 'v, 'c) ConfigVar \<Rightarrow> ('t, 'v, 'c) ConfigVar" where
  "ClearListener var = var\<lparr>m_cbs := []\<rparr>"

section \<open>The table\<close>

definition LookupBase :: "string \<Rightarrow> ('t, 'v, 'c) ConfigVarMap \<Rightarrow> ('t, 'v, 'c) ConfigVar option" where
  "LookupBase name datas = datas name"

text \<open>\<^verbatim>\<open>Lookup\<close> with a default value: the variable (none on a type mismatch) and the table.\<close>

definition Lookup_default ::
  "string \<Rightarrow> 't \<Rightarrow> 'v \<Rightarrow> string \<Rightarrow> ('t, 'v, 'c) ConfigVarMap \<Rightarrow> (('t, 'v, 'c) ConfigVar option \<times> ('t, 'v, 'c) ConfigVarMap) res" where
  "Lookup_default name ty default_value description datas =
     (case datas name of
        Some var \<Rightarrow> Inr (if var_type var = ty then Some var else None, datas)
      | None \<Rightarrow>
          if \<not> valid_name name then Inl InvalidArgument
          else let v = ConfigVar_ctor name ty default_value description in Inr (Some v, datas(name \<mapsto> v)))"

definition Lookup :: "string \<Rightarrow> 't \<Rightarrow> ('t, 'v, 'c) ConfigVarMap \<Rightarrow> ('t, 'v, 'c) ConfigVar option" where
  "Lookup name ty datas =
     (case datas name of None \<Rightarrow> None | Some var \<Rightarrow> if var_type var = ty then Some var else None)"

fun ListAllMember :: "string \<Rightarrow> yaml \<Rightarrow> (string \<times> yaml) list" where
  "ListAllMember prefix (YMap kvs) =
     (if \<not> valid_name prefix then []
      else (prefix, YMap kvs) #
        concat (map (\<lambda>kv. ListAllMember (if prefix = [] then fst kv else prefix @ ''.'' @ fst kv) (snd kv)) kvs))"
| "ListAllMember prefix node = (if \<not> valid_name prefix then [] else [(prefix, node)])"

definition node_text :: "(yaml \<Rightarrow> string) \<Rightarrow> yaml \<Rightarrow> string" where
  "node_text emit node = (case node of YScalar s \<Rightarrow> s | _ \<Rightarrow> emit node)"

definition load_node ::
  "('v \<Rightarrow> 'v \<Rightarrow> bool) \<Rightarrow> ('t \<Rightarrow> string \<Rightarrow> 'v res) \<Rightarrow> (yaml \<Rightarrow> string) \<Rightarrow> string \<times> yaml \<Rightarrow>
    ('v, 'c) notification list \<times> ('t, 'v, 'c) ConfigVarMap \<Rightarrow> ('v, 'c) notification list \<times> ('t, 'v, 'c) ConfigVarMap" where
  "load_node eq from_str emit kn st =
     (case (kn, st) of ((key, node), (log, datas)) \<Rightarrow>
        if key = [] then (log, datas)
        else let k = map tolower key in
          (case LookupBase k datas of
             None \<Rightarrow> (log, datas)
           | Some var \<Rightarrow>
               (case FromString eq from_str (node_text emit node) var of (_, calls, var') \<Rightarrow> (log @ calls, datas(k \<mapsto> var')))))"

definition LoadFromYaml ::
  "('v \<Rightarrow> 'v \<Rightarrow> bool) \<Rightarrow> ('t \<Rightarrow> string \<Rightarrow> 'v res) \<Rightarrow> (yaml \<Rightarrow> string) \<Rightarrow> yaml \<Rightarrow> ('t, 'v, 'c) ConfigVarMap \<Rightarrow>
    ('v, 'c) notification list \<times> ('t, 'v, 'c) ConfigVarMap" where
  "LoadFromYaml eq from_str emit root datas =
     fold (load_node eq from_str emit) (ListAllMember [] root) ([], datas)"

text \<open>
  \<^verbatim>\<open>LoadFromConfDir\<close> over the files found: path, modification time and the parsed document (none when
  parsing throws). The first component is \<^verbatim>\<open>s_file2modifytime\<close>, where a missing entry reads as 0.
\<close>

definition load_file ::
  "('v \<Rightarrow> 'v \<Rightarrow> bool) \<Rightarrow> ('t \<Rightarrow> string \<Rightarrow> 'v res) \<Rightarrow> (yaml \<Rightarrow> string) \<Rightarrow> bool \<Rightarrow> string \<times> nat \<times> yaml option \<Rightarrow>
    (string \<Rightarrow> nat) \<times> ('t, 'v, 'c) ConfigVarMap \<Rightarrow> (string \<Rightarrow> nat) \<times> ('t, 'v, 'c) ConfigVarMap" where
  "load_file eq from_str emit force f st =
     (case (f, st) of ((path, mtime, doc), (mtimes, datas)) \<Rightarrow>
        if \<not> force \<and> mtimes path = mtime then (mtimes, datas)
        else (mtimes(path := mtime), case doc of None \<Rightarrow> datas | Some root \<Rightarrow> snd (LoadFromYaml eq from_str emit root datas)))"

definition LoadFromConfDir ::
  "('v \<Rightarrow> 'v \<Rightarrow> bool) \<Rightarrow> ('t \<Rightarrow> string \<Rightarrow> 'v res) \<Rightarrow> (yaml \<Rightarrow> string) \<Rightarrow> bool \<Rightarrow> (string \<times> nat \<times> yaml option) list \<Rightarrow>
    (string \<Rightarrow> nat) \<times> ('t, 'v, 'c) ConfigVarMap \<Rightarrow> (string \<Rightarrow> nat) \<times> ('t, 'v, 'c) ConfigVarMap" where
  "LoadFromConfDir eq from_str emit force files st = fold (load_file eq from_str emit force) files st"

text \<open>\<^verbatim>\<open>Visit\<close> calls its argument with every variable; \<open>names\<close> are the keys in the order the unordered map iterates.\<close>

definition Visit :: "string list \<Rightarrow> ('t, 'v, 'c) ConfigVarMap \<Rightarrow> ('t, 'v, 'c) ConfigVar list" where
  "Visit names datas = List.map_filter datas names"

section \<open>What loading does to one variable\<close>

definition store_text :: "('v \<Rightarrow> 'v \<Rightarrow> bool) \<Rightarrow> ('t \<Rightarrow> string \<Rightarrow> 'v res) \<Rightarrow> 't \<Rightarrow> string \<Rightarrow> 'v \<Rightarrow> 'v" where
  "store_text eq from_str ty s v = (case from_str ty s of Inl _ \<Rightarrow> v | Inr w \<Rightarrow> if eq w v then v else w)"

text \<open>The texts a list of nodes assigns to a name.\<close>

definition texts_for :: "(yaml \<Rightarrow> string) \<Rightarrow> string \<Rightarrow> (string \<times> yaml) list \<Rightarrow> string list" where
  "texts_for emit name kns = map (\<lambda>(_, n). node_text emit n) (filter (\<lambda>(k, _). k \<noteq> [] \<and> map tolower k = name) kns)"

lemma FromString_val: "snd (snd (FromString eq from_str s var)) = var\<lparr>m_val := store_text eq from_str (var_type var) s (m_val var)\<rparr>"
  by (auto simp: FromString_def SetValue_def store_text_def split: sum.split)

lemma load_node_var:
  "snd (load_node eq from_str emit (k, n) st) name =
     (if k \<noteq> [] \<and> map tolower k = name
      then map_option (\<lambda>var. var\<lparr>m_val := store_text eq from_str (var_type var) (node_text emit n) (m_val var)\<rparr>) (snd st name)
      else snd st name)"
proof (cases "snd st (map tolower k)")
  case None
  then show ?thesis by (cases st) (auto simp: load_node_def LookupBase_def Let_def)
next
  case (Some var)
  obtain r calls var' where f: "FromString eq from_str (node_text emit n) var = (r, calls, var')" by (metis prod_cases3)
  with FromString_val[of eq from_str "node_text emit n" var] Some show ?thesis
    by (cases st) (auto simp: load_node_def LookupBase_def Let_def)
qed

lemma fold_load_var:
  "snd (fold (load_node eq from_str emit) kns st) name =
     map_option (\<lambda>var. var\<lparr>m_val := fold (store_text eq from_str (var_type var)) (texts_for emit name kns) (m_val var)\<rparr>) (snd st name)"
proof (induction kns arbitrary: st)
  case Nil
  show ?case by (cases "snd st name") (simp_all add: texts_for_def)
next
  case (Cons kn kns)
  obtain k n where kn: "kn = (k, n)" by (cases kn)
  show ?case unfolding fold_simps kn Cons.IH load_node_var
    by (cases "snd st name") (simp_all add: texts_for_def)
qed

section \<open>Properties\<close>

lemma ListAllMember_invalid: "\<not> valid_name prefix \<Longrightarrow> ListAllMember prefix node = []"
  by (cases node) auto

lemma ListAllMember_head: "valid_name prefix \<Longrightarrow> \<exists>rest. ListAllMember prefix node = (prefix, node) # rest"
  by (cases node) auto

lemma tolower_name: "valid_name name \<Longrightarrow> map tolower name = name"
proof -
  have "\<forall>c \<in> set name_chars. tolower c = c" by code_simp
  then show "valid_name name \<Longrightarrow> ?thesis" by (auto simp: valid_name_def list_all_iff intro: map_idI)
qed

text \<open>
  What a document says, apart from the way the code walks it: its nodes in document order, each with the keys that lead to it, and the dotted
  name of a list of keys (empty keys before the first non-empty one leave no dot).
\<close>

fun subnodes :: "yaml \<Rightarrow> (string list \<times> yaml) list" where
  "subnodes (YMap kvs) = ([], YMap kvs) # concat (map (\<lambda>kv. map (\<lambda>(ks, n). (fst kv # ks, n)) (subnodes (snd kv))) kvs)"
| "subnodes node = [([], node)]"

definition dotted :: "string list \<Rightarrow> string" where
  "dotted ks = (case dropWhile (\<lambda>k. k = []) ks of [] \<Rightarrow> [] | k # rest \<Rightarrow> k @ concat (map (\<lambda>r. CHR ''.'' # r) rest))"

definition document_texts :: "(yaml \<Rightarrow> string) \<Rightarrow> string \<Rightarrow> yaml \<Rightarrow> string list" where
  "document_texts emit name root =
     (if name = [] \<or> \<not> valid_name name then []
      else map (\<lambda>(_, n). node_text emit n) (filter (\<lambda>(ks, _). dotted ks = name) (subnodes root)))"

text \<open>The name below a prefix.\<close>

definition below :: "string \<Rightarrow> string list \<Rightarrow> string" where
  "below prefix ks = (if prefix = [] then dotted ks else prefix @ concat (map (\<lambda>r. CHR ''.'' # r) ks))"

lemma below_Nil: "below prefix [] = prefix"
  by (simp add: below_def dotted_def)

lemma below_Cons: "below prefix (k # ks) = below (if prefix = [] then k else prefix @ ''.'' @ k) ks"
  by (simp add: below_def dotted_def)

lemma below_invalid: "\<not> valid_name prefix \<Longrightarrow> \<not> valid_name (below prefix ks)"
  by (auto simp: below_def valid_name_def)

lemma ListAllMember_subnodes:
  "ListAllMember prefix node = filter (\<lambda>kn. valid_name (fst kn)) (map (\<lambda>(ks, n). (below prefix ks, n)) (subnodes node))"
proof (induction prefix node rule: ListAllMember.induct)
  case (1 prefix kvs)
  let ?f = "\<lambda>kn. valid_name (fst kn)"
  show ?case
  proof (cases "valid_name prefix")
    case True
    have "ListAllMember (if prefix = [] then fst kv else prefix @ ''.'' @ fst kv) (snd kv) =
        filter ?f (map (\<lambda>(ks, n). (below prefix ks, n)) (map (\<lambda>(ks, n). (fst kv # ks, n)) (subnodes (snd kv))))" if "kv \<in> set kvs" for kv
      using "1.IH"[of kv] True that by (simp add: below_Cons case_prod_beta comp_def)
    then have "map (\<lambda>kv. ListAllMember (if prefix = [] then fst kv else prefix @ ''.'' @ fst kv) (snd kv)) kvs =
        map (\<lambda>kv. filter ?f (map (\<lambda>(ks, n). (below prefix ks, n)) (map (\<lambda>(ks, n). (fst kv # ks, n)) (subnodes (snd kv))))) kvs" by simp
    then show ?thesis unfolding ListAllMember.simps subnodes.simps
      by (simp only:) (simp add: True below_Nil filter_concat map_concat comp_def)
  next
    case False
    then have "filter ?f (map (\<lambda>(ks, n). (below prefix ks, n)) (subnodes (YMap kvs))) = []"
      using below_invalid[OF False] by (auto simp: filter_empty_conv)
    with False show ?thesis by simp
  qed
qed (auto simp: below_Nil)

lemma texts_for_document: "texts_for emit name (ListAllMember [] root) = document_texts emit name root"
proof -
  have "(\<lambda>(ks, n). valid_name (dotted ks) \<and> dotted ks \<noteq> [] \<and> map tolower (dotted ks) = name) =
      (\<lambda>(ks, n :: yaml). dotted ks = name \<and> valid_name name \<and> name \<noteq> [])"
    using tolower_name by (fastforce simp: fun_eq_iff)
  then have "filter (\<lambda>x. (case x of (ks, n) \<Rightarrow> valid_name (dotted ks) \<and> dotted ks \<noteq> [] \<and> map tolower (dotted ks) = name)) (subnodes root) =
      filter (\<lambda>(ks, n). dotted ks = name \<and> valid_name name \<and> name \<noteq> []) (subnodes root)" by simp
  then show ?thesis
    by (auto simp: texts_for_def document_texts_def ListAllMember_subnodes below_def filter_map comp_def case_prod_beta conj_commute)
qed

lemma LoadFromYaml_var:
  "snd (LoadFromYaml eq from_str emit root d) name =
     map_option (\<lambda>var. var\<lparr>m_val := fold (store_text eq from_str (var_type var)) (document_texts emit name root) (m_val var)\<rparr>) (d name)"
  by (simp add: LoadFromYaml_def fold_load_var texts_for_document)

text \<open>C31: Loading a document assigns each variable exactly the values the document gives it: for every name
  the variable afterwards is the one before with its value replaced, in turn, by those conversions that succeed, and that the type's \<^verbatim>\<open>operator==\<close> finds
  different from the value so far, of the texts of the nodes that the document has under that dotted name, in document order, at any depth (none if the name is empty or has a character that names may not have);
  variables the document does not mention keep their value, and no variable appears or disappears or changes its type or listeners.\<close>

theorem LoadFromYaml_exact:
  "snd (LoadFromYaml eq from_str emit root datas) name =
     map_option (\<lambda>var. var\<lparr>m_val := fold (store_text eq from_str (var_type var)) (document_texts emit name root) (m_val var)\<rparr>) (datas name)"
  by (rule LoadFromYaml_var)

text \<open>A change of value calls every listener once, in the order of their keys, with the old and the new
  value, and setting the value it already has calls none; \<^verbatim>\<open>FromString\<close> stores the converted value, keeps the
  old one when the conversion throws, and in every case returns false.\<close>

lemma FromString_notifies:
  "FromString eq from_str s var =
     (False,
      case from_str (var_type var) s of
        Inl e \<Rightarrow> []
      | Inr v \<Rightarrow> if eq v (m_val var) then [] else map (\<lambda>(_, c). (c, m_val var, v)) (m_cbs var),
      var\<lparr>m_val := store_text eq from_str (var_type var) s (m_val var)\<rparr>)"
  by (auto simp: FromString_def SetValue_def store_text_def split: sum.split)

text \<open>The digit 9 is missing from the permitted characters, although names are documented as \<open>[0-9a-z_.]\<close>:
  looking up a new variable with a 9 in its name throws \<^verbatim>\<open>std::invalid_argument\<close>, and loading ignores
  everything a document holds under such a key.\<close>

theorem digit_nine_rejected:
  assumes "CHR ''9'' \<in> set name" "datas name = None"
  shows "Lookup_default name ty v desc datas = Inl InvalidArgument \<and>
     LoadFromYaml eq from_str emit (YMap [(name, node)]) datas = ([], datas)"
proof -
  have "CHR ''9'' \<notin> set name_chars" by code_simp
  then have "\<not> valid_name name" using assms(1) by (auto simp: valid_name_def list_all_iff)
  then show ?thesis using assms(2)
    by (simp add: Lookup_default_def LoadFromYaml_def ListAllMember_invalid load_node_def valid_name_def)
qed

theorem digit_nine_rejected_witness:
  "Lookup_default ''port9'' () (0::nat) [] (Map.empty :: (unit, nat, unit) ConfigVarMap) = Inl InvalidArgument"
  using digit_nine_rejected[of "''port9''" "Map.empty :: (unit, nat, unit) ConfigVarMap"] by simp


section \<open>Typed variables\<close>

text \<open>
  The table holds variables of different types under one base class, and \<^verbatim>\<open>Lookup\<close> casts. \<open>has_type\<close> says which values a type has;
  the conversions give values of the type they convert to.
\<close>

definition conv_typed :: "('t \<Rightarrow> 'v \<Rightarrow> bool) \<Rightarrow> ('t \<Rightarrow> string \<Rightarrow> 'v res) \<Rightarrow> bool" where
  "conv_typed has_type from_str \<longleftrightarrow> (\<forall>ty s v. from_str ty s = Inr v \<longrightarrow> has_type ty v)"

definition well_typed :: "('t \<Rightarrow> 'v \<Rightarrow> bool) \<Rightarrow> ('t, 'v, 'c) ConfigVarMap \<Rightarrow> bool" where
  "well_typed has_type datas \<longleftrightarrow> (\<forall>name var. datas name = Some var \<longrightarrow> var_name var = name \<and> has_type (var_type var) (m_val var))"

text \<open>What the program does to the table: registering variables, setting values of their type, changing listeners, and loading.\<close>

inductive cfg_reach :: "('t \<Rightarrow> 'v \<Rightarrow> bool) \<Rightarrow> ('v \<Rightarrow> 'v \<Rightarrow> bool) \<Rightarrow> ('t \<Rightarrow> string \<Rightarrow> 'v res) \<Rightarrow> (yaml \<Rightarrow> string) \<Rightarrow> ('t, 'v, 'c) ConfigVarMap \<Rightarrow> bool"
  for has_type eq from_str emit where
  start: "cfg_reach has_type eq from_str emit Map.empty"
| register: "cfg_reach has_type eq from_str emit d \<Longrightarrow> has_type ty v \<Longrightarrow> Lookup_default name ty v desc d = Inr (r, d') \<Longrightarrow> cfg_reach has_type eq from_str emit d'"
| set_value: "cfg_reach has_type eq from_str emit d \<Longrightarrow> Lookup name ty d = Some var \<Longrightarrow> has_type ty v \<Longrightarrow> SetValue eq v var = (calls, var') \<Longrightarrow>
     cfg_reach has_type eq from_str emit (d(name \<mapsto> var'))"
| listen: "cfg_reach has_type eq from_str emit d \<Longrightarrow> Lookup name ty d = Some var \<Longrightarrow> AddListener c n var = (k, n', var') \<Longrightarrow>
     cfg_reach has_type eq from_str emit (d(name \<mapsto> var'))"
| unlisten: "cfg_reach has_type eq from_str emit d \<Longrightarrow> Lookup name ty d = Some var \<Longrightarrow> cfg_reach has_type eq from_str emit (d(name \<mapsto> DelListener k var))"
| clear: "cfg_reach has_type eq from_str emit d \<Longrightarrow> Lookup name ty d = Some var \<Longrightarrow> cfg_reach has_type eq from_str emit (d(name \<mapsto> ClearListener var))"
| load: "cfg_reach has_type eq from_str emit d \<Longrightarrow> LoadFromYaml eq from_str emit root d = (calls, d') \<Longrightarrow> cfg_reach has_type eq from_str emit d'"

lemma Lookup_Some: "Lookup name ty d = Some var \<longleftrightarrow> d name = Some var \<and> var_type var = ty"
  by (auto simp: Lookup_def split: option.splits)

lemma well_typedD: "well_typed has_type d \<Longrightarrow> d name = Some var \<Longrightarrow> var_name var = name \<and> has_type (var_type var) (m_val var)"
  by (auto simp: well_typed_def)

lemma Lookup_default_cases:
  assumes "Lookup_default name ty v desc d = Inr (r, d')"
  obtains "d' = d" "r = Lookup name ty d" "d name \<noteq> None"
    | "d name = None" "valid_name name" "r = Some (ConfigVar_ctor name ty v desc)" "d' = d(name \<mapsto> ConfigVar_ctor name ty v desc)"
  using assms by (auto simp: Lookup_default_def Lookup_def Let_def split: option.splits if_splits)

lemma fold_store_typed:
  "conv_typed has_type from_str \<Longrightarrow> has_type ty v \<Longrightarrow> has_type ty (fold (store_text eq from_str ty) ss v)"
  by (induction ss arbitrary: v) (auto simp: store_text_def conv_typed_def split: sum.splits)

lemma cfg_reach_typed: "cfg_reach has_type eq from_str emit d \<Longrightarrow> conv_typed has_type from_str \<Longrightarrow> well_typed has_type d"
proof (induction rule: cfg_reach.induct)
  case (register d ty v name desc r d')
  show ?case using register.hyps(3)
  proof (cases rule: Lookup_default_cases)
    case 2
    then show ?thesis using register by (auto simp: well_typed_def ConfigVar_ctor_def tolower_name)
  qed (use register in simp)
next
  case (set_value d name ty var v calls var')
  have "well_typed has_type d" using set_value by blast
  then show ?case using set_value.hyps(2-4)
    by (auto simp: Lookup_Some SetValue_def well_typed_def split: if_splits)
next
  case (listen d name ty var c n k n' var')
  have "well_typed has_type d" using listen by blast
  then show ?case using listen.hyps(2,3)
    by (auto simp: Lookup_Some AddListener_def Let_def well_typed_def)
next
  case (unlisten d name ty var k)
  have "well_typed has_type d" using unlisten by blast
  then show ?case using unlisten.hyps(2) by (auto simp: Lookup_Some DelListener_def well_typed_def)
next
  case (clear d name ty var)
  have "well_typed has_type d" using clear by blast
  then show ?case using clear.hyps(2) by (auto simp: Lookup_Some ClearListener_def well_typed_def)
next
  case (load d root calls d')
  have w: "well_typed has_type d" using load by blast
  have "d' = snd (LoadFromYaml eq from_str emit root d)" by (simp add: load.hyps(2))
  then have d': "d' name = map_option (\<lambda>var. var\<lparr>m_val := fold (store_text eq from_str (var_type var)) (texts_for emit name (ListAllMember [] root)) (m_val var)\<rparr>) (d name)"
    for name by (simp add: LoadFromYaml_def fold_load_var)
  show ?case unfolding well_typed_def d' using w fold_store_typed[OF load.prems] by (auto dest: well_typedD)
qed (simp add: well_typed_def)

text \<open>C30: configuration variables keep their types: in every table the program can reach, a successful \<^verbatim>\<open>Lookup\<close> at a type gives
  the variable of that name with a value of that type; registering a variable again never replaces it: it gives the
  existing variable at its type and nothing at another type; and loading a document changes no
  variable's type.\<close>

theorem config_types_kept:
  assumes "cfg_reach has_type eq from_str emit d" "conv_typed has_type from_str"
  shows "(\<forall>name ty var. Lookup name ty d = Some var \<longrightarrow> has_type ty (GetValue var) \<and> var_name var = name) \<and>
     (\<forall>name ty v desc var. d name = Some var \<longrightarrow> Lookup_default name ty v desc d = Inr (if var_type var = ty then Some var else None, d)) \<and>
     (\<forall>root name. map_option var_type (snd (LoadFromYaml eq from_str emit root d) name) = map_option var_type (d name))"
proof -
  have w: "well_typed has_type d" by (rule cfg_reach_typed[OF assms])
  have "map_option var_type (snd (LoadFromYaml eq from_str emit root d) name) = map_option var_type (d name)" for root name
    by (cases "d name") (simp_all add: LoadFromYaml_def fold_load_var)
  then show ?thesis using w by (auto simp: Lookup_Some GetValue_def Lookup_default_def dest: well_typedD)
qed

theorem config_types_kept_witness:
  "\<exists>d. Lookup_default ''server.port'' True (8000 :: nat) ''port'' (Map.empty :: (bool, nat, unit) ConfigVarMap) =
       Inr (Some (ConfigVar_ctor ''server.port'' True 8000 ''port''), d) \<and> Lookup_default ''server.port'' False 1 [] d = Inr (None, d)"
proof -
  let ?h = "\<lambda>ty (v :: nat). ty \<or> v < 2" and ?c = "\<lambda>ty s. if ty then Inr (length s) else Inr 0 :: nat res"
  let ?v = "ConfigVar_ctor ''server.port'' True 8000 ''port'' :: (bool, nat, unit) ConfigVar"
  have "valid_name ''server.port''" by code_simp
  then have l: "Lookup_default ''server.port'' True 8000 ''port'' Map.empty = Inr (Some ?v, [''server.port'' \<mapsto> ?v])" by (simp add: Lookup_default_def Let_def)
  have "cfg_reach ?h (=) ?c (\<lambda>_. []) [''server.port'' \<mapsto> ?v]" by (rule cfg_reach.register[OF cfg_reach.start _ l]) simp
  moreover have "conv_typed ?h ?c" by (auto simp: conv_typed_def)
  moreover have "[''server.port'' \<mapsto> ?v] ''server.port'' = Some ?v" by simp
  moreover have "\<not> (var_type ?v = False)" by (simp add: ConfigVar_ctor_def)
  ultimately have "Lookup_default ''server.port'' False 1 [] [''server.port'' \<mapsto> ?v] = Inr (None, [''server.port'' \<mapsto> ?v])"
    using config_types_kept[of ?h "(=)" ?c "\<lambda>_. []" "[''server.port'' \<mapsto> ?v]"] by presburger
  with l show ?thesis by blast
qed


section \<open>Loading a directory\<close>

text \<open>The texts the documents of a directory give a name, in the order they are loaded.\<close>

definition conf_texts :: "(yaml \<Rightarrow> string) \<Rightarrow> string \<Rightarrow> (string \<times> nat \<times> yaml option) list \<Rightarrow> string list" where
  "conf_texts emit name files =
     concat (map (\<lambda>(_, _, doc). case doc of None \<Rightarrow> [] | Some root \<Rightarrow> document_texts emit name root) files)"

lemma LoadFromConfDir_var:
  assumes "distinct (map fst files)" "\<forall>f \<in> set files. mtimes (fst f) \<noteq> fst (snd f)"
  shows "snd (LoadFromConfDir eq from_str emit force files (mtimes, d)) name =
     map_option (\<lambda>var. var\<lparr>m_val := fold (store_text eq from_str (var_type var)) (conf_texts emit name files) (m_val var)\<rparr>) (d name)"
  using assms
proof (induction files arbitrary: mtimes d)
  case Nil
  show ?case by (cases "d name") (simp_all add: LoadFromConfDir_def conf_texts_def)
next
  case (Cons f files)
  obtain path mtime doc where f: "f = (path, mtime, doc)" by (metis prod_cases3)
  define d1 where "d1 = (case doc of None \<Rightarrow> d | Some root \<Rightarrow> snd (LoadFromYaml eq from_str emit root d))"
  define mt where "mt = mtimes(path := mtime)"
  have "load_file eq from_str emit force f (mtimes, d) = (mt, d1)" using Cons.prems(2) by (simp add: load_file_def f d1_def mt_def)
  then have "LoadFromConfDir eq from_str emit force (f # files) (mtimes, d) = LoadFromConfDir eq from_str emit force files (mt, d1)"
    by (simp add: LoadFromConfDir_def)
  moreover have "fst g \<noteq> path" if "g \<in> set files" for g using Cons.prems(1) that f by force
  then have "\<forall>g \<in> set files. mt (fst g) \<noteq> fst (snd g)" using Cons.prems(2) by (simp add: mt_def)
  moreover have "d1 name = map_option (\<lambda>var. var\<lparr>m_val := fold (store_text eq from_str (var_type var)) (conf_texts emit name [f]) (m_val var)\<rparr>) (d name)"
    by (cases "d name"; cases doc) (simp_all add: d1_def LoadFromYaml_var conf_texts_def f)
  moreover have "conf_texts emit name (f # files) = conf_texts emit name [f] @ conf_texts emit name files" by (simp add: conf_texts_def)
  ultimately show ?case using Cons.IH[of mt d1] Cons.prems(1) by (cases "d name") simp_all
qed

end
