(* ===== verification/TW_LexicalCast.thy ===== *)
theory TW_LexicalCast
  imports TW_Config "HOL-Library.AList"
begin

text \<open>
  The conversion templates \<^verbatim>\<open>LexicalCast\<close> of \<^verbatim>\<open>include/base/config.h\<close>: between YAML text and strings, vectors,
  lists, sets and maps. The YAML library is a parameter: \<open>load\<close> parses a text or throws, \<open>emit\<close> prints a
  node, \<open>node_size\<close> and \<open>node_at\<close> are \<^verbatim>\<open>size()\<close> and \<^verbatim>\<open>operator[]\<close> with an index, \<open>pairs\<close> lists what the iterators of a node give.
  The conversion of the elements is an argument, as it is a template parameter in the code.
\<close>

section \<open>Through a string stream\<close>

definition isspace :: "char \<Rightarrow> bool" where
  "isspace c \<longleftrightarrow> c \<in> {CHR '' '', CHR 0x09, CHR 0x0A, CHR 0x0B, CHR 0x0C, CHR 0x0D}"

text \<open>The primary template with strings on both sides: extraction skips blanks and stops at the next one.\<close>

definition LexicalCast_string :: "string \<Rightarrow> string" where
  "LexicalCast_string v = takeWhile (\<lambda>c. \<not> isspace c) (dropWhile isspace v)"

section \<open>Loops over fallible conversions\<close>

fun res_map :: "('a \<Rightarrow> 'b res) \<Rightarrow> 'a list \<Rightarrow> 'b list res" where
  "res_map f [] = Inr []"
| "res_map f (x # xs) = res_bind (f x) (\<lambda>y. res_bind (res_map f xs) (\<lambda>ys. Inr (y # ys)))"

lemma res_map_Inr: "\<forall>x \<in> set xs. f x = Inr (g x) \<Longrightarrow> res_map f xs = Inr (map g xs)"
  by (induction xs) auto

lemma res_map_compose:
  "res_map f xs = Inr ys \<Longrightarrow> \<forall>x \<in> set xs. \<forall>y. f x = Inr y \<longrightarrow> g y = Inr x \<Longrightarrow> res_map g ys = Inr xs"
proof (induction xs arbitrary: ys)
  case (Cons x xs)
  then obtain y ys' where "f x = Inr y" "res_map f xs = Inr ys'" "ys = y # ys'" by (auto simp: res_bind_Inr_iff)
  with Cons show ?case by auto
qed simp

section \<open>Sequences\<close>

definition to_vector ::
  "(string \<Rightarrow> yaml res) \<Rightarrow> (yaml \<Rightarrow> string) \<Rightarrow> (yaml \<Rightarrow> nat) \<Rightarrow> (yaml \<Rightarrow> nat \<Rightarrow> yaml) \<Rightarrow> (string \<Rightarrow> 'a res) \<Rightarrow> string \<Rightarrow> 'a list res" where
  "to_vector load emit node_size node_at cast v =
     res_bind (load v) (\<lambda>node. res_map (\<lambda>i. cast (emit (node_at node i))) [0..<node_size node])"

definition from_vector ::
  "(string \<Rightarrow> yaml res) \<Rightarrow> (yaml \<Rightarrow> string) \<Rightarrow> ('a \<Rightarrow> string) \<Rightarrow> 'a list \<Rightarrow> string res" where
  "from_vector load emit cast v = res_bind (res_map (\<lambda>x. load (cast x)) v) (\<lambda>ns. Inr (emit (YSeq ns)))"

text \<open>\<^verbatim>\<open>std::list\<close> goes through the same statements.\<close>

definition to_list ::
  "(string \<Rightarrow> yaml res) \<Rightarrow> (yaml \<Rightarrow> string) \<Rightarrow> (yaml \<Rightarrow> nat) \<Rightarrow> (yaml \<Rightarrow> nat \<Rightarrow> yaml) \<Rightarrow> (string \<Rightarrow> 'a res) \<Rightarrow> string \<Rightarrow> 'a list res" where
  "to_list load emit node_size node_at cast v = to_vector load emit node_size node_at cast v"

definition from_list ::
  "(string \<Rightarrow> yaml res) \<Rightarrow> (yaml \<Rightarrow> string) \<Rightarrow> ('a \<Rightarrow> string) \<Rightarrow> 'a list \<Rightarrow> string res" where
  "from_list load emit cast v = from_vector load emit cast v"

text \<open>The sets insert the elements one by one; printing iterates in the order \<open>elems\<close> of the container.\<close>

definition to_set ::
  "(string \<Rightarrow> yaml res) \<Rightarrow> (yaml \<Rightarrow> string) \<Rightarrow> (yaml \<Rightarrow> nat) \<Rightarrow> (yaml \<Rightarrow> nat \<Rightarrow> yaml) \<Rightarrow> (string \<Rightarrow> 'a res) \<Rightarrow> string \<Rightarrow> 'a set res" where
  "to_set load emit node_size node_at cast v =
     res_bind (to_vector load emit node_size node_at cast v) (\<lambda>xs. Inr (fold insert xs {}))"

definition from_set ::
  "(string \<Rightarrow> yaml res) \<Rightarrow> (yaml \<Rightarrow> string) \<Rightarrow> ('a \<Rightarrow> string) \<Rightarrow> ('a set \<Rightarrow> 'a list) \<Rightarrow> 'a set \<Rightarrow> string res" where
  "from_set load emit cast elems v = from_vector load emit cast (elems v)"

text \<open>The unordered sets differ in the order of iteration only, which the code leaves open.\<close>

definition to_unordered_set ::
  "(string \<Rightarrow> yaml res) \<Rightarrow> (yaml \<Rightarrow> string) \<Rightarrow> (yaml \<Rightarrow> nat) \<Rightarrow> (yaml \<Rightarrow> nat \<Rightarrow> yaml) \<Rightarrow> (string \<Rightarrow> 'a res) \<Rightarrow> string \<Rightarrow> 'a set res" where
  "to_unordered_set load emit node_size node_at cast v =
     res_bind (to_vector load emit node_size node_at cast v) (\<lambda>xs. Inr (fold insert xs {}))"

definition from_unordered_set ::
  "(string \<Rightarrow> yaml res) \<Rightarrow> (yaml \<Rightarrow> string) \<Rightarrow> ('a \<Rightarrow> string) \<Rightarrow> ('a set \<Rightarrow> 'a list) \<Rightarrow> 'a set \<Rightarrow> string res" where
  "from_unordered_set load emit cast elems v = from_vector load emit cast (elems v)"

section \<open>Maps\<close>

text \<open>\<^verbatim>\<open>vec.insert\<close> keeps the entry that is there; \<^verbatim>\<open>node[key] = n\<close> replaces or appends.\<close>

definition map_insert :: "string \<Rightarrow> 'a \<Rightarrow> (string \<rightharpoonup> 'a) \<Rightarrow> string \<rightharpoonup> 'a" where
  "map_insert k x m = (case m k of None \<Rightarrow> m(k \<mapsto> x) | Some _ \<Rightarrow> m)"

definition to_map ::
  "(string \<Rightarrow> yaml res) \<Rightarrow> (yaml \<Rightarrow> string) \<Rightarrow> (yaml \<Rightarrow> (string \<times> yaml) list) \<Rightarrow> (string \<Rightarrow> 'a res) \<Rightarrow> string \<Rightarrow> (string \<rightharpoonup> 'a) res" where
  "to_map load emit pairs cast v =
     res_bind (load v) (\<lambda>node.
     res_bind (res_map (\<lambda>(k, n). res_bind (cast (emit n)) (\<lambda>x. Inr (k, x))) (pairs node)) (\<lambda>kxs.
     Inr (fold (\<lambda>(k, x). map_insert k x) kxs Map.empty)))"

definition from_map ::
  "(string \<Rightarrow> yaml res) \<Rightarrow> (yaml \<Rightarrow> string) \<Rightarrow> ('a \<Rightarrow> string) \<Rightarrow> ((string \<rightharpoonup> 'a) \<Rightarrow> (string \<times> 'a) list) \<Rightarrow> (string \<rightharpoonup> 'a) \<Rightarrow> string res" where
  "from_map load emit cast entries v =
     res_bind (res_map (\<lambda>(k, x). res_bind (load (cast x)) (\<lambda>n. Inr (k, n))) (entries v)) (\<lambda>kns.
     Inr (emit (YMap (fold (\<lambda>(k, n). AList.update k n) kns []))))"

definition to_unordered_map ::
  "(string \<Rightarrow> yaml res) \<Rightarrow> (yaml \<Rightarrow> string) \<Rightarrow> (yaml \<Rightarrow> (string \<times> yaml) list) \<Rightarrow> (string \<Rightarrow> 'a res) \<Rightarrow> string \<Rightarrow> (string \<rightharpoonup> 'a) res" where
  "to_unordered_map load emit pairs cast v = to_map load emit pairs cast v"

definition from_unordered_map ::
  "(string \<Rightarrow> yaml res) \<Rightarrow> (yaml \<Rightarrow> string) \<Rightarrow> ('a \<Rightarrow> string) \<Rightarrow> ((string \<rightharpoonup> 'a) \<Rightarrow> (string \<times> 'a) list) \<Rightarrow> (string \<rightharpoonup> 'a) \<Rightarrow> string res" where
  "from_unordered_map load emit cast entries v = from_map load emit cast entries v"

section \<open>Round trips\<close>

lemma set_fold_insert: "fold insert xs A = set xs \<union> A"
  by (induction xs arbitrary: A) auto

lemma map_insert_apply: "map_insert k x m j = (if j = k \<and> m k = None then Some x else m j)"
  by (auto simp: map_insert_def split: option.split)

lemma fold_map_insert: "fold (\<lambda>(k, x). map_insert k x) kxs m j = (case m j of Some y \<Rightarrow> Some y | None \<Rightarrow> map_of kxs j)"
  by (induction kxs arbitrary: m) (auto simp: map_insert_apply split: option.splits)

lemma fold_update_distinct:
  "distinct (map fst kns) \<Longrightarrow> fst ` set kns \<inter> fst ` set al = {} \<Longrightarrow> fold (\<lambda>(k, n). AList.update k n) kns al = al @ kns"
proof (induction kns arbitrary: al)
  case (Cons kn kns)
  have upd: "AList.update (fst kn) (snd kn) al = al @ [kn]"
    using Cons.prems(2) by (induction al) auto
  have "fold (\<lambda>(k, n). AList.update k n) kns (al @ [kn]) = (al @ [kn]) @ kns"
    using Cons.prems by (intro Cons.IH) auto
  with upd show ?case by (cases kn) simp
qed simp

text \<open>What the code relies on in the YAML library, for the nodes \<open>node x\<close> the printed elements load as.\<close>

definition elems_read_back ::
  "(string \<Rightarrow> yaml res) \<Rightarrow> (yaml \<Rightarrow> string) \<Rightarrow> ('a \<Rightarrow> string) \<Rightarrow> (string \<Rightarrow> 'a res) \<Rightarrow> ('a \<Rightarrow> yaml) \<Rightarrow> 'a list \<Rightarrow> bool" where
  "elems_read_back load emit to_s from_s node xs \<longleftrightarrow>
     list_all (\<lambda>x. load (to_s x) = Inr (node x) \<and> from_s (emit (node x)) = Inr x) xs"

definition seq_reads_back ::
  "(string \<Rightarrow> yaml res) \<Rightarrow> (yaml \<Rightarrow> string) \<Rightarrow> (yaml \<Rightarrow> nat) \<Rightarrow> (yaml \<Rightarrow> nat \<Rightarrow> yaml) \<Rightarrow> yaml list \<Rightarrow> bool" where
  "seq_reads_back load emit node_size node_at ns \<longleftrightarrow>
     load (emit (YSeq ns)) = Inr (YSeq ns) \<and> node_size (YSeq ns) = length ns \<and> map (node_at (YSeq ns)) [0..<length ns] = ns"

definition map_reads_back ::
  "(string \<Rightarrow> yaml res) \<Rightarrow> (yaml \<Rightarrow> string) \<Rightarrow> (yaml \<Rightarrow> (string \<times> yaml) list) \<Rightarrow> (string \<times> yaml) list \<Rightarrow> bool" where
  "map_reads_back load emit pairs kns \<longleftrightarrow> load (emit (YMap kns)) = Inr (YMap kns) \<and> pairs (YMap kns) = kns"

lemma vector_roundtrip:
  assumes "elems_read_back load emit to_s from_s node xs" "seq_reads_back load emit node_size node_at (map node xs)"
  shows "res_bind (from_vector load emit to_s xs) (to_vector load emit node_size node_at from_s) = Inr xs"
proof -
  have elems: "\<forall>x \<in> set xs. load (to_s x) = Inr (node x)" "\<forall>x \<in> set xs. from_s (emit (node x)) = Inr x"
    using assms(1) by (auto simp: elems_read_back_def list_all_iff)
  have at: "node_at (YSeq (map node xs)) i = node (xs ! i)" if "i < length xs" for i
    using arg_cong[of _ _ "\<lambda>l. l ! i", OF conjunct2[OF conjunct2[OF assms(2)[unfolded seq_reads_back_def]]]] that by simp
  have "res_map (\<lambda>i. from_s (emit (node_at (YSeq (map node xs)) i))) [0..<length xs] = Inr (map ((!) xs) [0..<length xs])"
    using elems(2) at by (intro res_map_Inr) simp
  then show ?thesis using assms(2) res_map_Inr[OF elems(1)]
    by (simp add: from_vector_def to_vector_def seq_reads_back_def map_nth)
qed

lemma map_roundtrip:
  assumes "elems_read_back load emit to_s from_s node (map snd kxs)" "distinct (map fst kxs)"
    and "map_reads_back load emit pairs (map (apsnd node) kxs)"
  shows "res_bind (from_map load emit to_s (\<lambda>_. kxs) m) (to_map load emit pairs from_s) = Inr (map_of kxs)"
proof -
  have elems: "\<forall>x \<in> set kxs. load (to_s (snd x)) = Inr (node (snd x))" "\<forall>x \<in> set kxs. from_s (emit (node (snd x))) = Inr (snd x)"
    using assms(1) by (auto simp: elems_read_back_def list_all_iff)
  have 1: "res_map (\<lambda>(k, x). res_bind (load (to_s x)) (\<lambda>n. Inr (k, n))) kxs = Inr (map (apsnd node) kxs)"
    using elems(1) by (intro res_map_Inr) (auto simp: apsnd_def map_prod_def)
  have 2: "res_map (\<lambda>kn. res_bind (from_s (emit (snd kn))) (\<lambda>x. Inr (fst kn, x))) (map (apsnd node) kxs) = Inr kxs"
    using elems(2) by (induction kxs) (auto simp: apsnd_def map_prod_def)
  have "distinct (map fst (map (apsnd node) kxs))" using assms(2) by (simp add: comp_def)
  then have 3: "fold (\<lambda>(k, n). AList.update k n) (map (apsnd node) kxs) [] = map (apsnd node) kxs"
    using fold_update_distinct[of _ "[]"] by fastforce
  have 4: "fold (\<lambda>(k, x). map_insert k x) kxs Map.empty = map_of kxs"
    by (rule ext) (simp add: fold_map_insert)
  show ?thesis using assms(3) 1 2 3 4
    by (simp add: from_map_def to_map_def map_reads_back_def case_prod_beta')
qed

text \<open>Configuration containers survive the conversion to YAML text and back: when the library reads
  printed nodes back and the element conversion inverts itself on the elements, a vector, list or set
  gives the same elements, and a map the same entries.\<close>

theorem container_roundtrip:
  assumes "elems_read_back load emit to_s from_s node xs" "seq_reads_back load emit node_size node_at (map node xs)"
    and "elems_read_back load emit to_s from_s node (map snd kxs)" "map_reads_back load emit pairs (map (apsnd node) kxs)"
    and "distinct (map fst kxs)" "set (elems S) = S" "elems S = xs" "entries M = kxs" "map_of kxs = M"
  shows "res_bind (from_vector load emit to_s xs) (to_vector load emit node_size node_at from_s) = Inr xs \<and>
         res_bind (from_list load emit to_s xs) (to_list load emit node_size node_at from_s) = Inr xs \<and>
         res_bind (from_set load emit to_s elems S) (to_set load emit node_size node_at from_s) = Inr S \<and>
         res_bind (from_map load emit to_s entries M) (to_map load emit pairs from_s) = Inr M"
proof -
  note v = vector_roundtrip[OF assms(1,2)]
  have "from_map load emit to_s entries M = from_map load emit to_s (\<lambda>_. kxs) M" using assms(8) by (simp add: from_map_def)
  then have m: "res_bind (from_map load emit to_s entries M) (to_map load emit pairs from_s) = Inr M"
    using map_roundtrip[OF assms(3,5,4)] assms(9) by simp
  have "res_bind (from_set load emit to_s elems S) (to_set load emit node_size node_at from_s) = Inr S"
    using v assms(6,7) by (cases "from_vector load emit to_s xs") (auto simp: from_set_def to_set_def set_fold_insert)
  moreover have "to_list load emit node_size node_at from_s = to_vector load emit node_size node_at from_s"
    by (rule ext) (simp add: to_list_def)
  ultimately show ?thesis using v m by (simp add: from_list_def)
qed

text \<open>A one-level printer and its reader, for the sequence and the map of the witness.\<close>

fun demo_emit :: "yaml \<Rightarrow> string" where
  "demo_emit (YScalar t) = t"
| "demo_emit (YSeq ns) = ''[3, 7]''"
| "demo_emit (YMap kns) = ''{a: 3}''"
| "demo_emit YNull = ''~''"

definition demo_load :: "string \<Rightarrow> yaml res" where
  "demo_load t = (if t = ''[3, 7]'' then Inr (YSeq [YScalar ''3'', YScalar ''7''])
                  else if t = ''{a: 3}'' then Inr (YMap [(''a'', YScalar ''3'')]) else Inr (YScalar t))"

definition demo_at :: "yaml \<Rightarrow> nat \<Rightarrow> yaml" where
  "demo_at n i = (case n of YSeq ns \<Rightarrow> ns ! i | _ \<Rightarrow> YNull)"

lemma demo_digits: "show_nat 3 = ''3''" "show_nat 7 = ''7''" "read_nat ''3'' = 3" "read_nat ''7'' = 7"
  by code_simp+

theorem container_roundtrip_witness:
  "res_bind (from_set demo_load demo_emit show_nat sorted_list_of_set {3, 7})
     (to_set demo_load demo_emit (\<lambda>_. 2) demo_at (\<lambda>t. Inr (read_nat t))) = Inr {3, 7}"
proof -
  have "sorted_list_of_set {3, 7 :: nat} = [3, 7]" by code_simp
  moreover have "[0..<2] = [0, 1 :: nat]" by code_simp
  ultimately show ?thesis
    using container_roundtrip[of demo_load demo_emit show_nat "\<lambda>t. Inr (read_nat t)" "\<lambda>x. YScalar (show_nat x)" "[3, 7]" "\<lambda>_. 2" demo_at
        "[(''a'', 3)]" "\<lambda>_. [(''a'', YScalar ''3'')]" sorted_list_of_set "{3, 7}" "\<lambda>_. [(''a'', 3)]" "[''a'' \<mapsto> 3]"]
    by (simp add: elems_read_back_def seq_reads_back_def map_reads_back_def demo_load_def demo_digits demo_at_def)
qed

text \<open>A string value keeps only its first word.\<close>

lemma LexicalCast_string_first_word:
  assumes "list_all (\<lambda>c. \<not> isspace c) w" "w \<noteq> []" "isspace c"
  shows "LexicalCast_string (w @ c # rest) = w" "LexicalCast_string w = w"
proof -
  have "dropWhile isspace (w @ r) = w @ r" for r using assms(1,2) by (cases w) auto
  from this[of "c # rest"] this[of "[]"] show "LexicalCast_string (w @ c # rest) = w" "LexicalCast_string w = w"
    using assms(1,3) by (auto simp: LexicalCast_string_def list_all_iff takeWhile_eq_all_conv)
qed

text \<open>The round trip holds for the unordered containers too, whatever their order of iteration.\<close>

lemma unordered_conversions:
  "to_unordered_set = to_set" "from_unordered_set = from_set" "to_unordered_map = to_map" "from_unordered_map = from_map"
  by (intro ext, simp add: to_unordered_set_def to_set_def from_unordered_set_def from_set_def to_unordered_map_def from_unordered_map_def)+


section \<open>Numbers\<close>

text \<open>
  The primary template with a text and a number: \<^verbatim>\<open>ret\<close> is not initialised, \<open>ret0\<close> is what it holds. Extraction skips blanks; when nothing
  is left it fails before it stores anything. Otherwise it reads a sign and decimal digits up to the first other character, as libstdc++
  does, stores 0 when there is no digit and the nearest limit when the number is out of range; a minus before an unsigned
  number negates it modulo the width. Neither the state of the stream nor what follows the digits is looked at.
\<close>

definition isdigit :: "char \<Rightarrow> bool" where
  "isdigit c \<longleftrightarrow> 48 \<le> (of_char c :: nat) \<and> (of_char c :: nat) \<le> 57"

definition scan_number :: "string \<Rightarrow> (bool \<times> nat) option" where
  "scan_number s =
     (let neg = (s \<noteq> [] \<and> hd s = CHR ''-''); t = (if s \<noteq> [] \<and> hd s \<in> {CHR ''-'', CHR ''+''} then tl s else s); ds = takeWhile isdigit t in
      if ds = [] then None else Some (neg, read_nat ds))"

definition LexicalCast_unsigned :: "nat \<Rightarrow> int \<Rightarrow> string \<Rightarrow> int" where
  "LexicalCast_unsigned w ret0 v =
     (let s = dropWhile isspace v in
      if s = [] then ret0
      else case scan_number s of
        None \<Rightarrow> 0
      | Some (neg, n) \<Rightarrow> if int n \<ge> 2 ^ w then 2 ^ w - 1 else if neg then (- int n) mod 2 ^ w else int n)"

definition LexicalCast_int :: "int \<Rightarrow> string \<Rightarrow> int" where
  "LexicalCast_int ret0 v =
     (let s = dropWhile isspace v in
      if s = [] then ret0
      else case scan_number s of
        None \<Rightarrow> 0
      | Some (neg, n) \<Rightarrow> if neg then max (- (2 ^ 31)) (- int n) else min (2 ^ 31 - 1) (int n))"

lemma isdigit_char: "d < 10 \<Longrightarrow> isdigit (digit_char d)"
  by (simp add: isdigit_def digit_char_def)

lemma show_nat_isdigit: "list_all isdigit (show_nat n)"
proof (induction n rule: show_nat.induct)
  case (1 n)
  then show ?case by (subst show_nat.simps) (auto simp: isdigit_char)
qed

lemma show_nat_nonempty: "show_nat n \<noteq> []"
  by (subst show_nat.simps) simp

lemma isdigit_plain: "isdigit c \<Longrightarrow> \<not> isspace c \<and> c \<noteq> CHR ''-'' \<and> c \<noteq> CHR ''+''"
  by (auto simp: isdigit_def isspace_def)

lemma takeWhile_digits: "rest = [] \<or> \<not> isdigit (hd rest) \<Longrightarrow> takeWhile isdigit (show_nat n @ rest) = show_nat n"
  using show_nat_isdigit[of n] by (cases rest) (auto simp: list_all_iff takeWhile_append takeWhile_eq_all_conv)

lemma show_nat_head: "\<exists>c cs. show_nat n = c # cs \<and> isdigit c"
  using show_nat_isdigit[of n] show_nat_nonempty[of n] by (cases "show_nat n") auto

text \<open>Blanks before a number and anything but a digit after it change nothing.\<close>

lemma scan_to_string:
  assumes "rest = [] \<or> \<not> isdigit (hd rest)"
  shows "scan_number (to_string i @ rest) = Some (i < 0, nat \<bar>i\<bar>)"
proof -
  obtain c cs where "show_nat (nat i) = c # cs" "isdigit c" using show_nat_head by blast
  then have "scan_number (show_nat (nat i) @ rest) = Some (False, nat i)"
    using takeWhile_digits[OF assms, of "nat i"] read_show_nat[of "nat i"] isdigit_plain[of c] by (auto simp: scan_number_def)
  moreover have "scan_number (CHR ''-'' # show_nat (nat (- i)) @ rest) = Some (True, nat (- i))"
    using takeWhile_digits[OF assms, of "nat (- i)"] show_nat_nonempty read_show_nat by (simp add: scan_number_def)
  ultimately show ?thesis by (simp add: to_string_def)
qed

lemma skip_to_number: "list_all isspace ws \<Longrightarrow> dropWhile isspace (ws @ to_string i @ rest) = to_string i @ rest"
proof (induction ws)
  case Nil
  obtain c cs where "show_nat (nat i) = c # cs" "isdigit c" using show_nat_head by blast
  moreover have "\<not> isspace CHR ''-''" by (simp add: isspace_def)
  ultimately show ?case using isdigit_plain[of c] by (auto simp: to_string_def)
qed simp

lemma LexicalCast_int_reads:
  assumes "list_all isspace ws" "rest = [] \<or> \<not> isdigit (hd rest)" "- (2 ^ 31) \<le> i" "i < 2 ^ 31"
  shows "LexicalCast_int ret0 (ws @ to_string i @ rest) = i"
proof -
  have "to_string i \<noteq> []" using show_nat_nonempty by (simp add: to_string_def)
  then show ?thesis using assms(3,4) skip_to_number[OF assms(1)] scan_to_string[OF assms(2)] by (auto simp: LexicalCast_int_def Let_def)
qed

lemma LexicalCast_unsigned_reads:
  assumes "list_all isspace ws" "rest = [] \<or> \<not> isdigit (hd rest)" "0 \<le> i" "i < 2 ^ w"
  shows "LexicalCast_unsigned w ret0 (ws @ to_string i @ rest) = i"
proof -
  have "to_string i \<noteq> []" using show_nat_nonempty by (simp add: to_string_def)
  then show ?thesis using assms(3,4) skip_to_number[OF assms(1)] scan_to_string[OF assms(2)] by (auto simp: LexicalCast_unsigned_def Let_def)
qed

text \<open>Whatever the text, the result is in the range of the type, if what the memory held was.\<close>

lemma LexicalCast_ranges:
  "- (2 ^ 31) \<le> r0 \<and> r0 < 2 ^ 31 \<Longrightarrow> - (2 ^ 31) \<le> LexicalCast_int r0 v \<and> LexicalCast_int r0 v < 2 ^ 31"
  "0 \<le> r1 \<and> r1 < 2 ^ w \<Longrightarrow> 0 \<le> LexicalCast_unsigned w r1 v \<and> LexicalCast_unsigned w r1 v < 2 ^ w"
  by (auto simp: LexicalCast_int_def LexicalCast_unsigned_def Let_def split: option.split)

text \<open>A blank text stores nothing: the value is whatever the variable happened to hold.\<close>

lemma blank_number_indeterminate:
  "list_all isspace v \<Longrightarrow> LexicalCast_int r0 v = r0 \<and> LexicalCast_unsigned w r1 v = r1"
  by (simp add: LexicalCast_int_def LexicalCast_unsigned_def Let_def list_all_iff dropWhile_eq_Nil_conv)

end
