(* ===== verification/TW_LogFormat.thy ===== *)
theory TW_LogFormat
  imports TW_Prelude
begin

text \<open>
  The formatting half of \<^verbatim>\<open>src/base/log.cpp\<close> and \<^verbatim>\<open>include/base/log.h\<close>: log levels, log events, format
  items and the pattern parser \<^verbatim>\<open>LogFormatter::Init\<close>. \<open>date_text\<close> is what \<^verbatim>\<open>localtime_r\<close> and \<^verbatim>\<open>strftime\<close> leave
  in the buffer of a date item. Reading behind the terminator of the pattern is \<^term>\<open>Inl OutOfBounds\<close>.
\<close>

section \<open>Levels\<close>

datatype Level = FATAL | ALERT | CRIT | ERROR | WARN | NOTICE | INFO | DEBUG | NOTSET

fun level_val :: "Level \<Rightarrow> nat" where
  "level_val FATAL = 0"
| "level_val ALERT = 100"
| "level_val CRIT = 200"
| "level_val ERROR = 300"
| "level_val WARN = 400"
| "level_val NOTICE = 500"
| "level_val INFO = 600"
| "level_val DEBUG = 700"
| "level_val NOTSET = 800"

text \<open>Levels are compared by their numbers: the more severe, the smaller.\<close>

lemma level_val_inject [simp]: "level_val l = level_val l' \<longleftrightarrow> l = l'"
  by (cases l; cases l') simp_all

instantiation Level :: linorder
begin

definition less_eq_Level :: "Level \<Rightarrow> Level \<Rightarrow> bool" where
  "l \<le> l' \<longleftrightarrow> level_val l \<le> level_val l'"

definition less_Level :: "Level \<Rightarrow> Level \<Rightarrow> bool" where
  "l < l' \<longleftrightarrow> level_val l < level_val l'"

instance
  by standard (auto simp: less_eq_Level_def less_Level_def)

end

lemma level_bounds [simp]: "FATAL \<le> l" "l \<le> NOTSET"
  by (cases l; simp add: less_eq_Level_def)+

fun LogLevel_ToString :: "Level \<Rightarrow> string" where
  "LogLevel_ToString FATAL = ''FATAL''"
| "LogLevel_ToString ALERT = ''ALERT''"
| "LogLevel_ToString CRIT = ''CRIT''"
| "LogLevel_ToString ERROR = ''ERROR''"
| "LogLevel_ToString WARN = ''WARN''"
| "LogLevel_ToString NOTICE = ''NOTICE''"
| "LogLevel_ToString INFO = ''INFO''"
| "LogLevel_ToString DEBUG = ''DEBUG''"
| "LogLevel_ToString NOTSET = ''NOTSET''"

definition LogLevel_FromString :: "string \<Rightarrow> Level" where
  "LogLevel_FromString str =
     (if str = ''fatal'' then FATAL else if str = ''alert'' then ALERT else if str = ''crit'' then CRIT
      else if str = ''error'' then ERROR else if str = ''warn'' then WARN else if str = ''notice'' then NOTICE
      else if str = ''info'' then INFO else if str = ''debug'' then DEBUG
      else if str = ''FATAL'' then FATAL else if str = ''ALERT'' then ALERT else if str = ''CRIT'' then CRIT
      else if str = ''ERROR'' then ERROR else if str = ''WARN'' then WARN else if str = ''NOTICE'' then NOTICE
      else if str = ''INFO'' then INFO else if str = ''DEBUG'' then DEBUG else NOTSET)"

lemma level_roundtrip [simp]: "LogLevel_FromString (LogLevel_ToString l) = l"
  by (cases l) (simp_all add: LogLevel_FromString_def)

section \<open>Events and format items\<close>

record LogEvent =
  ev_level :: Level
  ev_content :: string
  ev_file :: string
  ev_line :: int
  ev_elapse :: int
  ev_time :: int
  ev_loggerName :: string

datatype FormatItem =
    MessageFormatItem | LevelFormatItem | ElapseFormatItem | LoggerNameFormatItem | DateTimeFormatItem string
  | FileNameFormatItem | LineFormatItem | NewLineFormatItem | StringFormatItem string | TabFormatItem | PercentSignFormatItem

definition DateTimeFormatItem_ctor :: "string \<Rightarrow> FormatItem" where
  "DateTimeFormatItem_ctor format = DateTimeFormatItem (if format = [] then ''%Y-%m-%d %H:%M:%S'' else format)"

fun item_Format :: "(string \<Rightarrow> int \<Rightarrow> string) \<Rightarrow> LogEvent \<Rightarrow> FormatItem \<Rightarrow> string" where
  "item_Format date_text ev MessageFormatItem = ev_content ev"
| "item_Format date_text ev LevelFormatItem = LogLevel_ToString (ev_level ev)"
| "item_Format date_text ev ElapseFormatItem = to_string (ev_elapse ev)"
| "item_Format date_text ev LoggerNameFormatItem = ev_loggerName ev"
| "item_Format date_text ev (DateTimeFormatItem f) = date_text f (ev_time ev)"
| "item_Format date_text ev FileNameFormatItem = ev_file ev"
| "item_Format date_text ev LineFormatItem = to_string (ev_line ev)"
| "item_Format date_text ev NewLineFormatItem = [CHR 0x0A]"
| "item_Format date_text ev (StringFormatItem s) = s"
| "item_Format date_text ev TabFormatItem = [CHR 0x09]"
| "item_Format date_text ev PercentSignFormatItem = ''%''"

section \<open>The pattern parser\<close>

text \<open>
  The loop of \<^verbatim>\<open>Init\<close> over the rest of the pattern. Results: the collected pieces (the flag is set for a
  conversion character), the pending text, the date format, and whether an error was found. After a
  \<^verbatim>\<open>%d\<close> that ends the pattern the index is one behind the terminator.
\<close>

type_synonym piece = "bool \<times> string"

function init_loop :: "string \<Rightarrow> bool \<Rightarrow> piece list \<Rightarrow> string \<Rightarrow> string \<Rightarrow> (piece list \<times> string \<times> string \<times> bool) res" where
  "init_loop [] parsing_string patterns tmp dateformat = Inr (patterns, tmp, dateformat, False)"
| "init_loop (c # cs) parsing_string patterns tmp dateformat =
     (if c = CHR ''%'' then
        (if parsing_string then init_loop cs False (patterns @ (if tmp \<noteq> [] then [(False, tmp)] else [])) [] dateformat
         else init_loop cs True (patterns @ [(True, [c])]) tmp dateformat)
      else if parsing_string then init_loop cs True patterns (tmp @ [c]) dateformat
      else if c \<noteq> CHR ''d'' then init_loop cs True (patterns @ [(True, [c])]) tmp dateformat
      else (case cs of
              [] \<Rightarrow> Inl OutOfBounds
            | b # bs \<Rightarrow>
                if b \<noteq> CHR ''{'' then init_loop cs True (patterns @ [(True, [c])]) tmp dateformat
                else let f = takeWhile (\<lambda>x. x \<noteq> CHR ''}'') bs in
                  (case dropWhile (\<lambda>x. x \<noteq> CHR ''}'') bs of
                     [] \<Rightarrow> Inr (patterns @ [(True, [c])], tmp, dateformat @ f, True)
                   | _ # rest \<Rightarrow> init_loop rest True (patterns @ [(True, [c])]) tmp (dateformat @ f))))"
  by pat_completeness auto
termination
proof (relation "measure (\<lambda>(cs, _). length cs)", goal_cases)
  case (7 c cs parsing_string patterns tmp dateformat b bs f x rest)
  then have "length rest < length bs"
    by (metis Suc_le_lessD length_Cons length_dropWhile_le)
  with 7 show ?case by simp
qed simp_all

definition s_format_items :: "string \<Rightarrow> FormatItem option" where
  "s_format_items s =
     map_of [(''m'', MessageFormatItem), (''p'', LevelFormatItem), (''c'', LoggerNameFormatItem), (''d'', DateTimeFormatItem_ctor s),
             (''r'', ElapseFormatItem), (''f'', FileNameFormatItem), (''l'', LineFormatItem), (''%'', PercentSignFormatItem),
             (''T'', TabFormatItem), (''n'', NewLineFormatItem)] s"

text \<open>The second loop stops at the first unknown conversion and keeps the items made so far.\<close>

fun make_items :: "string \<Rightarrow> piece list \<Rightarrow> FormatItem list \<Rightarrow> FormatItem list \<times> bool" where
  "make_items dateformat [] items = (items, False)"
| "make_items dateformat ((conv, s) # ps) items =
     (if \<not> conv then make_items dateformat ps (items @ [StringFormatItem s])
      else if s = ''d'' then make_items dateformat ps (items @ [DateTimeFormatItem_ctor dateformat])
      else case s_format_items s of
        None \<Rightarrow> (items, True)
      | Some it \<Rightarrow> make_items dateformat ps (items @ [it]))"

record LogFormatter =
  m_pattern :: string
  m_items :: "FormatItem list"
  m_error :: bool

definition LogFormatter_Init :: "LogFormatter \<Rightarrow> LogFormatter res" where
  "LogFormatter_Init lf =
     res_bind (init_loop (m_pattern lf) True [] [] []) (\<lambda>(patterns, tmp, dateformat, error).
       if error then Inr (lf\<lparr>m_error := True\<rparr>)
       else case make_items dateformat (patterns @ (if tmp \<noteq> [] then [(False, tmp)] else [])) (m_items lf) of
         (items, err) \<Rightarrow> Inr (lf\<lparr>m_items := items, m_error := err\<rparr>))"

definition LogFormatter_ctor :: "string \<Rightarrow> LogFormatter res" where
  "LogFormatter_ctor pattern = LogFormatter_Init \<lparr>m_pattern = pattern, m_items = [], m_error = False\<rparr>"

definition default_pattern :: string where
  "default_pattern = ''[%d{%Y-%m-%d %H:%M:%S}][%rms][%p][%c][%f:%l] %m%n''"

definition LogFormatter_Format :: "(string \<Rightarrow> int \<Rightarrow> string) \<Rightarrow> LogFormatter \<Rightarrow> LogEvent \<Rightarrow> string" where
  "LogFormatter_Format date_text lf ev = concat (map (item_Format date_text ev) (m_items lf))"


section \<open>Printing and parsing patterns\<close>

fun item_char :: "FormatItem \<Rightarrow> char" where
  "item_char MessageFormatItem = CHR ''m''"
| "item_char LevelFormatItem = CHR ''p''"
| "item_char ElapseFormatItem = CHR ''r''"
| "item_char LoggerNameFormatItem = CHR ''c''"
| "item_char (DateTimeFormatItem f) = CHR ''d''"
| "item_char FileNameFormatItem = CHR ''f''"
| "item_char LineFormatItem = CHR ''l''"
| "item_char NewLineFormatItem = CHR ''n''"
| "item_char (StringFormatItem s) = CHR 0x00"
| "item_char TabFormatItem = CHR ''T''"
| "item_char PercentSignFormatItem = CHR ''%''"

fun item_text :: "FormatItem \<Rightarrow> string" where
  "item_text (StringFormatItem s) = s"
| "item_text (DateTimeFormatItem f) = ''%d{'' @ f @ ''}''"
| "item_text it = [CHR ''%'', item_char it]"

fun item_piece :: "FormatItem \<Rightarrow> piece" where
  "item_piece (StringFormatItem s) = (False, s)"
| "item_piece it = (True, [item_char it])"

fun item_ok :: "FormatItem \<Rightarrow> bool" where
  "item_ok (StringFormatItem s) \<longleftrightarrow> s \<noteq> [] \<and> CHR ''%'' \<notin> set s"
| "item_ok (DateTimeFormatItem f) \<longleftrightarrow> f \<noteq> [] \<and> CHR ''}'' \<notin> set f"
| "item_ok it \<longleftrightarrow> True"

fun is_String :: "FormatItem \<Rightarrow> bool" where
  "is_String (StringFormatItem s) \<longleftrightarrow> True"
| "is_String it \<longleftrightarrow> False"

fun item_dates :: "FormatItem list \<Rightarrow> string list" where
  "item_dates [] = []"
| "item_dates (DateTimeFormatItem f # its) = f # item_dates its"
| "item_dates (it # its) = item_dates its"

text \<open>Items a pattern can denote: texts without percent sign, never two in a row, and one date at most.\<close>

fun separated :: "FormatItem list \<Rightarrow> bool" where
  "separated (a # b # its) \<longleftrightarrow> \<not> (is_String a \<and> is_String b) \<and> separated (b # its)"
| "separated its \<longleftrightarrow> True"

definition printable :: "FormatItem list \<Rightarrow> bool" where
  "printable its \<longleftrightarrow> list_all item_ok its \<and> separated its \<and> length (item_dates its) \<le> 1"

definition pattern_text :: "FormatItem list \<Rightarrow> string" where
  "pattern_text its = concat (map item_text its)"

definition pending_text :: "string \<Rightarrow> piece list" where
  "pending_text tmp = (if tmp \<noteq> [] then [(False, tmp)] else [])"

declare init_loop.simps(2) [simp del]

lemma init_loop_text: "CHR ''%'' \<notin> set s \<Longrightarrow> init_loop (s @ rest) True ps tmp df = init_loop rest True ps (tmp @ s) df"
  by (induction s arbitrary: tmp) (auto simp: init_loop.simps(2))

lemma init_loop_conv:
  assumes "\<not> is_String it" "item_ok it"
  shows "init_loop (item_text it @ rest) True ps tmp df = init_loop rest True (ps @ pending_text tmp @ [item_piece it]) [] (df @ concat (item_dates [it]))"
proof (cases it)
  case (DateTimeFormatItem f)
  with assms have "takeWhile (\<lambda>x. x \<noteq> CHR ''}'') (f @ CHR ''}'' # rest) = f"
      "dropWhile (\<lambda>x. x \<noteq> CHR ''}'') (f @ CHR ''}'' # rest) = CHR ''}'' # rest"
    by (subst takeWhile_append2 dropWhile_append2, auto)+
  with DateTimeFormatItem show ?thesis by (simp add: init_loop.simps(2) pending_text_def Let_def)
qed (use assms in \<open>simp_all add: init_loop.simps(2) pending_text_def\<close>)

lemma init_loop_items:
  assumes "list_all item_ok its" "separated its" "tmp = [] \<or> its = [] \<or> \<not> is_String (hd its)"
  shows "\<exists>ps' t. init_loop (pattern_text its) True ps tmp df = Inr (ps', t, df @ concat (item_dates its), False) \<and>
           ps' @ pending_text t = ps @ pending_text tmp @ map item_piece its"
  using assms
proof (induction its arbitrary: ps tmp df)
  case (Cons it its)
  have step: "separated its" "list_all item_ok its" using Cons.prems by (cases its; simp)+
  show ?case
  proof (cases "is_String it")
    case True
    then obtain s where it: "it = StringFormatItem s" by (cases it) auto
    with Cons.prems have s: "tmp = []" "CHR ''%'' \<notin> set s" "s \<noteq> []" by auto
    have "its = [] \<or> \<not> is_String (hd its)" using Cons.prems(2) True by (cases its) auto
    then show ?thesis using Cons.IH[OF step(2,1), of s ps df] s it
      by (simp add: pattern_text_def init_loop_text) (simp add: pending_text_def)
  next
    case False
    have dates: "item_dates (it # its) = item_dates [it] @ item_dates its" by (cases it) simp_all
    show ?thesis
      using Cons.IH[OF step(2,1), of "[]" "ps @ pending_text tmp @ [item_piece it]" "df @ concat (item_dates [it])"]
        init_loop_conv[OF False, of "pattern_text its" ps tmp df] Cons.prems(1)
      by (simp add: pattern_text_def dates) (simp add: pending_text_def)
  qed
qed (simp add: pattern_text_def)

lemma make_items_piece:
  assumes "list_all item_ok its" "\<forall>f \<in> set (item_dates its). f = df"
  shows "make_items df (map item_piece its) acc = (acc @ its, False)"
  using assms
proof (induction its arbitrary: acc)
  case (Cons it its)
  then show ?case by (cases it) (auto simp: s_format_items_def DateTimeFormatItem_ctor_def)
qed simp

lemma formatter_parses:
  assumes "printable its"
  shows "\<exists>lf. LogFormatter_ctor (pattern_text its) = Inr lf \<and> m_items lf = its \<and> \<not> m_error lf \<and>
           LogFormatter_Format date_text lf ev = concat (map (item_Format date_text ev) its)"
proof -
  have ok: "list_all item_ok its" "separated its" and len: "length (item_dates its) \<le> 1"
    using assms by (auto simp: printable_def)
  obtain ps t where loop: "init_loop (pattern_text its) True [] [] [] = Inr (ps, t, concat (item_dates its), False)"
      "ps @ pending_text t = map item_piece its"
    using init_loop_items[OF ok, of "[]" "[]" "[]"] by (auto simp: pending_text_def)
  have "\<forall>f \<in> set (item_dates its). f = concat (item_dates its)"
    using len by (cases "item_dates its"; cases "tl (item_dates its)") auto
  then have "make_items (concat (item_dates its)) (ps @ pending_text t) [] = (its, False)"
    using make_items_piece[OF ok(1), of _ "[]"] by (simp add: loop(2))
  then show ?thesis
    by (simp add: LogFormatter_ctor_def LogFormatter_Init_def loop(1) LogFormatter_Format_def pending_text_def)
qed

text \<open>C28: a log pattern printed from format items is parsed back into exactly these items, without error: texts,
  conversions and one date with its format in braces; formatting an event then prints the items in order.\<close>

theorem formatter_roundtrip:
  assumes "printable its"
  shows "\<exists>lf. LogFormatter_ctor (pattern_text its) = Inr lf \<and> m_items lf = its \<and> \<not> m_error lf \<and>
           LogFormatter_Format date_text lf ev = concat (map (item_Format date_text ev) its)"
  using assms by (rule formatter_parses)

theorem formatter_roundtrip_witness:
  "\<exists>lf. LogFormatter_ctor (pattern_text [StringFormatItem ''['', DateTimeFormatItem ''%H:%M'', StringFormatItem ''] '', MessageFormatItem, NewLineFormatItem]) = Inr lf \<and>
     m_items lf = [StringFormatItem ''['', DateTimeFormatItem ''%H:%M'', StringFormatItem ''] '', MessageFormatItem, NewLineFormatItem]"
  using formatter_roundtrip[of "[StringFormatItem ''['', DateTimeFormatItem ''%H:%M'', StringFormatItem ''] '', MessageFormatItem, NewLineFormatItem]"]
  by (simp add: printable_def) blast

text \<open>The pattern every formatter has by default is such a pattern.\<close>

lemma default_pattern_items:
  "default_pattern = pattern_text
     [StringFormatItem ''['', DateTimeFormatItem ''%Y-%m-%d %H:%M:%S'', StringFormatItem ''][''  , ElapseFormatItem, StringFormatItem ''ms]['',
      LevelFormatItem, StringFormatItem '']['', LoggerNameFormatItem, StringFormatItem '']['', FileNameFormatItem, StringFormatItem '':'',
      LineFormatItem, StringFormatItem ''] '', MessageFormatItem, NewLineFormatItem]"
  by (simp add: default_pattern_def pattern_text_def)

lemma default_formatter: "\<exists>lf. LogFormatter_ctor default_pattern = Inr lf \<and> \<not> m_error lf"
proof -
  have "printable its \<Longrightarrow> \<exists>lf. LogFormatter_ctor (pattern_text its) = Inr lf \<and> \<not> m_error lf" for its
    using formatter_parses by blast
  then show ?thesis unfolding default_pattern_items by (simp add: printable_def)
qed

text \<open>Parsing on the edge: a pattern that ends with \<^verbatim>\<open>%d\<close> is read out of bounds, an open brace and an
  unknown conversion are errors, a percent sign at the end is dropped, and two dates share one format.\<close>

lemma ends_with_date: "CHR ''%'' \<notin> set s \<Longrightarrow> LogFormatter_ctor (s @ ''%d'') = Inl OutOfBounds"
  by (simp add: LogFormatter_ctor_def LogFormatter_Init_def init_loop_text) (simp add: init_loop.simps(2))

lemma open_brace:
  assumes "CHR ''%'' \<notin> set s" "CHR ''}'' \<notin> set f"
  shows "LogFormatter_ctor (s @ ''%d{'' @ f) = Inr \<lparr>m_pattern = s @ ''%d{'' @ f, m_items = [], m_error = True\<rparr>"
proof -
  have d: "dropWhile (\<lambda>x. x \<noteq> CHR ''}'') f = []" using assms(2) by (auto simp: dropWhile_eq_Nil_conv)
  have "init_loop (s @ ''%d{'' @ f) True [] [] [] = init_loop (''%d{'' @ f) True [] s []"
    using init_loop_text[OF assms(1), of "''%d{'' @ f" "[]" "[]" "[]"] by simp
  then show ?thesis by (simp add: LogFormatter_ctor_def LogFormatter_Init_def init_loop.simps(2) Let_def d)
qed

lemma two_dates_share_format:
  "map_sum id m_items (LogFormatter_ctor ''%d{%H}%d{%M}'') = Inr [DateTimeFormatItem ''%H%M'', DateTimeFormatItem ''%H%M'']"
  by code_simp


section \<open>The file name in a log line\<close>

text \<open>\<^verbatim>\<open>strrchr\<close>: the last position of a character. The file name of an event is what follows the last separator of the path.\<close>

definition strrchr :: "char \<Rightarrow> string \<Rightarrow> nat option" where
  "strrchr c s = (let n = length (takeWhile (\<lambda>x. x \<noteq> c) (rev s)) in if n < length s then Some (length s - 1 - n) else None)"

definition filename_impl :: "string \<Rightarrow> string" where
  "filename_impl path =
     (let p1 = strrchr CHR ''/'' path; p2 = strrchr CHR 0x5C path;
          p = (if p1 \<noteq> None \<and> p2 \<noteq> None then (if the p1 > the p2 then p1 else p2) else if p1 \<noteq> None then p1 else p2)
      in case p of Some i \<Rightarrow> drop (i + 1) path | None \<Rightarrow> path)"

lemma strrchr_Some:
  assumes "strrchr c s = Some i"
  shows "i < length s" "s ! i = c" "c \<notin> set (drop (i + 1) s)"
proof -
  let ?n = "length (takeWhile (\<lambda>x. x \<noteq> c) (rev s))"
  have n: "?n < length s" "i = length s - 1 - ?n" using assms by (auto simp: strrchr_def Let_def split: if_splits)
  then show "i < length s" by simp
  have "rev s ! ?n = c" using nth_length_takeWhile[of "\<lambda>x. x \<noteq> c" "rev s"] n(1) by simp
  then show "s ! i = c" using n by (simp add: rev_nth)
  have "i + 1 = length s - ?n" using n by linarith
  then have "drop (i + 1) s = rev (take ?n (rev s))" by (simp add: take_rev)
  also have "take ?n (rev s) = takeWhile (\<lambda>x. x \<noteq> c) (rev s)" by (metis takeWhile_eq_take)
  finally show "c \<notin> set (drop (i + 1) s)" using set_takeWhileD[of c "\<lambda>x. x \<noteq> c" "rev s"] by auto
qed

lemma strrchr_None: "strrchr c s = None \<longleftrightarrow> c \<notin> set s"
proof -
  have "length (takeWhile (\<lambda>x. x \<noteq> c) (rev s)) < length s \<longleftrightarrow> c \<in> set s"
    using length_takeWhile_le[of "\<lambda>x. x \<noteq> c" "rev s"] takeWhile_eq_all_conv[of "\<lambda>x. x \<noteq> c" "rev s"]
    by (metis length_rev le_neq_implies_less nat_less_le set_rev takeWhile_eq_take take_all_iff)
  then show ?thesis by (auto simp: strrchr_def Let_def)
qed

lemma takeWhile_after_sep:
  assumes "i < length s" "\<not> P (s ! i)" "\<forall>x \<in> set (drop (i + 1) s). P x"
  shows "rev (takeWhile P (rev s)) = drop (i + 1) s"
proof -
  have "s = take i s @ s ! i # drop (i + 1) s" using assms(1) by (simp add: id_take_nth_drop)
  then have "rev s = rev (drop (i + 1) s) @ s ! i # rev (take i s)" by (metis rev.simps(2) rev_append append.assoc append_Cons append_Nil)
  moreover have "takeWhile P (rev (drop (i + 1) s) @ s ! i # rev (take i s)) = rev (drop (i + 1) s)"
    using assms(2,3) by (subst takeWhile_append2) auto
  ultimately show ?thesis by (metis rev_rev_ident)
qed

text \<open>It is the longest end of the path without a separator of either kind.\<close>

lemma filename_impl_last:
  "filename_impl path = rev (takeWhile (\<lambda>c. c \<noteq> CHR ''/'' \<and> c \<noteq> CHR 0x5C) (rev path))"
proof -
  let ?P = "\<lambda>c. c \<noteq> CHR ''/'' \<and> c \<noteq> CHR 0x5C"
  have sub: "set (drop (i + 1) path) \<subseteq> set (drop (j + 1) path)" if "j \<le> i" for i j :: nat
    using that by (intro set_drop_subset_set_drop) simp
  show ?thesis
  proof (cases "strrchr CHR ''/'' path"; cases "strrchr CHR 0x5C path")
    assume h: "strrchr CHR ''/'' path = None" "strrchr CHR 0x5C path = None"
    then have "takeWhile ?P (rev path) = rev path" by (auto simp: strrchr_None takeWhile_eq_all_conv)
    then have "rev (takeWhile ?P (rev path)) = path" by (simp only: rev_rev_ident)
    then show ?thesis using h by (simp add: filename_impl_def)
  next
    fix j assume h: "strrchr CHR ''/'' path = None" "strrchr CHR 0x5C path = Some j"
    then have "CHR ''/'' \<notin> set path" by (simp add: strrchr_None)
    then have "\<forall>x \<in> set (drop (j + 1) path). ?P x" using strrchr_Some(3)[OF h(2)] by (metis in_set_dropD)
    then show ?thesis using h takeWhile_after_sep[of j path ?P] strrchr_Some(1,2)[OF h(2)] by (simp add: filename_impl_def)
  next
    fix i assume h: "strrchr CHR ''/'' path = Some i" "strrchr CHR 0x5C path = None"
    then have "CHR 0x5C \<notin> set path" by (simp add: strrchr_None)
    then have "\<forall>x \<in> set (drop (i + 1) path). ?P x" using strrchr_Some(3)[OF h(1)] by (metis in_set_dropD)
    then show ?thesis using h takeWhile_after_sep[of i path ?P] strrchr_Some(1,2)[OF h(1)] by (simp add: filename_impl_def)
  next
    fix i j assume h: "strrchr CHR ''/'' path = Some i" "strrchr CHR 0x5C path = Some j"
    note si = strrchr_Some[OF h(1)] and sj = strrchr_Some[OF h(2)]
    let ?k = "if j < i then i else j"
    have "\<forall>x \<in> set (drop (?k + 1) path). ?P x" using si(3) sj(3) sub[of j i] sub[of i j] by auto
    then show ?thesis using h takeWhile_after_sep[of ?k path ?P] si(1,2) sj(1,2) by (auto simp: filename_impl_def split: if_splits)
  qed
qed

end
