(* ===== verification/TW_Util.thy ===== *)
theory TW_Util
  imports TW_Prelude "HOL-Library.Sublist"
begin

text \<open>
  \<^verbatim>\<open>src/base/util.cpp\<close>: listing and creating directories. The file system maps the components of a
  resolved path to what is there; the working directory is \<^term>\<open>[]\<close> and the root \<open>[''/'']\<close>. The system
  calls \<^verbatim>\<open>stat\<close>, \<^verbatim>\<open>mkdir\<close> and opening for append act on it as POSIX describes them for a process with all
  permissions; parent references \<^verbatim>\<open>..\<close> and links are left out.
\<close>

section \<open>Paths and files\<close>

datatype node_kind = Dir | Reg

type_synonym fs = "string list \<Rightarrow> node_kind option"

fun split_on :: "char \<Rightarrow> string \<Rightarrow> string list" where
  "split_on c [] = [[]]"
| "split_on c (x # xs) =
     (if x = c then [] # split_on c xs else case split_on c xs of s # ss \<Rightarrow> (x # s) # ss | [] \<Rightarrow> [[x]])"

definition comps :: "string \<Rightarrow> string list" where
  "comps p = filter (\<lambda>s. s \<noteq> [] \<and> s \<noteq> ''.'') (split_on CHR ''/'' p)"

definition resolve :: "string \<Rightarrow> string list" where
  "resolve p = (if p \<noteq> [] \<and> hd p = CHR ''/'' then [''/''] else []) @ comps p"

text \<open>A path that ends in a slash or a dot names a directory; one whose last component is a dot cannot be created.\<close>

definition needs_dir :: "string \<Rightarrow> bool" where
  "needs_dir p \<longleftrightarrow> last (split_on CHR ''/'' p) \<in> {[], ''.''}"

definition dot_end :: "string \<Rightarrow> bool" where
  "dot_end p \<longleftrightarrow> (let ss = filter (\<lambda>s. s \<noteq> []) (split_on CHR ''/'' p) in ss \<noteq> [] \<and> last ss = ''.'')"

definition top_dir :: "string list \<Rightarrow> bool" where
  "top_dir ks \<longleftrightarrow> ks = [] \<or> ks = [''/'']"

definition is_dir :: "fs \<Rightarrow> string list \<Rightarrow> bool" where
  "is_dir fs ks \<longleftrightarrow> top_dir ks \<or> fs ks = Some Dir"

definition stat :: "fs \<Rightarrow> string \<Rightarrow> bool" where
  "stat fs p \<longleftrightarrow> p \<noteq> [] \<and> (is_dir fs (resolve p) \<or> \<not> needs_dir p \<and> fs (resolve p) \<noteq> None)"

definition mkdir :: "fs \<Rightarrow> string \<Rightarrow> fs" where
  "mkdir fs p =
     (let ks = resolve p in
      if p = [] \<or> dot_end p \<or> is_dir fs ks \<or> fs ks \<noteq> None \<or> \<not> is_dir fs (butlast ks) then fs else fs(ks \<mapsto> Dir))"

text \<open>\<^verbatim>\<open>std::ofstream::open\<close> with \<^verbatim>\<open>std::ios::app\<close>: whether the file was opened, and the files afterwards.\<close>

definition open_append :: "fs \<Rightarrow> string \<Rightarrow> bool \<times> fs" where
  "open_append fs p =
     (let ks = resolve p in
      if p = [] \<or> needs_dir p \<or> is_dir fs ks then (False, fs)
      else if fs ks = Some Reg then (True, fs)
      else if is_dir fs (butlast ks) then (True, fs(ks \<mapsto> Reg))
      else (False, fs))"

section \<open>FSUtil\<close>

definition IsExist :: "fs \<Rightarrow> string \<Rightarrow> bool" where
  "IsExist fs path = stat fs path"

definition is_sep :: "char \<Rightarrow> bool" where
  "is_sep c \<longleftrightarrow> c = CHR ''/'' \<or> c = CHR 0x5C"

definition make_level :: "fs \<Rightarrow> string \<Rightarrow> fs" where
  "make_level fs parent_dir = (if \<not> IsExist fs parent_dir then mkdir fs parent_dir else fs)"

text \<open>The loop: \<open>seen\<close> is the path up to \<^verbatim>\<open>cur\<close>, \<open>cs\<close> the level read since.\<close>

fun make_levels :: "fs \<Rightarrow> string \<Rightarrow> string \<Rightarrow> string \<Rightarrow> fs" where
  "make_levels fs seen cs [] = (if cs = [] then fs else make_level fs (seen @ cs))"
| "make_levels fs seen cs (c # rest) =
     (if is_sep c then make_levels (make_level fs (seen @ cs @ [c])) (seen @ cs @ [c]) [] rest
      else make_levels fs seen (cs @ [c]) rest)"

definition MakeSurePathExist :: "fs \<Rightarrow> string \<Rightarrow> fs" where
  "MakeSurePathExist fs path = (if path = [] then fs else make_levels fs [] [] path)"

text \<open>A directory as \<^verbatim>\<open>readdir\<close> presents it: regular files, subdirectories (none when they cannot be opened)
  and other entries.\<close>

datatype dirent = DT_REG string | DT_DIR string "dirent list option" | DT_OTHER string

fun ListAllFile :: "dirent list \<Rightarrow> string \<Rightarrow> string \<Rightarrow> string list" where
  "ListAllFile [] path subfix = []"
| "ListAllFile (DT_DIR name sub # es) path subfix =
     (if name = ''.'' \<or> name = ''..'' then []
      else case sub of None \<Rightarrow> [] | Some es' \<Rightarrow> ListAllFile es' (path @ ''/'' @ name) subfix) @ ListAllFile es path subfix"
| "ListAllFile (DT_REG name # es) path subfix =
     (if subfix = [] then [path @ ''/'' @ name]
      else if length name < length subfix then []
      else if drop (length name - length subfix) name = subfix then [path @ ''/'' @ name] else []) @ ListAllFile es path subfix"
| "ListAllFile (DT_OTHER name # es) path subfix = ListAllFile es path subfix"


section \<open>Resolving paths\<close>

lemma split_on_ne [simp]: "split_on c s \<noteq> []"
  by (induction s) (auto split: list.split)

lemma split_on_append: "split_on c (a @ c # b) = split_on c a @ split_on c b"
  by (induction a) (auto split: list.split)

lemma split_on_none: "c \<notin> set s \<Longrightarrow> split_on c s = [s]"
  by (induction s) auto

text \<open>The part of a path read so far ends with a slash, or is empty.\<close>

definition at_level :: "string \<Rightarrow> bool" where
  "at_level seen \<longleftrightarrow> seen = [] \<or> last seen = CHR ''/''"

definition level_comps :: "string \<Rightarrow> string list" where
  "level_comps cs = (if cs = [] \<or> cs = ''.'' then [] else [cs])"

lemma split_level:
  assumes "at_level seen" "CHR ''/'' \<notin> set cs"
  shows "filter (\<lambda>s. s \<noteq> []) (split_on CHR ''/'' (seen @ cs)) =
      filter (\<lambda>s. s \<noteq> []) (split_on CHR ''/'' seen) @ (if cs = [] then [] else [cs])"
    and "comps (seen @ cs) = comps seen @ level_comps cs"
proof -
  have "seen = [] \<or> (\<exists>a. seen = a @ [CHR ''/''])" using assms(1) by (metis append_butlast_last_id at_level_def)
  then show "filter (\<lambda>s. s \<noteq> []) (split_on CHR ''/'' (seen @ cs)) =
      filter (\<lambda>s. s \<noteq> []) (split_on CHR ''/'' seen) @ (if cs = [] then [] else [cs])"
    and "comps (seen @ cs) = comps seen @ level_comps cs"
    using split_on_none[OF assms(2)] split_on_append[of "CHR ''/''" _ cs] split_on_append[of "CHR ''/''" _ "[]"]
    by (auto simp: comps_def level_comps_def)
qed

lemma split_slash: "filter (\<lambda>s. s \<noteq> []) (split_on CHR ''/'' (p @ ''/'')) = filter (\<lambda>s. s \<noteq> []) (split_on CHR ''/'' p)"
  "comps (p @ ''/'') = comps p"
  using split_on_append[of "CHR ''/''" p "[]"] by (simp_all add: comps_def)

lemma resolve_slash: "p \<noteq> [] \<Longrightarrow> resolve (p @ ''/'') = resolve p"
  by (cases p) (simp_all add: resolve_def split_slash flip: append_Cons)

lemma resolve_level:
  assumes "at_level seen" "CHR ''/'' \<notin> set cs"
  shows "resolve (seen @ cs) = resolve seen @ level_comps cs"
  using split_level(2)[OF assms] assms(2) by (cases seen; cases cs) (auto simp: resolve_def)

section \<open>Creating a path\<close>

definition extend :: "fs \<Rightarrow> string list \<Rightarrow> fs" where
  "extend fs ks = (\<lambda>j. if prefix j ks \<and> \<not> top_dir j then Some Dir else fs j)"

text \<open>Directories may be made at these components: what exists of them are directories.\<close>

definition path_free :: "fs \<Rightarrow> string list \<Rightarrow> bool" where
  "path_free fs ks \<longleftrightarrow> (\<forall>j. prefix j ks \<longrightarrow> fs j \<noteq> Some Reg)"

lemma extend_idem: "(\<And>j. prefix j ks \<Longrightarrow> \<not> top_dir j \<Longrightarrow> fs j = Some Dir) \<Longrightarrow> extend fs ks = fs"
  by (auto simp: extend_def)

lemma extend_extend: "extend (extend fs ks) (ks @ js) = extend fs (ks @ js)"
  by (rule ext) (auto simp: extend_def)

lemma path_free_extend: "path_free fs ks \<Longrightarrow> path_free (extend fs js) ks"
  by (auto simp: path_free_def extend_def)

lemma path_free_prefix: "path_free fs (ks @ js) \<Longrightarrow> path_free fs ks"
  by (auto simp: path_free_def)

lemma extend_is_dir [simp]: "is_dir (extend fs ks) ks"
  by (simp add: is_dir_def extend_def)

lemma extend_snoc: "extend (extend fs ks) (ks @ [k]) = (if top_dir (ks @ [k]) then extend fs ks else (extend fs ks)(ks @ [k] \<mapsto> Dir))"
  by (auto simp: extend_def fun_eq_iff prefix_snoc)

lemma dot_end_level:
  assumes "p = seen @ cs \<or> p = seen @ cs @ ''/''" "at_level seen" "CHR ''/'' \<notin> set cs" "level_comps cs = [cs]"
  shows "\<not> dot_end p"
  using assms split_level(1)[OF assms(2,3)] split_slash(1)[of "seen @ cs"]
  by (auto simp: dot_end_def level_comps_def Let_def split: if_splits)

lemma make_level_extend:
  assumes p: "p = seen @ cs \<or> p = seen @ cs @ ''/''" and seen: "at_level seen" "CHR ''/'' \<notin> set cs" and ne: "p \<noteq> []"
    and fs: "extend fs (resolve seen) = fs" and path_free: "path_free fs (resolve p)"
  shows "make_level fs p = extend fs (resolve p)"
proof -
  have "resolve p = resolve seen @ level_comps cs \<or> resolve p = [''/'']"
    using p resolve_level[OF seen] resolve_slash[of "seen @ cs"]
    by (cases "seen @ cs = []") (auto simp: resolve_def comps_def)
  then consider "resolve p = resolve seen" | "top_dir (resolve p)"
    | "level_comps cs = [cs]" "resolve p = resolve seen @ [cs]" "\<not> top_dir (resolve p)"
    by (cases "top_dir (resolve p)") (auto simp: top_dir_def level_comps_def split: if_splits)
  then show ?thesis
  proof cases
    case 1
    then have "is_dir fs (resolve p)" using extend_is_dir[of fs "resolve seen"] fs by simp
    with 1 ne fs show ?thesis by (simp add: make_level_def IsExist_def stat_def)
  next
    case 2
    then have "extend fs (resolve p) = fs" by (intro extend_idem) (auto simp: top_dir_def prefix_Cons)
    with 2 ne show ?thesis by (simp add: make_level_def IsExist_def stat_def is_dir_def)
  next
    case 3
    have ext: "extend fs (resolve p) = fs(resolve p \<mapsto> Dir)"
      using extend_snoc[of fs "resolve seen" cs] 3(2,3) fs by simp
    show ?thesis
    proof (cases "fs (resolve p)")
      case None
      have "is_dir fs (butlast (resolve p))" using extend_is_dir[of fs "resolve seen"] fs 3(2) by simp
      moreover have "\<not> dot_end p" using dot_end_level[OF p seen 3(1)] .
      ultimately show ?thesis using None ne 3(3) ext
        by (auto simp: make_level_def IsExist_def stat_def mkdir_def is_dir_def Let_def)
    next
      case (Some k)
      then have "k = Dir" using path_free by (cases k) (auto simp: path_free_def)
      with Some ne ext show ?thesis by (auto simp: make_level_def IsExist_def stat_def is_dir_def)
    qed
  qed
qed

lemma make_levels_extend:
  assumes "at_level seen" "CHR ''/'' \<notin> set cs" "CHR 0x5C \<notin> set rest" "extend fs (resolve seen) = fs"
    and "path_free fs (resolve (seen @ cs @ rest))" "seen @ cs @ rest \<noteq> []"
  shows "make_levels fs seen cs rest = extend fs (resolve (seen @ cs @ rest))"
  using assms
proof (induction rest arbitrary: fs seen cs)
  case Nil
  then show ?case using make_level_extend[of "seen @ cs" seen cs fs] by (cases "cs = []") auto
next
  case (Cons c rest)
  show ?case
  proof (cases "c = CHR ''/''")
    case True
    let ?p = "seen @ cs @ ''/''" and ?q = "seen @ cs @ c # rest"
    have lvl: "at_level ?p" by (simp add: at_level_def)
    obtain js where js: "resolve ?q = resolve ?p @ js"
    proof -
      have "comps ?q = comps ?p @ comps rest"
        using split_on_append[of "CHR ''/''" "seen @ cs" rest] split_on_append[of "CHR ''/''" "seen @ cs" "[]"] True by (simp add: comps_def)
      moreover have "hd (seen @ cs @ CHR ''/'' # r) = (if seen @ cs = [] then CHR ''/'' else hd (seen @ cs))" for r
        using hd_append[of "seen @ cs" "CHR ''/'' # r"] by simp
      ultimately show thesis using that[of "comps rest"] True by (simp add: resolve_def)
    qed
    have 1: "make_level fs ?p = extend fs (resolve ?p)"
      using Cons.prems path_free_prefix[of fs "resolve ?p" js] js by (intro make_level_extend[of _ seen cs]) auto
    have "make_levels (extend fs (resolve ?p)) ?p [] rest = extend (extend fs (resolve ?p)) (resolve (?p @ [] @ rest))"
      using Cons.prems lvl True extend_extend[of fs "resolve ?p" "[]"] path_free_extend by (intro Cons.IH) auto
    then show ?thesis using 1 True js extend_extend[of fs "resolve ?p" js] by (simp add: is_sep_def)
  next
    case False
    then show ?thesis using Cons.IH[of seen "cs @ [c]" fs] Cons.prems by (auto simp: is_sep_def)
  qed
qed

text \<open>Making sure a path exists creates every missing directory of it and nothing else: when what exists
  of the path are directories and it has no backslash, exactly its non-empty prefixes are directories
  afterwards, and all other entries are as before.\<close>

theorem MakeSurePathExist_exact:
  assumes "path \<noteq> []" "CHR 0x5C \<notin> set path" "path_free fs (resolve path)"
  shows "MakeSurePathExist fs path ks =
     (if prefix ks (resolve path) \<and> \<not> top_dir ks then Some Dir else fs ks)"
proof -
  have "extend fs (resolve []) = fs" by (intro extend_idem) (simp add: resolve_def comps_def top_dir_def)
  then show ?thesis using make_levels_extend[of "[]" "[]" path fs] assms
    by (simp add: MakeSurePathExist_def at_level_def extend_def)
qed

theorem MakeSurePathExist_exact_witness:
  "MakeSurePathExist (\<lambda>_. None) ''./logs/a'' [''logs''] = Some Dir \<and> MakeSurePathExist (\<lambda>_. None) ''./logs/a'' [''logs'', ''a''] = Some Dir"
proof -
  have "resolve ''./logs/a'' = [''logs'', ''a'']" by code_simp
  then show ?thesis
    using MakeSurePathExist_exact[of "''./logs/a''" "\<lambda>_. None" "[''logs'']"] MakeSurePathExist_exact[of "''./logs/a''" "\<lambda>_. None" "[''logs'', ''a'']"]
    by (simp add: path_free_def top_dir_def)
qed

section \<open>Listing files\<close>

text \<open>A regular file below a directory, with its name and its path from there.\<close>

inductive file_below :: "dirent list \<Rightarrow> string \<Rightarrow> string \<Rightarrow> bool" where
  here: "DT_REG name \<in> set es \<Longrightarrow> file_below es name (''/'' @ name)"
| sub: "DT_DIR d (Some es') \<in> set es \<Longrightarrow> d \<noteq> ''.'' \<Longrightarrow> d \<noteq> ''..'' \<Longrightarrow> file_below es' name rel \<Longrightarrow> file_below es name (''/'' @ d @ rel)"

lemma file_below_Nil [simp]: "\<not> file_below [] name rel"
  by (simp add: file_below.simps[of "[]"])

lemma file_below_Cons:
  "file_below (e # es) name rel \<longleftrightarrow> file_below [e] name rel \<or> file_below es name rel"
proof
  assume "file_below (e # es) name rel"
  then show "file_below [e] name rel \<or> file_below es name rel"
  proof cases
    case (sub d es' r)
    then have "DT_DIR d (Some es') \<in> set [e] \<or> DT_DIR d (Some es') \<in> set es" by auto
    then show ?thesis using sub file_below.sub[of d es' _ name r] by blast
  qed (use file_below.here[of name] in fastforce)
next
  have mono: "file_below xs name rel \<Longrightarrow> set xs \<subseteq> set ys \<Longrightarrow> file_below ys name rel" for xs ys
    by (erule file_below.cases) (blast intro: file_below.intros)+
  assume "file_below [e] name rel \<or> file_below es name rel"
  then show "file_below (e # es) name rel" using mono[of "[e]" "e # es"] mono[of es "e # es"] by auto
qed

lemma file_below_REG [simp]: "file_below [DT_REG n] name rel \<longleftrightarrow> name = n \<and> rel = ''/'' @ n"
  unfolding file_below.simps[of "[DT_REG n]"] by auto

lemma file_below_OTHER [simp]: "\<not> file_below [DT_OTHER n] name rel"
  unfolding file_below.simps[of "[DT_OTHER n]"] by auto

lemma file_below_DIR [simp]:
  "file_below [DT_DIR d sub] name rel \<longleftrightarrow>
     d \<noteq> ''.'' \<and> d \<noteq> ''..'' \<and> (\<exists>es' r. sub = Some es' \<and> file_below es' name r \<and> rel = ''/'' @ d @ r)"
  unfolding file_below.simps[of "[DT_DIR d sub]"] by auto

lemma subfix_test: "subfix = [] \<or> \<not> length name < length subfix \<and> drop (length name - length subfix) name = subfix \<longleftrightarrow> suffix subfix name"
proof
  assume "suffix subfix name"
  then show "subfix = [] \<or> \<not> length name < length subfix \<and> drop (length name - length subfix) name = subfix"
    by (auto simp: suffix_def)
qed (metis suffix_bot.extremum suffix_drop)

text \<open>C38: the recursive directory listing returns exactly the regular files below the directory whose name
  ends with the given suffix, each with its path.\<close>

theorem ListAllFile_exact:
  "f \<in> set (ListAllFile es path subfix) \<longleftrightarrow> (\<exists>name rel. file_below es name rel \<and> suffix subfix name \<and> f = path @ rel)"
proof (induction es path subfix rule: ListAllFile.induct)
  case (2 name sub es path subfix)
  then show ?case by (subst file_below_Cons) (cases sub; auto)
next
  case (3 name es path subfix)
  then show ?case using subfix_test[of subfix name] by (subst file_below_Cons) (auto split: if_splits)
next
  case (4 name es path subfix)
  then show ?case by (subst file_below_Cons) simp
qed simp

section \<open>The clock\<close>

text \<open>The monotonic clock as seconds and nanoseconds, in milliseconds; the local time of a clock by \<open>localtime\<close>.\<close>

definition GetElapsedMS :: "int \<times> int \<Rightarrow> 64 word" where
  "GetElapsedMS ts = (case ts of (tv_sec, tv_nsec) \<Rightarrow> word_of_int (tv_sec * 1000 + tv_nsec div 1000000))"

definition GetTimeSet :: "(int \<Rightarrow> 'tm) \<Rightarrow> int \<Rightarrow> 'tm" where
  "GetTimeSet localtime now = (let time_stamp = now in localtime time_stamp)"

text \<open>A clock that does not go back gives milliseconds that do not go back, for seconds below \<open>2 ^ 53\<close>.\<close>

lemma GetElapsedMS_mono:
  assumes "0 \<le> s" "0 \<le> n" "n < 1000000000" "0 \<le> n'" "n' < 1000000000" "s < s' \<or> s = s' \<and> n \<le> n'" "s' < 2 ^ 53"
  shows "GetElapsedMS (s, n) \<le> GetElapsedMS (s', n')"
proof -
  have ms: "0 \<le> x * 1000 + y div 1000000 \<and> x * 1000 + y div 1000000 < 2 ^ 64" if "0 \<le> x" "x < 2 ^ 53" "0 \<le> y" "y < 1000000000" for x y :: int
    using that by auto
  have "s * 1000 + n div 1000000 \<le> s' * 1000 + n' div 1000000"
    using assms(6)
  proof
    assume "s < s'"
    moreover have "n div 1000000 < 1000" "0 \<le> n' div 1000000" using assms(3,4) by auto
    ultimately show ?thesis by linarith
  qed (simp add: zdiv_mono1)
  moreover have "s < 2 ^ 53" "0 \<le> s'" using assms(1,6,7) by auto
  moreover have "(word_of_int a :: 64 word) \<le> word_of_int b" if "0 \<le> a" "a \<le> b" "b < 2 ^ 64" for a b
    using that by (simp add: word_le_def unsigned_of_int take_bit_int_eq_self)
  ultimately show ?thesis using ms[of s n] ms[of s' n'] assms unfolding GetElapsedMS_def prod.case by blast
qed

end
