(* ===== verification/TW_Log.thy ===== *)
theory TW_Log
  imports TW_LogFormat TW_Util TW_LexicalCast
begin

text \<open>
  The output half of \<^verbatim>\<open>src/base/log.cpp\<close>: appenders, loggers, the logger manager and the configuration of
  loggers. Appenders are shared objects in a store; what is printed goes to a world with the
  standard output, the file system of \<^verbatim>\<open>TW_Util\<close> and the contents of its files. The clock, the calendar
  and \<^verbatim>\<open>strftime\<close> are arguments; the uninitialised \<^verbatim>\<open>m_curData\<close> of a new file appender is an argument too.
\<close>

section \<open>Streams\<close>

record log_world =
  w_fs :: fs
  w_files :: "string list \<Rightarrow> string"
  w_stdout :: string

record ofstream =
  os_file :: "string list option"
  os_fail :: bool

definition ofstream_ctor :: ofstream where
  "ofstream_ctor = \<lparr>os_file = None, os_fail = False\<rparr>"

definition ofstream_close :: "ofstream \<Rightarrow> ofstream" where
  "ofstream_close s = (if os_file s = None then s\<lparr>os_fail := True\<rparr> else s\<lparr>os_file := None\<rparr>)"

definition ofstream_open :: "string \<Rightarrow> log_world \<Rightarrow> ofstream \<Rightarrow> log_world \<times> ofstream" where
  "ofstream_open p w s =
     (if os_file s \<noteq> None then (w, s\<lparr>os_fail := True\<rparr>)
      else case open_append (w_fs w) p of
        (ok, fs') \<Rightarrow> (w\<lparr>w_fs := fs'\<rparr>, if ok then \<lparr>os_file = Some (resolve p), os_fail = False\<rparr> else s\<lparr>os_fail := True\<rparr>))"

definition ofstream_write :: "string \<Rightarrow> log_world \<Rightarrow> ofstream \<Rightarrow> log_world" where
  "ofstream_write text w s =
     (case os_file s of
        Some f \<Rightarrow> if os_fail s then w else w\<lparr>w_files := (w_files w)(f := w_files w f @ text)\<rparr>
      | None \<Rightarrow> w)"

section \<open>Appenders\<close>

datatype appender_kind = StdoutLogAppender | FileLogAppender

text \<open>The last five fields are those of a file appender.\<close>

record LogAppender =
  app_kind :: appender_kind
  m_formatter :: "LogFormatter option"
  m_defaultFormatter :: LogFormatter
  m_filename :: string
  m_filestream :: ofstream
  m_lastTime :: nat
  m_reopenError :: bool
  m_curData :: int

definition SetFormatter :: "LogFormatter \<Rightarrow> LogAppender \<Rightarrow> LogAppender" where
  "SetFormatter val a = a\<lparr>m_formatter := Some val\<rparr>"

definition GetFormatter :: "LogAppender \<Rightarrow> LogFormatter" where
  "GetFormatter a = (case m_formatter a of Some f \<Rightarrow> f | None \<Rightarrow> m_defaultFormatter a)"

definition LogAppender_ctor :: "appender_kind \<Rightarrow> string \<Rightarrow> int \<Rightarrow> LogAppender res" where
  "LogAppender_ctor kind file garbage =
     res_bind (LogFormatter_ctor default_pattern) (\<lambda>lf.
     Inr \<lparr>app_kind = kind, m_formatter = None, m_defaultFormatter = lf, m_filename = file, m_filestream = ofstream_ctor,
          m_lastTime = 0, m_reopenError = False, m_curData = garbage\<rparr>)"

definition StdoutLogAppender_ctor :: "LogAppender res" where
  "StdoutLogAppender_ctor = LogAppender_ctor StdoutLogAppender [] 0"

definition Stdout_Log :: "(string \<Rightarrow> int \<Rightarrow> string) \<Rightarrow> LogEvent \<Rightarrow> log_world \<Rightarrow> LogAppender \<Rightarrow> log_world" where
  "Stdout_Log date_text ev w a = w\<lparr>w_stdout := w_stdout w @ LogFormatter_Format date_text (GetFormatter a) ev\<rparr>"

definition ReOpen :: "log_world \<Rightarrow> LogAppender \<Rightarrow> log_world \<times> LogAppender" where
  "ReOpen w a =
     (let s = (if \<not> os_fail (m_filestream a) then ofstream_close (m_filestream a) else m_filestream a);
          (w', s') = ofstream_open (m_filename a) w s
      in (w', a\<lparr>m_filestream := s', m_reopenError := os_fail s'\<rparr>))"

definition FileLogAppender_ctor :: "string \<Rightarrow> int \<Rightarrow> log_world \<Rightarrow> (log_world \<times> LogAppender) res" where
  "FileLogAppender_ctor file garbage w = res_bind (LogAppender_ctor FileLogAppender file garbage) (\<lambda>a. Inr (ReOpen w a))"

text \<open>The calendar date of a time: \<^verbatim>\<open>tm_year\<close>, \<^verbatim>\<open>tm_mon\<close> and \<^verbatim>\<open>tm_mday\<close>.\<close>

definition GetFileName :: "int \<times> int \<times> int \<Rightarrow> string \<Rightarrow> string" where
  "GetFileName t filename =
     (case t of (year, mon, mday) \<Rightarrow>
        filename @ (if filename \<noteq> [] \<and> last filename \<noteq> CHR ''/'' \<and> last filename \<noteq> CHR 0x5C then ''/'' else []) @
        to_string (year + 1900) @ ''-'' @ to_string (mon + 1) @ ''-'' @ to_string mday @ ''.log'')"

definition CreateNewFile :: "(int \<Rightarrow> int \<times> int \<times> int) \<Rightarrow> int \<Rightarrow> log_world \<Rightarrow> LogAppender \<Rightarrow> (log_world \<times> LogAppender) res" where
  "CreateNewFile local_time t_now w a =
     (let s = (if os_file (m_filestream a) \<noteq> None then ofstream_close (m_filestream a) else m_filestream a);
          filename = GetFileName (local_time t_now) (m_filename a);
          (w', s') = ofstream_open filename w s
      in if os_file s' = None then Inl AssertFailed
         else Inr (w', a\<lparr>m_filestream := s', m_filename := filename, m_curData := t_now div (24 * 60 * 60)\<rparr>))"

definition File_Log ::
  "(string \<Rightarrow> int \<Rightarrow> string) \<Rightarrow> (int \<Rightarrow> int \<times> int \<times> int) \<Rightarrow> int \<Rightarrow> LogEvent \<Rightarrow> log_world \<Rightarrow> LogAppender \<Rightarrow> (log_world \<times> LogAppender) res" where
  "File_Log date_text local_time t_now ev w a =
     (let w0 = w\<lparr>w_fs := MakeSurePathExist (w_fs w) (m_filename a)\<rparr>; now = nat (ev_time ev mod 2 ^ 64) in
      res_bind (if int (now div (24 * 60 * 60)) \<noteq> m_curData a then CreateNewFile local_time t_now w0 a else Inr (w0, a)) (\<lambda>(w1, a1).
      case (if now \<ge> m_lastTime a1 + 3 then (case ReOpen w1 a1 of (w2, a2) \<Rightarrow> (w2, a2\<lparr>m_lastTime := now\<rparr>)) else (w1, a1)) of
        (w3, a3) \<Rightarrow>
          if m_reopenError a3 then Inr (w3, a3)
          else Inr (ofstream_write (LogFormatter_Format date_text (GetFormatter a3) ev) w3 (m_filestream a3), a3)))"

definition appender_Log ::
  "(string \<Rightarrow> int \<Rightarrow> string) \<Rightarrow> (int \<Rightarrow> int \<times> int \<times> int) \<Rightarrow> int \<Rightarrow> LogEvent \<Rightarrow> log_world \<Rightarrow> LogAppender \<Rightarrow> (log_world \<times> LogAppender) res" where
  "appender_Log date_text local_time t_now ev w a =
     (case app_kind a of
        StdoutLogAppender \<Rightarrow> Inr (Stdout_Log date_text ev w a, a)
      | FileLogAppender \<Rightarrow> File_Log date_text local_time t_now ev w a)"

section \<open>Loggers\<close>

type_synonym appender_ptr = nat

record Logger =
  lg_name :: string
  lg_level :: Level
  m_appenders :: "appender_ptr list"
  m_createTime :: nat

definition Logger_ctor :: "string \<Rightarrow> nat \<Rightarrow> Logger" where
  "Logger_ctor name now = \<lparr>lg_name = name, lg_level = INFO, m_appenders = [], m_createTime = now\<rparr>"

definition SetLevel :: "Level \<Rightarrow> Logger \<Rightarrow> Logger" where
  "SetLevel level lg = lg\<lparr>lg_level := level\<rparr>"

definition AddAppender :: "appender_ptr \<Rightarrow> Logger \<Rightarrow> Logger" where
  "AddAppender p lg = lg\<lparr>m_appenders := m_appenders lg @ [p]\<rparr>"

definition DelAppender :: "appender_ptr \<Rightarrow> Logger \<Rightarrow> Logger" where
  "DelAppender p lg = lg\<lparr>m_appenders := remove1 p (m_appenders lg)\<rparr>"

definition ClearAppenders :: "Logger \<Rightarrow> Logger" where
  "ClearAppenders lg = lg\<lparr>m_appenders := []\<rparr>"

text \<open>The manager with the store of appenders, the address of the next one, and the world.\<close>

record LoggerManager =
  m_loggers :: "string \<rightharpoonup> Logger"
  apps :: "appender_ptr \<rightharpoonup> LogAppender"
  next_app :: appender_ptr
  lm_world :: log_world

definition new_appender :: "LogAppender \<Rightarrow> LoggerManager \<Rightarrow> appender_ptr \<times> LoggerManager" where
  "new_appender a lm = (next_app lm, lm\<lparr>apps := (apps lm)(next_app lm \<mapsto> a), next_app := next_app lm + 1\<rparr>)"

definition LoggerManager_ctor :: "nat \<Rightarrow> log_world \<Rightarrow> LoggerManager res" where
  "LoggerManager_ctor now w =
     res_bind StdoutLogAppender_ctor (\<lambda>a.
     case new_appender a \<lparr>m_loggers = Map.empty, apps = Map.empty, next_app = 0, lm_world = w\<rparr> of
       (p, lm) \<Rightarrow> Inr (lm\<lparr>m_loggers := [''root'' \<mapsto> AddAppender p (Logger_ctor ''root'' now)]\<rparr>))"

definition GetLogger :: "string \<Rightarrow> nat \<Rightarrow> LoggerManager \<Rightarrow> Logger \<times> LoggerManager" where
  "GetLogger name now lm =
     (case m_loggers lm name of
        Some lg \<Rightarrow> (lg, lm)
      | None \<Rightarrow> let lg = Logger_ctor name now in (lg, lm\<lparr>m_loggers := (m_loggers lm)(name \<mapsto> lg)\<rparr>))"

primrec log_all ::
  "(string \<Rightarrow> int \<Rightarrow> string) \<Rightarrow> (int \<Rightarrow> int \<times> int \<times> int) \<Rightarrow> int \<Rightarrow> LogEvent \<Rightarrow> appender_ptr list \<Rightarrow> LoggerManager \<Rightarrow> LoggerManager res" where
  "log_all date_text local_time t_now ev [] lm = Inr lm"
| "log_all date_text local_time t_now ev (p # ps) lm =
     (case apps lm p of
        None \<Rightarrow> Inl Undefined
      | Some a \<Rightarrow>
          res_bind (appender_Log date_text local_time t_now ev (lm_world lm) a) (\<lambda>(w', a').
          log_all date_text local_time t_now ev ps (lm\<lparr>lm_world := w', apps := (apps lm)(p \<mapsto> a')\<rparr>)))"

definition Logger_Log ::
  "(string \<Rightarrow> int \<Rightarrow> string) \<Rightarrow> (int \<Rightarrow> int \<times> int \<times> int) \<Rightarrow> int \<Rightarrow> LogEvent \<Rightarrow> Logger \<Rightarrow> LoggerManager \<Rightarrow> LoggerManager res" where
  "Logger_Log date_text local_time t_now ev lg lm =
     (if ev_level ev \<le> lg_level lg then log_all date_text local_time t_now ev (m_appenders lg) lm else Inr lm)"

text \<open>The macro \<^verbatim>\<open>LOG_LEVEL\<close>: the event is made only when the level passes, and logged when the wrapper dies.\<close>

definition LOG_LEVEL ::
  "(string \<Rightarrow> int \<Rightarrow> string) \<Rightarrow> (int \<Rightarrow> int \<times> int \<times> int) \<Rightarrow> int \<Rightarrow> LogEvent \<Rightarrow> Logger \<Rightarrow> LoggerManager \<Rightarrow> LoggerManager res" where
  "LOG_LEVEL date_text local_time t_now ev lg lm =
     (if ev_level ev \<le> lg_level lg then Logger_Log date_text local_time t_now ev lg lm else Inr lm)"


section \<open>Configuration of loggers\<close>

record LogAppenderDefine =
  ad_type :: int
  ad_pattern :: string
  ad_file :: string

record LogDefine =
  ld_name :: string
  ld_level :: Level
  ld_appenders :: "LogAppenderDefine list"

text \<open>\<^verbatim>\<open>operator==\<close> compares the appenders of the left side with themselves.\<close>

definition LogDefine_eq :: "LogDefine \<Rightarrow> LogDefine \<Rightarrow> bool" where
  "LogDefine_eq a oth \<longleftrightarrow> ld_name a = ld_name oth \<and> ld_level a = ld_level oth \<and> ld_appenders a = ld_appenders a"

text \<open>
  Reading and printing definitions. \<open>node_get\<close> is \<^verbatim>\<open>node[key]\<close>, none when it is not defined, \<open>as_string\<close> the
  conversion \<^verbatim>\<open>as<std::string>\<close>, which may throw. An appender that is skipped is \<^term>\<open>None\<close>.
\<close>

definition get_string :: "(yaml \<Rightarrow> string \<Rightarrow> yaml option) \<Rightarrow> (yaml \<Rightarrow> string res) \<Rightarrow> yaml \<Rightarrow> string \<Rightarrow> string res" where
  "get_string node_get as_string n k = (case node_get n k of None \<Rightarrow> Inr [] | Some m \<Rightarrow> as_string m)"

definition to_LogAppenderDefine ::
  "(yaml \<Rightarrow> string \<Rightarrow> yaml option) \<Rightarrow> (yaml \<Rightarrow> string res) \<Rightarrow> yaml \<Rightarrow> LogAppenderDefine option res" where
  "to_LogAppenderDefine node_get as_string a =
     (if node_get a ''type'' = None then Inr None
      else res_bind (get_string node_get as_string a ''type'') (\<lambda>type.
        if type = ''FileLogAppender'' then
          (if node_get a ''file'' = None then Inr None
           else res_bind (get_string node_get as_string a ''file'') (\<lambda>file.
                res_bind (get_string node_get as_string a ''pattern'') (\<lambda>pattern.
                Inr (Some \<lparr>ad_type = 1, ad_pattern = pattern, ad_file = file\<rparr>))))
        else if type = ''StdoutLogAppender'' then
          res_bind (get_string node_get as_string a ''pattern'') (\<lambda>pattern.
          Inr (Some \<lparr>ad_type = 2, ad_pattern = pattern, ad_file = []\<rparr>))
        else Inr None))"

definition to_LogDefine ::
  "(string \<Rightarrow> yaml res) \<Rightarrow> (yaml \<Rightarrow> nat) \<Rightarrow> (yaml \<Rightarrow> nat \<Rightarrow> yaml) \<Rightarrow> (yaml \<Rightarrow> string \<Rightarrow> yaml option) \<Rightarrow> (yaml \<Rightarrow> string res) \<Rightarrow> string \<Rightarrow> LogDefine res" where
  "to_LogDefine load node_size node_at node_get as_string v =
     res_bind (load v) (\<lambda>n.
     if node_get n ''name'' = None then Inl LogicError
     else res_bind (get_string node_get as_string n ''name'') (\<lambda>name.
          res_bind (get_string node_get as_string n ''level'') (\<lambda>level.
          res_bind (case node_get n ''appenders'' of
                      None \<Rightarrow> Inr []
                    | Some as \<Rightarrow> res_map (\<lambda>i. to_LogAppenderDefine node_get as_string (node_at as i)) [0..<node_size as]) (\<lambda>ads.
          Inr \<lparr>ld_name = name, ld_level = LogLevel_FromString level, ld_appenders = List.map_filter id ads\<rparr>))))"

text \<open>
  The value of the variable \<^verbatim>\<open>logs\<close>, a \<^verbatim>\<open>std::set\<close> ordered by \<^verbatim>\<open>operator<\<close>, which compares the names: the list of its elements in order. Inserting an
  element whose name is there already does nothing. Two sets are equal when their elements are, in order, by \<^verbatim>\<open>operator==\<close>.
\<close>

fun string_less :: "string \<Rightarrow> string \<Rightarrow> bool" where
  "string_less (a # as) (b # bs) \<longleftrightarrow> (of_char a :: nat) < of_char b \<or> a = b \<and> string_less as bs"
| "string_less [] (b # bs) \<longleftrightarrow> True"
| "string_less as [] \<longleftrightarrow> False"

fun insert_define :: "LogDefine \<Rightarrow> LogDefine list \<Rightarrow> LogDefine list" where
  "insert_define d [] = [d]"
| "insert_define d (e # es) =
     (if string_less (ld_name d) (ld_name e) then d # e # es
      else if string_less (ld_name e) (ld_name d) then e # insert_define d es
      else e # es)"

definition to_LogDefines ::
  "(string \<Rightarrow> yaml res) \<Rightarrow> (yaml \<Rightarrow> string) \<Rightarrow> (yaml \<Rightarrow> nat) \<Rightarrow> (yaml \<Rightarrow> nat \<Rightarrow> yaml) \<Rightarrow> (yaml \<Rightarrow> string \<Rightarrow> yaml option) \<Rightarrow> (yaml \<Rightarrow> string res) \<Rightarrow>
    string \<Rightarrow> LogDefine list res" where
  "to_LogDefines load emit node_size node_at node_get as_string v =
     res_bind (to_vector load emit node_size node_at (to_LogDefine load node_size node_at node_get as_string) v) (\<lambda>ds.
       Inr (fold insert_define ds []))"

definition LogDefines_eq :: "LogDefine list \<Rightarrow> LogDefine list \<Rightarrow> bool" where
  "LogDefines_eq a b \<longleftrightarrow> list_all2 LogDefine_eq a b"

definition appender_node :: "LogAppenderDefine \<Rightarrow> yaml" where
  "appender_node a =
     (let kvs = (if ad_type a = 1 then [(''type'', YScalar ''FileLogAppender''), (''file'', YScalar (ad_file a))]
                 else if ad_type a = 2 then [(''type'', YScalar ''StdoutLogAppender'')] else []) @
                (if ad_pattern a \<noteq> [] then [(''pattern'', YScalar (ad_pattern a))] else [])
      in if kvs = [] then YNull else YMap kvs)"

definition LogDefine_node :: "LogDefine \<Rightarrow> yaml" where
  "LogDefine_node i =
     YMap ([(''name'', YScalar (ld_name i)), (''level'', YScalar (LogLevel_ToString (ld_level i)))] @
           (if ld_appenders i = [] then [] else [(''appenders'', YSeq (map appender_node (ld_appenders i)))]))"

definition from_LogDefine :: "(yaml \<Rightarrow> string) \<Rightarrow> LogDefine \<Rightarrow> string" where
  "from_LogDefine emit i = emit (LogDefine_node i)"

text \<open>
  The listener of the variable \<^verbatim>\<open>logs\<close>. A value is a set ordered by name, here the list of its elements;
  \<^verbatim>\<open>find\<close> compares names. A definition of neither type leaves the appender null.
\<close>

definition find_define :: "LogDefine \<Rightarrow> LogDefine list \<Rightarrow> LogDefine option" where
  "find_define i ds = find (\<lambda>d. ld_name d = ld_name i) ds"

definition update_logger :: "string \<Rightarrow> nat \<Rightarrow> (Logger \<Rightarrow> Logger) \<Rightarrow> LoggerManager \<Rightarrow> LoggerManager" where
  "update_logger name now f lm =
     (case GetLogger name now lm of (lg, lm') \<Rightarrow> lm'\<lparr>m_loggers := (m_loggers lm')(name \<mapsto> f lg)\<rparr>)"

definition make_appender :: "int \<Rightarrow> LogAppenderDefine \<Rightarrow> log_world \<Rightarrow> (log_world \<times> LogAppender) res" where
  "make_appender garbage a w =
     res_bind (if ad_type a = 1 then FileLogAppender_ctor (ad_file a) garbage w
               else if ad_type a = 2 then res_bind StdoutLogAppender_ctor (\<lambda>ap. Inr (w, ap))
               else Inl Undefined) (\<lambda>(w', ap).
     res_bind (LogFormatter_ctor (if ad_pattern a \<noteq> [] then ad_pattern a else default_pattern)) (\<lambda>lf.
     Inr (w', SetFormatter lf ap)))"

primrec add_appenders :: "string \<Rightarrow> nat \<Rightarrow> int \<Rightarrow> LogAppenderDefine list \<Rightarrow> LoggerManager \<Rightarrow> LoggerManager res" where
  "add_appenders name now garbage [] lm = Inr lm"
| "add_appenders name now garbage (a # as) lm =
     res_bind (make_appender garbage a (lm_world lm)) (\<lambda>(w', ap).
     case new_appender ap (lm\<lparr>lm_world := w'\<rparr>) of
       (p, lm') \<Rightarrow> add_appenders name now garbage as (update_logger name now (AddAppender p) lm'))"

definition configure_logger :: "nat \<Rightarrow> int \<Rightarrow> LogDefine \<Rightarrow> LoggerManager \<Rightarrow> LoggerManager res" where
  "configure_logger now garbage i lm =
     add_appenders (ld_name i) now garbage (ld_appenders i)
       (update_logger (ld_name i) now (\<lambda>lg. ClearAppenders (SetLevel (ld_level i) lg)) lm)"

primrec apply_new :: "nat \<Rightarrow> int \<Rightarrow> LogDefine list \<Rightarrow> LogDefine list \<Rightarrow> LoggerManager \<Rightarrow> LoggerManager res" where
  "apply_new now garbage old [] lm = Inr lm"
| "apply_new now garbage old (i # is) lm =
     res_bind (case find_define i old of
                 None \<Rightarrow> configure_logger now garbage i lm
               | Some it \<Rightarrow> if \<not> LogDefine_eq i it then configure_logger now garbage i lm else Inr lm) (\<lambda>lm'.
     apply_new now garbage old is lm')"

primrec retire_old :: "nat \<Rightarrow> LogDefine list \<Rightarrow> LogDefine list \<Rightarrow> LoggerManager \<Rightarrow> LoggerManager" where
  "retire_old now new [] lm = lm"
| "retire_old now new (i # is) lm =
     retire_old now new is
       (if find_define i new = None then update_logger (ld_name i) now (\<lambda>lg. ClearAppenders (SetLevel NOTSET lg)) lm else lm)"

definition on_log_changed ::
  "(string \<Rightarrow> int \<Rightarrow> string) \<Rightarrow> (int \<Rightarrow> int \<times> int \<times> int) \<Rightarrow> int \<Rightarrow> LogEvent \<Rightarrow> nat \<Rightarrow> int \<Rightarrow> LogDefine list \<Rightarrow> LogDefine list \<Rightarrow> LoggerManager \<Rightarrow> LoggerManager res" where
  "on_log_changed date_text local_time t_now ev now garbage old_value new_value lm =
     res_bind (case GetLogger ''root'' now lm of (root, lm0) \<Rightarrow> LOG_LEVEL date_text local_time t_now ev root lm0) (\<lambda>lm1.
     res_bind (apply_new now garbage old_value new_value lm1) (\<lambda>lm2.
     Inr (retire_old now new_value old_value lm2)))"

text \<open>The printed form of appenders; the standard output appender uses its own formatter without a test.\<close>

definition appender_ToYaml :: "LogAppender \<Rightarrow> yaml res" where
  "appender_ToYaml a =
     (case app_kind a of
        StdoutLogAppender \<Rightarrow>
          (case m_formatter a of
             None \<Rightarrow> Inl Undefined
           | Some f \<Rightarrow> Inr (YMap [(''type'', YScalar ''StdoutLogAppender''), (''pattern'', YScalar (m_pattern f))]))
      | FileLogAppender \<Rightarrow>
          Inr (YMap [(''type'', YScalar ''FileLogAppender''), (''file'', YScalar (m_filename a)), (''pattern'', YScalar (m_pattern (GetFormatter a)))]))"

definition Logger_ToYaml :: "(string \<Rightarrow> yaml res) \<Rightarrow> (yaml \<Rightarrow> string) \<Rightarrow> LoggerManager \<Rightarrow> Logger \<Rightarrow> yaml res" where
  "Logger_ToYaml load emit lm lg =
     res_bind (res_map (\<lambda>p. case apps lm p of None \<Rightarrow> Inl Undefined | Some a \<Rightarrow> res_bind (appender_ToYaml a) (\<lambda>n. load (emit n)))
                 (m_appenders lg)) (\<lambda>ns.
     Inr (YMap ([(''name'', YScalar (lg_name lg)), (''level'', YScalar (LogLevel_ToString (lg_level lg)))] @
                (if ns = [] then [] else [(''appenders'', YSeq ns)]))))"

text \<open>The manager prints its loggers in the order of their names; \<open>names\<close> lists them.\<close>

definition LoggerManager_ToYaml :: "(string \<Rightarrow> yaml res) \<Rightarrow> (yaml \<Rightarrow> string) \<Rightarrow> string list \<Rightarrow> LoggerManager \<Rightarrow> yaml res" where
  "LoggerManager_ToYaml load emit names lm =
     res_bind (res_map (\<lambda>name. case m_loggers lm name of
                                 None \<Rightarrow> Inl Undefined
                               | Some lg \<Rightarrow> res_bind (Logger_ToYaml load emit lm lg) (\<lambda>n. load (emit n))) names) (\<lambda>ns.
     Inr (if ns = [] then YNull else YSeq ns))"


section \<open>The second file of an appender\<close>

definition wf_fs :: "fs \<Rightarrow> bool" where
  "wf_fs fs \<longleftrightarrow> (\<forall>ks. fs ks \<noteq> None \<longrightarrow> \<not> top_dir ks \<and> is_dir fs (butlast ks))"

lemma make_level_cases:
  "make_level fs p = fs \<or>
   make_level fs p = fs(resolve p \<mapsto> Dir) \<and> fs (resolve p) = None \<and> \<not> top_dir (resolve p) \<and> is_dir fs (butlast (resolve p))"
  by (auto simp: make_level_def mkdir_def Let_def is_dir_def)

lemma wf_fs_mkdir: "wf_fs fs \<Longrightarrow> \<not> top_dir ks \<Longrightarrow> is_dir fs (butlast ks) \<Longrightarrow> wf_fs (fs(ks \<mapsto> Dir))"
  unfolding wf_fs_def is_dir_def by (metis fun_upd_apply option.discI)

lemma make_level_keeps: "wf_fs fs \<Longrightarrow> wf_fs (make_level fs p)" "fs ks = Some k \<Longrightarrow> make_level fs p ks = Some k"
  using make_level_cases[of fs p] wf_fs_mkdir[of fs "resolve p"] by auto

lemma make_levels_keeps:
  "wf_fs fs \<Longrightarrow> fs ks = Some k \<Longrightarrow> wf_fs (make_levels fs seen cs rest) \<and> make_levels fs seen cs rest ks = Some k"
  by (induction fs seen cs rest rule: make_levels.induct) (auto simp: make_level_keeps)

lemma MakeSurePathExist_keeps:
  "wf_fs fs \<Longrightarrow> fs ks = Some k \<Longrightarrow> wf_fs (MakeSurePathExist fs p) \<and> MakeSurePathExist fs p ks = Some k"
  by (simp add: MakeSurePathExist_def make_levels_keeps)

lemma digit_char_no_slash: "d < 10 \<Longrightarrow> digit_char d \<noteq> CHR ''/''"
proof
  assume "d < 10" "digit_char d = CHR ''/''"
  then have "(of_char (digit_char d) :: nat) = 47" by simp
  with \<open>d < 10\<close> show False by (simp add: digit_char_def)
qed

lemma show_nat_no_slash: "CHR ''/'' \<notin> set (show_nat n)"
proof (induction n rule: show_nat.induct)
  case (1 n)
  show ?case using digit_char_no_slash[of n] digit_char_no_slash[of "n mod 10"] 1
    by (cases "n < 10") (auto simp: show_nat.simps[of n])
qed

lemma to_string_no_slash [simp]: "CHR ''/'' \<notin> set (to_string i)"
  using show_nat_no_slash by (auto simp: to_string_def)

lemma open_below_file:
  assumes "wf_fs fs" "fs ks = Some Reg" "resolve p = ks @ [d]"
  shows "open_append fs p = (False, fs)"
proof -
  have "\<not> top_dir ks" "fs ks \<noteq> Some Dir" using assms(1,2) by (auto simp: wf_fs_def)
  then have "\<not> is_dir fs ks" "fs (ks @ [d]) = None" using assms(1) by (auto simp: wf_fs_def is_dir_def)
  then show ?thesis using assms(3) by (auto simp: open_append_def Let_def)
qed

lemma resolve_below:
  assumes "n \<noteq> []" "CHR ''/'' \<notin> set d" "d \<noteq> []" "d \<noteq> ''.''"
  shows "resolve (n @ ''/'' @ d) = resolve n @ [d]"
  using assms split_on_append[of "CHR ''/''" n d] by (cases n) (simp_all add: resolve_def comps_def split_on_none)

text \<open>Once its path is a regular file, a file appender cannot follow the calendar: the first event of another
  day makes \<^verbatim>\<open>CreateNewFile\<close> look for a file below the file it has, which cannot be opened, and the
  assertion fails.\<close>

theorem file_appender_aborts:
  assumes "wf_fs (w_fs w)" "w_fs w (resolve (m_filename a)) = Some Reg"
    and "m_filename a \<noteq> []" "last (m_filename a) \<notin> {CHR ''/'', CHR 0x5C}"
    and "ev_time ev mod 2 ^ 64 div (24 * 60 * 60) \<noteq> m_curData a"
  shows "File_Log date_text local_time t_now ev w a = Inl AssertFailed"
proof -
  let ?w = "w\<lparr>w_fs := MakeSurePathExist (w_fs w) (m_filename a)\<rparr>"
  obtain y m d where t: "local_time t_now = (y, m, d)" by (metis prod_cases3)
  let ?date = "to_string (y + 1900) @ ''-'' @ to_string (m + 1) @ ''-'' @ to_string d @ ''.log''"
  have "GetFileName (local_time t_now) (m_filename a) = m_filename a @ ''/'' @ ?date"
    using assms(3,4) by (simp add: GetFileName_def t)
  moreover have "?date \<noteq> ''.''" by (cases "to_string (y + 1900)") auto
  ultimately have "resolve (GetFileName (local_time t_now) (m_filename a)) = resolve (m_filename a) @ [?date]"
    using resolve_below[of "m_filename a" ?date] assms(3) by simp
  then have "open_append (w_fs ?w) (GetFileName (local_time t_now) (m_filename a)) = (False, w_fs ?w)"
    using open_below_file[of "w_fs ?w" "resolve (m_filename a)"] MakeSurePathExist_keeps[OF assms(1,2), of "m_filename a"] by simp
  then have "CreateNewFile local_time t_now ?w a = Inl AssertFailed"
    by (simp add: CreateNewFile_def Let_def ofstream_open_def ofstream_close_def)
  moreover have "int (nat (ev_time ev mod 2 ^ 64) div (24 * 60 * 60)) \<noteq> m_curData a" using assms(5) by (simp add: zdiv_int)
  ultimately show ?thesis by (simp add: File_Log_def Let_def)
qed

text \<open>The state after an appender was made for a new file, and its first event.\<close>

definition demo_world :: log_world where
  "demo_world = \<lparr>w_fs = (\<lambda>ks. if ks = [''web.log''] then Some Reg else None), w_files = (\<lambda>_. []), w_stdout = []\<rparr>"

definition demo_appender :: LogAppender where
  "demo_appender = \<lparr>app_kind = FileLogAppender, m_formatter = None,
     m_defaultFormatter = \<lparr>m_pattern = ''%m'', m_items = [MessageFormatItem], m_error = False\<rparr>, m_filename = ''web.log'',
     m_filestream = \<lparr>os_file = Some [''web.log''], os_fail = False\<rparr>, m_lastTime = 0, m_reopenError = False, m_curData = 0\<rparr>"

definition demo_event :: LogEvent where
  "demo_event = \<lparr>ev_level = INFO, ev_content = ''up'', ev_file = ''main.cpp'', ev_line = 3, ev_elapse = 0, ev_time = 90000, ev_loggerName = ''root''\<rparr>"

theorem file_appender_aborts_witness:
  "File_Log (\<lambda>f t. []) (\<lambda>t. (126, 2, 27)) 90000 demo_event demo_world demo_appender = Inl AssertFailed"
proof (rule file_appender_aborts)
  have r: "resolve ''web.log'' = [''web.log'']" by code_simp
  then show "w_fs demo_world (resolve (m_filename demo_appender)) = Some Reg" by (simp add: demo_world_def demo_appender_def)
qed (simp_all add: demo_world_def demo_appender_def demo_event_def wf_fs_def top_dir_def is_dir_def)


section \<open>What a configuration does\<close>

definition ad_formatter :: "LogAppenderDefine \<Rightarrow> LogFormatter res" where
  "ad_formatter ad = LogFormatter_ctor (if ad_pattern ad \<noteq> [] then ad_pattern ad else default_pattern)"

text \<open>The appender a definition describes.\<close>

definition app_matches :: "LogAppenderDefine \<Rightarrow> LogAppender \<Rightarrow> bool" where
  "app_matches ad ap \<longleftrightarrow>
     (ad_type ad = 1 \<and> app_kind ap = FileLogAppender \<and> m_filename ap = ad_file ad \<or> ad_type ad = 2 \<and> app_kind ap = StdoutLogAppender) \<and>
     (\<exists>lf. ad_formatter ad = Inr lf \<and> m_formatter ap = Some lf)"

definition apps_match :: "LoggerManager \<Rightarrow> LogAppenderDefine list \<Rightarrow> appender_ptr list \<Rightarrow> bool" where
  "apps_match lm ads ps \<longleftrightarrow> list_all2 (\<lambda>ad p. p < next_app lm \<and> (\<exists>ap. apps lm p = Some ap \<and> app_matches ad ap)) ads ps"

definition logger_matches :: "LoggerManager \<Rightarrow> LogDefine \<Rightarrow> bool" where
  "logger_matches lm i \<longleftrightarrow>
     (\<exists>lg. m_loggers lm (ld_name i) = Some lg \<and> lg_level lg = ld_level i \<and> apps_match lm (ld_appenders i) (m_appenders lg))"

definition define_valid :: "LogDefine \<Rightarrow> bool" where
  "define_valid i \<longleftrightarrow> list_all (\<lambda>ad. (ad_type ad = 1 \<or> ad_type ad = 2) \<and> (\<exists>lf. ad_formatter ad = Inr lf)) (ld_appenders i)"

text \<open>A step that keeps every logger but one and only adds appenders.\<close>

definition grows :: "string \<Rightarrow> LoggerManager \<Rightarrow> LoggerManager \<Rightarrow> bool" where
  "grows name lm lm' \<longleftrightarrow> (\<forall>n. n \<noteq> name \<longrightarrow> m_loggers lm' n = m_loggers lm n) \<and> next_app lm \<le> next_app lm' \<and>
     (\<forall>p < next_app lm. apps lm' p = apps lm p)"

lemma grows_trans: "grows name a b \<Longrightarrow> grows name b c \<Longrightarrow> grows name a c"
  by (auto simp: grows_def)

lemma grows_apps_match: "grows name lm lm' \<Longrightarrow> apps_match lm ads ps \<Longrightarrow> apps_match lm' ads ps"
  unfolding apps_match_def by (erule list_all2_mono) (auto simp: grows_def)

lemma apps_match_snoc:
  "apps_match lm ads ps \<Longrightarrow> p < next_app lm \<Longrightarrow> apps lm p = Some ap \<Longrightarrow> app_matches ad ap \<Longrightarrow> apps_match lm (ads @ [ad]) (ps @ [p])"
  unfolding apps_match_def by (rule list_all2_appendI) auto

lemma grows_matches: "grows name lm lm' \<Longrightarrow> ld_name i \<noteq> name \<Longrightarrow> logger_matches lm i \<Longrightarrow> logger_matches lm' i"
  using grows_apps_match[of name lm lm' "ld_appenders i"] by (auto simp: logger_matches_def grows_def)

lemma update_logger_simps:
  "m_loggers (update_logger name now f lm) = (m_loggers lm)(name \<mapsto> f (case m_loggers lm name of Some lg \<Rightarrow> lg | None \<Rightarrow> Logger_ctor name now))"
  "apps (update_logger name now f lm) = apps lm" "next_app (update_logger name now f lm) = next_app lm"
  by (auto simp: update_logger_def GetLogger_def Let_def split: option.splits)

lemma update_logger_grows: "grows name lm (update_logger name now f lm)"
  by (simp add: grows_def update_logger_simps)

lemma ReOpen_keeps: "ReOpen w a = (w', a') \<Longrightarrow> app_kind a' = app_kind a \<and> m_filename a' = m_filename a"
  by (auto simp: ReOpen_def Let_def split: prod.splits)

lemma make_appender_matches:
  assumes "ad_type ad = 1 \<or> ad_type ad = 2" "ad_formatter ad = Inr lf"
  shows "\<exists>w' ap. make_appender garbage ad w = Inr (w', ap) \<and> app_matches ad ap"
proof -
  obtain d where d: "LogFormatter_ctor default_pattern = Inr d" using default_formatter by blast
  show ?thesis using assms(1)
  proof
    assume 1: "ad_type ad = 1"
    obtain a where a: "LogAppender_ctor FileLogAppender (ad_file ad) garbage = Inr a" "app_kind a = FileLogAppender" "m_filename a = ad_file ad"
      by (simp add: LogAppender_ctor_def d)
    obtain w' a' where r: "ReOpen w a = (w', a')" by force
    show ?thesis using 1 a r ReOpen_keeps[OF r] assms(2)
      by (simp add: make_appender_def FileLogAppender_ctor_def ad_formatter_def[symmetric] app_matches_def SetFormatter_def)
  next
    assume "ad_type ad = 2"
    then show ?thesis using assms(2) d
      by (simp add: make_appender_def StdoutLogAppender_ctor_def LogAppender_ctor_def ad_formatter_def[symmetric] app_matches_def SetFormatter_def)
  qed
qed

lemma add_appenders_matches:
  assumes "define_valid \<lparr>ld_name = name, ld_level = l, ld_appenders = ads\<rparr>" "m_loggers lm name = Some lg"
    and "apps_match lm done (m_appenders lg)"
  shows "\<exists>lm' lg'. add_appenders name now garbage ads lm = Inr lm' \<and> grows name lm lm' \<and> m_loggers lm' name = Some lg' \<and>
           lg_level lg' = lg_level lg \<and> apps_match lm' (done @ ads) (m_appenders lg')"
  using assms
proof (induction ads arbitrary: lm lg "done")
  case Nil
  then show ?case by (auto simp: grows_def)
next
  case (Cons ad ads)
  obtain lf where ad: "ad_type ad = 1 \<or> ad_type ad = 2" "ad_formatter ad = Inr lf" using Cons.prems(1) by (auto simp: define_valid_def)
  obtain w' ap where ap: "make_appender garbage ad (lm_world lm) = Inr (w', ap)" "app_matches ad ap"
    using make_appender_matches[OF ad] by blast
  let ?p = "next_app lm" and ?a = "lm\<lparr>lm_world := w', apps := (apps lm)(next_app lm \<mapsto> ap), next_app := next_app lm + 1\<rparr>"
  let ?lm = "update_logger name now (AddAppender ?p) ?a"
  have lg: "m_loggers ?lm name = Some (AddAppender ?p lg)" using Cons.prems(2) by (simp add: update_logger_simps)
  have "grows name lm ?a" by (simp add: grows_def)
  then have g: "grows name lm ?lm" using grows_trans update_logger_grows by blast
  have "apps_match ?lm (done @ [ad]) (m_appenders (AddAppender ?p lg))"
    using apps_match_snoc[OF grows_apps_match[OF g Cons.prems(3)], of ?p ap ad] ap(2) by (simp add: AddAppender_def update_logger_simps)
  with lg Cons.IH[of ?lm "AddAppender ?p lg" "done @ [ad]"] Cons.prems(1) obtain lm' lg' where
    r: "add_appenders name now garbage ads ?lm = Inr lm'" "grows name ?lm lm'" "m_loggers lm' name = Some lg'"
      "lg_level lg' = lg_level lg" "apps_match lm' (done @ ad # ads) (m_appenders lg')"
    by (auto simp: define_valid_def AddAppender_def)
  have "add_appenders name now garbage (ad # ads) lm = Inr lm'" using ap(1) r(1) by (simp add: new_appender_def)
  with r grows_trans[OF g r(2)] show ?case by blast
qed

lemma configure_logger_matches:
  assumes "define_valid i"
  shows "\<exists>lm'. configure_logger now garbage i lm = Inr lm' \<and> grows (ld_name i) lm lm' \<and> logger_matches lm' i"
proof -
  let ?lm = "update_logger (ld_name i) now (\<lambda>lg. ClearAppenders (SetLevel (ld_level i) lg)) lm"
  obtain lg where lg: "m_loggers ?lm (ld_name i) = Some lg" "lg_level lg = ld_level i" "m_appenders lg = []"
    by (simp add: update_logger_simps ClearAppenders_def SetLevel_def)
  have "apps_match ?lm [] (m_appenders lg)" by (simp add: apps_match_def lg(3))
  with add_appenders_matches[of "ld_name i" "ld_level i" "ld_appenders i" ?lm lg "[]" now garbage] lg assms
  obtain lm' lg' where r: "add_appenders (ld_name i) now garbage (ld_appenders i) ?lm = Inr lm'" "grows (ld_name i) ?lm lm'"
    "m_loggers lm' (ld_name i) = Some lg'" "lg_level lg' = ld_level i" "apps_match lm' (ld_appenders i) (m_appenders lg')"
    by (auto simp: define_valid_def)
  moreover have "grows (ld_name i) lm lm'" using grows_trans[OF update_logger_grows r(2)] .
  ultimately show ?thesis by (auto simp: configure_logger_def logger_matches_def)
qed

text \<open>Whether a new definition is applied: there was none of its name, or the comparison sees a change.\<close>

definition is_changed :: "LogDefine list \<Rightarrow> LogDefine \<Rightarrow> bool" where
  "is_changed old i \<longleftrightarrow> (case find_define i old of None \<Rightarrow> True | Some it \<Rightarrow> \<not> LogDefine_eq i it)"

lemma apply_new_matches:
  assumes "list_all define_valid new" "distinct (map ld_name new)"
  shows "\<exists>lm'. apply_new now garbage old new lm = Inr lm' \<and> (\<forall>i \<in> set new. is_changed old i \<longrightarrow> logger_matches lm' i) \<and>
     (\<forall>n. n \<notin> ld_name ` {i \<in> set new. is_changed old i} \<longrightarrow> m_loggers lm' n = m_loggers lm n) \<and>
     (\<forall>i. ld_name i \<notin> ld_name ` set new \<longrightarrow> logger_matches lm i \<longrightarrow> logger_matches lm' i)"
  using assms
proof (induction new arbitrary: lm)
  case (Cons i new)
  obtain lm1 where 1: "(if is_changed old i then configure_logger now garbage i lm else Inr lm) = Inr lm1" "grows (ld_name i) lm lm1"
      "is_changed old i \<Longrightarrow> logger_matches lm1 i" "\<not> is_changed old i \<Longrightarrow> lm1 = lm"
    using configure_logger_matches[of i now garbage lm] Cons.prems(1) by (cases "is_changed old i") (auto simp: grows_def)
  obtain lm' where 2: "apply_new now garbage old new lm1 = Inr lm'" "\<forall>i \<in> set new. is_changed old i \<longrightarrow> logger_matches lm' i"
      "\<forall>n. n \<notin> ld_name ` {i \<in> set new. is_changed old i} \<longrightarrow> m_loggers lm' n = m_loggers lm1 n"
      "\<forall>i. ld_name i \<notin> ld_name ` set new \<longrightarrow> logger_matches lm1 i \<longrightarrow> logger_matches lm' i"
    using Cons.IH[of lm1] Cons.prems by auto
  have step: "apply_new now garbage old (i # new) lm = apply_new now garbage old new lm1"
    using 1(1) by (auto simp: is_changed_def split: option.splits if_splits)
  have notin: "ld_name i \<notin> ld_name ` set new" using Cons.prems(2) by auto
  have "\<forall>j \<in> set (i # new). is_changed old j \<longrightarrow> logger_matches lm' j" using 1(3) 2(2,4) notin by auto
  moreover have "m_loggers lm' n = m_loggers lm n" if n: "n \<notin> ld_name ` {j \<in> set (i # new). is_changed old j}" for n
  proof -
    have "n \<notin> ld_name ` {i \<in> set new. is_changed old i}" "is_changed old i \<Longrightarrow> n \<noteq> ld_name i" using n by auto
    then show ?thesis using 1(2,4) 2(3) by (cases "is_changed old i") (auto simp: grows_def)
  qed
  moreover have "\<forall>j. ld_name j \<notin> ld_name ` set (i # new) \<longrightarrow> logger_matches lm j \<longrightarrow> logger_matches lm' j"
    using 2(4) grows_matches[OF 1(2)] by auto
  moreover have "apply_new now garbage old (i # new) lm = Inr lm'" using step 2(1) by simp
  ultimately show ?case by blast
qed simp

lemma retire_old_spec:
  "(\<forall>n. n \<notin> ld_name ` {o' \<in> set old. find_define o' new = None} \<longrightarrow> m_loggers (retire_old now new old lm) n = m_loggers lm n) \<and>
   (\<forall>o' \<in> set old. find_define o' new = None \<longrightarrow>
      (\<exists>lg. m_loggers (retire_old now new old lm) (ld_name o') = Some lg \<and> lg_level lg = NOTSET \<and> m_appenders lg = [])) \<and>
   apps (retire_old now new old lm) = apps lm \<and> next_app (retire_old now new old lm) = next_app lm"
proof (induction old arbitrary: lm)
  case (Cons i old)
  let ?lm = "if find_define i new = None then update_logger (ld_name i) now (\<lambda>lg. ClearAppenders (SetLevel NOTSET lg)) lm else lm"
  let ?r = "retire_old now new old ?lm"
  note IH = Cons.IH[of ?lm]
  have "\<exists>lg. m_loggers ?r (ld_name i) = Some lg \<and> lg_level lg = NOTSET \<and> m_appenders lg = []" if "find_define i new = None"
  proof (cases "ld_name i \<in> ld_name ` {o' \<in> set old. find_define o' new = None}")
    case True
    then obtain j where "ld_name i = ld_name j" "j \<in> set old" "find_define j new = None" by auto
    with IH show ?thesis by simp
  next
    case False
    with IH that show ?thesis by (simp add: update_logger_simps ClearAppenders_def SetLevel_def)
  qed
  moreover have "m_loggers ?r n = m_loggers lm n" if "n \<notin> ld_name ` {o' \<in> set (i # old). find_define o' new = None}" for n
  proof -
    from that have "n \<notin> ld_name ` {o' \<in> set old. find_define o' new = None}" by auto
    with IH have "m_loggers ?r n = m_loggers ?lm n" by blast
    with that show ?thesis by (auto simp: update_logger_simps)
  qed
  moreover have "apps ?lm = apps lm" "next_app ?lm = next_app lm" by (simp_all add: update_logger_simps)
  moreover have "retire_old now new (i # old) lm = ?r" by simp
  moreover have "\<forall>o' \<in> set old. find_define o' new = None \<longrightarrow>
      (\<exists>lg. m_loggers ?r (ld_name o') = Some lg \<and> lg_level lg = NOTSET \<and> m_appenders lg = [])" using IH by blast
  moreover have "apps ?r = apps ?lm" "next_app ?r = next_app ?lm" using IH by blast+
  ultimately show ?case by simp
qed simp

lemma log_all_keeps: "log_all date_text local_time t_now ev ps lm = Inr lm' \<Longrightarrow> m_loggers lm' = m_loggers lm"
  by (induction ps arbitrary: lm) (auto simp: res_bind_Inr_iff split: option.splits)

lemma LOG_LEVEL_keeps: "LOG_LEVEL date_text local_time t_now ev lg lm = Inr lm' \<Longrightarrow> m_loggers lm' = m_loggers lm"
  by (auto simp: LOG_LEVEL_def Logger_Log_def dest: log_all_keeps split: if_splits)

text \<open>C29: a change of the log configuration takes effect exactly as far as it is noticed: when the announcement on the
  root logger goes through and every definition is valid, the listener returns, a logger whose definition
  is new or has another level has the configured level and one appender per definition with its
  file and formatter, a logger that is no longer defined is silenced, every other logger is as before. A
  definition in which only the appenders differ is not noticed.\<close>

theorem log_config_applied:
  assumes "(case GetLogger ''root'' now lm of (root, lm0) \<Rightarrow> LOG_LEVEL date_text local_time t_now ev root lm0) = Inr lm1"
    and "list_all define_valid new" "distinct (map ld_name new)"
  shows "\<exists>lm'. on_log_changed date_text local_time t_now ev now garbage old new lm = Inr lm' \<and>
     (\<forall>i \<in> set new. is_changed old i \<longrightarrow> logger_matches lm' i) \<and>
     (\<forall>d \<in> set old. find_define d new = None \<longrightarrow>
        (\<exists>lg. m_loggers lm' (ld_name d) = Some lg \<and> lg_level lg = NOTSET \<and> m_appenders lg = [])) \<and>
     (\<forall>n. n \<noteq> ''root'' \<and> n \<notin> ld_name ` {i \<in> set new. is_changed old i} \<and> n \<notin> ld_name ` {d \<in> set old. find_define d new = None} \<longrightarrow>
        m_loggers lm' n = m_loggers lm n) \<and>
     (\<forall>i it. find_define i old = Some it \<and> ld_level it = ld_level i \<longrightarrow> \<not> is_changed old i)"
proof -
  have root: "m_loggers lm1 n = m_loggers lm n" if "n \<noteq> ''root''" for n
    using assms(1) that by (auto simp: GetLogger_def Let_def dest!: LOG_LEVEL_keeps split: option.splits)
  obtain lm2 where 2: "apply_new now garbage old new lm1 = Inr lm2" "\<forall>i \<in> set new. is_changed old i \<longrightarrow> logger_matches lm2 i"
      "\<forall>n. n \<notin> ld_name ` {i \<in> set new. is_changed old i} \<longrightarrow> m_loggers lm2 n = m_loggers lm1 n"
    using apply_new_matches[OF assms(2,3)] by blast
  let ?lm' = "retire_old now new old lm2"
  note ret = retire_old_spec[of old new now lm2]
  have "logger_matches ?lm' i" if i: "i \<in> set new" "is_changed old i" for i
  proof -
    have "ld_name i \<notin> ld_name ` {d \<in> set old. find_define d new = None}"
      using i(1) by (auto simp: find_define_def find_None_iff)
    then have "m_loggers ?lm' (ld_name i) = m_loggers lm2 (ld_name i)" using ret by blast
    then show ?thesis using 2(2) i ret by (auto simp: logger_matches_def apps_match_def)
  qed
  moreover have "on_log_changed date_text local_time t_now ev now garbage old new lm = Inr ?lm'"
    using assms(1) 2(1) by (simp add: on_log_changed_def)
  moreover have "\<not> is_changed old i" if "find_define i old = Some it" "ld_level it = ld_level i" for i it
  proof -
    have "ld_name it = ld_name i" using that(1) by (auto simp: find_define_def find_Some_iff)
    with that show ?thesis by (simp add: is_changed_def LogDefine_eq_def)
  qed
  ultimately show ?thesis using ret 2(3) root by (intro exI[of _ ?lm']) auto
qed


definition demo_manager :: LoggerManager where
  "demo_manager = \<lparr>m_loggers = [''root'' \<mapsto> Logger_ctor ''root'' 0], apps = Map.empty, next_app = 0, lm_world = demo_world\<rparr>"

definition demo_define :: LogDefine where
  "demo_define = \<lparr>ld_name = ''web'', ld_level = DEBUG, ld_appenders = [\<lparr>ad_type = 2, ad_pattern = [], ad_file = []\<rparr>]\<rparr>"

theorem log_config_applied_witness:
  "\<exists>lm'. on_log_changed (\<lambda>f t. []) (\<lambda>t. (126, 2, 27)) 90000 demo_event 0 0 [] [demo_define] demo_manager = Inr lm' \<and> logger_matches lm' demo_define"
proof -
  have "(case GetLogger ''root'' 0 demo_manager of (root, lm0) \<Rightarrow> LOG_LEVEL (\<lambda>f t. []) (\<lambda>t. (126, 2, 27)) 90000 demo_event root lm0) = Inr demo_manager"
    by (simp add: GetLogger_def demo_manager_def LOG_LEVEL_def Logger_Log_def Logger_ctor_def)
  moreover have "list_all define_valid [demo_define]" using default_formatter by (auto simp: define_valid_def demo_define_def ad_formatter_def)
  ultimately obtain lm' where "on_log_changed (\<lambda>f t. []) (\<lambda>t. (126, 2, 27)) 90000 demo_event 0 0 [] [demo_define] demo_manager = Inr lm'"
      "\<forall>i \<in> set [demo_define]. is_changed [] i \<longrightarrow> logger_matches lm' i"
    using log_config_applied[where now = 0 and lm = demo_manager and ev = demo_event and new = "[demo_define]" and old = "[]"
        and date_text = "\<lambda>f t. []" and local_time = "\<lambda>t. (126, 2, 27)" and t_now = 90000 and ?lm1.0 = demo_manager and garbage = 0] by auto
  then show ?thesis by (auto simp: is_changed_def find_define_def)
qed

section \<open>Printing and reading definitions\<close>

definition ad_printable :: "LogAppenderDefine \<Rightarrow> bool" where
  "ad_printable a \<longleftrightarrow> ad_type a = 1 \<or> ad_type a = 2 \<and> ad_file a = []"

lemma to_appender_node:
  assumes "\<And>kvs k. node_get (YMap kvs) k = map_of kvs k" "\<And>t. as_string (YScalar t) = Inr t" "ad_printable a"
  shows "to_LogAppenderDefine node_get as_string (appender_node a) = Inr (Some a)"
  using assms(3) by (cases a) (auto simp: ad_printable_def to_LogAppenderDefine_def appender_node_def get_string_def assms(1,2))

text \<open>A logger definition printed to YAML is read back as it was: name, level and all appenders with
  their type, file and pattern, given that the library looks up keys of a map, reads scalars as
  strings and reads back the printed document.\<close>

lemma LogDefine_roundtrip:
  assumes get: "\<And>kvs k. node_get (YMap kvs) k = map_of kvs k" and str: "\<And>t. as_string (YScalar t) = Inr t"
    and lib: "load (emit (LogDefine_node d)) = Inr (LogDefine_node d)"
    and seq: "node_size (YSeq (map appender_node (ld_appenders d))) = length (ld_appenders d)"
      "\<And>i. i < length (ld_appenders d) \<Longrightarrow> node_at (YSeq (map appender_node (ld_appenders d))) i = appender_node (ld_appenders d ! i)"
    and ok: "list_all ad_printable (ld_appenders d)"
  shows "to_LogDefine load node_size node_at node_get as_string (from_LogDefine emit d) = Inr d"
proof -
  let ?as = "YSeq (map appender_node (ld_appenders d))"
  have "res_map (\<lambda>i. to_LogAppenderDefine node_get as_string (node_at ?as i)) [0..<length (ld_appenders d)] =
    Inr (map (\<lambda>i. Some (ld_appenders d ! i)) [0..<length (ld_appenders d)])"
    using seq(2) ok by (intro res_map_Inr) (simp add: to_appender_node[OF get str] list_all_length)
  moreover have "List.map_filter id (map (\<lambda>i. Some (ld_appenders d ! i)) [0..<length (ld_appenders d)]) = ld_appenders d"
    by (simp add: List.map_filter_def comp_def map_nth)
  ultimately show ?thesis
    unfolding to_LogDefine_def from_LogDefine_def lib res_bind.simps
    by (auto simp: LogDefine_node_def get str get_string_def seq(1) List.map_filter_def)
qed

text \<open>Printing a manager that was just made dereferences the null formatter of the standard output appender of
  the root logger.\<close>

lemma new_manager_ToYaml:
  assumes "LoggerManager_ctor now w = Inr lm"
  shows "LoggerManager_ToYaml load emit [''root''] lm = Inl Undefined"
proof -
  obtain d where "LogFormatter_ctor default_pattern = Inr d" using default_formatter by blast
  with assms show ?thesis
    by (auto simp: LoggerManager_ctor_def StdoutLogAppender_ctor_def LogAppender_ctor_def new_appender_def LoggerManager_ToYaml_def Logger_ToYaml_def
        AddAppender_def Logger_ctor_def appender_ToYaml_def)
qed

end
