(* ===== verification/TW_ConnectionPool.thy ===== *)
theory TW_ConnectionPool
  imports TW_Prelude
begin

text \<open>
  \<^verbatim>\<open>src/db/ConnectionPool.cpp\<close> and the connection objects of \<^verbatim>\<open>src/db/Connection.cpp\<close>: the pool of database
  connections shared by clients, a producer thread and a scanner thread. Connections are objects in
  a store; what the pool's mutex protects is one step. Waiting on the condition variable is
  \<^term>\<open>None\<close>. The pool is a static object, so its counter starts at zero. The outcome of
  \<^verbatim>\<open>mysql_real_connect\<close> and the clock are arguments.
\<close>

section \<open>Connections\<close>

type_synonym conn_ptr = nat

text \<open>\<^verbatim>\<open>m_conn\<close> is whether the MySQL handle is set; times are microseconds.\<close>

record Connection =
  m_conn :: bool
  m_aliveTime :: int

definition Connection_ctor :: Connection where
  "Connection_ctor = \<lparr>m_conn = True, m_aliveTime = 0\<rparr>"

definition Connect :: "bool \<Rightarrow> Connection \<Rightarrow> bool \<times> Connection" where
  "Connect reachable c = (reachable, c\<lparr>m_conn := reachable\<rparr>)"

definition RefreshAliveTime :: "int \<Rightarrow> Connection \<Rightarrow> Connection" where
  "RefreshAliveTime now c = c\<lparr>m_aliveTime := now\<rparr>"

definition GetAliveTime :: "int \<Rightarrow> Connection \<Rightarrow> int" where
  "GetAliveTime now c = now - m_aliveTime c"

section \<open>The pool\<close>

text \<open>\<open>lent\<close> is the list of the connections that clients hold; it is not a field of the class.\<close>

record ConnectionPool =
  m_minSize :: nat
  m_maxSize :: nat
  m_maxIdleTime :: nat
  m_connectionQueue :: "conn_ptr list"
  m_connectionCount :: int
  m_isShutdown :: bool
  conns :: "conn_ptr \<rightharpoonup> Connection"
  lent :: "conn_ptr list"

text \<open>The counter is a \<^verbatim>\<open>std::atomic_int\<close>, whose arithmetic wraps around at 32 bits.\<close>

definition wrap_int :: "int \<Rightarrow> int" where
  "wrap_int n = (n + 2 ^ 31) mod 2 ^ 32 - 2 ^ 31"

lemma wrap_int_small [simp]: "- (2 ^ 31) \<le> n \<Longrightarrow> n < 2 ^ 31 \<Longrightarrow> wrap_int n = n"
  by (simp add: wrap_int_def)

text \<open>\<open>p\<close> is the address of the new connection.\<close>

definition AddConnection :: "int \<Rightarrow> bool \<Rightarrow> conn_ptr \<Rightarrow> ConnectionPool \<Rightarrow> ConnectionPool" where
  "AddConnection now reachable p cp =
     (let c = RefreshAliveTime now (snd (Connect reachable Connection_ctor)) in
      cp\<lparr>conns := (conns cp)(p \<mapsto> c), m_connectionQueue := m_connectionQueue cp @ [p], m_connectionCount := wrap_int (m_connectionCount cp + 1)\<rparr>)"

text \<open>The constructor with the configured sizes; \<open>ps\<close> gives address and outcome for each of the first connections.\<close>

definition blank_pool :: "nat \<Rightarrow> nat \<Rightarrow> nat \<Rightarrow> ConnectionPool" where
  "blank_pool min_size max_size idle =
     \<lparr>m_minSize = min_size, m_maxSize = max_size, m_maxIdleTime = idle, m_connectionQueue = [], m_connectionCount = 0,
      m_isShutdown = False, conns = Map.empty, lent = []\<rparr>"

primrec add_all :: "int \<Rightarrow> (conn_ptr \<times> bool) list \<Rightarrow> ConnectionPool \<Rightarrow> ConnectionPool" where
  "add_all now [] cp = cp"
| "add_all now (a # as) cp = add_all now as (AddConnection now (snd a) (fst a) cp)"

definition ConnectionPool_ctor :: "int \<Rightarrow> nat \<Rightarrow> nat \<Rightarrow> nat \<Rightarrow> (conn_ptr \<times> bool) list \<Rightarrow> ConnectionPool" where
  "ConnectionPool_ctor now min_size max_size idle ps = add_all now (take min_size ps) (blank_pool min_size max_size idle)"

definition GetConnection :: "ConnectionPool \<Rightarrow> (conn_ptr \<times> ConnectionPool) option" where
  "GetConnection cp =
     (case m_connectionQueue cp of
        [] \<Rightarrow> None
      | p # ps \<Rightarrow> Some (p, cp\<lparr>m_connectionQueue := ps, lent := p # lent cp\<rparr>))"

text \<open>The deleter of the shared pointer a client got.\<close>

definition return_connection :: "int \<Rightarrow> conn_ptr \<Rightarrow> ConnectionPool \<Rightarrow> ConnectionPool" where
  "return_connection now p cp =
     cp\<lparr>conns := (conns cp)(p := map_option (RefreshAliveTime now) (conns cp p)),
        m_connectionQueue := m_connectionQueue cp @ [p], lent := remove1 p (lent cp)\<rparr>"

text \<open>
  One round of the producer, after it got the lock: it waits while the queue holds the minimum, ends at
  shutdown (\<open>Some (True, _)\<close>), and adds a connection below the maximum.
\<close>

definition ProduceConnectionTask :: "int \<Rightarrow> bool \<Rightarrow> conn_ptr \<Rightarrow> ConnectionPool \<Rightarrow> (bool \<times> ConnectionPool) option" where
  "ProduceConnectionTask now reachable p cp =
     (if m_isShutdown cp then Some (True, cp)
      else if length (m_connectionQueue cp) \<ge> m_minSize cp then None
      else Some (False, if m_connectionCount cp < size_to_int (m_maxSize cp) then AddConnection now reachable p cp else cp))"

text \<open>The inner loop of the scanner; \<^verbatim>\<open>front()\<close> of an empty queue is undefined.\<close>

function (sequential) scan_loop :: "int \<Rightarrow> ConnectionPool \<Rightarrow> ConnectionPool res" where
  "scan_loop now cp =
     (if m_connectionCount cp > size_to_int (m_minSize cp) then
        (case m_connectionQueue cp of
           [] \<Rightarrow> Inl Undefined
         | p # ps \<Rightarrow>
             (case conns cp p of
                None \<Rightarrow> Inl Undefined
              | Some c \<Rightarrow>
                  if GetAliveTime now c mod 2 ^ 64 \<ge> int (m_maxIdleTime cp) * 1000 mod 2 ^ 64 then
                    scan_loop now (cp\<lparr>m_connectionQueue := ps, m_connectionCount := wrap_int (m_connectionCount cp - 1), conns := (conns cp)(p := None)\<rparr>)
                  else Inr cp))
      else Inr cp)"
  by pat_completeness auto
termination by (relation "measure (\<lambda>(now, cp). length (m_connectionQueue cp))") auto

definition ScannerConnectionTask :: "int \<Rightarrow> ConnectionPool \<Rightarrow> (bool \<times> ConnectionPool) res" where
  "ScannerConnectionTask now cp = (if m_isShutdown cp then Inr (True, cp) else res_bind (scan_loop now cp) (\<lambda>cp'. Inr (False, cp')))"

text \<open>The destructor: what remains when the two threads have ended.\<close>

definition ConnectionPool_dtor :: "ConnectionPool \<Rightarrow> ConnectionPool" where
  "ConnectionPool_dtor cp =
     cp\<lparr>m_isShutdown := True, conns := (\<lambda>p. if p \<in> set (m_connectionQueue cp) then None else conns cp p), m_connectionQueue := []\<rparr>"

section \<open>Runs of the pool\<close>

inductive pool_reach :: "nat \<Rightarrow> nat \<Rightarrow> ConnectionPool \<Rightarrow> bool" for lo hi where
  create: "distinct (map fst ps) \<Longrightarrow> length ps = lo \<Longrightarrow> pool_reach lo hi (ConnectionPool_ctor now lo hi idle ps)"
| get: "pool_reach lo hi cp \<Longrightarrow> GetConnection cp = Some (p, cp') \<Longrightarrow> pool_reach lo hi cp'"
| give: "pool_reach lo hi cp \<Longrightarrow> p \<in> set (lent cp) \<Longrightarrow> pool_reach lo hi (return_connection now p cp)"
| produce: "pool_reach lo hi cp \<Longrightarrow> conns cp p = None \<Longrightarrow> ProduceConnectionTask now ok p cp = Some (b, cp') \<Longrightarrow> pool_reach lo hi cp'"
| scan: "pool_reach lo hi cp \<Longrightarrow> ScannerConnectionTask now cp = Inr (b, cp') \<Longrightarrow> pool_reach lo hi cp'"
| shutdown: "pool_reach lo hi cp \<Longrightarrow> pool_reach lo hi (cp\<lparr>m_isShutdown := True\<rparr>)"

definition pool_inv :: "nat \<Rightarrow> nat \<Rightarrow> ConnectionPool \<Rightarrow> bool" where
  "pool_inv lo hi cp \<longleftrightarrow> m_minSize cp = lo \<and> m_maxSize cp = hi \<and>
     distinct (m_connectionQueue cp @ lent cp) \<and> set (m_connectionQueue cp @ lent cp) \<subseteq> dom (conns cp) \<and>
     m_connectionCount cp = int (length (m_connectionQueue cp) + length (lent cp)) \<and>
     m_connectionCount cp \<le> int (max lo hi)"

lemma add_inv:
  assumes "pool_inv lo hi cp" "conns cp p = None" "m_connectionCount cp < int (max lo hi)" "max lo hi < 2 ^ 31"
  shows "pool_inv lo hi (AddConnection now ok p cp)" "m_connectionCount (AddConnection now ok p cp) = m_connectionCount cp + 1"
proof -
  have "wrap_int (m_connectionCount cp + 1) = m_connectionCount cp + 1" using assms(1,3,4) by (intro wrap_int_small) (auto simp: pool_inv_def)
  then show "pool_inv lo hi (AddConnection now ok p cp)" "m_connectionCount (AddConnection now ok p cp) = m_connectionCount cp + 1"
    using assms by (auto simp: pool_inv_def AddConnection_def Let_def)
qed

lemma add_all_inv:
  assumes "pool_inv lo hi cp" "distinct (map fst ps)" "\<forall>p \<in> set (map fst ps). conns cp p = None"
    "m_connectionCount cp + int (length ps) \<le> int (max lo hi)" "max lo hi < 2 ^ 31"
  shows "pool_inv lo hi (add_all now ps cp)"
  using assms
proof (induction ps arbitrary: cp)
  case (Cons a ps)
  have a: "pool_inv lo hi (AddConnection now (snd a) (fst a) cp)" "m_connectionCount (AddConnection now (snd a) (fst a) cp) = m_connectionCount cp + 1"
    using Cons.prems by (auto intro!: add_inv)
  have "conns (AddConnection now (snd a) (fst a) cp) p = None" if "p \<in> set (map fst ps)" for p
  proof -
    have "p \<noteq> fst a" using that Cons.prems(2) by (metis distinct.simps(2) list.map(2))
    then show ?thesis using that Cons.prems(3) by (auto simp: AddConnection_def Let_def)
  qed
  with a show ?case using Cons.IH[of "AddConnection now (snd a) (fst a) cp"] Cons.prems(2,4,5) by simp
qed simp

declare scan_loop.simps [simp del]

lemma scan_inv: "scan_loop now cp = Inr cp' \<Longrightarrow> pool_inv lo hi cp \<Longrightarrow> max lo hi < 2 ^ 31 \<Longrightarrow> pool_inv lo hi cp'"
proof (induction now cp rule: scan_loop.induct)
  case (1 now cp)
  show ?case
  proof (cases "\<exists>p ps c. m_connectionCount cp > size_to_int (m_minSize cp) \<and> m_connectionQueue cp = p # ps \<and> conns cp p = Some c \<and>
      GetAliveTime now c mod 2 ^ 64 \<ge> int (m_maxIdleTime cp) * 1000 mod 2 ^ 64")
    case True
    then obtain p ps c where h: "m_connectionCount cp > size_to_int (m_minSize cp)" "m_connectionQueue cp = p # ps" "conns cp p = Some c"
      "GetAliveTime now c mod 2 ^ 64 \<ge> int (m_maxIdleTime cp) * 1000 mod 2 ^ 64" by blast
    let ?cp = "cp\<lparr>m_connectionQueue := ps, m_connectionCount := wrap_int (m_connectionCount cp - 1), conns := (conns cp)(p := None)\<rparr>"
    have "wrap_int (m_connectionCount cp - 1) = m_connectionCount cp - 1"
      using "1.prems"(2,3) by (intro wrap_int_small) (auto simp: pool_inv_def)
    then have "pool_inv lo hi ?cp" using "1.prems"(2) h(2) by (auto simp: pool_inv_def)
    moreover have "scan_loop now ?cp = Inr cp'" using "1.prems"(1) h by (subst (asm) scan_loop.simps) simp
    ultimately show ?thesis using "1.IH"[OF h] "1.prems"(3) by blast
  next
    case False
    then have "cp' = cp" using "1.prems"(1) by (subst (asm) scan_loop.simps) (auto split: if_splits list.splits option.splits)
    with "1.prems"(2) show ?thesis by simp
  qed
qed

lemma pool_reach_inv: "pool_reach lo hi cp \<Longrightarrow> lo < 2 ^ 31 \<Longrightarrow> hi < 2 ^ 31 \<Longrightarrow> pool_inv lo hi cp"
proof (induction rule: pool_reach.induct)
  case (create ps now idle)
  then show ?case unfolding ConnectionPool_ctor_def
    by (intro add_all_inv) (auto simp: pool_inv_def blank_pool_def)
next
  case (get cp p cp')
  then show ?case by (auto simp: GetConnection_def pool_inv_def split: list.splits)
next
  case (give cp p now)
  then have "p \<in> set (lent cp)" "pool_inv lo hi cp" by auto
  moreover from this have "length (lent cp) = Suc (length (remove1 p (lent cp)))" by (simp add: length_remove1) (metis Suc_pred length_pos_if_in_set)
  ultimately show ?case by (auto simp: return_connection_def pool_inv_def)
next
  case (produce cp p now ok b cp')
  then have "size_to_int (m_maxSize cp) = int hi" by (auto simp: pool_inv_def size_simps)
  with produce show ?case using add_inv[of lo hi cp p now ok]
    by (auto simp: ProduceConnectionTask_def split: if_splits)
next
  case (scan cp now b cp')
  then show ?case using scan_inv[of now cp _ lo hi] by (auto simp: ScannerConnectionTask_def res_bind_Inr_iff split: if_splits)
qed (auto simp: pool_inv_def)

section \<open>Properties\<close>

text \<open>A pool for one to four connections, all of them taken by two clients.\<close>

definition taken_pool :: ConnectionPool where
  "taken_pool = (AddConnection 0 True 6 ((ConnectionPool_ctor 0 1 4 60 [(5, True)])\<lparr>m_connectionQueue := [], lent := [5]\<rparr>))
     \<lparr>m_connectionQueue := [], lent := [6, 5]\<rparr>"

lemmas pool_simps = taken_pool_def ConnectionPool_ctor_def blank_pool_def AddConnection_def Let_def Connect_def Connection_ctor_def
  RefreshAliveTime_def

lemma taken_pool_reach: "pool_reach 1 4 taken_pool"
proof -
  let ?p0 = "ConnectionPool_ctor 0 1 4 60 [(5, True)]"
  let ?p1 = "?p0\<lparr>m_connectionQueue := [], lent := [5]\<rparr>"
  have "pool_reach 1 4 ?p0" by (rule pool_reach.create) simp_all
  then have "pool_reach 1 4 ?p1" by (rule pool_reach.get[where p = 5]) (simp add: GetConnection_def pool_simps)
  then have "pool_reach 1 4 (AddConnection 0 True 6 ?p1)"
    by (rule pool_reach.produce[where p = 6 and now = 0 and ok = True and b = False]) (simp_all add: ProduceConnectionTask_def pool_simps size_to_int_def)
  then show ?thesis by (rule pool_reach.get[where p = 6]) (simp add: GetConnection_def pool_simps)
qed

text \<open>C23: The pool never exceeds its limit and never gives one connection to two clients, when the configured sizes fit in an \<^verbatim>\<open>int\<close>: in every state
  reachable by clients, producer and scanner in any order, the counter is the number of connections
  in the queue and at clients, all of them different live objects, and it is at most the larger of the
  configured sizes.\<close>

theorem pool_bounded_exclusive:
  assumes "pool_reach lo hi cp" "lo < 2 ^ 31" "hi < 2 ^ 31"
  shows "distinct (m_connectionQueue cp @ lent cp) \<and> set (m_connectionQueue cp @ lent cp) \<subseteq> dom (conns cp) \<and>
     m_connectionCount cp = int (length (m_connectionQueue cp) + length (lent cp)) \<and> m_connectionCount cp \<le> int (max lo hi) \<and>
     (\<forall>p cp'. GetConnection cp = Some (p, cp') \<longrightarrow> p \<notin> set (lent cp))"
  using pool_reach_inv[OF assms] by (auto simp: pool_inv_def GetConnection_def split: list.splits)

theorem pool_bounded_exclusive_witness: "m_connectionCount taken_pool = 2 \<and> distinct (lent taken_pool)"
  using pool_bounded_exclusive[OF taken_pool_reach] by (simp add: pool_simps)

text \<open>The scanner reads the front of an empty queue when clients hold more connections than the minimum
  and none is idle: that is undefined behaviour, and such states are reachable.\<close>

theorem scanner_empty_queue:
  assumes "pool_reach lo hi cp" "lo < 2 ^ 31" "hi < 2 ^ 31" "\<not> m_isShutdown cp" "m_connectionQueue cp = []" "length (lent cp) > lo"
  shows "ScannerConnectionTask now cp = Inl Undefined"
proof -
  have "m_connectionCount cp > size_to_int (m_minSize cp)"
    using pool_reach_inv[OF assms(1-3)] assms(2,5,6) by (simp add: pool_inv_def size_simps)
  then show ?thesis using assms(4,5) by (simp add: ScannerConnectionTask_def scan_loop.simps)
qed

theorem scanner_empty_queue_witness: "ScannerConnectionTask 9 taken_pool = Inl Undefined"
  by (rule scanner_empty_queue[OF taken_pool_reach]) (simp_all add: pool_simps)

end
