(* ===== verification/TW_Main.thy ===== *)
theory TW_Main
  imports TW_Startup TW_IOManager TW_LexicalCast TW_Log TW_Util TW_ConnectionPool
begin

text \<open>
  \<^verbatim>\<open>src/main.cpp\<close> and the configuration of the program: the variables the translation units register before \<^verbatim>\<open>main\<close>,
  loading the configuration directory, the IO manager that runs \<^verbatim>\<open>run\<close>, and the values \<^verbatim>\<open>run\<close>, the
  server and the connection pool take from the variables. Reading and parsing a file is the parameter \<open>info\<close>, which gives its modification
  time and, unless \<^verbatim>\<open>YAML::LoadFile\<close> throws, its document. The functions of the YAML library are the fields of \<open>yaml_lib\<close>.
\<close>

section \<open>Variables\<close>

text \<open>\<^verbatim>\<open>size_t\<close> and \<^verbatim>\<open>uint64_t\<close> are one type on the platform the makefile builds for.\<close>

datatype cfg_type = CString | CInt | CUint16 | CUlong | CLogs

datatype cfg_value = VString string | VNum int | VLogs "LogDefine list"

text \<open>The only listener of the program, that of \<^verbatim>\<open>LogIniter\<close> (\<open>on_log_changed\<close> of \<^verbatim>\<open>TW_Log\<close>).\<close>

datatype cfg_listener = LogListener

type_synonym cfg_var = "(cfg_type, cfg_value, cfg_listener) ConfigVar"

type_synonym cfg = "(cfg_type, cfg_value, cfg_listener) ConfigVarMap"

record yaml_lib =
  yl_load :: "string \<Rightarrow> yaml res"
  yl_emit :: "yaml \<Rightarrow> string"
  yl_size :: "yaml \<Rightarrow> nat"
  yl_at :: "yaml \<Rightarrow> nat \<Rightarrow> yaml"
  yl_get :: "yaml \<Rightarrow> string \<Rightarrow> yaml option"
  yl_string :: "yaml \<Rightarrow> string res"

definition has_cfg_type :: "cfg_type \<Rightarrow> cfg_value \<Rightarrow> bool" where
  "has_cfg_type ty v =
     (case (ty, v) of
        (CString, VString _) \<Rightarrow> True
      | (CInt, VNum n) \<Rightarrow> - (2 ^ 31) \<le> n \<and> n < 2 ^ 31
      | (CUint16, VNum n) \<Rightarrow> 0 \<le> n \<and> n < 2 ^ 16
      | (CUlong, VNum n) \<Rightarrow> 0 \<le> n \<and> n < 2 ^ 64
      | (CLogs, VLogs _) \<Rightarrow> True
      | _ \<Rightarrow> False)"

text \<open>\<^verbatim>\<open>LexicalCast<std::string, T>\<close> at the types of the variables; \<open>r0\<close> is what the uninitialised result holds.\<close>

fun cfg_cast :: "(cfg_type \<Rightarrow> int) \<Rightarrow> yaml_lib \<Rightarrow> cfg_type \<Rightarrow> string \<Rightarrow> cfg_value res" where
  "cfg_cast r0 yl CString s = Inr (VString (LexicalCast_string s))"
| "cfg_cast r0 yl CInt s = Inr (VNum (LexicalCast_int (r0 CInt) s))"
| "cfg_cast r0 yl CUint16 s = Inr (VNum (LexicalCast_unsigned 16 (r0 CUint16) s))"
| "cfg_cast r0 yl CUlong s = Inr (VNum (LexicalCast_unsigned 64 (r0 CUlong) s))"
| "cfg_cast r0 yl CLogs s =
     res_bind (to_LogDefines (yl_load yl) (yl_emit yl) (yl_size yl) (yl_at yl) (yl_get yl) (yl_string yl) s) (\<lambda>ds. Inr (VLogs ds))"

text \<open>\<^verbatim>\<open>operator==\<close> at the types of the variables.\<close>

fun cfg_eq :: "cfg_value \<Rightarrow> cfg_value \<Rightarrow> bool" where
  "cfg_eq (VLogs a) (VLogs b) \<longleftrightarrow> LogDefines_eq a b"
| "cfg_eq v w \<longleftrightarrow> v = w"

definition log_vars :: "(string \<times> cfg_type \<times> cfg_value \<times> string) list" where
  "log_vars = [(''logs'', CLogs, VLogs [], ''logs config'')]"

definition main_vars :: "(string \<times> cfg_type \<times> cfg_value \<times> string) list" where
  "main_vars =
     [(''server.thread_num'', CUlong, VNum 4, ''thread number''),
      (''server.ip'', CString, VString ''0.0.0.0'', ''ip address''),
      (''server.port'', CInt, VNum 8000, ''port'')]"

definition tcp_server_vars :: "(string \<times> cfg_type \<times> cfg_value \<times> string) list" where
  "tcp_server_vars = [(''server.read_timeout'', CUlong, VNum (60 * 1000 * 2), ''tcp server read timeout'')]"

definition http_server_vars :: "(string \<times> cfg_type \<times> cfg_value \<times> string) list" where
  "http_server_vars =
     [(''server.resources_dir'', CString, VString ''/home/zch/Project/TinyWebserver/resources'', ''http server resources dir'')]"

definition pool_vars :: "(string \<times> cfg_type \<times> cfg_value \<times> string) list" where
  "pool_vars =
     [(''database.ip'', CString, VString ''127.0.0.1'', ''database ip address''),
      (''database.port'', CUint16, VNum 3306, ''database port''),
      (''database.user'', CString, VString [], ''database user''),
      (''database.pwd'', CString, VString [], ''database passwd''),
      (''database.db'', CString, VString [], ''database name''),
      (''database.minsize'', CUlong, VNum 100, ''connectPool min size''),
      (''database.maxsize'', CUlong, VNum 1024, ''connectPool max size''),
      (''database.maxidletime'', CUlong, VNum 5000, ''connectPool max idle time''),
      (''database.timeout'', CUlong, VNum 1000, ''connectPool timeout'')]"

definition program_vars :: "(string \<times> cfg_type \<times> cfg_value \<times> string) list" where
  "program_vars = log_vars @ main_vars @ tcp_server_vars @ http_server_vars @ pool_vars"

text \<open>The initialisers of the static pointers: what \<^verbatim>\<open>Lookup\<close> returned to each, \<open>None\<close> for a null pointer, and the table.\<close>

fun register_all :: "(string \<times> cfg_type \<times> cfg_value \<times> string) list \<Rightarrow> cfg \<Rightarrow> ((string \<times> cfg_var option) list \<times> cfg) res" where
  "register_all [] d = Inr ([], d)"
| "register_all ((name, ty, v, desc) # vs) d =
     res_bind (Lookup_default name ty v desc d) (\<lambda>(ptr, d1).
     res_bind (register_all vs d1) (\<lambda>(ptrs, d2). Inr ((name, ptr) # ptrs, d2)))"

text \<open>\<^verbatim>\<open>LogIniter\<close>: the listener is added through the pointer \<^verbatim>\<open>g_log_defines\<close>, to the variable in the table; through a null pointer it is undefined.
  \<^verbatim>\<open>s_fun_id\<close> is still 0.\<close>

definition LogIniter_ctor :: "cfg_var option \<Rightarrow> cfg \<Rightarrow> cfg res" where
  "LogIniter_ctor g_log_defines d =
     (case g_log_defines of
        None \<Rightarrow> Inl Undefined
      | Some var \<Rightarrow> (case AddListener LogListener 0 var of (_, _, var') \<Rightarrow> Inr (d(var_name var \<mapsto> var'))))"

definition static_init :: "((string \<times> cfg_var option) list \<times> cfg) res" where
  "static_init =
     res_bind (register_all program_vars Map.empty) (\<lambda>(ptrs, d).
     res_bind (LogIniter_ctor (Option.bind (map_of ptrs ''logs'') id) d) (\<lambda>d1. Inr (ptrs, d1)))"

text \<open>\<^verbatim>\<open>g_name->GetValue()\<close> for a variable of a string or a number.\<close>

definition string_value :: "string \<Rightarrow> cfg \<Rightarrow> string res" where
  "string_value name d =
     (case Lookup name CString d of None \<Rightarrow> Inl Undefined | Some var \<Rightarrow> (case GetValue var of VString s \<Rightarrow> Inr s | _ \<Rightarrow> Inl Undefined))"

definition num_value :: "string \<Rightarrow> cfg_type \<Rightarrow> cfg \<Rightarrow> int res" where
  "num_value name ty d =
     (case Lookup name ty d of None \<Rightarrow> Inl Undefined | Some var \<Rightarrow> (case GetValue var of VNum n \<Rightarrow> Inr n | _ \<Rightarrow> Inl Undefined))"

section \<open>The program\<close>

text \<open>\<^verbatim>\<open>LoadFromConfDir(path, false)\<close> on the directory \<open>es\<close>, when nothing was loaded before.\<close>

definition conf_files :: "(string \<Rightarrow> nat \<times> yaml option) \<Rightarrow> dirent list \<Rightarrow> string \<Rightarrow> (string \<times> nat \<times> yaml option) list" where
  "conf_files info es path = map (\<lambda>p. (p, info p)) (ListAllFile es path ''.yml'')"

definition load_conf :: "(cfg_type \<Rightarrow> int) \<Rightarrow> yaml_lib \<Rightarrow> (string \<times> nat \<times> yaml option) list \<Rightarrow> cfg \<Rightarrow> cfg" where
  "load_conf r0 yl files d = snd (LoadFromConfDir cfg_eq (cfg_cast r0 yl) (yl_emit yl) False files (\<lambda>_. 0, d))"

text \<open>What \<^verbatim>\<open>main\<close> does up to the destructor of the manager: the loaded configuration and the manager with \<open>run_cb\<close> scheduled.\<close>

definition main_start ::
  "(cfg_type \<Rightarrow> int) \<Rightarrow> yaml_lib \<Rightarrow> (string \<times> nat \<times> yaml option) list \<Rightarrow> epoll_ctl \<Rightarrow> int \<Rightarrow> int \<Rightarrow> int \<Rightarrow> int \<Rightarrow> int list \<Rightarrow> uint64 \<Rightarrow> int \<Rightarrow>
    'f std_function \<Rightarrow> cfg \<Rightarrow> (cfg \<times> 'f IOManager) res" where
  "main_start r0 yl files ctl epfd pipe_rt fcntl_rt read_end ids now tid run_cb d =
     (let d1 = load_conf r0 yl files d in
      res_bind (num_value ''server.thread_num'' CUlong d1) (\<lambda>thread_num.
      res_bind (Scheduler_ctor (nat thread_num) True ''IOManager'' tid False) (\<lambda>base.
      res_bind (IOManager_ctor ctl epfd pipe_rt fcntl_rt read_end ids now base) (\<lambda>m.
      Inr (d1, iom_schedule (cb_task (Some run_cb) (- 1)) m)))))"

text \<open>\<^verbatim>\<open>run\<close> with the values it and the constructors of the server read.\<close>

definition run_configured ::
  "(string \<Rightarrow> 32 word option) \<Rightarrow> (nat \<Rightarrow> nat \<Rightarrow> int set \<Rightarrow> sys) \<Rightarrow> net \<Rightarrow> os \<Rightarrow> cfg \<Rightarrow> TcpServer option option res" where
  "run_configured inet_pton k w o' d =
     res_bind (string_value ''server.ip'' d) (\<lambda>ip.
     res_bind (num_value ''server.port'' CInt d) (\<lambda>port.
     res_bind (num_value ''server.read_timeout'' CUlong d) (\<lambda>timeout.
     res_bind (string_value ''server.resources_dir'' d) (\<lambda>resources.
     Inr (main_run inet_pton k (c_str ip) port (word_of_int timeout) resources w o')))))"

text \<open>\<^verbatim>\<open>GetConnectionPool\<close>: the static pool is made at the first call, with the values of that moment.\<close>

definition GetConnectionPool :: "int \<Rightarrow> (conn_ptr \<times> bool) list \<Rightarrow> cfg \<Rightarrow> ConnectionPool option \<Rightarrow> ConnectionPool res" where
  "GetConnectionPool now ps d pool =
     (case pool of
        Some cp \<Rightarrow> Inr cp
      | None \<Rightarrow>
          res_bind (num_value ''database.minsize'' CUlong d) (\<lambda>lo.
          res_bind (num_value ''database.maxsize'' CUlong d) (\<lambda>hi.
          res_bind (num_value ''database.maxidletime'' CUlong d) (\<lambda>idle.
          Inr (ConnectionPool_ctor now (nat lo) (nat hi) (nat idle) ps)))))"


section \<open>The variables of the program\<close>

lemma register_all_fresh:
  assumes "distinct (map fst vs)" "\<forall>x \<in> set vs. valid_name (fst x) \<and> d (fst x) = None"
  shows "\<exists>d'. register_all vs d = Inr (map (\<lambda>(name, ty, v, desc). (name, Some (ConfigVar_ctor name ty v desc))) vs, d') \<and>
     (\<forall>name. d' name = (case map_of vs name of Some (ty, v, desc) \<Rightarrow> Some (ConfigVar_ctor name ty v desc) | None \<Rightarrow> d name))"
  using assms
proof (induction vs arbitrary: d)
  case (Cons x vs)
  obtain name ty v desc where x: "x = (name, ty, v, desc)" by (metis prod_cases4)
  let ?d = "d(name \<mapsto> ConfigVar_ctor name ty v desc)"
  have l: "Lookup_default name ty v desc d = Inr (Some (ConfigVar_ctor name ty v desc), ?d)" using Cons.prems(2) by (simp add: x Lookup_default_def Let_def)
  have fresh: "\<forall>y \<in> set vs. valid_name (fst y) \<and> ?d (fst y) = None" using Cons.prems x by force
  have "distinct (map fst vs)" using Cons.prems(1) by simp
  from Cons.IH[OF this fresh] obtain d' where d': "register_all vs ?d = Inr (map (\<lambda>(name, ty, v, desc). (name, Some (ConfigVar_ctor name ty v desc))) vs, d')"
      "\<forall>nm. d' nm = (case map_of vs nm of Some (ty, v, desc) \<Rightarrow> Some (ConfigVar_ctor nm ty v desc) | None \<Rightarrow> ?d nm)"
    by blast
  have "map_of vs name = None" using Cons.prems(1) by (simp add: x map_of_eq_None_iff)
  with l d' show ?case by (auto simp: x split: option.split)
qed simp

lemma program_vars_ok: "distinct (map fst program_vars)" "list_all (\<lambda>x. valid_name (fst x)) program_vars"
    "list_all (\<lambda>(_, ty, v, _). has_cfg_type ty v) program_vars"
  by code_simp+

text \<open>A variable before \<^verbatim>\<open>main\<close>: its default value, and for \<^verbatim>\<open>logs\<close> the listener.\<close>

definition initial_var :: "string \<Rightarrow> cfg_type \<Rightarrow> cfg_value \<Rightarrow> string \<Rightarrow> cfg_var" where
  "initial_var name ty v desc = (ConfigVar_ctor name ty v desc)\<lparr>m_cbs := (if name = ''logs'' then [(1, LogListener)] else [])\<rparr>"

definition initial_ptrs :: "(string \<times> cfg_var option) list" where
  "initial_ptrs = map (\<lambda>(name, ty, v, desc). (name, Some (ConfigVar_ctor name ty v desc))) program_vars"

text \<open>Every static initialiser gets its variable, and the table holds these variables.\<close>

lemma static_init_vars:
  obtains d where "static_init = Inr (initial_ptrs, d)"
    "\<And>name. d name = map_option (\<lambda>(ty, v, desc). initial_var name ty v desc) (map_of program_vars name)"
proof -
  have "\<forall>x \<in> set program_vars. valid_name (fst x) \<and> (Map.empty :: cfg) (fst x) = None" using program_vars_ok(2) by (simp add: list_all_iff)
  from register_all_fresh[OF program_vars_ok(1) this] obtain d where
    d: "register_all program_vars Map.empty = Inr (initial_ptrs, d)"
      "\<forall>name. d name = (case map_of program_vars name of Some (ty, v, desc) \<Rightarrow> Some (ConfigVar_ctor name ty v desc) | None \<Rightarrow> None)"
    unfolding initial_ptrs_def by blast
  let ?v = "ConfigVar_ctor ''logs'' CLogs (VLogs []) ''logs config'' :: cfg_var"
  have logs: "map_of initial_ptrs ''logs'' = Some (Some ?v)" "map_of program_vars ''logs'' = Some (CLogs, VLogs [], ''logs config'')"
    by (simp_all add: initial_ptrs_def program_vars_def log_vars_def)
  have nm: "var_name ?v = ''logs''" using tolower_name[of "''logs''"] program_vars_ok(2)
    by (simp add: ConfigVar_ctor_def program_vars_def log_vars_def)
  have "static_init = Inr (initial_ptrs, d(''logs'' \<mapsto> ?v\<lparr>m_cbs := [(1, LogListener)]\<rparr>))"
    using nm by (simp add: static_init_def d(1) logs LogIniter_ctor_def AddListener_def Let_def) (simp add: ConfigVar_ctor_def)
  moreover have "(d(''logs'' \<mapsto> ?v\<lparr>m_cbs := [(1, LogListener)]\<rparr>)) name = map_option (\<lambda>(ty, v, desc). initial_var name ty v desc) (map_of program_vars name)" for name
    using logs(2) by (auto simp: d(2) initial_var_def ConfigVar_ctor_def split: option.split)
  ultimately show ?thesis using that by blast
qed

lemma static_init_table:
  assumes "static_init = Inr (ptrs, d)"
  shows "d name = map_option (\<lambda>(ty, v, desc). initial_var name ty v desc) (map_of program_vars name)"
proof -
  obtain d0 where d0: "static_init = Inr (initial_ptrs, d0)"
      "\<And>name. d0 name = map_option (\<lambda>(ty, v, desc). initial_var name ty v desc) (map_of program_vars name)"
    by (rule static_init_vars) blast
  have "Inr (ptrs, d) = (Inr (initial_ptrs, d0) :: ((string \<times> cfg_var option) list \<times> cfg) res)"
    unfolding assms[symmetric] d0(1)[symmetric] ..
  then show ?thesis using d0(2) by simp
qed

text \<open>The value of a variable after loading: its default, then the texts of the documents.\<close>

lemma loaded_var:
  assumes "distinct (map fst files)" "\<forall>f \<in> set files. fst (snd f) \<noteq> 0"
    and "\<And>name. d name = map_option (\<lambda>(ty, v, desc). initial_var name ty v desc) (map_of program_vars name)"
    and "map_of program_vars name = Some (ty, v, desc)"
  shows "\<exists>var. Lookup name ty (load_conf r0 yl files d) = Some var \<and> GetValue var = fold (store_text cfg_eq (cfg_cast r0 yl) ty) (conf_texts (yl_emit yl) name files) v"
proof -
  have "\<forall>f \<in> set files. (\<lambda>_. 0 :: nat) (fst f) \<noteq> fst (snd f)" using assms(2) by simp
  from LoadFromConfDir_var[OF assms(1) this, of cfg_eq "cfg_cast r0 yl" "yl_emit yl" False d name] assms(3,4) show ?thesis
    by (auto simp: load_conf_def Lookup_Some GetValue_def initial_var_def ConfigVar_ctor_def)
qed


text \<open>The conversions give values of the types of the variables, so the configuration stays typed.\<close>

lemma cfg_cast_typed: "(\<And>ty. ty \<noteq> CString \<Longrightarrow> has_cfg_type ty (VNum (r0 ty))) \<Longrightarrow> conv_typed has_cfg_type (cfg_cast r0 yl)"
proof -
  assume r: "\<And>ty. ty \<noteq> CString \<Longrightarrow> has_cfg_type ty (VNum (r0 ty))"
  have "cfg_cast r0 yl ty s = Inr v \<Longrightarrow> has_cfg_type ty v" for ty s v
    using r[of ty] LexicalCast_ranges(1)[of "r0 ty" s] LexicalCast_ranges(2)[of "r0 ty" 16 s] LexicalCast_ranges(2)[of "r0 ty" 64 s]
    by (cases ty) (auto simp: has_cfg_type_def)
  then show ?thesis by (simp add: conv_typed_def)
qed

lemma program_config_typed:
  assumes "distinct (map fst files)" "\<forall>f \<in> set files. fst (snd f) \<noteq> 0" "static_init = Inr (ptrs, d)"
    and "\<And>ty. ty \<noteq> CString \<Longrightarrow> has_cfg_type ty (VNum (r0 ty))"
  shows "well_typed has_cfg_type (load_conf r0 yl files d)"
proof -
  have mt: "\<forall>f \<in> set files. (\<lambda>_. 0 :: nat) (fst f) \<noteq> fst (snd f)" using assms(2) by simp
  have typed: "has_cfg_type ty v" "valid_name name" if "map_of program_vars name = Some (ty, v, desc)" for name ty v desc
    using map_of_SomeD[OF that] program_vars_ok(2,3) by (auto simp: list_all_iff)
  note d = static_init_table[OF assms(3)]
  show ?thesis unfolding well_typed_def
  proof (intro allI impI)
    fix name var
    assume "load_conf r0 yl files d name = Some var"
    then obtain ty v desc where v: "map_of program_vars name = Some (ty, v, desc)"
        "var = (initial_var name ty v desc)\<lparr>m_val := fold (store_text cfg_eq (cfg_cast r0 yl) ty) (conf_texts (yl_emit yl) name files) v\<rparr>"
      by (auto simp: load_conf_def LoadFromConfDir_var[OF assms(1) mt] d initial_var_def ConfigVar_ctor_def)
    then show "var_name var = name \<and> has_cfg_type (var_type var) (m_val var)"
      using typed[OF v(1)] fold_store_typed[OF cfg_cast_typed[of r0, OF assms(4)]] tolower_name by (simp add: initial_var_def ConfigVar_ctor_def)
  qed
qed

lemma loaded_string:
  assumes "distinct (map fst files)" "\<forall>f \<in> set files. fst (snd f) \<noteq> 0"
    and "\<And>name. d name = map_option (\<lambda>(ty, v, desc). initial_var name ty v desc) (map_of program_vars name)"
    and "map_of program_vars name = Some (CString, v, desc)" "conf_texts (yl_emit yl) name files = [s]"
  shows "string_value name (load_conf r0 yl files d) = Inr (LexicalCast_string s)"
  using loaded_var[OF assms(1-4), of r0 yl] assms(5) by (auto simp: string_value_def store_text_def)

lemma loaded_num:
  assumes "distinct (map fst files)" "\<forall>f \<in> set files. fst (snd f) \<noteq> 0"
    and "\<And>name. d name = map_option (\<lambda>(ty, v, desc). initial_var name ty v desc) (map_of program_vars name)"
    and "map_of program_vars name = Some (ty, v, desc)" "conf_texts (yl_emit yl) name files = [s]" "cfg_cast r0 yl ty s = Inr (VNum n)"
  shows "num_value name ty (load_conf r0 yl files d) = Inr n"
  using loaded_var[OF assms(1-4), of r0 yl] assms(5,6) by (auto simp: num_value_def store_text_def)

section \<open>The configured server\<close>

definition is_word :: "string \<Rightarrow> bool" where
  "is_word s \<longleftrightarrow> s \<noteq> [] \<and> list_all (\<lambda>c. \<not> isspace c \<and> c \<noteq> CHR 0x00) s"

text \<open>The documents of the directory give the server an address, a port, a timeout (a number that anything but a digit may follow), a
  resource directory and a number of threads, each once.\<close>

definition configures :: "(yaml \<Rightarrow> string) \<Rightarrow> (string \<times> nat \<times> yaml option) list \<Rightarrow> string \<Rightarrow> int \<Rightarrow> int \<Rightarrow> string \<Rightarrow> string \<Rightarrow> nat \<Rightarrow> bool" where
  "configures emit files ip port ms unit dir n \<longleftrightarrow>
     distinct (map fst files) \<and> list_all (\<lambda>f. fst (snd f) \<noteq> 0) files \<and>
     conf_texts emit ''server.ip'' files = [ip] \<and> is_word ip \<and>
     conf_texts emit ''server.port'' files = [to_string port] \<and> 0 \<le> port \<and> port < 2 ^ 16 \<and>
     conf_texts emit ''server.read_timeout'' files = [to_string ms @ unit] \<and> 0 \<le> ms \<and> ms < 2 ^ 64 \<and> (unit = [] \<or> \<not> isdigit (hd unit)) \<and>
     conf_texts emit ''server.resources_dir'' files = [dir] \<and> is_word dir \<and>
     conf_texts emit ''server.thread_num'' files = [to_string (int n)] \<and> 0 < n \<and> n < 2 ^ 64"

lemma is_word_kept: "is_word s \<Longrightarrow> LexicalCast_string s = s \<and> c_str s = s"
  using LexicalCast_string_first_word(2)[of s "CHR '' ''"] by (auto simp: is_word_def list_all_iff c_str_def isspace_def takeWhile_eq_all_conv)

lemma program_var_types:
  "map_of program_vars ''server.ip'' = Some (CString, VString ''0.0.0.0'', ''ip address'')"
  "map_of program_vars ''server.port'' = Some (CInt, VNum 8000, ''port'')"
  "map_of program_vars ''server.read_timeout'' = Some (CUlong, VNum 120000, ''tcp server read timeout'')"
  "map_of program_vars ''server.resources_dir'' = Some (CString, VString ''/home/zch/Project/TinyWebserver/resources'', ''http server resources dir'')"
  "map_of program_vars ''server.thread_num'' = Some (CUlong, VNum 4, ''thread number'')"
  by code_simp+

lemma configured_values:
  assumes "configures (yl_emit yl) files ip port ms unit dir n"
    and "\<And>name. d name = map_option (\<lambda>(ty, v, desc). initial_var name ty v desc) (map_of program_vars name)"
  shows "string_value ''server.ip'' (load_conf r0 yl files d) = Inr ip"
    "num_value ''server.port'' CInt (load_conf r0 yl files d) = Inr port"
    "num_value ''server.read_timeout'' CUlong (load_conf r0 yl files d) = Inr ms"
    "string_value ''server.resources_dir'' (load_conf r0 yl files d) = Inr dir"
    "num_value ''server.thread_num'' CUlong (load_conf r0 yl files d) = Inr (int n)"
proof -
  have f: "distinct (map fst files)" "\<forall>f \<in> set files. fst (snd f) \<noteq> 0" using assms(1) by (auto simp: configures_def list_all_iff)
  have c: "cfg_cast r0 yl CInt (to_string port) = Inr (VNum port)" "cfg_cast r0 yl CUlong (to_string ms @ unit) = Inr (VNum ms)"
      "cfg_cast r0 yl CUlong (to_string (int n)) = Inr (VNum (int n))"
    using assms(1) LexicalCast_int_reads[of "[]" "[]" port] LexicalCast_unsigned_reads[of "[]" unit ms 64] LexicalCast_unsigned_reads[of "[]" "[]" "int n" 64]
    by (auto simp: configures_def)
  show "string_value ''server.ip'' (load_conf r0 yl files d) = Inr ip" "string_value ''server.resources_dir'' (load_conf r0 yl files d) = Inr dir"
    using assms(1) loaded_string[OF f assms(2) program_var_types(1)] loaded_string[OF f assms(2) program_var_types(4)]
    by (simp_all add: configures_def is_word_kept)
  show "num_value ''server.port'' CInt (load_conf r0 yl files d) = Inr port" "num_value ''server.read_timeout'' CUlong (load_conf r0 yl files d) = Inr ms"
      "num_value ''server.thread_num'' CUlong (load_conf r0 yl files d) = Inr (int n)"
    using assms(1) loaded_num[OF f assms(2) program_var_types(2) _ c(1)] loaded_num[OF f assms(2) program_var_types(3) _ c(2)]
      loaded_num[OF f assms(2) program_var_types(5) _ c(3)] by (simp_all add: configures_def)
qed


lemma main_starts:
  assumes "configures (yl_emit yl) files ip port ms unit dir n"
    and "\<And>name. d name = map_option (\<lambda>(ty, v, desc). initial_var name ty v desc) (map_of program_vars name)"
    and "epfd > 0" "fst (ctl EPOLL_CTL_ADD read_end (EPOLLIN OR EPOLLET) Map.empty) = 0"
  shows "\<exists>m. main_start r0 yl files ctl epfd 0 0 read_end ids now tid run_cb d = Inr (load_conf r0 yl files d, m) \<and>
     m_tasks (iom_sched m) = [cb_task (Some run_cb) (- 1)] \<and> m_threads (iom_sched m) = take (n - 1) ids \<and>
     m_threadIds (iom_sched m) = tid # take (n - 1) ids \<and> \<not> m_stopping (iom_sched m)"
proof -
  have "0 < n" using assms(1) by (simp add: configures_def)
  then show ?thesis using assms(3,4)
    by (auto simp: main_start_def configured_values[OF assms(1,2)] Scheduler_ctor_def IOManager_ctor_def start_def Let_def
        iom_schedule_def schedule_def scheduleNoLock_def no_task_def cb_task_def tickle_def split: prod.split)
qed

lemma initial_lookup:
  assumes "\<And>name. d name = map_option (\<lambda>(ty, v, desc). initial_var name ty v desc) (map_of program_vars name)"
  shows "list_all (\<lambda>(name, ty, v, desc). \<exists>var. Lookup name ty d = Some var \<and> GetValue var = v) program_vars"
    "\<exists>var. Lookup ''logs'' CLogs d = Some var \<and> m_cbs var = [(1, LogListener)]"
proof -
  have "\<exists>var. Lookup name ty d = Some var \<and> GetValue var = v" if "(name, ty, v, desc) \<in> set program_vars" for name ty v desc
    using map_of_is_SomeI[OF program_vars_ok(1) that] assms[of name] by (simp add: Lookup_Some initial_var_def ConfigVar_ctor_def GetValue_def)
  then show "list_all (\<lambda>(name, ty, v, desc). \<exists>var. Lookup name ty d = Some var \<and> GetValue var = v) program_vars"
    by (auto simp: list_all_iff)
  have "map_of program_vars ''logs'' = Some (CLogs, VLogs [], ''logs config'')" by (simp add: program_vars_def log_vars_def)
  then show "\<exists>var. Lookup ''logs'' CLogs d = Some var \<and> m_cbs var = [(1, LogListener)]"
    using assms[of "''logs''"] by (simp add: Lookup_Some initial_var_def ConfigVar_ctor_def)
qed

text \<open>C13: the program serves on the address it is configured with. Before \<^verbatim>\<open>main\<close> every static initialiser of the program gets a pointer to the new variable
  of its name, type, default value and description, none of them a null pointer; the table holds these variables with their defaults, and the
  variable \<^verbatim>\<open>logs\<close> has the listener of \<^verbatim>\<open>LogIniter\<close>. When the documents of the configuration directory give the server an
  address, a port, a timeout, a resource directory and a number of threads, \<^verbatim>\<open>main\<close>
  starts a manager with that many threads, the calling one included, whose only task is \<^verbatim>\<open>run\<close>, and \<^verbatim>\<open>run\<close> ends, provided the kernel accepts
  the address at some attempt, with the server listening on exactly that address and port, with that timeout (whatever follows its digits) and that
  directory, and with its accept task scheduled. The listener of \<^verbatim>\<open>logs\<close> is taken to return when the loading calls it.\<close>

theorem configured_server:
  assumes "configures (yl_emit yl) files ip port ms unit dir n"
    and "\<And>i. fresh_fds (k i)" "finite (net_open w)" "IPv4Address_Create inet_pton ip (word_of_int port) = Some addr" "accepts (k N) (IPv4 addr)"
    and "epfd > 0" "fst (ctl EPOLL_CTL_ADD read_end (EPOLLIN OR EPOLLET) Map.empty) = 0" "length ids = n - 1"
  shows "\<exists>d0 d m sv p s.
     static_init = Inr (map (\<lambda>(name, ty, v, desc). (name, Some (ConfigVar_ctor name ty v desc))) program_vars, d0) \<and>
     list_all (\<lambda>(name, ty, v, desc). \<exists>var. Lookup name ty d0 = Some var \<and> GetValue var = v) program_vars \<and>
     (\<exists>var. Lookup ''logs'' CLogs d0 = Some var \<and> m_cbs var = [(1, LogListener)]) \<and>
     main_start r0 yl files ctl epfd 0 0 read_end ids now tid run_cb d0 = Inr (d, m) \<and>
     m_tasks (iom_sched m) = [cb_task (Some run_cb) (- 1)] \<and> length (m_threadIds (iom_sched m)) = n \<and>
     run_configured inet_pton k w o' d = Inr (Some (Some sv)) \<and> m_socks sv = [p] \<and> accept_tasks sv = [StartAccept p] \<and> \<not> m_isStop sv \<and>
     socks sv p = Some s \<and> m_localAddress s = Some (IPv4 addr) \<and> inet_pton ip = Some (s_addr addr) \<and> uint (IPv4_getPort addr) = port \<and>
     uint (sv_recvTimeout sv) = ms \<and> srcDir (statics sv) = dir"
proof -
  obtain d0 where d0: "static_init = Inr (initial_ptrs, d0)" "\<And>name. d0 name = map_option (\<lambda>(ty, v, desc). initial_var name ty v desc) (map_of program_vars name)"
    by (rule static_init_vars) blast
  obtain m where m: "main_start r0 yl files ctl epfd 0 0 read_end ids now tid run_cb d0 = Inr (load_conf r0 yl files d0, m)"
      "m_tasks (iom_sched m) = [cb_task (Some run_cb) (- 1)]" "m_threadIds (iom_sched m) = tid # take (n - 1) ids"
    using main_starts[where ctl = ctl and read_end = read_end, OF assms(1) d0(2) assms(6,7)] by blast
  have n: "0 < n" "is_word ip" "0 \<le> port" "port < 2 ^ 16" "0 \<le> ms" "ms < 2 ^ 64" using assms(1) by (auto simp: configures_def)
  obtain sv p s where sv: "main_run inet_pton k ip port (word_of_int ms) dir w o' = Some (Some sv)" "m_socks sv = [p]" "accept_tasks sv = [StartAccept p]"
      "\<not> m_isStop sv" "socks sv p = Some s" "m_localAddress s = Some (IPv4 addr)" "sv_recvTimeout sv = word_of_int ms" "srcDir (statics sv) = dir"
    using run_listens[where k = k and N = N and addr = addr and timeout = "word_of_int ms" and resources = dir and o' = o', OF assms(2-5)] by auto
  have "run_configured inet_pton k w o' (load_conf r0 yl files d0) = Inr (Some (Some sv))"
    using sv(1) n(2) by (simp add: run_configured_def configured_values[OF assms(1) d0(2)] is_word_kept)
  moreover have "inet_pton ip = Some (s_addr addr)" "IPv4_getPort addr = ucast (word_of_int port :: 16 word)"
    using assms(4) by (auto simp: IPv4Address_Create_def IPv4_getPort_def Let_def split: option.splits)
  moreover have "uint (ucast (word_of_int port :: 16 word) :: 32 word) = port" using n(3,4) by (simp add: uint_word_of_int unsigned_ucast_eq take_bit_int_eq_self)
  moreover have "uint (word_of_int ms :: 64 word) = ms" using n(5,6) by (simp add: uint_word_of_int)
  moreover have "length (m_threadIds (iom_sched m)) = n" using m(3) n(1) assms(8) by simp
  ultimately show ?thesis using d0(1)[unfolded initial_ptrs_def] initial_lookup[OF d0(2)] m(1,2) sv(2-8)
    by (intro exI[of _ d0] exI[of _ "load_conf r0 yl files d0"] exI[of _ m] exI[of _ sv] exI[of _ p] exI[of _ s]) simp
qed

text \<open>The document \<^verbatim>\<open>config/server.yml\<close> of the repository, whose timeout is written \<^verbatim>\<open>120000s\<close>.\<close>

definition server_yml :: "(string \<times> nat \<times> yaml option) list" where
  "server_yml =
     [(''config/server.yml'', 1, Some (YMap [(''server'', YMap
        [(''read_timeout'', YScalar ''120000s''), (''resources_dir'', YScalar ''/home/zch/Project/TinyWebserver/resources''), (''ip'', YScalar ''0.0.0.0''),
         (''port'', YScalar ''8000''), (''thread_num'', YScalar ''4'')])]))]"

lemma server_yml_configures:
  "configures (\<lambda>_. []) server_yml ''0.0.0.0'' 8000 120000 ''s'' ''/home/zch/Project/TinyWebserver/resources'' 4"
proof -
  have "to_string 8000 = ''8000''" "to_string 120000 = ''120000''" "to_string 4 = ''4''"
    by (simp_all add: to_string_def show_nat.simps digit_char_def char_of_def bit_iff_odd)
  moreover have "conf_texts (\<lambda>_. []) ''server.ip'' server_yml = [''0.0.0.0'']" "conf_texts (\<lambda>_. []) ''server.port'' server_yml = [''8000'']"
      "conf_texts (\<lambda>_. []) ''server.read_timeout'' server_yml = [''120000s'']" "conf_texts (\<lambda>_. []) ''server.thread_num'' server_yml = [''4'']"
      "conf_texts (\<lambda>_. []) ''server.resources_dir'' server_yml = [''/home/zch/Project/TinyWebserver/resources'']" by code_simp+
  moreover have "is_word ''0.0.0.0''" "is_word ''/home/zch/Project/TinyWebserver/resources''" "\<not> isdigit CHR ''s''" by code_simp+
  ultimately show ?thesis by (simp add: configures_def server_yml_def)
qed

definition demo_yaml :: yaml_lib where
  "demo_yaml = \<lparr>yl_load = (\<lambda>s. Inr (YScalar s)), yl_emit = (\<lambda>_. []), yl_size = (\<lambda>n. case n of YSeq ns \<Rightarrow> length ns | _ \<Rightarrow> 0),
     yl_at = (\<lambda>n i. case n of YSeq ns \<Rightarrow> ns ! i | _ \<Rightarrow> YNull), yl_get = (\<lambda>n k. case n of YMap kvs \<Rightarrow> map_of kvs k | _ \<Rightarrow> None),
     yl_string = (\<lambda>n. case n of YScalar s \<Rightarrow> Inr s | _ \<Rightarrow> Inl LogicError)\<rparr>"

theorem configured_server_witness:
  "\<exists>ptrs d0 d m sv p s. static_init = Inr (ptrs, d0) \<and>
     main_start (\<lambda>_. 0) demo_yaml server_yml (\<lambda>_ _ _ tab. (0, tab)) 5 0 0 3 [11, 12, 13] 0 10 (Fn ()) d0 = Inr (d, m) \<and>
     length (m_threadIds (iom_sched m)) = 4 \<and>
     run_configured (\<lambda>_. Some 0) stubborn_kernel (demo_net\<lparr>net_open := {0, 1}\<rparr>) \<lparr>os_fds = 0, os_mapped = 0\<rparr> d = Inr (Some (Some sv)) \<and>
     m_socks sv = [p] \<and> socks sv p = Some s \<and> uint (sv_recvTimeout sv) = 120000"
proof -
  obtain addr where a: "IPv4Address_Create (\<lambda>_. Some 0) ''0.0.0.0'' (word_of_int 8000) = Some addr" by (simp add: IPv4Address_Create_def Let_def)
  have w: "finite (net_open (demo_net\<lparr>net_open := {0, 1}\<rparr>))" by simp
  have e: "fst ((\<lambda>_ _ _ tab. (0, tab)) EPOLL_CTL_ADD 3 (EPOLLIN OR EPOLLET) (Map.empty :: interest)) = (0 :: int)" "length [11, 12, 13 :: int] = 4 - 1" "(0 :: int) < 5" by simp_all
  have c: "configures (yl_emit demo_yaml) server_yml ''0.0.0.0'' 8000 120000 ''s'' ''/home/zch/Project/TinyWebserver/resources'' 4"
    using server_yml_configures by (simp add: demo_yaml_def)
  from configured_server[where k = stubborn_kernel and inet_pton = "\<lambda>_. Some 0" and ctl = "\<lambda>_ _ _ tab. (0, tab)" and read_end = 3 and ids = "[11, 12, 13]",
      OF c stubborn_kernel_ok(1) w a stubborn_kernel_ok(2) e(3,1,2),
      of "\<lambda>_. 0" 0 10 "Fn ()" "\<lparr>os_fds = 0, os_mapped = 0\<rparr>"]
  show ?thesis by blast
qed


section \<open>The configured pool\<close>

text \<open>The first call makes a pool with the configured bounds, whose invariant then holds; every later call gives the same pool.\<close>

lemma GetConnectionPool_configured:
  assumes "configures (yl_emit yl) files ip port ms unit dir n" "static_init = Inr (ptrs, d)"
    and "conf_texts (yl_emit yl) ''database.minsize'' files = [to_string (int lo)]" "conf_texts (yl_emit yl) ''database.maxsize'' files = [to_string (int hi)]"
    and "lo < 2 ^ 31" "hi < 2 ^ 31" "distinct (map fst ps)" "length ps = lo"
  shows "\<exists>cp. GetConnectionPool now ps (load_conf r0 yl files d) None = Inr cp \<and> pool_inv lo hi cp \<and>
     GetConnectionPool now' ps' d' (Some cp) = Inr cp"
proof -
  note v = static_init_table[OF assms(2)]
  have f: "distinct (map fst files)" "\<forall>f \<in> set files. fst (snd f) \<noteq> 0" using assms(1) by (auto simp: configures_def list_all_iff)
  have t: "map_of program_vars ''database.minsize'' = Some (CUlong, VNum 100, ''connectPool min size'')"
      "map_of program_vars ''database.maxsize'' = Some (CUlong, VNum 1024, ''connectPool max size'')"
      "map_of program_vars ''database.maxidletime'' = Some (CUlong, VNum 5000, ''connectPool max idle time'')" by code_simp+
  have "cfg_cast r0 yl CUlong (to_string (int lo)) = Inr (VNum (int lo))" "cfg_cast r0 yl CUlong (to_string (int hi)) = Inr (VNum (int hi))"
    using LexicalCast_unsigned_reads[of "[]" "[]" "int lo" 64] LexicalCast_unsigned_reads[of "[]" "[]" "int hi" 64] assms(5,6) by simp_all
  then have n: "num_value ''database.minsize'' CUlong (load_conf r0 yl files d) = Inr (int lo)"
      "num_value ''database.maxsize'' CUlong (load_conf r0 yl files d) = Inr (int hi)"
    using loaded_num[OF f v t(1) assms(3)] loaded_num[OF f v t(2) assms(4)] by simp_all
  obtain var where var: "Lookup ''database.maxidletime'' CUlong (load_conf r0 yl files d) = Some var"
      "GetValue var = fold (store_text cfg_eq (cfg_cast r0 yl) CUlong) (conf_texts (yl_emit yl) ''database.maxidletime'' files) (VNum 5000)"
    using loaded_var[OF f v t(3), of r0 yl] by blast
  have "\<exists>k. fold (store_text cfg_eq (cfg_cast r0 yl) CUlong) ts (VNum i) = VNum k" for ts i
    by (induction ts arbitrary: i) (auto simp: store_text_def)
  then obtain idle where "GetValue var = VNum idle" using var(2) by metis
  then have "num_value ''database.maxidletime'' CUlong (load_conf r0 yl files d) = Inr idle" using var(1) by (simp add: num_value_def)
  with n have "GetConnectionPool now ps (load_conf r0 yl files d) None = Inr (ConnectionPool_ctor now lo hi (nat idle) ps)"
    by (simp add: GetConnectionPool_def)
  moreover have "pool_inv lo hi (ConnectionPool_ctor now lo hi (nat idle) ps)" using pool_reach_inv[OF pool_reach.create[OF assms(7,8)] assms(5,6)] .
  ultimately show ?thesis by (simp add: GetConnectionPool_def)
qed

end
