(* ===== verification/TW_Thread.thy ===== *)
theory TW_Thread
  imports TW_Mutex
begin

text \<open>
  \<^verbatim>\<open>include/base/thread.h\<close> and \<^verbatim>\<open>src/base/thread.cpp\<close>: threads, whose constructor waits on a semaphore until the new thread has
  taken over its callback. The constructor and \<^verbatim>\<open>run\<close> are cut at the points where the other thread can see
  the difference; the steps of different threads interleave. \<open>spawned\<close> and \<open>called\<close> record the threads made, with their
  callbacks, and the callbacks called. An address is not used again after its object is destroyed.
\<close>

section \<open>State\<close>

type_synonym thread_ptr = nat

record 'f Thread =
  th_id :: int
  th_thread :: "thread_id option"
  th_cb :: "'f option"
  th_name :: string
  th_semaphore :: nat

text \<open>Where a thread is in \<^verbatim>\<open>run\<close>: at the start, before the notification, before the call, in the callback, and after it.\<close>

datatype 'f run_pc = Run_start thread_ptr | Run_notify thread_ptr "'f option" | Run_call "'f option" | Run_body | Run_done

record 'f threads =
  objects :: "thread_ptr \<rightharpoonup> 'f Thread"
  next_obj :: thread_ptr
  t_thread :: "thread_id \<Rightarrow> thread_ptr option"
  t_thread_name :: "thread_id \<Rightarrow> string"
  ctors :: "thread_ptr set"
  runs :: "thread_id \<rightharpoonup> 'f run_pc"
  spawned :: "(thread_id \<times> 'f option) list"
  called :: "(thread_id \<times> 'f) list"

definition no_threads :: "'f threads" where
  "no_threads = \<lparr>objects = Map.empty, next_obj = 0, t_thread = (\<lambda>_. None), t_thread_name = (\<lambda>_. ''UNKNOW''), ctors = {}, runs = Map.empty,
     spawned = [], called = []\<rparr>"

section \<open>Operations\<close>

definition GetThis :: "thread_id \<Rightarrow> 'f threads \<Rightarrow> thread_ptr option" where
  "GetThis t w = t_thread w t"

definition GetName :: "thread_id \<Rightarrow> 'f threads \<Rightarrow> string" where
  "GetName t w = t_thread_name w t"

definition SetName :: "thread_id \<Rightarrow> string \<Rightarrow> 'f threads \<Rightarrow> 'f threads res" where
  "SetName t name w =
     (if name = [] then Inr w
      else let w1 = w\<lparr>t_thread_name := (t_thread_name w)(t := name)\<rparr> in
        case t_thread w t of
          None \<Rightarrow> Inr w1
        | Some p \<Rightarrow> (case objects w p of None \<Rightarrow> Inl Undefined | Some th \<Rightarrow> Inr (w1\<lparr>objects := (objects w)(p \<mapsto> th\<lparr>th_name := name\<rparr>)\<rparr>)))"

text \<open>The constructor up to the wait; \<open>rt\<close> is what \<^verbatim>\<open>pthread_create\<close> returns and \<open>t\<close> the thread it makes.\<close>

definition Thread_create :: "int \<Rightarrow> thread_id \<Rightarrow> 'f option \<Rightarrow> string \<Rightarrow> 'f threads \<Rightarrow> 'f threads res" where
  "Thread_create rt t cb name w =
     (if rt \<noteq> 0 then Inl LogicError
      else let p = next_obj w;
               th = \<lparr>th_id = -1, th_thread = Some t, th_cb = cb, th_name = (if name = [] then ''UNKNOW'' else name), th_semaphore = 0\<rparr> in
        Inr (w\<lparr>objects := (objects w)(p \<mapsto> th), next_obj := p + 1, ctors := insert p (ctors w), runs := (runs w)(t \<mapsto> Run_start p),
               spawned := spawned w @ [(t, cb)]\<rparr>))"

text \<open>The end of the constructor, which blocks (\<^term>\<open>None\<close>) until the semaphore is raised.\<close>

definition Thread_wait :: "thread_ptr \<Rightarrow> 'f threads \<Rightarrow> 'f threads option" where
  "Thread_wait p w =
     (case objects w p of
        None \<Rightarrow> None
      | Some th \<Rightarrow>
          (case Semaphore_wait (th_semaphore th) of
             None \<Rightarrow> None
           | Some v \<Rightarrow> Some (w\<lparr>objects := (objects w)(p \<mapsto> th\<lparr>th_semaphore := v\<rparr>), ctors := ctors w - {p}\<rparr>)))"

text \<open>\<^verbatim>\<open>run\<close>: the part before the notification, the notification, and the call of the callback.\<close>

definition run_setup :: "(thread_id \<Rightarrow> int) \<Rightarrow> thread_id \<Rightarrow> thread_ptr \<Rightarrow> 'f threads \<Rightarrow> 'f threads res" where
  "run_setup gettid t p w =
     (case objects w p of
        None \<Rightarrow> Inl Undefined
      | Some th \<Rightarrow> Inr (w\<lparr>t_thread := (t_thread w)(t := Some p), t_thread_name := (t_thread_name w)(t := th_name th),
                        objects := (objects w)(p \<mapsto> th\<lparr>th_id := gettid t, th_cb := None\<rparr>), runs := (runs w)(t \<mapsto> Run_notify p (th_cb th))\<rparr>))"

definition run_notify :: "thread_id \<Rightarrow> thread_ptr \<Rightarrow> 'f option \<Rightarrow> 'f threads \<Rightarrow> 'f threads res" where
  "run_notify t p cb w =
     (case objects w p of
        None \<Rightarrow> Inl Undefined
      | Some th \<Rightarrow> res_bind (Semaphore_notify (th_semaphore th)) (\<lambda>v.
          Inr (w\<lparr>objects := (objects w)(p \<mapsto> th\<lparr>th_semaphore := v\<rparr>), runs := (runs w)(t \<mapsto> Run_call cb)\<rparr>)))"

definition run_call :: "thread_id \<Rightarrow> 'f option \<Rightarrow> 'f threads \<Rightarrow> 'f threads res" where
  "run_call t cb w =
     (case cb of None \<Rightarrow> Inl BadFunctionCall | Some f \<Rightarrow> Inr (w\<lparr>called := called w @ [(t, f)], runs := (runs w)(t \<mapsto> Run_body)\<rparr>))"

text \<open>\<^verbatim>\<open>join\<close> blocks until the thread has returned; \<open>rt\<close> is what \<^verbatim>\<open>pthread_join\<close> returns.\<close>

definition Thread_join :: "int \<Rightarrow> thread_ptr \<Rightarrow> 'f threads \<Rightarrow> 'f threads res option" where
  "Thread_join rt p w =
     (case objects w p of
        None \<Rightarrow> Some (Inl Undefined)
      | Some th \<Rightarrow>
          (case th_thread th of
             None \<Rightarrow> Some (Inr w)
           | Some t \<Rightarrow>
               if rt \<noteq> 0 then Some (Inl LogicError)
               else if runs w t \<noteq> Some Run_done then None
               else Some (Inr (w\<lparr>objects := (objects w)(p \<mapsto> th\<lparr>th_thread := None\<rparr>)\<rparr>))))"

definition Thread_dtor :: "thread_ptr \<Rightarrow> 'f threads \<Rightarrow> 'f threads" where
  "Thread_dtor p w = w\<lparr>objects := (objects w)(p := None)\<rparr>"

text \<open>The steps. \<open>M\<close> are the threads the program did not make. A thread changes its own name, in its callback or outside of
  \<open>run\<close>; an object is destroyed after its constructor has returned.\<close>

inductive thread_reach :: "(thread_id \<Rightarrow> int) \<Rightarrow> thread_id set \<Rightarrow> 'f threads \<Rightarrow> bool" for gettid M where
  start: "thread_reach gettid M no_threads"
| create: "thread_reach gettid M w \<Longrightarrow> t \<notin> M \<Longrightarrow> runs w t = None \<Longrightarrow> Thread_create rt t cb name w = Inr w' \<Longrightarrow> thread_reach gettid M w'"
| wait: "thread_reach gettid M w \<Longrightarrow> p \<in> ctors w \<Longrightarrow> Thread_wait p w = Some w' \<Longrightarrow> thread_reach gettid M w'"
| prepare: "thread_reach gettid M w \<Longrightarrow> runs w t = Some (Run_start p) \<Longrightarrow> run_setup gettid t p w = Inr w' \<Longrightarrow> thread_reach gettid M w'"
| notify: "thread_reach gettid M w \<Longrightarrow> runs w t = Some (Run_notify p cb) \<Longrightarrow> run_notify t p cb w = Inr w' \<Longrightarrow> thread_reach gettid M w'"
| call: "thread_reach gettid M w \<Longrightarrow> runs w t = Some (Run_call cb) \<Longrightarrow> run_call t cb w = Inr w' \<Longrightarrow> thread_reach gettid M w'"
| return: "thread_reach gettid M w \<Longrightarrow> runs w t = Some Run_body \<Longrightarrow> thread_reach gettid M (w\<lparr>runs := (runs w)(t \<mapsto> Run_done)\<rparr>)"
| set_name: "thread_reach gettid M w \<Longrightarrow> t \<in> M \<or> runs w t = Some Run_body \<Longrightarrow> SetName t name w = Inr w' \<Longrightarrow> thread_reach gettid M w'"
| join: "thread_reach gettid M w \<Longrightarrow> p \<notin> ctors w \<Longrightarrow> Thread_join rt p w = Some (Inr w') \<Longrightarrow> thread_reach gettid M w'"
| destroy: "thread_reach gettid M w \<Longrightarrow> objects w p \<noteq> None \<Longrightarrow> p \<notin> ctors w \<Longrightarrow> thread_reach gettid M (Thread_dtor p w)"


section \<open>The invariant\<close>

text \<open>The object a thread belongs to.\<close>

definition obj_of :: "'f threads \<Rightarrow> thread_id \<Rightarrow> thread_ptr option" where
  "obj_of w t = (case runs w t of Some (Run_start p) \<Rightarrow> Some p | _ \<Rightarrow> t_thread w t)"

fun thread_ok :: "(thread_id \<Rightarrow> int) \<Rightarrow> 'f threads \<Rightarrow> thread_id \<Rightarrow> 'f run_pc \<Rightarrow> bool" where
  "thread_ok gettid w t (Run_start p) \<longleftrightarrow> t_thread w t = None \<and> p \<in> ctors w \<and> t \<notin> fst ` set (called w) \<and>
     (\<exists>th. objects w p = Some th \<and> th_semaphore th = 0 \<and> (t, th_cb th) \<in> set (spawned w))"
| "thread_ok gettid w t (Run_notify p cb) \<longleftrightarrow> t_thread w t = Some p \<and> p \<in> ctors w \<and> t \<notin> fst ` set (called w) \<and> (t, cb) \<in> set (spawned w) \<and>
     (\<exists>th. objects w p = Some th \<and> th_semaphore th = 0 \<and> th_cb th = None \<and> th_id th = gettid t)"
| "thread_ok gettid w t (Run_call cb) \<longleftrightarrow> t_thread w t \<noteq> None \<and> t \<notin> fst ` set (called w) \<and> (t, cb) \<in> set (spawned w)"
| "thread_ok gettid w t Run_body \<longleftrightarrow> t_thread w t \<noteq> None"
| "thread_ok gettid w t Run_done \<longleftrightarrow> t_thread w t \<noteq> None"

text \<open>A thread that has passed its notification.\<close>

definition past_notify :: "'f threads \<Rightarrow> thread_id \<Rightarrow> bool" where
  "past_notify w t \<longleftrightarrow> (\<exists>cb. runs w t = Some (Run_call cb)) \<or> runs w t = Some Run_body \<or> runs w t = Some Run_done"

definition object_ok :: "(thread_id \<Rightarrow> int) \<Rightarrow> 'f threads \<Rightarrow> thread_ptr \<Rightarrow> 'f Thread \<Rightarrow> bool" where
  "object_ok gettid w p th \<longleftrightarrow> p < next_obj w \<and>
     (if p \<in> ctors w \<and> th_semaphore th = 0 then \<exists>t. runs w t = Some (Run_start p) \<or> (\<exists>cb. runs w t = Some (Run_notify p cb))
      else th_semaphore th = (if p \<in> ctors w then 1 else 0) \<and> th_cb th = None \<and> (\<exists>t. t_thread w t = Some p \<and> th_id th = gettid t \<and> past_notify w t))"

definition names_ok :: "'f threads \<Rightarrow> bool" where
  "names_ok w \<longleftrightarrow> (\<forall>t p th. t_thread w t = Some p \<longrightarrow> objects w p = Some th \<longrightarrow> th_name th = t_thread_name w t)"

definition owners_ok :: "thread_id set \<Rightarrow> 'f threads \<Rightarrow> bool" where
  "owners_ok M w \<longleftrightarrow> (\<forall>t p. obj_of w t = Some p \<longrightarrow> p < next_obj w \<and> (\<forall>t'. obj_of w t' = Some p \<longrightarrow> t' = t)) \<and>
     (\<forall>t. runs w t = None \<longrightarrow> t_thread w t = None) \<and> (\<forall>t \<in> M. runs w t = None) \<and> ctors w \<subseteq> dom (objects w)"

definition calls_ok :: "'f threads \<Rightarrow> bool" where
  "calls_ok w \<longleftrightarrow> distinct (map fst (called w)) \<and>
     (\<forall>(t, f) \<in> set (called w). (t, Some f) \<in> set (spawned w) \<and> (runs w t = Some Run_body \<or> runs w t = Some Run_done))"

definition threads_inv :: "(thread_id \<Rightarrow> int) \<Rightarrow> thread_id set \<Rightarrow> 'f threads \<Rightarrow> bool" where
  "threads_inv gettid M w \<longleftrightarrow> (\<forall>t pc. runs w t = Some pc \<longrightarrow> thread_ok gettid w t pc) \<and> (\<forall>p th. objects w p = Some th \<longrightarrow> object_ok gettid w p th) \<and>
     names_ok w \<and> owners_ok M w \<and> calls_ok w"


lemma thread_okE:
  "threads_inv gettid M w \<Longrightarrow> runs w t = Some pc \<Longrightarrow> thread_ok gettid w t pc"
  "threads_inv gettid M w \<Longrightarrow> objects w p = Some th \<Longrightarrow> object_ok gettid w p th"
  by (auto simp: threads_inv_def)

lemma t_thread_obj:
  assumes "threads_inv gettid M w" "t_thread w s = Some p"
  shows "obj_of w s = Some p"
  using thread_okE(1)[OF assms(1), of s] assms(2) by (fastforce simp: obj_of_def split: option.split run_pc.split)

text \<open>What an object needs of the threads is kept by steps that do not touch it.\<close>

definition starting :: "'f threads \<Rightarrow> thread_ptr \<Rightarrow> thread_id \<Rightarrow> bool" where
  "starting w p t \<longleftrightarrow> runs w t = Some (Run_start p) \<or> (\<exists>cb. runs w t = Some (Run_notify p cb))"

lemma object_frame:
  assumes "object_ok gettid w p th" "next_obj w \<le> next_obj w'" "p \<in> ctors w' \<longleftrightarrow> p \<in> ctors w"
    and "th_semaphore th' = th_semaphore th" "th_cb th' = th_cb th \<or> th_cb th' = None" "th_id th' = th_id th"
    and "\<And>s. starting w p s \<Longrightarrow> starting w' p s" "\<And>s. t_thread w s = Some p \<Longrightarrow> past_notify w s \<Longrightarrow> t_thread w' s = Some p \<and> past_notify w' s"
  shows "object_ok gettid w' p th'"
proof (cases "p \<in> ctors w \<and> th_semaphore th = 0")
  case True
  then obtain s where "starting w p s" using assms(1) by (auto simp: object_ok_def starting_def)
  from assms(7)[OF this] True assms(1-4) show ?thesis by (auto simp: object_ok_def starting_def)
next
  case False
  then obtain s where s: "t_thread w s = Some p" "th_id th = gettid s" "past_notify w s" using assms(1) by (auto simp: object_ok_def)
  from assms(8)[OF s(1,3)] s(2) False assms(1-6) show ?thesis by (auto simp: object_ok_def)
qed

lemma create_inv:
  assumes "threads_inv gettid M w" "t \<notin> M" "runs w t = None" "Thread_create rt t cb name w = Inr w'"
  shows "threads_inv gettid M w'"
proof -
  let ?p = "next_obj w"
  let ?th = "\<lparr>th_id = -1, th_thread = Some t, th_cb = cb, th_name = (if name = [] then ''UNKNOW'' else name), th_semaphore = 0\<rparr>"
  have w': "w' = w\<lparr>objects := (objects w)(?p \<mapsto> ?th), next_obj := ?p + 1, ctors := insert ?p (ctors w), runs := (runs w)(t \<mapsto> Run_start ?p),
      spawned := spawned w @ [(t, cb)]\<rparr>" using assms(4) by (auto simp: Thread_create_def Let_def split: if_splits)
  have o: "owners_ok M w" "calls_ok w" "names_ok w" using assms(1) by (auto simp: threads_inv_def)
  have new: "objects w ?p = None" using thread_okE(2)[OF assms(1)] by (cases "objects w ?p") (auto simp: object_ok_def)
  have fresh: "obj_of w s \<noteq> Some ?p" for s using o(1) by (auto simp: owners_ok_def)
  have none: "t_thread w t = None" using o(1) assms(3) by (simp add: owners_ok_def)
  have uncalled: "t \<notin> fst ` set (called w)" using o(2) assms(3) by (auto simp: calls_ok_def)
  have "thread_ok gettid w' s pc" if r: "runs w' s = Some pc" for s pc
  proof (cases "s = t")
    case False
    then have "runs w s = Some pc" using r by (simp add: w')
    from thread_okE(1)[OF assms(1) this] show ?thesis using new False by (cases pc) (auto simp: w')
  qed (use r none uncalled in \<open>auto simp: w'\<close>)
  moreover have "object_ok gettid w' q x" if r: "objects w' q = Some x" for q x
  proof (cases "q = ?p")
    case False
    then have "objects w q = Some x" using r by (simp add: w')
    from thread_okE(2)[OF assms(1) this] show ?thesis
      by (rule object_frame) (use False assms(3) in \<open>auto simp: w' starting_def past_notify_def\<close>)
  qed (use r in \<open>auto simp: w' object_ok_def\<close>)
  moreover have "obj_of w' s = (if s = t then Some ?p else obj_of w s)" for s by (simp add: w' obj_of_def split: option.split run_pc.split)
  then have "owners_ok M w'" using o(1) assms(2) fresh none new by (auto simp: owners_ok_def w' less_SucI split: if_splits)
  moreover have "t_thread w s \<noteq> Some ?p" for s using fresh t_thread_obj[OF assms(1)] by blast
  then have "names_ok w'" using o(3) by (auto simp: names_ok_def w')
  moreover have "calls_ok w'" using o(2) uncalled by (force simp: calls_ok_def w')
  ultimately show ?thesis by (simp add: threads_inv_def)
qed

lemma wait_inv:
  assumes "threads_inv gettid M w" "p \<in> ctors w" "Thread_wait p w = Some w'"
  shows "threads_inv gettid M w'"
proof -
  obtain th where th: "objects w p = Some th" "th_semaphore th > 0" and
    w': "w' = w\<lparr>objects := (objects w)(p \<mapsto> th\<lparr>th_semaphore := th_semaphore th - 1\<rparr>), ctors := ctors w - {p}\<rparr>"
    using assms(3) by (auto simp: Thread_wait_def Semaphore_wait_def split: option.splits if_splits)
  have o: "owners_ok M w" "calls_ok w" "names_ok w" using assms(1) by (auto simp: threads_inv_def)
  have "thread_ok gettid w' s pc" if r: "runs w' s = Some pc" for s pc
  proof -
    have "runs w s = Some pc" using r by (simp add: w')
    from thread_okE(1)[OF assms(1) this] show ?thesis using th by (cases pc) (auto simp: w')
  qed
  moreover have "object_ok gettid w' q x" if r: "objects w' q = Some x" for q x
  proof (cases "q = p")
    case True
    have "object_ok gettid w p th" by (rule thread_okE(2)[OF assms(1) th(1)])
    then show ?thesis using th(2) True r by (auto simp: object_ok_def w' past_notify_def split: if_splits)
  next
    case False
    then have "objects w q = Some x" using r by (simp add: w')
    from thread_okE(2)[OF assms(1) this] show ?thesis
      by (rule object_frame) (use False in \<open>auto simp: w' starting_def past_notify_def\<close>)
  qed
  moreover have "obj_of w' s = obj_of w s" for s by (simp add: w' obj_of_def split: option.split run_pc.split)
  then have "owners_ok M w'" using o(1) by (auto simp: owners_ok_def w')
  moreover have "names_ok w'" using o(3) th by (auto simp: names_ok_def w')
  moreover have "calls_ok w'" using o(2) by (simp add: calls_ok_def w')
  ultimately show ?thesis by (simp add: threads_inv_def)
qed

lemma prepare_inv:
  assumes "threads_inv gettid M w" "runs w t = Some (Run_start p)" "run_setup gettid t p w = Inr w'"
  shows "threads_inv gettid M w'"
proof -
  from thread_okE(1)[OF assms(1,2)] obtain th where
    t: "t_thread w t = None" "p \<in> ctors w" "t \<notin> fst ` set (called w)" "objects w p = Some th" "th_semaphore th = 0" "(t, th_cb th) \<in> set (spawned w)" by auto
  have w': "w' = w\<lparr>t_thread := (t_thread w)(t := Some p), t_thread_name := (t_thread_name w)(t := th_name th),
      objects := (objects w)(p \<mapsto> th\<lparr>th_id := gettid t, th_cb := None\<rparr>), runs := (runs w)(t \<mapsto> Run_notify p (th_cb th))\<rparr>"
    using assms(3) t(4) by (simp add: run_setup_def)
  have o: "owners_ok M w" "calls_ok w" "names_ok w" using assms(1) by (auto simp: threads_inv_def)
  have own: "obj_of w s = Some p \<Longrightarrow> s = t" for s using o(1) assms(2) unfolding owners_ok_def obj_of_def by fastforce
  have "thread_ok gettid w' s pc" if r: "runs w' s = Some pc" for s pc
  proof (cases "s = t")
    case False
    then have r': "runs w s = Some pc" using r by (simp add: w')
    from thread_okE(1)[OF assms(1) this] show ?thesis using own[of s] r' False by (cases pc) (auto simp: w' obj_of_def)
  qed (use r t in \<open>auto simp: w'\<close>)
  moreover have "object_ok gettid w' q x" if r: "objects w' q = Some x" for q x
  proof (cases "q = p")
    case True
    have "object_ok gettid w p th" by (rule thread_okE(2)[OF assms(1) t(4)])
    then show ?thesis using t True r by (auto simp: object_ok_def w')
  next
    case False
    then have "objects w q = Some x" using r by (simp add: w')
    from thread_okE(2)[OF assms(1) this] show ?thesis
      by (rule object_frame) (use False assms(2) t(1) in \<open>auto simp: w' starting_def past_notify_def\<close>)
  qed
  moreover have "obj_of w' s = obj_of w s" for s using assms(2) by (simp add: w' obj_of_def split: option.split run_pc.split)
  then have "owners_ok M w'" using o(1) assms(2) by (auto simp: owners_ok_def w')
  moreover have "names_ok w'" using o(3) t(4) own t_thread_obj[OF assms(1)] unfolding names_ok_def w' by fastforce
  moreover have "calls_ok w'" using o(2) t(3) by (force simp: calls_ok_def w')
  ultimately show ?thesis by (simp add: threads_inv_def)
qed

lemma notify_inv:
  assumes "threads_inv gettid M w" "runs w t = Some (Run_notify p cb)" "run_notify t p cb w = Inr w'"
  shows "threads_inv gettid M w'"
proof -
  from thread_okE(1)[OF assms(1,2)] obtain th where
    t: "t_thread w t = Some p" "p \<in> ctors w" "t \<notin> fst ` set (called w)" "(t, cb) \<in> set (spawned w)"
      "objects w p = Some th" "th_semaphore th = 0" "th_cb th = None" "th_id th = gettid t" by auto
  have w': "w' = w\<lparr>objects := (objects w)(p \<mapsto> th\<lparr>th_semaphore := 1\<rparr>), runs := (runs w)(t \<mapsto> Run_call cb)\<rparr>"
    using assms(3) t(5,6) by (simp add: run_notify_def Semaphore_notify_def SEM_VALUE_MAX_def)
  have o: "owners_ok M w" "calls_ok w" "names_ok w" using assms(1) by (auto simp: threads_inv_def)
  have "obj_of w t = Some p" using assms(2) t(1) by (simp add: obj_of_def)
  then have own: "obj_of w s = Some p \<Longrightarrow> s = t" for s using o(1) unfolding owners_ok_def by blast
  have "thread_ok gettid w' s pc" if r: "runs w' s = Some pc" for s pc
  proof (cases "s = t")
    case False
    then have r': "runs w s = Some pc" using r by (simp add: w')
    from thread_okE(1)[OF assms(1) this] show ?thesis using own[of s] r' False by (cases pc) (auto simp: w' obj_of_def)
  qed (use r t in \<open>auto simp: w'\<close>)
  moreover have "object_ok gettid w' q x" if r: "objects w' q = Some x" for q x
  proof (cases "q = p")
    case True
    have "object_ok gettid w p th" by (rule thread_okE(2)[OF assms(1) t(5)])
    then show ?thesis using t True r by (auto simp: object_ok_def w' past_notify_def)
  next
    case False
    then have "objects w q = Some x" using r by (simp add: w')
    from thread_okE(2)[OF assms(1) this] show ?thesis
      by (rule object_frame) (use False assms(2) t(1) in \<open>auto simp: w' starting_def past_notify_def\<close>)
  qed
  moreover have "obj_of w' s = obj_of w s" for s using assms(2) by (simp add: w' obj_of_def split: option.split run_pc.split)
  then have "owners_ok M w'" using o(1) assms(2) by (auto simp: owners_ok_def w')
  moreover have "names_ok w'" using o(3) t(5) by (auto simp: names_ok_def w')
  moreover have "calls_ok w'" using o(2) t(3) by (force simp: calls_ok_def w')
  ultimately show ?thesis by (simp add: threads_inv_def)
qed

text \<open>Steps after the notification leave the objects alone.\<close>

lemma late_step_inv:
  assumes "threads_inv gettid M w" "past_notify w t" "pc' = Run_body \<or> pc' = Run_done" "w' = w\<lparr>runs := (runs w)(t \<mapsto> pc'), called := cs\<rparr>"
    and "cs = called w \<or> (\<exists>f. runs w t = Some (Run_call (Some f)) \<and> cs = called w @ [(t, f)])"
  shows "threads_inv gettid M w'"
proof -
  have o: "owners_ok M w" "calls_ok w" "names_ok w" using assms(1) by (auto simp: threads_inv_def)
  have this_t: "t_thread w t \<noteq> None" using assms(2) thread_okE(1)[OF assms(1)] by (fastforce simp: past_notify_def)
  have others: "s \<in> fst ` set cs \<longleftrightarrow> s \<in> fst ` set (called w)" if "s \<noteq> t" for s using assms(5) that by auto
  have "thread_ok gettid w' s pc" if r: "runs w' s = Some pc" for s pc
  proof (cases "s = t")
    case False
    then have "runs w s = Some pc" using r by (simp add: assms(4))
    from thread_okE(1)[OF assms(1) this] show ?thesis using others[OF False] by (cases pc) (auto simp: assms(4))
  qed (use r this_t assms(3) in \<open>auto simp: assms(4)\<close>)
  moreover have "object_ok gettid w' q x" if r: "objects w' q = Some x" for q x
  proof -
    have "objects w q = Some x" using r by (simp add: assms(4))
    from thread_okE(2)[OF assms(1) this] show ?thesis
      by (rule object_frame) (use assms(2,3) in \<open>auto simp: assms(4) starting_def past_notify_def\<close>)
  qed
  moreover have "obj_of w' s = obj_of w s" for s
    using assms(2,3) by (auto simp: assms(4) obj_of_def past_notify_def split: option.split run_pc.split)
  then have "owners_ok M w'" using o(1) assms(2) by (auto simp: owners_ok_def assms(4) past_notify_def)
  moreover have "names_ok w'" using o(3) by (auto simp: names_ok_def assms(4))
  moreover have "calls_ok w'"
    using assms(5)
  proof
    assume "cs = called w"
    then show ?thesis using o(2) assms(3) by (force simp: calls_ok_def assms(4))
  next
    assume "\<exists>f. runs w t = Some (Run_call (Some f)) \<and> cs = called w @ [(t, f)]"
    then obtain f where f: "runs w t = Some (Run_call (Some f))" "cs = called w @ [(t, f)]" by blast
    from thread_okE(1)[OF assms(1) f(1)] show ?thesis using f o(2) assms(3) by (force simp: calls_ok_def assms(4))
  qed
  ultimately show ?thesis by (simp add: threads_inv_def)
qed

text \<open>Steps that only change the name or the handle of an object, or remove an object whose constructor has returned.\<close>

lemma object_step_inv:
  assumes "threads_inv gettid M w" "w' = w\<lparr>objects := (objects w)(p := x), t_thread_name := ns\<rparr>"
    and "x = None \<and> p \<notin> ctors w \<or>
      (\<exists>th y. x = Some y \<and> objects w p = Some th \<and> th_semaphore y = th_semaphore th \<and> th_cb y = th_cb th \<and> th_id y = th_id th)"
    and "names_ok w'"
  shows "threads_inv gettid M w'"
proof -
  have o: "owners_ok M w" "calls_ok w" using assms(1) by (auto simp: threads_inv_def)
  have "thread_ok gettid w' s pc" if r: "runs w' s = Some pc" for s pc
  proof -
    have "runs w s = Some pc" using r by (simp add: assms(2))
    from thread_okE(1)[OF assms(1) this] show ?thesis using assms(3) by (cases pc) (auto simp: assms(2))
  qed
  moreover have "object_ok gettid w' q z" if r: "objects w' q = Some z" for q z
  proof -
    obtain th where th: "objects w q = Some th" "th_semaphore z = th_semaphore th" "th_cb z = th_cb th" "th_id z = th_id th"
      using r assms(3) by (auto simp: assms(2) split: if_splits)
    show ?thesis
      by (rule object_frame[OF thread_okE(2)[OF assms(1) th(1)] _ _ th(2) disjI1[OF th(3)] th(4)])
        (simp_all add: assms(2) starting_def past_notify_def)
  qed
  moreover have "obj_of w' s = obj_of w s" for s by (simp add: assms(2) obj_of_def split: option.split run_pc.split)
  then have "owners_ok M w'" using o(1) assms(3) by (auto simp: owners_ok_def assms(2))
  moreover have "calls_ok w'" using o(2) by (simp add: calls_ok_def assms(2))
  ultimately show ?thesis using assms(4) by (simp add: threads_inv_def)
qed

lemma thread_reach_inv: "thread_reach gettid M w \<Longrightarrow> threads_inv gettid M w"
proof (induction rule: thread_reach.induct)
  case start
  show ?case by (simp add: threads_inv_def no_threads_def names_ok_def owners_ok_def calls_ok_def obj_of_def)
next
  case (create w t rt cb name w')
  then show ?case using create_inv by blast
next
  case (wait w p w')
  then show ?case using wait_inv by blast
next
  case (prepare w t p w')
  then show ?case using prepare_inv by blast
next
  case (notify w t p cb w')
  then show ?case using notify_inv by blast
next
  case (call w t cb w')
  then obtain f where "cb = Some f" "w' = w\<lparr>runs := (runs w)(t \<mapsto> Run_body), called := called w @ [(t, f)]\<rparr>"
    by (auto simp: run_call_def split: option.splits)
  then show ?case using call.hyps(2) late_step_inv[OF call.IH, of t Run_body w' "called w @ [(t, f)]"] by (simp add: past_notify_def)
next
  case (return w t)
  then show ?case using late_step_inv[OF return.IH, of t Run_done _ "called w"] by (simp add: past_notify_def)
next
  case (set_name w t name w')
  have n: "names_ok w" "owners_ok M w" using set_name.IH by (auto simp: threads_inv_def)
  show ?case
  proof (cases "name = [] \<or> t_thread w t = None")
    case True
    have "w' = w \<or> (w' = w\<lparr>t_thread_name := (t_thread_name w)(t := name)\<rparr> \<and> t_thread w t = None)"
      using True set_name.hyps(3) by (cases "name = []") (auto simp: SetName_def Let_def)
    then show ?thesis
    proof
      assume w': "w' = w\<lparr>t_thread_name := (t_thread_name w)(t := name)\<rparr> \<and> t_thread w t = None"
      then have "names_ok w'" using n(1) by (auto simp: names_ok_def)
      moreover have "w' = w\<lparr>objects := (objects w)(next_obj w := objects w (next_obj w)), t_thread_name := (t_thread_name w)(t := name)\<rparr>" using w' by simp
      moreover have "objects w (next_obj w) = None"
        using thread_okE(2)[OF set_name.IH, of "next_obj w"] by (cases "objects w (next_obj w)") (auto simp: object_ok_def)
      moreover have "next_obj w \<notin> ctors w" using calculation(3) n(2) by (auto simp: owners_ok_def)
      ultimately show ?thesis using object_step_inv[OF set_name.IH, where p = "next_obj w" and x = None] by simp
    qed (use set_name.IH in simp)
  next
    case False
    then obtain p th where p: "t_thread w t = Some p" "objects w p = Some th"
      "w' = w\<lparr>objects := (objects w)(p := Some (th\<lparr>th_name := name\<rparr>)), t_thread_name := (t_thread_name w)(t := name)\<rparr>"
      using set_name.hyps(3) by (auto simp: SetName_def Let_def split: option.splits)
    have "obj_of w t = Some p" by (rule t_thread_obj[OF set_name.IH p(1)])
    then have other: "t_thread w s \<noteq> Some p" if "s \<noteq> t" for s
      using n(2) that t_thread_obj[OF set_name.IH, of s p] unfolding owners_ok_def by blast
    have "names_ok w'"
      unfolding names_ok_def
    proof (intro allI impI)
      fix s q x
      assume a: "t_thread w' s = Some q" "objects w' q = Some x"
      show "th_name x = t_thread_name w' s" using a n(1) p(1) other by (cases "s = t") (auto simp: p(3) names_ok_def split: if_splits)
    qed
    then show ?thesis using object_step_inv[OF set_name.IH p(3)] p(2) by simp
  qed
next
  case (join w p rt w')
  have n: "names_ok w" using join.IH by (simp add: threads_inv_def)
  from join.hyps(3) obtain th where th: "objects w p = Some th" "w' = w \<or> w' = w\<lparr>objects := (objects w)(p \<mapsto> th\<lparr>th_thread := None\<rparr>)\<rparr>"
    by (auto simp: Thread_join_def split: option.splits if_splits)
  then show ?case
  proof (elim disjE)
    assume w': "w' = w\<lparr>objects := (objects w)(p \<mapsto> th\<lparr>th_thread := None\<rparr>)\<rparr>"
    have "names_ok w'" using n th(1) by (auto simp: names_ok_def w')
    then show ?thesis using object_step_inv[OF join.IH, where p = p and x = "Some (th\<lparr>th_thread := None\<rparr>)" and ns = "t_thread_name w"] th(1) w' by simp
  qed (use join.IH in simp)
next
  case (destroy w p)
  have n: "names_ok w" using destroy.IH by (simp add: threads_inv_def)
  then have "names_ok (Thread_dtor p w)" by (auto simp: names_ok_def Thread_dtor_def)
  then show ?case using object_step_inv[OF destroy.IH, where p = p and x = None and ns = "t_thread_name w"] destroy.hyps by (simp add: Thread_dtor_def)
qed

section \<open>The handshake\<close>

text \<open>C9: starting a thread is safe: in every interleaving of constructors, threads, joins, renamings and destructors,
  \<^verbatim>\<open>run\<close> never touches a destroyed \<^verbatim>\<open>Thread\<close> and raises the semaphore without error; an object whose constructor has
  returned has the kernel id of a thread that has taken the callback away; while the semaphore of a
  waiting constructor is down, a thread is on its way to raise it; every callback that ran was given to the thread that
  ran it, and no thread ran two; and \<^verbatim>\<open>GetName\<close> in a thread is the name of its object as long as that exists.\<close>

theorem thread_handshake:
  assumes "thread_reach gettid M w"
  shows "(\<forall>t p. runs w t = Some (Run_start p) \<longrightarrow> (\<exists>w'. run_setup gettid t p w = Inr w')) \<and>
     (\<forall>t p cb. runs w t = Some (Run_notify p cb) \<longrightarrow> (\<exists>w'. run_notify t p cb w = Inr w')) \<and>
     (\<forall>p th. objects w p = Some th \<and> p \<notin> ctors w \<longrightarrow> th_cb th = None \<and> (\<exists>t. t \<notin> M \<and> GetThis t w = Some p \<and> th_id th = gettid t \<and> past_notify w t)) \<and>
     (\<forall>p \<in> ctors w. Thread_wait p w \<noteq> None \<or> (\<exists>t. starting w p t)) \<and>
     (\<forall>(t, f) \<in> set (called w). (t, Some f) \<in> set (spawned w)) \<and> distinct (map fst (called w)) \<and>
     (\<forall>t p th. GetThis t w = Some p \<and> objects w p = Some th \<longrightarrow> th_name th = GetName t w)"
proof -
  note inv = thread_reach_inv[OF assms]
  have o: "owners_ok M w" "calls_ok w" "names_ok w" using inv by (auto simp: threads_inv_def)
  have run: "\<exists>w'. run_setup gettid t p w = Inr w'" if "runs w t = Some (Run_start p)" for t p
    using thread_okE(1)[OF inv that] by (auto simp: run_setup_def)
  have ntf: "\<exists>w'. run_notify t p cb w = Inr w'" if "runs w t = Some (Run_notify p cb)" for t p cb
    using thread_okE(1)[OF inv that] by (auto simp: run_notify_def Semaphore_notify_def SEM_VALUE_MAX_def)
  have obj: "th_cb th = None \<and> (\<exists>t. t \<notin> M \<and> GetThis t w = Some p \<and> th_id th = gettid t \<and> past_notify w t)"
    if p: "objects w p = Some th \<and> p \<notin> ctors w" for p th
  proof -
    have "object_ok gettid w p th" by (rule thread_okE(2)[OF inv conjunct1[OF p]])
    then obtain t where t: "th_cb th = None" "t_thread w t = Some p" "th_id th = gettid t" "past_notify w t" using p by (auto simp: object_ok_def)
    then have "t \<notin> M" using o(1) by (auto simp: owners_ok_def past_notify_def)
    then show ?thesis using t by (auto simp: GetThis_def)
  qed
  have wait: "Thread_wait p w \<noteq> None \<or> (\<exists>t. starting w p t)" if "p \<in> ctors w" for p
  proof -
    have "p \<in> dom (objects w)" using that o(1) by (auto simp: owners_ok_def)
    then obtain th where th: "objects w p = Some th" by blast
    show ?thesis using thread_okE(2)[OF inv th] that th
      by (auto simp: object_ok_def starting_def Thread_wait_def Semaphore_wait_def split: if_splits)
  qed
  show ?thesis using run ntf obj wait o(2,3) by (auto simp: calls_ok_def names_ok_def GetThis_def GetName_def)
qed

text \<open>A thread that was made and has done its setup, while the constructor still waits.\<close>

definition demo_threads :: "string threads" where
  "demo_threads = no_threads\<lparr>objects := [0 \<mapsto> \<lparr>th_id = 42, th_thread = Some 1, th_cb = None, th_name = ''worker'', th_semaphore = 0\<rparr>], next_obj := 1,
     ctors := {0}, t_thread := (\<lambda>_. None)(1 := Some 0), t_thread_name := (\<lambda>_. ''UNKNOW'')(1 := ''worker''),
     runs := [1 \<mapsto> Run_notify 0 (Some ''job'')], spawned := [(1, Some ''job'')]\<rparr>"

lemma demo_threads_reach: "thread_reach (\<lambda>_. 42) {0} demo_threads"
proof -
  let ?w = "no_threads\<lparr>objects := [0 \<mapsto> \<lparr>th_id = -1, th_thread = Some 1, th_cb = Some ''job'', th_name = ''worker'', th_semaphore = 0\<rparr>],
    next_obj := 1, ctors := {0}, runs := [1 \<mapsto> Run_start 0], spawned := [(1, Some ''job'')]\<rparr> :: string threads"
  have "Thread_create 0 1 (Some ''job'') ''worker'' no_threads = Inr ?w" by (simp add: Thread_create_def no_threads_def)
  from thread_reach.create[OF thread_reach.start _ _ this] have r: "thread_reach (\<lambda>_. 42) {0} ?w" by (simp add: no_threads_def)
  have "run_setup (\<lambda>_. 42) 1 0 ?w = Inr demo_threads" by (simp add: run_setup_def demo_threads_def no_threads_def)
  from thread_reach.prepare[OF r _ this] show ?thesis by simp
qed

theorem thread_handshake_witness:
  "(\<exists>w'. run_notify 1 0 (Some ''job'') demo_threads = Inr w') \<and> (\<exists>t. starting demo_threads 0 t) \<and> GetName 1 demo_threads = ''worker''"
proof -
  have "Thread_wait 0 demo_threads = None" by (simp add: Thread_wait_def Semaphore_wait_def demo_threads_def)
  then show ?thesis using thread_handshake[OF demo_threads_reach] by (simp add: demo_threads_def no_threads_def GetName_def)
qed

text \<open>A thread that renames itself after its object is gone writes to freed memory.\<close>

lemma SetName_dangling:
  assumes "name \<noteq> []" "t_thread w t = Some p" "objects w p = None"
  shows "SetName t name w = Inl Undefined"
  using assms by (simp add: SetName_def Let_def)

text \<open>A thread constructed with an empty callback ends the program in the new thread.\<close>

lemma run_call_empty: "run_call t None w = Inl BadFunctionCall"
  by (simp add: run_call_def)

end
