(* ===== verification/TW_ServerStop.thy ===== *)
theory TW_ServerStop
  imports TW_Server TW_IOManager
begin

text \<open>
  The operations of \<^verbatim>\<open>src/base/socket.cpp\<close> that cancel the events of a socket, and the task of \<^verbatim>\<open>TcpServer::stop\<close> in
  \<^verbatim>\<open>src/base/tcp_server.cpp\<close>, composed of the server of \<^verbatim>\<open>TW_Server\<close> and the IO manager of \<^verbatim>\<open>TW_IOManager\<close> on which
  the task runs.
\<close>

section \<open>Cancelling the events of a socket\<close>

definition Socket_cancelRead :: "epoll_ctl \<Rightarrow> thread_id \<Rightarrow> Socket \<Rightarrow> 'f IOManager \<Rightarrow> (bool \<times> 'f IOManager) res" where
  "Socket_cancelRead ctl tid s m = cancelEvent ctl tid (m_sock s) READ m"

definition Socket_cancelWrite :: "epoll_ctl \<Rightarrow> thread_id \<Rightarrow> Socket \<Rightarrow> 'f IOManager \<Rightarrow> (bool \<times> 'f IOManager) res" where
  "Socket_cancelWrite ctl tid s m = cancelEvent ctl tid (m_sock s) WRITE m"

definition Socket_cancelAccept :: "epoll_ctl \<Rightarrow> thread_id \<Rightarrow> Socket \<Rightarrow> 'f IOManager \<Rightarrow> (bool \<times> 'f IOManager) res" where
  "Socket_cancelAccept ctl tid s m = cancelEvent ctl tid (m_sock s) READ m"

definition Socket_cancelAll :: "epoll_ctl \<Rightarrow> thread_id \<Rightarrow> Socket \<Rightarrow> 'f IOManager \<Rightarrow> (bool \<times> 'f IOManager) res" where
  "Socket_cancelAll ctl tid s m = cancelAll ctl tid (m_sock s) m"

section \<open>The task of stop\<close>

fun stop_loop :: "epoll_ctl \<Rightarrow> thread_id \<Rightarrow> sock_ptr list \<Rightarrow> TcpServer \<Rightarrow> 'f IOManager \<Rightarrow> (TcpServer \<times> 'f IOManager) res" where
  "stop_loop ctl tid [] sv m = Inr (sv, m)"
| "stop_loop ctl tid (p # ps) sv m =
     (case socks sv p of
        None \<Rightarrow> Inl Undefined
      | Some s \<Rightarrow> res_bind (Socket_cancelAll ctl tid s m) (\<lambda>(_, m1). stop_loop ctl tid ps (close_at p sv) m1))"

definition stop_task :: "epoll_ctl \<Rightarrow> thread_id \<Rightarrow> TcpServer \<Rightarrow> 'f IOManager \<Rightarrow> (TcpServer \<times> 'f IOManager) res" where
  "stop_task ctl tid sv m = res_bind (stop_loop ctl tid (m_socks sv) sv m) (\<lambda>(sv1, m1). Inr (clear_socks sv1, m1))"

text \<open>The tasks of the events that are registered for a descriptor.\<close>

definition registered_tasks :: "'f IOManager \<Rightarrow> int \<Rightarrow> 'f std_function ScheduleTask list" where
  "registered_tasks m d =
     (if 0 \<le> d \<and> d < int (length (m_fdContexts m))
      then event_tasks READ (m_fdContexts m ! nat d) @ event_tasks WRITE (m_fdContexts m ! nat d) else [])"

text \<open>The kernel removes a descriptor that it watches.\<close>

definition epoll_removes :: "epoll_ctl \<Rightarrow> bool" where
  "epoll_removes ctl \<longleftrightarrow> (\<forall>d tab. tab d \<noteq> None \<longrightarrow> fst (ctl EPOLL_CTL_DEL d 0 tab) = 0)"

lemma cancelAll_total:
  assumes inv: "iom_inv r {} m" and ctl: "epoll_ok ctl" "epoll_removes ctl" and d: "d \<noteq> r" "0 \<le> d"
  shows "\<exists>b m'. cancelAll ctl tid d m = Inr (b, m') \<and> iom_inv r {} m' \<and> registered_tasks m' d = [] \<and>
     m_tasks (iom_sched m') = m_tasks (iom_sched m) @ registered_tasks m d \<and> (\<forall>e. e \<noteq> d \<longrightarrow> registered_tasks m' e = registered_tasks m e) \<and>
     (\<forall>e. e = r \<or> m_epfd m' e = (if e = d then None else m_epfd m e))"
proof (cases "d < int (length (m_fdContexts m)) \<and> events (m_fdContexts m ! nat d) \<noteq> 0")
  case True
  then have "m_epfd m d \<noteq> None" using inv d by (simp add: iom_inv_def wanted_def)
  then obtain tab where "ctl EPOLL_CTL_DEL d 0 (m_epfd m) = (0, tab)"
    using ctl(2) unfolding epoll_removes_def by (metis surjective_pairing)
  from cancelAll_ok[OF inv ctl(1) d(1,2) _ _ this, of tid] True obtain m' c where
    m': "cancelAll ctl tid d m = Inr (True, m')" "iom_inv r {} m'" "events (m_fdContexts m' ! nat d) = 0"
      "m_tasks (iom_sched m') = m_tasks (iom_sched m) @ event_tasks READ (m_fdContexts m ! nat d) @ event_tasks WRITE (m_fdContexts m ! nat d)"
      "m_fdContexts m' = (m_fdContexts m)[nat d := c]" by blast
  have "nat d < length (m_fdContexts m)" using True d(2) by linarith
  then have c: "events c = 0" using m'(3,5) by simp
  have at: "m_fdContexts m' ! nat e = (if e = d then c else m_fdContexts m ! nat e)" if "0 \<le> e" for e
    using that d(2) \<open>nat d < length (m_fdContexts m)\<close> by (simp add: m'(5) nth_list_update eq_nat_nat_iff)
  have len: "length (m_fdContexts m') = length (m_fdContexts m)" by (simp add: m'(5))
  have "registered_tasks m' e = (if e = d then [] else registered_tasks m e)" for e
    by (cases "0 \<le> e") (simp_all add: registered_tasks_def event_tasks_def at len c)
  moreover have "e = r \<or> m_epfd m' e = (if e = d then None else m_epfd m e)" for e
  proof -
    have "e \<noteq> r \<longrightarrow> m_epfd m e = wanted (m_fdContexts m) e" "e \<noteq> r \<longrightarrow> m_epfd m' e = wanted (m_fdContexts m') e"
      using inv m'(2) by (simp_all add: iom_inv_def)
    moreover have "wanted (m_fdContexts m') e = (if e = d then None else wanted (m_fdContexts m) e)"
      by (cases "0 \<le> e") (auto simp: wanted_def at len c)
    ultimately show ?thesis by (cases "e = r") simp_all
  qed
  moreover have "registered_tasks m d = event_tasks READ (m_fdContexts m ! nat d) @ event_tasks WRITE (m_fdContexts m ! nat d)"
    using True d(2) by (simp add: registered_tasks_def)
  ultimately show ?thesis using m'(1,2,4) by (intro exI[of _ True] exI[of _ m']) simp
next
  case False
  then have "registered_tasks m d = []" "m_epfd m d = None" using inv d by (auto simp: registered_tasks_def event_tasks_def iom_inv_def wanted_def)
  moreover have "cancelAll ctl tid d m = Inr (False, m)" using False d(2) by (auto simp: cancelAll_def Let_def)
  ultimately show ?thesis using inv by (intro exI[of _ False] exI[of _ m]) auto
qed

section \<open>The contract of the IO manager\<close>

text \<open>
  What the server relies on when it cancels events: cancelling is defined for every descriptor but the manager's \<open>own\<close>, appends the
  tasks registered for the descriptor to the queue, stops watching it, and leaves other descriptors alone.
\<close>

fun cancel_each :: "(int \<Rightarrow> 'm \<Rightarrow> (bool \<times> 'm) res) \<Rightarrow> int list \<Rightarrow> 'm \<Rightarrow> 'm res" where
  "cancel_each unwatch [] m = Inr m"
| "cancel_each unwatch (d # ds) m = res_bind (unwatch d m) (\<lambda>(_, m1). cancel_each unwatch ds m1)"

locale event_source =
  fixes unwatch :: "int \<Rightarrow> 'm \<Rightarrow> (bool \<times> 'm) res"
    and inv :: "'m \<Rightarrow> bool"
    and queue :: "'m \<Rightarrow> 't list"
    and tasks_of :: "'m \<Rightarrow> int \<Rightarrow> 't list"
    and watched :: "'m \<Rightarrow> int set"
    and own :: int
  assumes cancel_law: "inv m \<Longrightarrow> d \<noteq> own \<Longrightarrow> 0 \<le> d \<Longrightarrow> \<exists>b m'. unwatch d m = Inr (b, m') \<and> inv m' \<and> queue m' = queue m @ tasks_of m d \<and>
    (\<forall>e. e \<noteq> d \<longrightarrow> tasks_of m' e = tasks_of m e) \<and> watched m' = watched m - {d}"
begin

lemma cancel_each_ok:
  assumes "inv m" "distinct ds" "\<forall>d \<in> set ds. 0 \<le> d \<and> d \<noteq> own"
  shows "\<exists>m'. cancel_each unwatch ds m = Inr m' \<and> inv m' \<and> queue m' = queue m @ concat (map (tasks_of m) ds) \<and> watched m' = watched m - set ds"
  using assms
proof (induction ds arbitrary: m)
  case (Cons d ds)
  then obtain b m1 where m1: "unwatch d m = Inr (b, m1)" "inv m1" "queue m1 = queue m @ tasks_of m d"
      "\<forall>e. e \<noteq> d \<longrightarrow> tasks_of m1 e = tasks_of m e" "watched m1 = watched m - {d}"
    using cancel_law[of m d] by auto
  have "map (tasks_of m1) ds = map (tasks_of m) ds" using m1(4) Cons.prems(2) by auto
  with Cons.IH[OF m1(2)] Cons.prems m1 show ?case by auto
qed simp

end

interpretation iom_events: event_source "cancelAll ctl tid" "\<lambda>m. epoll_ok ctl \<and> epoll_removes ctl \<and> iom_inv r {} m" "\<lambda>m. m_tasks (iom_sched m)"
    registered_tasks "\<lambda>m. dom (m_epfd m) - {r}" r for ctl tid r
proof
  fix m :: "'b IOManager" and d
  assume "epoll_ok ctl \<and> epoll_removes ctl \<and> iom_inv r {} m" "d \<noteq> r" "0 \<le> d"
  then obtain b m' where c: "cancelAll ctl tid d m = Inr (b, m')" "iom_inv r {} m'"
      "m_tasks (iom_sched m') = m_tasks (iom_sched m) @ registered_tasks m d" "\<forall>e. e \<noteq> d \<longrightarrow> registered_tasks m' e = registered_tasks m e"
      "\<forall>e. e = r \<or> m_epfd m' e = (if e = d then None else m_epfd m e)"
    using cancelAll_total[of r m ctl d tid] by blast
  have "e \<in> dom (m_epfd m') - {r} \<longleftrightarrow> e \<in> dom (m_epfd m) - {r} - {d}" for e
    using spec[OF c(5), of e] by (cases "e = r"; cases "e = d") (simp_all add: domIff)
  then have "dom (m_epfd m') - {r} = dom (m_epfd m) - {r} - {d}" by blast
  with c \<open>epoll_ok ctl \<and> epoll_removes ctl \<and> iom_inv r {} m\<close>
  show "\<exists>b m'. cancelAll ctl tid d m = Inr (b, m') \<and> (epoll_ok ctl \<and> epoll_removes ctl \<and> iom_inv r {} m') \<and>
      m_tasks (iom_sched m') = m_tasks (iom_sched m) @ registered_tasks m d \<and> (\<forall>e. e \<noteq> d \<longrightarrow> registered_tasks m' e = registered_tasks m e) \<and>
      dom (m_epfd m') - {r} = dom (m_epfd m) - {r} - {d}" by blast
qed

section \<open>Stopping\<close>

text \<open>Closing the sockets one after the other.\<close>

lemma close_all:
  assumes "distinct ps" "\<forall>p \<in> set ps. \<exists>s. socks sv p = Some s \<and> isValid s"
  shows "m_socks (fold close_at ps sv) = m_socks sv" "net_open (sv_net (fold close_at ps sv)) = net_open (sv_net sv) - fd_of sv ` set ps"
    "net_closes (sv_net (fold close_at ps sv)) = net_closes (sv_net sv) @ map (fd_of sv) ps"
    "\<forall>p \<in> set ps. \<forall>s. socks (fold close_at ps sv) p = Some s \<longrightarrow> \<not> isValid s \<and> \<not> m_isConnected s" (is ?closed)
    "\<forall>q. q \<notin> set ps \<longrightarrow> socks (fold close_at ps sv) q = socks sv q"
proof -
  have "m_socks (fold close_at ps sv) = m_socks sv \<and> net_open (sv_net (fold close_at ps sv)) = net_open (sv_net sv) - fd_of sv ` set ps \<and>
    net_closes (sv_net (fold close_at ps sv)) = net_closes (sv_net sv) @ map (fd_of sv) ps \<and> ?closed \<and>
    (\<forall>q. q \<notin> set ps \<longrightarrow> socks (fold close_at ps sv) q = socks sv q)"
    using assms
  proof (induction ps arbitrary: sv)
    case (Cons p ps)
    obtain s where s: "socks sv p = Some s" "isValid s" using Cons.prems(2) by auto
    have c: "close_at p sv = sv\<lparr>socks := (socks sv)(p \<mapsto> s\<lparr>m_isConnected := False, m_sock := -1\<rparr>), sv_net := sys_close (m_sock s) (sv_net sv)\<rparr>" (is "_ = ?sv")
      using s by (simp add: close_at_def Socket_close_def isValid_def Let_def)
    have fd: "fd_of ?sv q = fd_of sv q" if "q \<in> set ps" for q using that Cons.prems(1) by (auto simp: fd_of_def)
    then have fds: "fd_of ?sv ` set ps = fd_of sv ` set ps" "map (fd_of ?sv) ps = map (fd_of sv) ps" by auto
    have "distinct ps" "\<forall>q \<in> set ps. \<exists>s. socks ?sv q = Some s \<and> isValid s" using Cons.prems by auto
    note ih = Cons.IH[OF this, unfolded fds]
    note i1 = ih[THEN conjunct1] and i2 = ih[THEN conjunct2, THEN conjunct1] and i3 = ih[THEN conjunct2, THEN conjunct2, THEN conjunct1]
      and i4 = ih[THEN conjunct2, THEN conjunct2, THEN conjunct2, THEN conjunct1] and i5 = ih[THEN conjunct2, THEN conjunct2, THEN conjunct2, THEN conjunct2]
    have p: "p \<notin> set ps" using Cons.prems(1) by simp
    then have at_p: "socks (fold close_at ps ?sv) p = Some (s\<lparr>m_isConnected := False, m_sock := -1\<rparr>)" using i5 by simp
    have f: "fold close_at (p # ps) sv = fold close_at ps ?sv" by (simp add: c)
    have sp: "fd_of sv p = m_sock s" using s by (simp add: fd_of_def)
    have "m_socks (fold close_at ps ?sv) = m_socks sv" using i1 by simp
    moreover have "net_open (sv_net (fold close_at ps ?sv)) = net_open (sv_net sv) - fd_of sv ` set (p # ps)" using sp unfolding i2 by (auto simp: sys_close_def)
    moreover have "net_closes (sv_net (fold close_at ps ?sv)) = net_closes (sv_net sv) @ map (fd_of sv) (p # ps)" using sp unfolding i3 by (simp add: sys_close_def)
    moreover have "\<forall>q \<in> set (p # ps). \<forall>s. socks (fold close_at ps ?sv) q = Some s \<longrightarrow> \<not> isValid s \<and> \<not> m_isConnected s"
    proof
      fix q assume q: "q \<in> set (p # ps)"
      show "\<forall>s. socks (fold close_at ps ?sv) q = Some s \<longrightarrow> \<not> isValid s \<and> \<not> m_isConnected s"
      proof (cases "q = p")
        case True
        then show ?thesis using at_p by (simp add: isValid_def)
      next
        case False
        then have "q \<in> set ps" using q by simp
        then show ?thesis by (rule bspec[OF i4])
      qed
    qed
    moreover have "\<forall>q. q \<notin> set (p # ps) \<longrightarrow> socks (fold close_at ps ?sv) q = socks sv q" using i5 by simp
    ultimately show ?case unfolding f by blast
  qed simp
  then show "m_socks (fold close_at ps sv) = m_socks sv" "net_open (sv_net (fold close_at ps sv)) = net_open (sv_net sv) - fd_of sv ` set ps"
    "net_closes (sv_net (fold close_at ps sv)) = net_closes (sv_net sv) @ map (fd_of sv) ps" ?closed
    "\<forall>q. q \<notin> set ps \<longrightarrow> socks (fold close_at ps sv) q = socks sv q" by blast+
qed

text \<open>The loop cancels the events of the descriptors and closes the sockets.\<close>

lemma stop_loop_split:
  fixes m :: "'f IOManager"
  assumes "distinct ps" "\<forall>p \<in> set ps. socks sv p \<noteq> None"
  shows "stop_loop ctl tid ps sv m = res_bind (cancel_each (cancelAll ctl tid) (map (fd_of sv) ps) m) (\<lambda>m'. Inr (fold close_at ps sv, m'))"
  using assms
proof (induction ps arbitrary: sv m)
  case (Cons p ps)
  obtain s where s: "socks sv p = Some s" using Cons.prems(2) by auto
  have other: "socks (close_at p sv) q = socks sv q" if "q \<noteq> p" for q using that s by (simp add: close_at_def split: prod.split)
  then have fds: "map (fd_of (close_at p sv)) ps = map (fd_of sv) ps" using Cons.prems(1)
    by (intro map_cong) (metis distinct.simps(2) fd_of_def)+
  have "\<forall>q \<in> set ps. socks (close_at p sv) q \<noteq> None" using Cons.prems other by (metis distinct.simps(2) list.set_intros(2))
  then have ih: "stop_loop ctl tid ps (close_at p sv) m1 =
      res_bind (cancel_each (cancelAll ctl tid) (map (fd_of sv) ps) m1) (\<lambda>m'. Inr (fold close_at ps (close_at p sv), m'))" for m1 :: "'f IOManager"
    using Cons.IH[of "close_at p sv" m1] Cons.prems(1) unfolding fds by simp
  have "fd_of sv p = m_sock s" using s by (simp add: fd_of_def)
  then show ?case using s by (cases "cancelAll ctl tid (m_sock s) m") (auto simp: Socket_cancelAll_def ih)
qed simp

text \<open>Dropping references to sockets that are closed already does nothing to the kernel.\<close>

lemma fold_release_closed:
  assumes "\<forall>p \<in> set ps. \<forall>s. socks sv p = Some s \<longrightarrow> \<not> isValid s \<and> \<not> m_isConnected s"
  shows "sv_net (fold release ps sv) = sv_net sv \<and> m_socks (fold release ps sv) = m_socks sv"
  using assms
proof (induction ps arbitrary: sv)
  case (Cons p ps)
  have r: "release p sv = sv\<lparr>socks := (if referenced p sv then socks sv else (socks sv)(p := None))\<rparr>"
    using Cons.prems by (auto simp: release_def kill_socket_def Socket_close_def isValid_def fun_upd_idem split: option.split)
  have "sv_net (fold release ps (release p sv)) = sv_net (release p sv) \<and> m_socks (fold release ps (release p sv)) = m_socks (release p sv)"
    using Cons.prems unfolding r by (intro Cons.IH) auto
  moreover have "sv_net (release p sv) = sv_net sv \<and> m_socks (release p sv) = m_socks sv" unfolding r by simp
  ultimately show ?case by simp
qed simp

text \<open>C12: stopping the server releases what binding took: when the task of \<^verbatim>\<open>stop\<close> runs on an IO manager in a reachable
  state (no descriptor having been closed with events registered for it), and the kernel removes descriptors it watches, the task returns; each listening descriptor is closed
  exactly once and in order, the process has open what it had before binding, the manager no longer watches
  the descriptors, and the tasks of the events registered for them are scheduled behind those already queued.\<close>

theorem stop_releases_listeners:
  assumes "bound base sv" "\<forall>p \<in> set (m_socks sv). 0 \<le> fd_of sv p \<and> fd_of sv p \<noteq> r"
    and "iom_reach ctl r {} m" "epoll_ok ctl" "epoll_removes ctl"
  shows "\<exists>sv' m'. stop_task ctl tid sv m = Inr (sv', m') \<and> m_socks sv' = [] \<and> net_open (sv_net sv') = base \<and>
     net_closes (sv_net sv') = net_closes (sv_net sv) @ map (fd_of sv) (m_socks sv) \<and>
     (\<forall>d \<in> fd_of sv ` set (m_socks sv). m_epfd m' d = None) \<and>
     m_tasks (iom_sched m') = m_tasks (iom_sched m) @ concat (map (registered_tasks m \<circ> fd_of sv) (m_socks sv))"
proof -
  let ?ps = "m_socks sv" and ?ds = "map (fd_of sv) (m_socks sv)"
  have b: "distinct ?ps" "inj_on (fd_of sv) (set ?ps)" "net_open (sv_net sv) = base \<union> fd_of sv ` set ?ps" "\<forall>p \<in> set ?ps. fd_of sv p \<notin> base"
    "\<forall>p \<in> set ?ps. \<exists>s. socks sv p = Some s \<and> isValid s" using assms(1) by (auto simp: bound_def)
  have "distinct ?ds" "\<forall>d \<in> set ?ds. 0 \<le> d \<and> d \<noteq> r" using b(1,2) assms(2) by (auto simp: distinct_map)
  from iom_events.cancel_each_ok[OF _ this, of ctl m tid] iom_reach_inv[OF assms(3,4)] assms(4,5) obtain m1 where
    m1: "cancel_each (cancelAll ctl tid) ?ds m = Inr m1" "m_tasks (iom_sched m1) = m_tasks (iom_sched m) @ concat (map (registered_tasks m) ?ds)"
      "dom (m_epfd m1) - {r} = dom (m_epfd m) - {r} - set ?ds" by blast
  have l: "stop_loop ctl tid ?ps sv m = Inr (fold close_at ?ps sv, m1)" 
  proof -
    have "\<forall>p \<in> set ?ps. socks sv p \<noteq> None" using b(5) by auto
    then show ?thesis by (simp add: stop_loop_split[OF b(1)] m1(1))
  qed
  note c = close_all[OF b(1,5)]
  have k: "sv_net (clear_socks (fold close_at ?ps sv)) = sv_net (fold close_at ?ps sv)" "m_socks (clear_socks (fold close_at ?ps sv)) = []"
    using fold_release_closed[of ?ps "(fold close_at ?ps sv)\<lparr>m_socks := []\<rparr>"] c(1,4) by (simp_all add: clear_socks_def)
  have "net_open (sv_net (fold close_at ?ps sv)) = base" using c(2) b(3,4) by auto
  moreover have "\<forall>d \<in> fd_of sv ` set ?ps. m_epfd m1 d = None" using m1(3) assms(2) by auto
  ultimately show ?thesis using l c(3) k m1(2) by (intro exI[of _ "clear_socks (fold close_at ?ps sv)"] exI[of _ m1]) (simp add: stop_task_def)
qed

text \<open>A server listening on descriptor 7, for which the manager watches reads.\<close>

definition listening_server :: TcpServer where
  "listening_server = demo_server\<lparr>m_socks := [0], socks := [0 \<mapsto> demo_client], next_sock := 1, sv_net := demo_net\<lparr>net_open := {0, 1, 7}\<rparr>\<rparr>"

theorem stop_releases_listeners_witness:
  "\<exists>sv' m'. stop_task kernel_ctl 1 listening_server busy_iom = Inr (sv', m') \<and> m_socks sv' = [] \<and> net_open (sv_net sv') = {0, 1} \<and>
     net_closes (sv_net sv') = [7] \<and> m_epfd m' 7 = None \<and> m_tasks (iom_sched m') = [cb_task (Some (Fn ''on_read'')) (- 1)]"
proof -
  have s: "m_socks listening_server = [0]" "fd_of listening_server 0 = 7" "net_closes (sv_net listening_server) = []"
    by (simp_all add: listening_server_def fd_of_def demo_client_def demo_net_def)
  have b: "bound {0, 1} listening_server"
    by (auto simp: bound_def listening_server_def fd_of_def demo_client_def Socket_ctor_def isValid_def)
  have k: "epoll_removes kernel_ctl" by (simp add: epoll_removes_def kernel_ctl_def)
  have t: "registered_tasks busy_iom 7 = [cb_task (Some (Fn ''on_read'')) (- 1)]" "m_tasks (iom_sched busy_iom) = []"
    by (simp_all add: registered_tasks_def busy_iom_simps event_tasks_def event_task_def read7_def) (simp add: busy_iom_def new_iom_def)
  from stop_releases_listeners[OF b _ busy_iom_reach kernel_ctl_ok k, of 1] show ?thesis by (simp add: s t)
qed

end
