(* ===== verification/TW_Uri.thy ===== *)
theory TW_Uri
  imports HP_Url TW_Address
begin

text \<open>
  \<^verbatim>\<open>docs/images/uri.h\<close> and \<^verbatim>\<open>docs/images/uri.cpp\<close>: URIs, made from the fields of \<^verbatim>\<open>http_parser_parse_url\<close> and printed back. The
  parser's structure is not initialised by \<^verbatim>\<open>Create\<close>: its former contents are the argument \<open>junk\<close>. \<^verbatim>\<open>Create\<close> calls
  \<^verbatim>\<open>SetScheme\<close> and \<^verbatim>\<open>SetUserInfo\<close>, which no file of the repository declares (the header has \<^verbatim>\<open>SetUserinfo\<close> and no setter of the
  scheme): they are parameters, and what a lemma needs of them is its hypothesis.
\<close>

record Uri =
  uri_scheme :: string
  uri_userInfo :: string
  uri_host :: string
  uri_path :: string
  uri_query :: string
  uri_fragment :: string
  uri_port :: int

definition Uri_ctor :: Uri where
  "Uri_ctor = \<lparr>uri_scheme = [], uri_userInfo = [], uri_host = [], uri_path = [], uri_query = [], uri_fragment = [], uri_port = 0\<rparr>"

text \<open>The text of a field that is set, read from the string.\<close>

definition uri_field :: "string \<Rightarrow> http_parser_url_fields \<Rightarrow> http_parser_url \<Rightarrow> string option res" where
  "uri_field urlStr f parser =
     (if has_field f parser then res_bind (mem_read (unat (off (field_data parser f))) (unat (len (field_data parser f))) urlStr) (\<lambda>x. Inr (Some x))
      else Inr None)"

text \<open>\<^verbatim>\<open>std::stoi\<close> on a text without leading blanks or sign, as port fields are.\<close>

definition stoi :: "string \<Rightarrow> int res" where
  "stoi s =
     (let ds = takeWhile IS_NUM s; v = foldl (\<lambda>v c. v * 10 + digit c) 0 ds in
      if ds = [] then Inl InvalidArgument else if v \<ge> 2 ^ 31 then Inl LogicError else Inr (int v))"

definition default_port :: "string \<Rightarrow> Uri \<Rightarrow> Uri" where
  "default_port scheme uri =
     (if scheme = ''http'' \<or> scheme = ''ws'' then uri\<lparr>uri_port := 80\<rparr> else if scheme = ''https'' then uri\<lparr>uri_port := 443\<rparr> else uri)"

definition Uri_Create ::
  "(string \<Rightarrow> Uri \<Rightarrow> Uri) \<Rightarrow> (string \<Rightarrow> Uri \<Rightarrow> Uri) \<Rightarrow> http_parser_url \<Rightarrow> string \<Rightarrow> Uri option res" where
  "Uri_Create SetScheme SetUserInfo junk urlStr =
     res_bind (http_parser_parse_url urlStr False junk) (\<lambda>(rt, parser).
     if rt \<noteq> 0 then Inr None
     else
       res_bind (uri_field urlStr UF_SCHEMA parser) (\<lambda>f. let u1 = (case f of None \<Rightarrow> Uri_ctor | Some x \<Rightarrow> SetScheme x Uri_ctor) in
       res_bind (uri_field urlStr UF_USERINFO parser) (\<lambda>f. let u2 = (case f of None \<Rightarrow> u1 | Some x \<Rightarrow> SetUserInfo x u1) in
       res_bind (uri_field urlStr UF_HOST parser) (\<lambda>f. let u3 = (case f of None \<Rightarrow> u2 | Some x \<Rightarrow> u2\<lparr>uri_host := x\<rparr>) in
       res_bind (uri_field urlStr UF_PORT parser) (\<lambda>f.
       res_bind (case f of None \<Rightarrow> Inr (default_port (uri_scheme u3) u3) | Some x \<Rightarrow> res_bind (stoi x) (\<lambda>v. Inr (u3\<lparr>uri_port := v\<rparr>))) (\<lambda>u4.
       res_bind (uri_field urlStr UF_PATH parser) (\<lambda>f. let u5 = (case f of None \<Rightarrow> u4 | Some x \<Rightarrow> u4\<lparr>uri_path := x\<rparr>) in
       res_bind (uri_field urlStr UF_QUERY parser) (\<lambda>f. let u6 = (case f of None \<Rightarrow> u5 | Some x \<Rightarrow> u5\<lparr>uri_query := x\<rparr>) in
       res_bind (uri_field urlStr UF_FRAGMENT parser) (\<lambda>f. let u7 = (case f of None \<Rightarrow> u6 | Some x \<Rightarrow> u6\<lparr>uri_fragment := x\<rparr>) in
       Inr (Some u7))))))))))"

definition Uri_GetPort :: "Uri \<Rightarrow> int" where
  "Uri_GetPort u =
     (if uri_port u \<noteq> 0 then uri_port u
      else if uri_scheme u = ''http'' \<or> uri_scheme u = ''ws'' then 80
      else if uri_scheme u = ''https'' \<or> uri_scheme u = ''wss'' then 443
      else uri_port u)"

definition Uri_GetPath :: "Uri \<Rightarrow> string" where
  "Uri_GetPath u = (if uri_path u = [] then ''/'' else uri_path u)"

definition IsDefaultPort :: "Uri \<Rightarrow> bool" where
  "IsDefaultPort u =
     (if uri_scheme u = ''http'' \<or> uri_scheme u = ''ws'' then uri_port u = 80
      else if uri_scheme u = ''https'' then uri_port u = 443 else False)"

definition Uri_ToString :: "Uri \<Rightarrow> string" where
  "Uri_ToString u =
     uri_scheme u @ ''://'' @ uri_userInfo u @ (if uri_userInfo u = [] then [] else ''@'') @ uri_host u @
     (if IsDefaultPort u then [] else '':'' @ (if uri_port u < 0 then ''-'' else []) @ show_nat (nat \<bar>uri_port u\<bar>)) @ Uri_GetPath u @
     (if uri_query u = [] then [] else ''?'') @ uri_query u @ (if uri_fragment u = [] then [] else ''#'') @ uri_fragment u"

fun set_port :: "16 word \<Rightarrow> Address \<Rightarrow> Address" where
  "set_port v (IPv4 a) = IPv4 (IPv4_setPort v a)"
| "set_port v (IPv6 a) = IPv6 (IPv6_setPort v a)"
| "set_port v a = a"

definition CreateAddress ::
  "(string \<Rightarrow> string option \<Rightarrow> (nat \<times> IPv4Address \<times> IPv6Address) option list option) \<Rightarrow> Uri \<Rightarrow> Address option" where
  "CreateAddress getaddrinfo u = map_option (set_port (word_of_int (Uri_GetPort u))) (LookupAnyIPAddress getaddrinfo (uri_host u))"

section \<open>Printing and reading back\<close>

text \<open>A URL without a port.\<close>

lemma parse_url_plain:
  assumes "sch \<noteq> []" "list_all IS_ALPHA sch" "host \<noteq> []" "list_all IS_HOST_CHAR host" "list_all IS_URL_CHAR pt"
    and "buf = sch @ ''://'' @ host @ ''/'' @ pt" "length buf < 2 ^ 16"
  shows "\<exists>u'. http_parser_parse_url buf False u = Inr (0, u') \<and>
     field_text buf UF_SCHEMA u' = Some sch \<and> field_text buf UF_HOST u' = Some host \<and> field_text buf UF_PORT u' = None \<and>
     field_text buf UF_PATH u' = Some (''/'' @ pt) \<and> field_text buf UF_QUERY u' = None \<and> field_text buf UF_FRAGMENT u' = None \<and>
     field_text buf UF_USERINFO u' = None"
proof -
  let ?u = "u\<lparr>port := 0, field_set := 0\<rparr>"
  obtain a sch' h hs where c: "sch = a # sch'" "host = h # hs" using assms(1,3) by (auto simp: neq_Nil_conv)
  have "list_all (\<lambda>c. IS_HOST_CHAR c \<or> IS_NUM c \<or> c = CHR '':'') host" using assms(4) by (auto simp: list_all_iff)
  moreover have "fv ?u = Map.empty" by (simp add: fv_def has_field_def fun_eq_iff)
  ultimately obtain u1 where
    u1: "url_loop buf 0 s_req_spaces_before_url UF_MAX False ?u = Inr (Some False, u1)"
    and f1: "fv u1 = [UF_SCHEMA \<mapsto> (0, length sch), UF_HOST \<mapsto> (length sch + 3, length host), UF_PATH \<mapsto> (length sch + 3 + length host, 1 + length pt)]"
    using url_loop_printed[OF c(1) assms(2) c(2) _ assms(5), of ?u] assms(6,7) by auto
  have has: "has_field f u1 \<longleftrightarrow> fv u1 f \<noteq> None" for f by (simp add: fv_def)
  have h0: "f_off UF_HOST u1 = length sch + 3" "f_len UF_HOST u1 = length host"
    using f1 by (auto simp: fv_def fun_eq_iff dest!: spec[of _ UF_HOST] split: if_splits)
  have rd: "mem_read (length sch + 3) (length host) buf = Inr host" by (simp add: mem_read_def assms(6))
  let ?u1 = "set_len UF_HOST 0 u1" and ?p = "length sch + 3"
  have g: "fv ?u1 = (fv u1)(UF_HOST \<mapsto> (?p, 0))" by (rule fv_set_len0) (simp add: f1)
  let ?u0 = "inc_len UF_HOST (set_off UF_HOST ?p ?u1)"
  have f0: "fv ?u0 = (fv ?u1)(UF_HOST \<mapsto> (?p, 1))" using assms(6,7) g by (intro fv_move) simp_all
  have nb: "h \<noteq> CHR ''[''" using c(2) assms(4) by (auto simp: IS_HOST_CHAR_def IS_ALPHANUM_def IS_ALPHA_def IS_NUM_def LOWER_def)
  from host_run[of hs ?u0 ?p 1 "[]" "?p + 1"] f0 c(2) assms(4,6,7) obtain u2 where
    u2: "host_loop hs (?p + 1) s_http_host ?u0 = (Some s_http_host, u2)" "fv u2 = (fv ?u1)(UF_HOST \<mapsto> (?p, length host))" by auto
  have "host_loop host ?p s_http_host_start ?u1 = (Some s_http_host, u2)"
    using u2(1) nb c(2) assms(4) by (simp add: Let_def http_parse_host_char_def host_mark_def)
  then have hp: "http_parse_host buf u1 False = Inr (0, u2)"
    using rd h0 has[of UF_HOST] f1 by (simp add: http_parse_host_def f_off_def f_len_def bad_host_end_def Let_def)
  have f2: "fv u2 = (fv u1)(UF_HOST \<mapsto> (?p, length host))" using u2(2) by (simp add: g)
  then have "fv u2 UF_PORT = None" by (simp add: f1)
  then have "\<not> has_field UF_PORT u2" by (auto simp: fv_def split: if_splits)
  then have "http_parser_parse_url buf False u = Inr (0, u2)"
    using u1 hp has f1 c(1) by (simp add: http_parser_parse_url_def parse_port_def assms(6))
  then show ?thesis by (simp add: field_text_fv f2 f1 assms(6) numeral_eq_Suc)
qed

lemma uri_field_text:
  assumes "length buf < 2 ^ 16" "http_parser_parse_url buf False junk = Inr (0, u')"
  shows "uri_field buf f u' = Inr (field_text buf f u')"
proof -
  have "within UNIV (length buf) u'" using http_parser_parse_url_ok[OF assms(1), of False junk] assms(2) by auto
  then show ?thesis using withinD[of UNIV "length buf" u' f]
    by (auto simp: uri_field_def field_text_def mem_read_def f_off_def f_len_def)
qed

lemma stoi_show_nat: "n < 2 ^ 31 \<Longrightarrow> stoi (show_nat n) = Inr (int n)"
proof -
  have tw: "takeWhile IS_NUM (show_nat n) = show_nat n" using show_nat_digits[of n] by (simp add: takeWhile_eq_all_conv list_all_iff)
  have "show_nat n \<noteq> []" using show_nat_Cons[of n] by auto
  then show "n < 2 ^ 31 \<Longrightarrow> ?thesis" unfolding stoi_def tw Let_def by (simp add: decimal_show_nat)
qed

text \<open>A URI survives printing and reading if \<^verbatim>\<open>SetScheme\<close> stores the scheme: for a URI of letters as scheme, a host name, a port up to 65535 and an
  absolute path, without user information, query and fragment, the text of \<^verbatim>\<open>ToString\<close> is accepted by \<^verbatim>\<open>Create\<close> and
  gives the same URI back, the default port that is left out of the text included.\<close>

lemma uri_roundtrip:
  assumes "uri_scheme x \<noteq> []" "list_all IS_ALPHA (uri_scheme x)" "uri_host x \<noteq> []" "list_all IS_HOST_CHAR (uri_host x)"
    and "uri_path x = CHR ''/'' # pt" "list_all IS_URL_CHAR pt" "0 \<le> uri_port x" "uri_port x \<le> 65535"
    and "uri_userInfo x = []" "uri_query x = []" "uri_fragment x = []" "length (Uri_ToString x) < 2 ^ 16"
    and set_scheme: "\<And>v u. SetScheme v u = u\<lparr>uri_scheme := v\<rparr>"
  shows "Uri_Create SetScheme SetUserInfo junk (Uri_ToString x) = Inr (Some x)"
proof (cases "IsDefaultPort x")
  case True
  have t: "Uri_ToString x = uri_scheme x @ ''://'' @ uri_host x @ ''/'' @ pt" using assms(5,9-11) True by (simp add: Uri_ToString_def Uri_GetPath_def)
  from parse_url_plain[OF assms(1-4,6) t assms(12), of junk] obtain u' where
    p: "http_parser_parse_url (Uri_ToString x) False junk = Inr (0, u')" and
    f: "field_text (Uri_ToString x) UF_SCHEMA u' = Some (uri_scheme x)" "field_text (Uri_ToString x) UF_HOST u' = Some (uri_host x)"
      "field_text (Uri_ToString x) UF_PORT u' = None" "field_text (Uri_ToString x) UF_PATH u' = Some (''/'' @ pt)"
      "field_text (Uri_ToString x) UF_QUERY u' = None" "field_text (Uri_ToString x) UF_FRAGMENT u' = None" "field_text (Uri_ToString x) UF_USERINFO u' = None"
    by blast
  have "default_port (uri_scheme x) (Uri_ctor\<lparr>uri_scheme := uri_scheme x, uri_host := uri_host x\<rparr>) =
      Uri_ctor\<lparr>uri_scheme := uri_scheme x, uri_host := uri_host x, uri_port := uri_port x\<rparr>"
    using True by (auto simp: IsDefaultPort_def default_port_def split: if_splits)
  then show ?thesis using assms(5,9-11)
    by (simp add: Uri_Create_def p uri_field_text[OF assms(12) p] f Uri_ctor_def set_scheme)
next
  case False
  have t: "Uri_ToString x = uri_scheme x @ ''://'' @ uri_host x @ '':'' @ show_nat (nat (uri_port x)) @ ''/'' @ pt"
    using assms(5,7,9-11) False by (simp add: Uri_ToString_def Uri_GetPath_def)
  have n: "nat (uri_port x) \<le> 65535" using assms(8) by simp
  from parse_url_port[OF assms(1-4) n assms(6) t assms(12), of junk] obtain u' where
    p: "http_parser_parse_url (Uri_ToString x) False junk = Inr (0, u')" and
    f: "field_text (Uri_ToString x) UF_SCHEMA u' = Some (uri_scheme x)" "field_text (Uri_ToString x) UF_HOST u' = Some (uri_host x)"
      "field_text (Uri_ToString x) UF_PORT u' = Some (show_nat (nat (uri_port x)))" "field_text (Uri_ToString x) UF_PATH u' = Some (''/'' @ pt)"
      "field_text (Uri_ToString x) UF_QUERY u' = None" "field_text (Uri_ToString x) UF_FRAGMENT u' = None" "field_text (Uri_ToString x) UF_USERINFO u' = None"
    by blast
  have "stoi (show_nat (nat (uri_port x))) = Inr (uri_port x)" using stoi_show_nat[of "nat (uri_port x)"] n assms(7) by simp
  then show ?thesis using assms(5,9-11)
    by (simp add: Uri_Create_def p uri_field_text[OF assms(12) p] f Uri_ctor_def set_scheme)
qed

text \<open>A \<^verbatim>\<open>wss\<close> address without a port has port 443 by \<^verbatim>\<open>GetPort\<close> and prints with port 0.\<close>

lemma wss_prints_zero:
  assumes "uri_scheme u = ''wss''" "uri_port u = 0"
  shows "Uri_GetPort u = 443" "\<not> IsDefaultPort u" "default_port (uri_scheme u) u = u"
  using assms by (simp_all add: Uri_GetPort_def IsDefaultPort_def default_port_def)

end
