(* ===== verification/Spec2Isabelle.thy ===== *)
theory Spec2Isabelle
  imports HP_Safety TW_Main TW_Log TW_Thread TW_ServerStop TW_Uri
begin

text \<open>
  \<^bold>\<open>TinyWebserver\<close>: a web server in C++ on fibers, a scheduler and epoll, with a bundled copy of the C library
  http-parser. This theory collects the development and composes its parts into a statement about a whole
  request; every other theory models one part of the program under \<^verbatim>\<open>src/\<close>.

  \<^bold>\<open>How the parts work together.\<close> \<^verbatim>\<open>main\<close> reads the configuration and schedules \<^verbatim>\<open>run\<close> on an IO manager; \<^verbatim>\<open>run\<close> binds an HTTP
  server to the configured address, again until it succeeds, and starts it. The accept task accepts sockets, opens
  an \<^verbatim>\<open>HttpConn\<close> for each and schedules a task for the client on a worker. That task reads from the socket
  into a buffer, parses the request, checks a login against the database, builds the response from the file
  system and writes it with gathering writes. Workers are fibers run by the scheduler; the IO manager
  extends it by events of descriptors and by timers. Logging and configuration are used by all parts.

  \<^bold>\<open>The theories.\<close>
  \<^item> \<^verbatim>\<open>TW_Prelude\<close>: failures as values (\<open>cxx_error\<close>, \<open>res\<close>), 64-bit sizes with their wrap-around, byte arrays, C strings, decimal
    numbers; the collections \<open>size_simps\<close> and \<open>mem_simps\<close>. \<^verbatim>\<open>TW_Std\<close>: the ordered set of the standard library as the locale \<open>std_set\<close>, and the singletons
    of \<^verbatim>\<open>include/base/singleton.h\<close>.
  \<^item> \<^verbatim>\<open>TW_Buffer\<close> (\<^verbatim>\<open>src/base/buffer.cpp\<close>): the growable buffer. The locale \<open>byte_queue\<close> is its abstract specification,
    a first-in first-out queue of bytes, and is interpreted on the class's operations. Shown: any sequence of appends, partial and
    whole retrievals leaves in the buffer what the queue holds.
  \<^item> \<^verbatim>\<open>TW_HttpRequest\<close>, \<^verbatim>\<open>TW_HttpResponse\<close>, \<^verbatim>\<open>TW_HttpConn\<close> (\<^verbatim>\<open>src/http/\<close>): the request state machine with form decoding and user
    verification; the response with its headers, error pages and mapped file; the connection with its read, process and
    write loops. Shown: a printed request is parsed into its parts, the response is framed by its content length and
    serves readable files only, mappings are released, and reading and writing lose, duplicate and reorder nothing.
  \<^item> \<^verbatim>\<open>HP_Types\<close>, \<^verbatim>\<open>HP_Url\<close>, \<^verbatim>\<open>HP_Execute\<close>, \<^verbatim>\<open>HP_Safety\<close> (\<^verbatim>\<open>src/http/http-parser/http_parser.c\<close>): the tables, the URL splitter, and
    \<^verbatim>\<open>http_parser_execute\<close> with one function per state and explicit callbacks. A read of the
    input is checked (\<open>byte_at\<close>), and so is the range given to a data callback. Shown: no assertion and no check fails, lengths are computed
    exactly, the parser always makes progress, fields of a URL lie in it.
  \<^item> \<^verbatim>\<open>TW_Timer\<close> (\<^verbatim>\<open>src/base/timer.cpp\<close>), \<^verbatim>\<open>TW_Mutex\<close> (\<^verbatim>\<open>include/base/mutex.h\<close>), \<^verbatim>\<open>TW_Thread\<close> (\<^verbatim>\<open>src/base/thread.cpp\<close>): timers in an ordered set that refine a
    collection of deadlines; locks, whose contract is the locales \<open>lockable\<close> and \<open>exclusive_lock\<close>, with their scoped guards,
    while other threads take and release the same lock in any of its modes (readers and writers mixed);
    threads and the handshake between constructor and thread as interleaved steps.
  \<^item> \<^verbatim>\<open>TW_Fiber\<close>, \<^verbatim>\<open>TW_Scheduler\<close>, \<^verbatim>\<open>TW_IOManager\<close> (\<^verbatim>\<open>src/coroutine/\<close>): context switches between fibers of a thread, both
    of a worker thread, whose scheduler runs in its main fiber, and of the caller's thread, where it runs in the root fiber; the task queue
    and its workers as a step relation in which tasks are conserved, run in order and drained before the workers
    exit; the table of events, which agrees with the kernel's interest list and the counter of pending events.
  \<^item> \<^verbatim>\<open>TW_ConnectionPool\<close> (\<^verbatim>\<open>src/db/\<close>): the pool of database connections, bounded and exclusive; its counter is an \<^verbatim>\<open>int\<close> with its wrap-around.
  \<^item> \<^verbatim>\<open>TW_Config\<close>, \<^verbatim>\<open>TW_LexicalCast\<close> (\<^verbatim>\<open>config.h\<close>, \<^verbatim>\<open>config.cpp\<close>), \<^verbatim>\<open>TW_LogFormat\<close>, \<^verbatim>\<open>TW_Log\<close> (\<^verbatim>\<open>log.h\<close>, \<^verbatim>\<open>log.cpp\<close>), \<^verbatim>\<open>TW_Util\<close> (\<^verbatim>\<open>util.cpp\<close>): configuration variables
    with listeners, which keep their types whatever is registered, set or loaded, and which a document sets to the texts under their dotted
    names (\<open>document_texts\<close>); equality of a type's values (\<^verbatim>\<open>operator==\<close>) is a parameter; their conversions from and to YAML, with the formatted input of
    numbers; log levels as a linear order, log patterns, appenders, loggers and their configuration; the clock and the directory functions over
    an explicit file tree.
  \<^item> \<^verbatim>\<open>TW_Address\<close>, \<^verbatim>\<open>TW_Socket\<close> (\<^verbatim>\<open>address.cpp\<close>, \<^verbatim>\<open>fd_manager.cpp\<close>, \<^verbatim>\<open>socket.cpp\<close>), \<^verbatim>\<open>TW_Server\<close> (\<^verbatim>\<open>tcp_server.cpp\<close>, \<^verbatim>\<open>http_server.cpp\<close>),
    \<^verbatim>\<open>TW_ServerStop\<close>, \<^verbatim>\<open>TW_Startup\<close>, \<^verbatim>\<open>TW_Main\<close> (\<^verbatim>\<open>main.cpp\<close>): addresses and their text, descriptor contexts, sockets and the descriptors they own,
    binding, accepting, handling a client, stopping, and the start of the program: the variables of all translation units with
    the pointers their initialisers get, \<^verbatim>\<open>logs\<close> and its listener among them, the configuration directory, the manager, \<^verbatim>\<open>run\<close> and the pool with the configured values. The locale \<open>event_source\<close> of \<^verbatim>\<open>TW_ServerStop\<close> is what stopping
    relies on of the IO manager and is interpreted on \<^verbatim>\<open>cancelAll\<close>.
  \<^item> \<^verbatim>\<open>TW_Uri\<close> (\<^verbatim>\<open>docs/images/uri.cpp\<close>): URIs over the URL splitter. The setters of scheme and user information that \<^verbatim>\<open>Uri::Create\<close> calls are
    declared nowhere in the sources and are parameters.
  \<^item> This theory: a worker serves a request (\<open>request_served\<close>), and the program, from \<^verbatim>\<open>run\<close> over the accept task, answers its
    first client (\<open>first_client_served\<close>).

  \<^bold>\<open>State and effects.\<close> Objects are records with the fields of the class; objects that are shared live in a store under an
  address. An operation takes and returns the state; exceptions, failed assertions, accesses outside an
  array and undefined behaviour are values of \<open>cxx_error\<close>. Where threads interleave, an operation is cut where another
  thread can see the difference and the cuts are the rules of an inductive relation (\<open>sched_step\<close>, \<open>thread_reach\<close>, \<open>guard_run\<close>, \<open>pool_reach\<close>,
  \<open>iom_reach\<close>). In \<open>iom_reach\<close> growing the table and registering an event are separate steps; the runs are those in which no resize makes the
  table smaller, which two threads can bring about and which loses events (\<open>contextResize_race\<close>). \<open>fm_reach\<close> takes a call of \<^verbatim>\<open>get\<close> or
  \<^verbatim>\<open>del\<close> as one step; two calls of \<^verbatim>\<open>get\<close> that interleave at the release of the read lock can return different contexts (\<open>get_race\<close>). The kernel, the database, the file system of the response, the YAML and \<^verbatim>\<open>strftime\<close> functions, \<^verbatim>\<open>getaddrinfo\<close> and
  the callbacks of the parser are parameters; what is relied on is a named hypothesis (\<open>writer_ok\<close>, \<open>epoll_ok\<close>, \<open>fresh_fds\<close>, \<open>mmap_exact\<close>).

  \<^bold>\<open>Loops, fuel and bounds.\<close> \<open>exec_loop\<close> of the parser has the fuel \<open>exec_fuel\<close>, six steps for each byte and the end of the input, which
  \<open>execute_safe\<close> shows to be enough. The read and write loops of a connection carry fuel; more than the number of bytes in the
  stream, or pending, is enough, and sizes above \<open>2 ^ 31\<close> are excluded by the type \<^verbatim>\<open>int\<close> of the code. The
  retry loop of \<^verbatim>\<open>run\<close> may go on for ever and is a partial function; \<open>configured_server\<close> shows when it ends. All other loops are
  structural recursions or have a termination proof. Lengths of URLs are below \<open>2 ^ 16\<close>, as the fields of the parser are.

  \<^bold>\<open>Not modelled.\<close> Machine contexts and stacks of fibers below the level of switching; time (the clock is an argument);
  the output of the log statements inside other parts; the wait of \<^verbatim>\<open>main\<close> in the destructor of the manager; the
  non-copyable base class, which has no behaviour of its own; \<^verbatim>\<open>Uri::Dump\<close>, which has no
  body; the tests and the pages. The configuration files are inputs; \<^verbatim>\<open>config/server.yml\<close> is the witness of \<open>configured_server\<close>. The headers are
  covered less than the sources because most of their lines are declarations and comments.
\<close>

section \<open>A request through the whole server\<close>

text \<open>A kernel for one connection: what the peer has sent and what it has received.\<close>

definition pipe_reader :: "(string \<times> string) reader" where
  "pipe_reader s n = (IoOk (take n (fst s)), (drop n (fst s), snd s))"

definition pipe_writer :: "(string \<times> string) writer" where
  "pipe_writer s bs = (IoOk (min 3 (length bs)), (fst s, snd s @ take 3 bs))"

lemma pipe_writer_ok: "writer_ok pipe_writer snd" "eager pipe_writer"
  by (auto simp: writer_ok_def eager_def pipe_writer_def min_def)

abbreviation (input) demo_request :: string where
  "demo_request \<equiv> print_request ''GET'' ''/nofile'' ''1.1'' [(''Connection'', ''close'')] []"

abbreviation (input) demo_parsed :: HttpRequest where
  "demo_parsed \<equiv> (request_head ''GET'' ''/nofile'' ''1.1'' [(''Connection'', ''close'')])\<lparr>rq_state := FINISH\<rparr>"

abbreviation (input) demo_junk :: "nat \<times> iovec \<times> iovec" where
  "demo_junk \<equiv> (0, \<lparr>iov_base = Wild, iov_len = 0\<rparr>, \<lparr>iov_base = Wild, iov_len = 0\<rparr>)"

lemma busy_statics: "statics (busy_server u) = \<lparr>isET = False, srcDir = ''/srv'', userCount = 0, closed_fds = []\<rparr>"
  by (simp add: busy_server_def demo_server_def HttpServer_ctor_def)

text \<open>One task of a worker.\<close>

lemma serve_request:
  assumes "ready_client sv p ps cl u" "idle_out u"
    and "stream s = print_request m path v hs []" "wf_field m" "wf_field path" "wf_field v" "list_all wf_header hs"
    and "\<And>n. length (stream s) \<le> n \<Longrightarrow> fst (readv s n) = IoOk (stream s)" "\<And>n. sent (snd (readv s n)) = sent s"
    and "length (stream s) \<le> stack_buf_size" "length (buffer (cn_readBuff u)) + stack_buf_size + 1 < vec_max"
    and "srcDir (statics sv) \<noteq> []" "mmap_exact fs" "writer_ok writev sent"
    and "rq = (request_head m path v hs)\<lparr>rq_state := FINISH\<rparr>" "rs = fresh_rs (statics sv) True rq" "body = mapped_bytes (content_rs (served fs (final_rs fs rs)) (final_rs fs rs))"
    and "length (response_text fs rs) < room (cn_writeBuff u)" "length (response_text fs rs) + length body < 2 ^ 31"
  shows "\<exists>sv' s' u'. client_task junk api fs readv writev (2 ^ 31) sv d s = Some (Inr (sv', d, s')) \<and>
     users sv' (m_sock cl) = Some u' \<and> sent s' @ pending u' = sent s @ response_text fs rs @ body \<and> (eager writev \<longrightarrow> pending u' = []) \<and>
     net_closes (sv_net sv') = net_closes (sv_net sv) @ [m_sock cl] \<and> io_tasks sv' = ps \<and> statics sv' = statics sv"
proof -
  have r: "io_tasks sv = p # ps" "socks sv p = Some cl" "isValid cl" "users sv (m_sock cl) = Some u"
    "buf_inv (cn_readBuff u)" "content (cn_readBuff u) = []" "\<not> isET (statics sv)" using assms(1) by (auto simp: ready_client_def)
  have fuel: "(2 :: nat) ^ 31 = Suc (2 ^ 31 - 1)" by simp
  obtain b n where rd: "HttpConn_read readv (statics sv) (2 ^ 31) u 0 s = Some (Inr (int (length (stream s)), 0, u\<lparr>cn_readBuff := b\<rparr>, snd (readv s n)))"
      and b: "buf_inv b" "content b = stream s"
    using read_whole[of u "statics sv" "stream s" readv s "2 ^ 31 - 1" 0] r(5-7) assms(8,10,11) unfolding fuel[symmetric] by blast
  let ?u = "u\<lparr>cn_readBuff := b\<rparr>" and ?s = "snd (readv s n)"
  have ne: "stream s \<noteq> []" using assms(3) by (simp add: print_request_def)
  obtain b' where pr: "parse api Request_Init (cn_readBuff ?u) d = Inr (True, rq, b', d)"
    using parse_printed[OF b(1) b(2)[unfolded assms(3)] assms(4-7), of api d] assms(15) by auto
  have "ReadableBytes b = length (stream s)" using length_content[OF b(1)] b(2) by simp
  then have readable: "ReadableBytes (cn_readBuff ?u) \<noteq> 0" using ne by simp
  have idle: "idle_out ?u" using assms(2) by (simp add: idle_out_def)
  obtain u2 o2 where p: "process api fs (statics sv) ?u d (sv_os sv) = Inr (True, u2, d, o2)" "out_inv u2" "pending u2 = response_text fs rs @ body"
    using process_ok[OF pr readable assms(12,13) idle, of "sv_os sv"] assms(16-19) by auto
  have "length (pending u2) < 2 ^ 31" using p(3) assms(19) by simp
  from write_loop_conserves[OF assms(14) p(2) this, of ?s] obtain len u3 s3 k where
    w: "HttpConn_write writev (2 ^ 31) u2 ?s = Some (Inr (len, u3, s3))" "sent s3 = sent ?s @ take k (pending u2)"
      "pending u3 = drop k (pending u2)" "len > 0 \<longrightarrow> pending u3 = []" unfolding HttpConn_write_def by blast
  have "response_text fs rs \<noteq> []" by (simp add: response_text_def response_pieces_def Let_def status_line_def)
  then have eager: "eager writev \<longrightarrow> pending u3 = []"
    using write_loop_eager[OF assms(14) _ p(2), of "2 ^ 31" ?s len u3 s3] w(1,4) p(3) by (auto simp: HttpConn_write_def)
  let ?sv = "sv\<lparr>users := (users sv)(m_sock cl \<mapsto> u3), sv_os := o2\<rparr>"
  have "int (length (stream s)) > 0" using ne by simp
  then have "handleClient junk api fs readv writev (2 ^ 31) p sv d s = Some (Inr (?sv, d, s3))"
    using r(2-4) rd p(1) w(1) by (simp add: handleClient_def user_at_def)
  then have "client_task junk api fs readv writev (2 ^ 31) sv d s = Some (Inr (release p (?sv\<lparr>io_tasks := ps\<rparr>), d, s3))"
    using r(1) by (simp add: client_task_def)
  moreover have "sent s3 @ pending u3 = sent s @ pending u2" using w(2,3) assms(9) by simp
  moreover from this have "sent s3 @ pending u3 = sent s @ response_text fs rs @ body" unfolding p(3) .
  ultimately show ?thesis using release_client[OF assms(1), of ?sv] r(2) eager
    by (intro exI[of _ "release p (?sv\<lparr>io_tasks := ps\<rparr>)"] exI[of _ s3] exI[of _ u3]) simp
qed

text \<open>C1: the server answers a request: when the worker runs the task of a client whose connection is idle and the
  kernel delivers a printed request in one piece, the task ends; what was sent, followed by what is still
  pending, is the response to exactly that request: head, inline body and mapped file; nothing is
  pending when the kernel always takes something; the descriptor of the client is closed once, and the next task is up.
  The connection stays marked open and counted.\<close>

theorem request_served:
  assumes "ready_client sv p ps cl u" "idle_out u"
    and "stream s = print_request m path v hs []" "wf_field m" "wf_field path" "wf_field v" "list_all wf_header hs"
    and "\<And>n. length (stream s) \<le> n \<Longrightarrow> fst (readv s n) = IoOk (stream s)" "\<And>n. sent (snd (readv s n)) = sent s"
    and "length (stream s) \<le> stack_buf_size" "length (buffer (cn_readBuff u)) + stack_buf_size + 1 < vec_max"
    and "srcDir (statics sv) \<noteq> []" "mmap_exact fs" "writer_ok writev sent"
    and "rq = (request_head m path v hs)\<lparr>rq_state := FINISH\<rparr>" "rs = fresh_rs (statics sv) True rq" "body = mapped_bytes (content_rs (served fs (final_rs fs rs)) (final_rs fs rs))"
    and "length (response_text fs rs) < room (cn_writeBuff u)" "length (response_text fs rs) + length body < 2 ^ 31"
  shows "\<exists>sv' s' u'. client_task junk api fs readv writev (2 ^ 31) sv d s = Some (Inr (sv', d, s')) \<and>
     users sv' (m_sock cl) = Some u' \<and> sent s' @ pending u' = sent s @ response_text fs rs @ body \<and> (eager writev \<longrightarrow> pending u' = []) \<and>
     net_closes (sv_net sv') = net_closes (sv_net sv) @ [m_sock cl] \<and> io_tasks sv' = ps \<and> statics sv' = statics sv"
  using assms by (rule serve_request)

theorem request_served_witness:
  "\<exists>sv' s' u'. client_task demo_junk (one_user (''u'', ''p'')) demo_fs pipe_reader pipe_writer (2 ^ 31) (busy_server quiet_conn) () (demo_request, []) =
       Some (Inr (sv', (), s')) \<and> users sv' (m_sock demo_client) = Some u' \<and>
     snd s' @ pending u' = snd (demo_request, []) @ response_text demo_fs (fresh_rs (statics (busy_server quiet_conn)) True demo_parsed) @ [] \<and>
     (eager pipe_writer \<longrightarrow> pending u' = []) \<and>
     net_closes (sv_net sv') = net_closes (sv_net (busy_server quiet_conn)) @ [m_sock demo_client] \<and> io_tasks sv' = [] \<and>
     statics sv' = statics (busy_server quiet_conn)"
proof (rule request_served[OF busy_server_ready[OF quiet_conn_ok(1-4)] quiet_conn_ok(5), where stream = fst, OF _ _ _ _ _ _ _ _ _ _ _ pipe_writer_ok(1) refl refl])
  let ?rs = "fresh_rs (statics (busy_server quiet_conn)) True demo_parsed"
  have len: "length (response_text demo_fs ?rs) = 217" unfolding busy_statics by code_simp
  have body: "mapped_bytes (content_rs (served demo_fs (final_rs demo_fs ?rs)) (final_rs demo_fs ?rs)) = []" unfolding busy_statics by code_simp
  show "[] = mapped_bytes (content_rs (served demo_fs (final_rs demo_fs ?rs)) (final_rs demo_fs ?rs))" using body by simp
  show "length (response_text demo_fs ?rs) < room (cn_writeBuff quiet_conn)"
    unfolding len by (simp add: quiet_conn_def idle_conn_def buffer_of_def room_def vec_max_def)
  show "length (response_text demo_fs ?rs) + length ([] :: string) < 2 ^ 31" unfolding len by simp
qed (simp_all add: wf_field_def wf_header_def pipe_reader_def print_request_def print_headers_def stack_buf_size_def quiet_conn_ok(6) vec_max_def
  busy_statics mmap_exact_def demo_fs_def)


section \<open>From the start of the program to the first response\<close>

text \<open>Emptying a buffer keeps its size and gives it all its room.\<close>

lemma RetrieveAll_room: "length (buffer (RetrieveAll b)) = length (buffer b)" "room (RetrieveAll b) = vec_max - 1"
  by (simp_all add: RetrieveAll_def room_def)

text \<open>C2: the program answers its first client: when the configured address is valid and the kernel accepts it at some attempt, \<^verbatim>\<open>run\<close> ends with the
  server listening; when then a client connects, whatever descriptor it gets, the round of the accept task opens a connection for it, counts it
  and schedules a task; and that task, when the kernel delivers a printed request in one piece, ends with the response to that request from the
  configured directory sent or still pending, with nothing pending when the kernel always takes something, and with the descriptor of the
  client closed and nothing else. The memory of the new connection is assumed to hold no length in the second entry of \<^verbatim>\<open>iov_\<close>, which the
  constructor leaves open.\<close>

theorem first_client_served:
  assumes "\<And>n. fresh_fds (k n)" "finite (net_open w)" "fm_reach (fd_mgr w)"
    and "IPv4Address_Create inet_pton ip (word_of_int prt) = Some addr" "accepts (k N) (IPv4 addr)" "resources \<noteq> []"
    and "\<And>l. sys_accept y l = cfd" "0 < cfd" "cfd < 2 ^ 30" "iov_len v1 = 0"
    and "stream s = print_request m path v hs []" "wf_field m" "wf_field path" "wf_field v" "list_all wf_header hs" "length (stream s) \<le> stack_buf_size"
    and "\<And>n. length (stream s) \<le> n \<Longrightarrow> fst (readv s n) = IoOk (stream s)" "\<And>n. sent (snd (readv s n)) = sent s" "writer_ok writev sent" "mmap_exact fs"
    and "rq = (request_head m path v hs)\<lparr>rq_state := FINISH\<rparr>"
    and "rs = fresh_rs \<lparr>isET = False, srcDir = resources, userCount = 1, closed_fds = []\<rparr> True rq"
    and "body = mapped_bytes (content_rs (served fs (final_rs fs rs)) (final_rs fs rs))" "length (response_text fs rs) + length body < 2 ^ 31"
  shows "\<exists>sv0 p sv1 sv2 s' u'. main_run inet_pton k ip prt timeout resources w o' = Some (Some sv0) \<and> accept_tasks sv0 = [StartAccept p] \<and>
     accept_round raw (cnt, v0, v1) y p sv0 = Inr (False, sv1) \<and> client_task junk api fs readv writev (2 ^ 31) sv1 d s = Some (Inr (sv2, d, s')) \<and>
     users sv2 cfd = Some u' \<and> sent s' @ pending u' = sent s @ response_text fs rs @ body \<and> (eager writev \<longrightarrow> pending u' = []) \<and>
     net_closes (sv_net sv2) = net_closes (sv_net sv0) @ [cfd] \<and> io_tasks sv2 = [] \<and> userCount (statics sv2) = 1"
proof -
  obtain sv p l where sv: "main_run inet_pton k ip prt timeout resources w o' = Some (Some sv)" "m_socks sv = [p]" "bound (net_open w) sv"
      "accept_tasks sv = [StartAccept p]" "\<not> m_isStop sv" "socks sv p = Some l" "statics sv = \<lparr>isET = False, srcDir = resources, userCount = 0, closed_fds = []\<rparr>"
      "users sv = Map.empty" "io_tasks sv = []" "fd_mgr (sv_net sv) = fd_mgr w"
    using run_listens[where k = k and N = N and addr = addr and timeout = timeout and resources = resources and o' = o', OF assms(1,2,4,5)] by blast
  obtain u0 where u0: "user_at (cnt, v0, v1) cfd sv = Inr u0" "buf_inv (cn_readBuff u0)" "buf_inv (cn_writeBuff u0)" "cn_iov1 u0 = v1" "length (buffer (cn_readBuff u0)) = 1024"
    using user_at_new[of sv cfd cnt v0 v1] sv(8) by auto
  have q: "next_sock sv \<notin> set (m_socks sv)" "StartAccept (next_sock sv) \<notin> set (accept_tasks sv)" using sv(2-4) by (auto simp: bound_def)
  obtain sv1 cl u where ac: "accept_round raw (cnt, v0, v1) y p sv = Inr (False, sv1)" "ready_client sv1 (next_sock sv) [] cl u" "idle_out u"
      "m_sock cl = cfd" "cn_readBuff u = RetrieveAll (cn_readBuff u0)" "cn_writeBuff u = RetrieveAll (cn_writeBuff u0)"
      "statics sv1 = \<lparr>isET = False, srcDir = resources, userCount = 1, closed_fds = []\<rparr>" "net_closes (sv_net sv1) = net_closes (sv_net sv)"
    using accept_round_ready[OF sv(5,6), of y "(cnt, v0, v1)" u0 raw] assms(3,7-10) u0 q sv(7,9,10) by auto
  have "length (buffer (cn_readBuff u)) + stack_buf_size + 1 < vec_max" using u0(5) by (simp add: ac(5) RetrieveAll_room stack_buf_size_def vec_max_def)
  moreover have "length (response_text fs rs) < room (cn_writeBuff u)" using assms(24) by (simp add: ac(6) RetrieveAll_room vec_max_def)
  moreover have "srcDir (statics sv1) \<noteq> []" "rs = fresh_rs (statics sv1) True rq" using assms(6,22) by (simp_all add: ac(7))
  ultimately obtain sv2 s' u' where "client_task junk api fs readv writev (2 ^ 31) sv1 d s = Some (Inr (sv2, d, s'))" "users sv2 (m_sock cl) = Some u'"
      "sent s' @ pending u' = sent s @ response_text fs rs @ body" "eager writev \<longrightarrow> pending u' = []"
      "net_closes (sv_net sv2) = net_closes (sv_net sv1) @ [m_sock cl]" "io_tasks sv2 = []" "statics sv2 = statics sv1"
    using serve_request[where readv = readv and writev = writev and stream = stream and sent = sent and junk = junk and api = api and d = d,
        OF ac(2,3) assms(11-15,17,18,16) _ _ assms(20,19,21) _ assms(23) _ assms(24)] by blast
  with sv(1,4) ac show ?thesis by (intro exI[of _ sv] exI[of _ p] exI[of _ sv1] exI[of _ sv2] exI[of _ s'] exI[of _ u']) simp
qed

abbreviation (input) first_rs :: HttpResponse where
  "first_rs \<equiv> fresh_rs \<lparr>isET = False, srcDir = ''/srv'', userCount = 1, closed_fds = []\<rparr> True demo_parsed"

theorem first_client_served_witness:
  "\<exists>sv0 p sv1 sv2 s' u'. main_run (\<lambda>_. Some 0) stubborn_kernel ''0.0.0.0'' 8000 120000 ''/srv'' demo_net \<lparr>os_fds = 0, os_mapped = 0\<rparr> = Some (Some sv0) \<and>
     accept_tasks sv0 = [StartAccept p] \<and> accept_round (\<lambda>_. \<lparr>sin_port = 0, sin_addr = 0\<rparr>) demo_junk demo_sys p sv0 = Inr (False, sv1) \<and>
     client_task demo_junk (one_user (''u'', ''p'')) demo_fs pipe_reader pipe_writer (2 ^ 31) sv1 () (demo_request, []) = Some (Inr (sv2, (), s')) \<and>
     users sv2 6 = Some u' \<and> snd s' @ pending u' = snd (demo_request, []) @ response_text demo_fs first_rs @ [] \<and>
     pending u' = [] \<and>
     net_closes (sv_net sv2) = net_closes (sv_net sv0) @ [6] \<and> io_tasks sv2 = [] \<and> userCount (statics sv2) = 1"
proof -
  obtain addr where a: "IPv4Address_Create (\<lambda>_. Some 0) ''0.0.0.0'' (word_of_int 8000) = Some addr" by (simp add: IPv4Address_Create_def Let_def)
  have len: "length (response_text demo_fs first_rs) = 217" by code_simp
  have body: "[] = mapped_bytes (content_rs (served demo_fs (final_rs demo_fs first_rs)) (final_rs demo_fs first_rs))" by code_simp
  have fits: "length (response_text demo_fs first_rs) + length ([] :: string) < 2 ^ 31" using len by simp
  have mm: "mmap_exact demo_fs" by (simp add: mmap_exact_def demo_fs_def)
  have fm: "fm_reach (fd_mgr demo_net)" by (simp add: demo_net_def fm_reach.new)
  have "\<exists>sv0 p sv1 sv2 s' u'. main_run (\<lambda>_. Some 0) stubborn_kernel ''0.0.0.0'' 8000 120000 ''/srv'' demo_net \<lparr>os_fds = 0, os_mapped = 0\<rparr> = Some (Some sv0) \<and>
     accept_tasks sv0 = [StartAccept p] \<and> accept_round (\<lambda>_. \<lparr>sin_port = 0, sin_addr = 0\<rparr>) demo_junk demo_sys p sv0 = Inr (False, sv1) \<and>
     client_task demo_junk (one_user (''u'', ''p'')) demo_fs pipe_reader pipe_writer (2 ^ 31) sv1 () (demo_request, []) = Some (Inr (sv2, (), s')) \<and>
     users sv2 6 = Some u' \<and> snd s' @ pending u' = snd (demo_request, []) @ response_text demo_fs first_rs @ [] \<and>
     (eager pipe_writer \<longrightarrow> pending u' = []) \<and>
     net_closes (sv_net sv2) = net_closes (sv_net sv0) @ [6] \<and> io_tasks sv2 = [] \<and> userCount (statics sv2) = 1"
    by (rule first_client_served[where k = stubborn_kernel and N = 2 and stream = fst and v = "''1.1''" and m = "''GET''" and path = "''/nofile''" and rs = first_rs and rq = demo_parsed
            and s = "(demo_request, [])" and hs = "[(''Connection'', ''close'')]",
          OF stubborn_kernel_ok(1) _ fm a stubborn_kernel_ok(2) _ _ _ _ _ _ _ _ _ _ _ _ _ pipe_writer_ok(1) mm refl refl body fits])
      (simp_all add: demo_net_def demo_sys_def wf_field_def wf_header_def pipe_reader_def print_request_def print_headers_def stack_buf_size_def)
  then show ?thesis using pipe_writer_ok(2) by simp
qed

end
